(* ===== verification/Prelude.thy ===== *)
theory Prelude
  imports Main "HOL-Library.Char_ord" "HOL-Library.List_Lexorder"
begin

text \<open>
  Shared ground of the development: the types Go values are modelled by, the
  collections of facts the component proofs use, and generic lemmas on lists
  that several components need.

  A Go \<open>string\<close> or \<open>[]byte\<close> is a list of bytes, and HOL's \<open>char\<close> has exactly 256
  values, so both are \<open>char list\<close> here: \<open>length\<close> is Go's \<open>len\<close>, and the order of
  \<open>HOL-Library.List_Lexorder\<close> over \<open>HOL-Library.Char_ord\<close> is Go's byte order on
  strings. A Go pointer that is only read as "absent or a value" is an \<open>option\<close>.
\<close>

type_synonym bytes = "char list"

text \<open>
  Facts about the operations of Go's library (\<open>go_simps\<close>), about operations that
  return errors (\<open>result_simps\<close>), and introduction rules for well-formedness
  invariants (\<open>wf_intros\<close>).
\<close>

named_theorems go_simps \<open>rewrite rules for the Go library operations\<close>
named_theorems result_simps \<open>rewrite rules for operations that return an error or a value\<close>
named_theorems wf_intros \<open>introduction rules for well-formedness invariants\<close>

text \<open>
  A Go function that may panic: the panic is a value, so a caller that does not
  recover passes it on.
\<close>

datatype 'a outcome = Panic | Ret 'a

fun outcome_bind :: "'a outcome \<Rightarrow> ('a \<Rightarrow> 'b outcome) \<Rightarrow> 'b outcome" where
  "outcome_bind Panic f = Panic"
| "outcome_bind (Ret x) f = f x"

lemma outcome_bind_Ret_iff [result_simps]:
  "outcome_bind m f = Ret y \<longleftrightarrow> (\<exists>x. m = Ret x \<and> f x = Ret y)"
  by (cases m) auto

lemma outcome_bind_Panic_iff [result_simps]:
  "outcome_bind m f = Panic \<longleftrightarrow> m = Panic \<or> (\<exists>x. m = Ret x \<and> f x = Panic)"
  by (cases m) auto

lemma outcome_not_Panic_iff: "m \<noteq> Panic \<longleftrightarrow> (\<exists>x. m = Ret x)"
  by (cases m) auto

text \<open>A function that returns a value or an error; the first error ends the sequence.\<close>

fun sum_bind :: "'e + 'a \<Rightarrow> ('a \<Rightarrow> 'e + 'b) \<Rightarrow> 'e + 'b" where
  "sum_bind (Inl e) f = Inl e"
| "sum_bind (Inr x) f = f x"

lemma sum_bind_Inr_iff [result_simps]:
  "sum_bind m f = Inr y \<longleftrightarrow> (\<exists>x. m = Inr x \<and> f x = Inr y)"
  by (cases m) auto

lemma sum_bind_Inl_iff [result_simps]:
  "sum_bind m f = Inl e \<longleftrightarrow> m = Inl e \<or> (\<exists>x. m = Inr x \<and> f x = Inl e)"
  by (cases m) auto

subsection \<open>Lists\<close>

lemma takeWhile_append_stop:
  "(\<forall>x \<in> set xs. P x) \<Longrightarrow> ys = [] \<or> \<not> P (hd ys) \<Longrightarrow> takeWhile P (xs @ ys) = xs"
  by (induction xs) (auto simp: takeWhile_eq_Nil_iff neq_Nil_conv)

lemma dropWhile_append_stop:
  "(\<forall>x \<in> set xs. P x) \<Longrightarrow> ys = [] \<or> \<not> P (hd ys) \<Longrightarrow> dropWhile P (xs @ ys) = ys"
  by (induction xs) (auto simp: dropWhile_eq_self_iff neq_Nil_conv)

lemma length_dropWhile_less:
  "xs \<noteq> [] \<Longrightarrow> P (hd xs) \<Longrightarrow> length (dropWhile P xs) < length xs"
  by (cases xs) (auto simp: le_imp_less_Suc length_dropWhile_le)

lemma set_takeWhile_all: "x \<in> set (takeWhile P xs) \<Longrightarrow> P x"
  by (blast dest: set_takeWhileD)

lemma takeWhile_nonempty: "xs \<noteq> [] \<Longrightarrow> P (hd xs) \<Longrightarrow> takeWhile P xs \<noteq> []"
  by (cases xs) auto

end
