(* ===== verification/Go_Strings.thy ===== *)
theory Go_Strings
  imports Prelude
begin

text \<open>
  What the source uses of Go's packages \<open>strings\<close>, \<open>bytes\<close>, \<open>unicode/utf8\<close> and
  \<open>strconv\<close>, on byte lists. These definitions translate no file of the
  repository: they state the standard library's documented behaviour, so that the
  theories about the repository's own functions can be computed.

  The one thing left open is the table behind \<open>unicode.ToLower\<close> for code points
  above 127: it is data of the Unicode consortium, and an argument \<open>ul\<close> of every
  definition that lowers text.
\<close>

subsection \<open>Bytes\<close>

abbreviation SP :: char where "SP \<equiv> CHR 0x20"
abbreviation TAB :: char where "TAB \<equiv> CHR 0x09"
abbreviation LF :: char where "LF \<equiv> CHR 0x0A"
abbreviation CR :: char where "CR \<equiv> CHR 0x0D"
abbreviation QUOTE :: char where "QUOTE \<equiv> CHR 0x22"
abbreviation BACKSLASH :: char where "BACKSLASH \<equiv> CHR 0x5C"
abbreviation NUL :: char where "NUL \<equiv> CHR 0x00"

definition byte :: "char \<Rightarrow> int" where
  "byte c = of_char c"

definition digit_value :: "char \<Rightarrow> int" where
  "digit_value c = byte c - 48"

definition ascii_digit :: "char \<Rightarrow> bool" where
  "ascii_digit c \<longleftrightarrow> CHR ''0'' \<le> c \<and> c \<le> CHR ''9''"

definition ascii_upper :: "char \<Rightarrow> bool" where
  "ascii_upper c \<longleftrightarrow> CHR ''A'' \<le> c \<and> c \<le> CHR ''Z''"

definition ascii_lower_byte :: "char \<Rightarrow> char" where
  "ascii_lower_byte c = (if ascii_upper c then char_of (byte c + 32) else c)"

subsection \<open>Prefixes, suffixes and cuts\<close>

definition has_prefix :: "bytes \<Rightarrow> bytes \<Rightarrow> bool" where
  "has_prefix s p \<longleftrightarrow> take (length p) s = p"

definition trim_prefix :: "bytes \<Rightarrow> bytes \<Rightarrow> bytes" where
  "trim_prefix s p = (if has_prefix s p then drop (length p) s else s)"

definition has_suffix :: "bytes \<Rightarrow> bytes \<Rightarrow> bool" where
  "has_suffix s p \<longleftrightarrow> has_prefix (rev s) (rev p)"

definition trim_suffix :: "bytes \<Rightarrow> bytes \<Rightarrow> bytes" where
  "trim_suffix s p = (if has_suffix s p then take (length s - length p) s else s)"

text \<open>\<open>strings.CutPrefix\<close>: \<open>None\<close> for \<open>ok == false\<close>.\<close>

definition cut_prefix :: "bytes \<Rightarrow> bytes \<Rightarrow> bytes option" where
  "cut_prefix s p = (if has_prefix s p then Some (drop (length p) s) else None)"

text \<open>\<open>strings.Cut\<close> with a separator of one byte: before, after, found.\<close>

definition cut_byte :: "bytes \<Rightarrow> char \<Rightarrow> bytes \<times> bytes \<times> bool" where
  "cut_byte s c =
     (if c \<in> set s
      then (takeWhile (\<lambda>x. x \<noteq> c) s, drop 1 (dropWhile (\<lambda>x. x \<noteq> c) s), True)
      else (s, [], False))"

text \<open>\<open>strings.IndexByte\<close>, with \<open>None\<close> for -1.\<close>

definition index_byte :: "bytes \<Rightarrow> char \<Rightarrow> nat option" where
  "index_byte s c = (if c \<in> set s then Some (length (takeWhile (\<lambda>x. x \<noteq> c) s)) else None)"

text \<open>\<open>strings.TrimRight\<close> with a cutset of ASCII bytes.\<close>

definition trim_right_set :: "bytes \<Rightarrow> bytes \<Rightarrow> bytes" where
  "trim_right_set s cutset = rev (dropWhile (\<lambda>c. c \<in> set cutset) (rev s))"

text \<open>\<open>strings.Split\<close> at one byte, and \<open>strings.Join\<close>.\<close>

fun split_byte :: "char \<Rightarrow> bytes \<Rightarrow> bytes list" where
  "split_byte c [] = [[]]"
| "split_byte c (x # xs) =
     (if x = c then [] # split_byte c xs
      else (case split_byte c xs of [] \<Rightarrow> [[x]] | w # ws \<Rightarrow> (x # w) # ws))"

fun join_bytes :: "bytes \<Rightarrow> bytes list \<Rightarrow> bytes" where
  "join_bytes sep [] = []"
| "join_bytes sep [w] = w"
| "join_bytes sep (w # v # ws) = w @ sep @ join_bytes sep (v # ws)"

lemma join_byte_Cons: "join_bytes [c] (w # ws) = w @ concat (map ((#) c) ws)"
  by (induction ws arbitrary: w) auto

lemma has_prefix_append [simp]: "has_prefix (p @ s) p"
  by (simp add: has_prefix_def)

lemma has_prefix_iff: "has_prefix s p \<longleftrightarrow> (\<exists>r. s = p @ r)"
  unfolding has_prefix_def by (metis append_eq_conv_conj append_take_drop_id)

lemma trim_prefix_append [simp]: "trim_prefix (p @ s) p = s"
  by (simp add: trim_prefix_def)

lemma cut_byte_found: "c \<notin> set xs \<Longrightarrow> cut_byte (xs @ c # ys) c = (xs, ys, True)"
  by (simp add: cut_byte_def takeWhile_append dropWhile_append)

subsection \<open>UTF-8\<close>

text \<open>
  \<open>rune_width s\<close> is the number of bytes of the well-formed UTF-8 sequence at the
  start of \<open>s\<close>, and 0 where \<open>utf8.DecodeRune\<close> answers \<open>RuneError\<close> with width 1
  (or where \<open>s\<close> is empty). The ranges are the accept ranges of that function, so
  surrogates, overlong forms and code points above U+10FFFF are ill-formed.
\<close>

definition cont_byte :: "int \<Rightarrow> int \<Rightarrow> char \<Rightarrow> bool" where
  "cont_byte lo hi c \<longleftrightarrow> lo \<le> byte c \<and> byte c \<le> hi"

definition accept_range :: "int \<Rightarrow> int \<times> int" where
  "accept_range b =
     (if b = 0xE0 then (0xA0, 0xBF) else if b = 0xED then (0x80, 0x9F)
      else if b = 0xF0 then (0x90, 0xBF) else if b = 0xF4 then (0x80, 0x8F)
      else (0x80, 0xBF))"

definition rune_size :: "int \<Rightarrow> nat" where
  "rune_size b =
     (if b < 0x80 then 1 else if b < 0xC2 then 0 else if b < 0xE0 then 2
      else if b < 0xF0 then 3 else if b < 0xF5 then 4 else 0)"

fun rune_width :: "bytes \<Rightarrow> nat" where
  "rune_width [] = 0"
| "rune_width (c # cs) =
     (let n = rune_size (byte c); (lo, hi) = accept_range (byte c) in
      if n \<le> 1 then n
      else if n - 1 \<le> length cs \<and> cont_byte lo hi (cs ! 0)
              \<and> (\<forall>x \<in> set (take (n - 2) (drop 1 cs)). cont_byte 0x80 0xBF x)
      then n else 0)"

text \<open>The code point of a well-formed sequence, and its encoding (\<open>utf8.EncodeRune\<close>).\<close>

fun rune_value :: "bytes \<Rightarrow> int" where
  "rune_value [] = 0"
| "rune_value (c # cs) =
     (let lead = (case length cs of 0 \<Rightarrow> byte c | Suc 0 \<Rightarrow> byte c - 0xC0
                  | Suc (Suc 0) \<Rightarrow> byte c - 0xE0 | _ \<Rightarrow> byte c - 0xF0) in
      foldl (\<lambda>v x. v * 64 + (byte x - 0x80)) lead cs)"

definition rune_error :: bytes where
  "rune_error = [CHR 0xEF, CHR 0xBF, CHR 0xBD]"

definition encode_rune :: "int \<Rightarrow> bytes" where
  "encode_rune r =
     (if r < 0x80 then [char_of r]
      else if r < 0x800 then map char_of [0xC0 + r div 64, 0x80 + r mod 64]
      else if (0xD800 \<le> r \<and> r < 0xE000) \<or> 0x10FFFF < r then rune_error
      else if r < 0x10000
        then map char_of [0xE0 + r div 4096, 0x80 + r div 64 mod 64, 0x80 + r mod 64]
      else map char_of [0xF0 + r div 262144, 0x80 + r div 4096 mod 64,
                        0x80 + r div 64 mod 64, 0x80 + r mod 64])"

text \<open>
  The runes of a string as Go's \<open>range\<close> sees them: each element is the bytes of one
  well-formed sequence, or one stray byte with the flag \<open>False\<close>.
\<close>

function runes :: "bytes \<Rightarrow> (bytes \<times> bool) list" where
  "runes s =
     (if s = [] then []
      else if rune_width s = 0 then ([hd s], False) # runes (tl s)
      else (take (rune_width s) s, True) # runes (drop (rune_width s) s))"
  by pat_completeness auto
termination
  by (relation "measure length") auto

declare runes.simps [simp del]

lemma runes_Nil [simp]: "runes [] = []"
  by (subst runes.simps) simp

definition utf8_valid :: "bytes \<Rightarrow> bool" where
  "utf8_valid s \<longleftrightarrow> (\<forall>r \<in> set (runes s). snd r)"

text \<open>\<open>strings.ToValidUTF8\<close>: each run of stray bytes becomes one replacement.\<close>

fun replace_runs :: "bytes \<Rightarrow> bool \<Rightarrow> (bytes \<times> bool) list \<Rightarrow> bytes" where
  "replace_runs rep bad [] = []"
| "replace_runs rep bad ((w, ok) # rs) =
     (if ok then w @ replace_runs rep False rs
      else (if bad then [] else rep) @ replace_runs rep True rs)"

definition to_valid_utf8 :: "bytes \<Rightarrow> bytes \<Rightarrow> bytes" where
  "to_valid_utf8 s rep = replace_runs rep False (runes s)"

text \<open>\<open>strings.ReplaceAll\<close> of one byte.\<close>

definition replace_byte :: "char \<Rightarrow> bytes \<Rightarrow> bytes \<Rightarrow> bytes" where
  "replace_byte c rep s = concat (map (\<lambda>x. if x = c then rep else [x]) s)"

subsection \<open>Case\<close>

text \<open>
  \<open>strings.ToLower\<close>: bytewise for ASCII text, and otherwise \<open>strings.Map\<close> of
  \<open>unicode.ToLower\<close>, which turns a stray byte into U+FFFD. \<open>ul\<close> is that table for
  code points from 128 on.
\<close>

definition is_ascii :: "bytes \<Rightarrow> bool" where
  "is_ascii s \<longleftrightarrow> (\<forall>c \<in> set s. byte c < 128)"

definition lower_rune :: "(int \<Rightarrow> int) \<Rightarrow> bytes \<times> bool \<Rightarrow> bytes" where
  "lower_rune ul r =
     (if \<not> snd r then rune_error
      else if length (fst r) = 1 then map ascii_lower_byte (fst r)
      else encode_rune (ul (rune_value (fst r))))"

definition to_lower :: "(int \<Rightarrow> int) \<Rightarrow> bytes \<Rightarrow> bytes" where
  "to_lower ul s =
     (if is_ascii s then map ascii_lower_byte s else concat (map (lower_rune ul) (runes s)))"

subsection \<open>White space\<close>

text \<open>
  \<open>strings.TrimSpace\<close> removes the code points of \<open>unicode.IsSpace\<close> from both ends.
  Their encodings are listed: no encoding is the end of another sequence, so taking
  off a listed prefix or suffix is what decoding from that end does.
\<close>

definition space_runes :: "bytes list" where
  "space_runes =
     [[CHR 0x20], [CHR 0x09], [CHR 0x0A], [CHR 0x0B], [CHR 0x0C], [CHR 0x0D],
      [CHR 0xC2, CHR 0x85], [CHR 0xC2, CHR 0xA0], [CHR 0xE1, CHR 0x9A, CHR 0x80],
      [CHR 0xE2, CHR 0x80, CHR 0x80], [CHR 0xE2, CHR 0x80, CHR 0x81],
      [CHR 0xE2, CHR 0x80, CHR 0x82], [CHR 0xE2, CHR 0x80, CHR 0x83],
      [CHR 0xE2, CHR 0x80, CHR 0x84], [CHR 0xE2, CHR 0x80, CHR 0x85],
      [CHR 0xE2, CHR 0x80, CHR 0x86], [CHR 0xE2, CHR 0x80, CHR 0x87],
      [CHR 0xE2, CHR 0x80, CHR 0x88], [CHR 0xE2, CHR 0x80, CHR 0x89],
      [CHR 0xE2, CHR 0x80, CHR 0x8A], [CHR 0xE2, CHR 0x80, CHR 0xA8],
      [CHR 0xE2, CHR 0x80, CHR 0xA9], [CHR 0xE2, CHR 0x80, CHR 0xAF],
      [CHR 0xE2, CHR 0x81, CHR 0x9F], [CHR 0xE3, CHR 0x80, CHR 0x80]]"

function trim_any :: "bytes list \<Rightarrow> bytes \<Rightarrow> bytes" where
  "trim_any ps s =
     (case find (\<lambda>p. p \<noteq> [] \<and> has_prefix s p) ps of
        None \<Rightarrow> s
      | Some p \<Rightarrow> trim_any ps (drop (length p) s))"
  by pat_completeness auto
termination
proof (relation "measure (length \<circ> snd)", simp)
  fix ps s p
  assume "find (\<lambda>p. p \<noteq> [] \<and> has_prefix s p) ps = Some p"
  then have "p \<noteq> []" and "has_prefix s p"
    by (auto simp: find_Some_iff)
  then have "0 < length p" and "s \<noteq> []"
    by (auto simp: has_prefix_def)
  then show "((ps, drop (length p) s), ps, s) \<in> measure (length \<circ> snd)"
    by (cases s) auto
qed

declare trim_any.simps [simp del]

definition trim_space :: "bytes \<Rightarrow> bytes" where
  "trim_space s =
     rev (trim_any (map rev space_runes) (rev (trim_any space_runes s)))"

text \<open>No listed sequence stands at the start, and none at the end.\<close>

definition no_prefix_of :: "bytes list \<Rightarrow> bytes \<Rightarrow> bool" where
  "no_prefix_of ps s \<longleftrightarrow> (\<forall>p \<in> set ps. p \<noteq> [] \<longrightarrow> \<not> has_prefix s p)"

definition trimmed :: "bytes \<Rightarrow> bool" where
  "trimmed s \<longleftrightarrow> no_prefix_of space_runes s \<and> no_prefix_of (map rev space_runes) (rev s)"

lemma trim_any_stop: "no_prefix_of ps s \<Longrightarrow> trim_any ps s = s"
proof -
  assume "no_prefix_of ps s"
  then have "find (\<lambda>p. p \<noteq> [] \<and> has_prefix s p) ps = None"
    by (auto simp: no_prefix_of_def find_None_iff)
  then show ?thesis by (subst trim_any.simps) simp
qed

lemma trim_any_step:
  "find (\<lambda>p. p \<noteq> [] \<and> has_prefix s p) ps = Some p \<Longrightarrow>
   trim_any ps s = trim_any ps (drop (length p) s)"
  by (subst trim_any.simps) simp

lemma trim_any_cases:
  "no_prefix_of ps s \<or> (\<exists>p. find (\<lambda>p. p \<noteq> [] \<and> has_prefix s p) ps = Some p)"
  by (cases "find (\<lambda>p. p \<noteq> [] \<and> has_prefix s p) ps") (auto simp: no_prefix_of_def find_None_iff)

lemma trim_any_no_prefix: "no_prefix_of ps (trim_any ps s)"
proof (induction ps s rule: trim_any.induct)
  case (1 ps s)
  then show ?case
    using trim_any_cases [of ps s] by (auto simp: trim_any_stop trim_any_step)
qed

lemma trim_any_suffix: "\<exists>pre. s = pre @ trim_any ps s"
proof (induction ps s rule: trim_any.induct)
  case (1 ps s)
  from trim_any_cases [of ps s] show ?case
  proof
    assume "no_prefix_of ps s"
    then show ?thesis by (simp add: trim_any_stop)
  next
    assume "\<exists>p. find (\<lambda>p. p \<noteq> [] \<and> has_prefix s p) ps = Some p"
    then obtain p where p: "find (\<lambda>p. p \<noteq> [] \<and> has_prefix s p) ps = Some p" ..
    with "1.IH" obtain pre where "drop (length p) s = pre @ trim_any ps (drop (length p) s)"
      by blast
    then have "s = (take (length p) s @ pre) @ trim_any ps s"
      using append_take_drop_id [of "length p" s] by (simp add: trim_any_step [OF p])
    then show ?thesis ..
  qed
qed

lemma no_prefix_of_append: "no_prefix_of ps (a @ b) \<Longrightarrow> no_prefix_of ps a"
  by (auto simp: no_prefix_of_def has_prefix_iff)

lemma trim_space_trimmed [simp]: "trimmed (trim_space s)"
proof -
  define l where "l = trim_any space_runes s"
  define r where "r = trim_any (map rev space_runes) (rev l)"
  have l: "no_prefix_of space_runes l"
    unfolding l_def by (rule trim_any_no_prefix)
  obtain pre where "rev l = pre @ r"
    unfolding r_def using trim_any_suffix by blast
  then have "l = rev r @ rev pre"
    by (metis rev_append rev_rev_ident)
  with l have "no_prefix_of space_runes (rev r)"
    using no_prefix_of_append by metis
  moreover have "no_prefix_of (map rev space_runes) r"
    unfolding r_def by (rule trim_any_no_prefix)
  moreover have "trim_space s = rev r"
    by (simp add: trim_space_def r_def l_def)
  ultimately show ?thesis by (simp add: trimmed_def)
qed

lemma trim_space_id: "trimmed s \<Longrightarrow> trim_space s = s"
  by (simp add: trimmed_def trim_space_def trim_any_stop)

lemma trim_space_idem [simp]: "trim_space (trim_space s) = trim_space s"
  by (simp add: trim_space_id)

lemma trim_space_Nil [simp]: "trim_space [] = []"
  by (rule trim_space_id) (simp add: trimmed_def no_prefix_of_def has_prefix_def)

subsection \<open>Decimal numbers\<close>

text \<open>
  \<open>strconv.Atoi\<close> on at most a few bytes (no overflow): an optional sign and at least
  one digit.
\<close>

definition digits_value :: "bytes \<Rightarrow> int" where
  "digits_value s = foldl (\<lambda>v c. v * 10 + digit_value c) 0 s"

definition all_digits :: "bytes \<Rightarrow> bool" where
  "all_digits s \<longleftrightarrow> s \<noteq> [] \<and> (\<forall>c \<in> set s. ascii_digit c)"

fun atoi :: "bytes \<Rightarrow> int option" where
  "atoi [] = None"
| "atoi (c # cs) =
     (if c = CHR ''-'' then (if all_digits cs then Some (- digits_value cs) else None)
      else if c = CHR ''+'' then (if all_digits cs then Some ((digits_value cs)) else None)
      else if all_digits (c # cs) then Some ((digits_value (c # cs))) else None)"

text \<open>\<open>strconv.Itoa\<close> on a natural number.\<close>

fun itoa :: "int \<Rightarrow> bytes" where
  "itoa n = (if n < 10 then [char_of (48 + n)] else itoa (n div 10) @ [char_of (48 + n mod 10)])"

declare itoa.simps [simp del]

text \<open>\<open>strconv.FormatInt(n, 10)\<close>.\<close>

definition FormatInt :: "int \<Rightarrow> bytes" where
  "FormatInt n = (if n < 0 then ''-'' @ itoa (- n) else itoa n)"

text \<open>\<open>strconv.ParseInt(s, 10, 64)\<close>.\<close>

definition ParseInt64 :: "bytes \<Rightarrow> int option" where
  "ParseInt64 s = (case atoi s of
     Some n \<Rightarrow> if - (2 ^ 63) \<le> n \<and> n < 2 ^ 63 then Some n else None
   | None \<Rightarrow> None)"

lemma char_le_byte: "c \<le> d \<longleftrightarrow> byte c \<le> byte d"
proof -
  have int: "(of_char x :: int) = int (of_char x)" for x
    by (simp only: of_nat_of_char)
  show ?thesis
    by (simp only: less_eq_char_def byte_def int of_nat_le_iff)
qed

lemma ascii_digit_byte: "ascii_digit c \<longleftrightarrow> 48 \<le> byte c \<and> byte c \<le> 57"
  unfolding ascii_digit_def char_le_byte by (simp add: byte_def)

lemma byte_char_of: "0 \<le> n \<Longrightarrow> n < 256 \<Longrightarrow> byte (char_of n) = n"
  by (simp add: byte_def)

lemma digit_char:
  "0 \<le> d \<Longrightarrow> d < 10 \<Longrightarrow> ascii_digit (char_of (48 + d)) \<and> digit_value (char_of (48 + d)) = d"
  by (simp add: ascii_digit_byte digit_value_def byte_char_of)

lemma itoa_digits: "0 \<le> n \<Longrightarrow> all_digits (itoa n) \<and> digits_value (itoa n) = n"
proof (induction n rule: itoa.induct)
  case (1 n)
  show ?case
  proof (cases "n < 10")
    case True
    with 1 digit_char [of n] show ?thesis
      by (subst (1 2) itoa.simps) (simp add: all_digits_def digits_value_def)
  next
    case False
    with 1 have "all_digits (itoa (n div 10)) \<and> digits_value (itoa (n div 10)) = n div 10"
      by simp
    with False digit_char [of "n mod 10"] show ?thesis
      by (subst (1 2) itoa.simps) (auto simp: all_digits_def digits_value_def)
  qed
qed

lemma atoi_itoa: "0 \<le> n \<Longrightarrow> atoi (itoa n) = Some n"
proof -
  assume "0 \<le> n"
  then have d: "all_digits (itoa n)" "digits_value (itoa n) = n"
    using itoa_digits by blast+
  then obtain c cs where c: "itoa n = c # cs" and "ascii_digit c"
    by (cases "itoa n") (auto simp: all_digits_def)
  then have "c \<noteq> CHR ''-''" and "c \<noteq> CHR ''+''"
    by (auto simp: ascii_digit_def less_eq_char_def)
  with d c show ?thesis by simp
qed

lemma itoa_no_byte: "0 \<le> n \<Longrightarrow> \<not> ascii_digit c \<Longrightarrow> c \<notin> set (itoa n)"
  using itoa_digits by (auto simp: all_digits_def)

lemma itoa_nonempty: "itoa n \<noteq> []"
  by (subst itoa.simps) simp

lemma itoa_length3: "n < 1000 \<Longrightarrow> length (itoa n) \<le> 3"
  by (subst itoa.simps, subst itoa.simps, subst itoa.simps) auto

end
