(* ===== verification/Kv.thy ===== *)
theory Kv
  imports Go_Strings
begin

text \<open>
  \<open>backend/internal/ingest/kv.go\<close>: the key=value body that firewalls and routers put
  after the syslog header. The code walks an index over \<open>body\<close>; the model carries the
  suffix \<open>body[i:]\<close> instead, so that each loop recurses on the rest of the text.

  Besides the functions, the theory holds a printer of pair lists and shows that the
  parser reads back what the printer writes, which keys and values can come out of any
  body at all, and that printing what was read and reading it again changes nothing.
\<close>

subsection \<open>The code\<close>

record kv_pair =
  Key :: bytes
  Value :: bytes
  quoted :: bool

definition isBlank :: "char \<Rightarrow> bool" where
  "isBlank c \<longleftrightarrow> c = SP \<or> c = TAB"

definition isLetter :: "char \<Rightarrow> bool" where
  "isLetter c \<longleftrightarrow> (CHR ''a'' \<le> c \<and> c \<le> CHR ''z'') \<or> (CHR ''A'' \<le> c \<and> c \<le> CHR ''Z'')"

definition isDigit :: "char \<Rightarrow> bool" where
  "isDigit c \<longleftrightarrow> CHR ''0'' \<le> c \<and> c \<le> CHR ''9''"

text \<open>
  \<open>keyAt\<close>: the loop's \<open>s[:i]\<close> is the accumulator \<open>k\<close>, so \<open>i > 0\<close> is \<open>k \<noteq> []\<close>. The
  second component is the length of \<open>key=\<close>, or 0.
\<close>

fun keyAt_loop :: "bytes \<Rightarrow> bytes \<Rightarrow> bytes \<times> nat" where
  "keyAt_loop k [] = ([], 0)"
| "keyAt_loop k (c # cs) =
     (if c = CHR ''='' \<and> k \<noteq> [] then (k, length k + 1)
      else if isLetter c \<or> c = CHR ''_'' then keyAt_loop (k @ [c]) cs
      else if k \<noteq> [] \<and> (isDigit c \<or> c = CHR ''.'' \<or> c = CHR ''-'') then keyAt_loop (k @ [c]) cs
      else ([], 0))"

definition keyAt :: "bytes \<Rightarrow> bytes \<times> nat" where
  "keyAt s = keyAt_loop [] s"

text \<open>\<open>unquote\<close>: \<open>b\<close> is the builder and \<open>i\<close> the index, from 1 on.\<close>

fun unquote_loop :: "bytes \<Rightarrow> nat \<Rightarrow> bytes \<Rightarrow> bytes \<times> nat" where
  "unquote_loop b i [] = (b, i)"
| "unquote_loop b i (c # cs) =
     (if c = BACKSLASH \<and> cs \<noteq> [] \<and> (hd cs = QUOTE \<or> hd cs = BACKSLASH)
      then unquote_loop (b @ [hd cs]) (i + 2) (tl cs)
      else if c = QUOTE then (b, i + 1)
      else unquote_loop (b @ [c]) (i + 1) cs)"

definition unquote :: "bytes \<Rightarrow> bytes \<times> nat" where
  "unquote s = unquote_loop [] 1 (drop 1 s)"

definition tokenEnd :: "bytes \<Rightarrow> nat" where
  "tokenEnd s = length (takeWhile (\<lambda>c. \<not> isBlank c) s)"

text \<open>What a token that starts no pair does to the pairs read so far.\<close>

definition continue_value :: "kv_pair list \<Rightarrow> bytes \<Rightarrow> kv_pair list" where
  "continue_value pairs tok =
     (if pairs \<noteq> [] \<and> \<not> quoted (last pairs)
      then butlast pairs @
           [(last pairs)\<lparr>Value := (if Value (last pairs) = [] then tok
                                   else Value (last pairs) @ [SP] @ tok)\<rparr>]
      else pairs)"

lemma tokenEnd_pos: "s \<noteq> [] \<Longrightarrow> \<not> isBlank (hd s) \<Longrightarrow> 0 < tokenEnd s"
  by (cases s) (auto simp: tokenEnd_def)

lemma kv_rest_shorter:
  assumes "dropWhile isBlank body \<noteq> []" and "0 < k"
  shows "length (dropWhile isBlank body) - k < length body"
proof -
  have "length (dropWhile isBlank body) - k < length (dropWhile isBlank body)"
    using assms by (intro diff_less) simp_all
  then show ?thesis using length_dropWhile_le [of isBlank body] by linarith
qed

function parseKV_loop :: "kv_pair list \<Rightarrow> bytes \<Rightarrow> kv_pair list" where
  "parseKV_loop pairs body =
     (let s = dropWhile isBlank body in
      if s = [] then pairs
      else (case keyAt s of (key, n) \<Rightarrow>
        if n = 0
        then parseKV_loop (continue_value pairs (take (tokenEnd s) s)) (drop (tokenEnd s) s)
        else (let t = drop n s in
          if t \<noteq> [] \<and> hd t = QUOTE
          then (case unquote t of (value, m) \<Rightarrow>
            parseKV_loop (pairs @ [\<lparr>Key = key, Value = value, quoted = True\<rparr>]) (drop m t))
          else parseKV_loop (pairs @ [\<lparr>Key = key, Value = take (tokenEnd t) t, quoted = False\<rparr>])
                 (drop (tokenEnd t) t))))"
  by pat_completeness auto
termination
proof (relation "measure (length \<circ> snd)", simp, simp_all only:, goal_cases)
  case (1 pairs body)
  then have "0 < tokenEnd (dropWhile isBlank body)"
    using hd_dropWhile [of isBlank body] by (intro tokenEnd_pos) auto
  with 1 show ?case by (simp add: kv_rest_shorter)
qed (simp_all add: kv_rest_shorter)

declare parseKV_loop.simps [simp del]

definition parseKV :: "bytes \<Rightarrow> kv_pair list" where
  "parseKV body = parseKV_loop [] body"

subsection \<open>Keys\<close>

text \<open>The keys the comment on \<open>keyAt\<close> describes.\<close>

definition key_char :: "char \<Rightarrow> bool" where
  "key_char c \<longleftrightarrow> isLetter c \<or> c = CHR ''_'' \<or> isDigit c \<or> c = CHR ''.'' \<or> c = CHR ''-''"

definition valid_key :: "bytes \<Rightarrow> bool" where
  "valid_key k \<longleftrightarrow> k \<noteq> [] \<and> (isLetter (hd k) \<or> hd k = CHR ''_'') \<and> (\<forall>c \<in> set (tl k). key_char c)"

lemma key_char_plain: "key_char c \<Longrightarrow> c \<noteq> CHR ''='' \<and> \<not> isBlank c"
  by (auto simp: key_char_def isLetter_def isDigit_def isBlank_def)

lemma keyAt_loop_append:
  "k \<noteq> [] \<Longrightarrow> \<forall>c \<in> set k'. key_char c \<Longrightarrow>
   keyAt_loop k (k' @ CHR ''='' # r) = (k @ k', length (k @ k') + 1)"
proof (induction k' arbitrary: k)
  case (Cons c k')
  then have "c \<noteq> CHR ''=''" using key_char_plain by auto
  with Cons show ?case by (auto simp: key_char_def)
qed simp

lemma keyAt_valid: "valid_key k \<Longrightarrow> keyAt (k @ CHR ''='' # r) = (k, length k + 1)"
  using keyAt_loop_append [of "[hd k]" "tl k" r]
  by (cases k) (auto simp: valid_key_def keyAt_def)

lemma keyAt_loop_sound:
  "keyAt_loop k s = (key, n) \<Longrightarrow> 0 < n \<Longrightarrow> k \<noteq> [] \<longrightarrow> valid_key k \<Longrightarrow>
   valid_key key \<and> n = length key + 1 \<and> (\<exists>r. k @ s = key @ CHR ''='' # r)"
proof (induction k s rule: keyAt_loop.induct)
  case (2 k c cs)
  have ext: "valid_key (k @ [c])"
    if "isLetter c \<or> c = CHR ''_'' \<or> k \<noteq> [] \<and> (isDigit c \<or> c = CHR ''.'' \<or> c = CHR ''-'')"
    using that 2(5) by (cases k) (auto simp: valid_key_def key_char_def)
  show ?case
    using 2 ext by (auto split: if_splits)
qed simp

lemma keyAt_sound:
  "keyAt s = (key, n) \<Longrightarrow> 0 < n \<Longrightarrow>
   valid_key key \<and> n = length key + 1 \<and> (\<exists>r. s = key @ CHR ''='' # r)"
  using keyAt_loop_sound [of "[]" s] by (simp add: keyAt_def)

subsection \<open>Quoted values\<close>

text \<open>How a sender writes a value in double quotes.\<close>

definition escape_byte :: "char \<Rightarrow> bytes" where
  "escape_byte c = (if c = QUOTE \<or> c = BACKSLASH then [BACKSLASH, c] else [c])"

definition quote_value :: "bytes \<Rightarrow> bytes" where
  "quote_value v = QUOTE # concat (map escape_byte v) @ [QUOTE]"

lemma unquote_loop_escaped:
  "unquote_loop b i (concat (map escape_byte v) @ QUOTE # r) =
   (b @ v, i + length (concat (map escape_byte v)) + 1)"
  by (induction v arbitrary: b i) (auto simp: escape_byte_def)

lemma unquote_quote_value: "unquote (quote_value v @ r) = (v, length (quote_value v))"
  by (simp add: unquote_def quote_value_def unquote_loop_escaped)

subsection \<open>One step of the loop\<close>

text \<open>Where a token ends: at the end of the body or at a blank.\<close>

definition token_stop :: "bytes \<Rightarrow> bool" where
  "token_stop r \<longleftrightarrow> r = [] \<or> isBlank (hd r)"

definition is_token :: "bytes \<Rightarrow> bool" where
  "is_token w \<longleftrightarrow> (\<forall>c \<in> set w. \<not> isBlank c)"

lemma tokenEnd_append: "is_token w \<Longrightarrow> token_stop r \<Longrightarrow> tokenEnd (w @ r) = length w"
  unfolding tokenEnd_def is_token_def token_stop_def
  by (subst takeWhile_append_stop) auto

lemma dropWhile_token: "is_token w \<Longrightarrow> w \<noteq> [] \<Longrightarrow> dropWhile isBlank (w @ r) = w @ r"
  by (cases w) (auto simp: is_token_def)

lemma keyAt_loop_blank: "isBlank c \<Longrightarrow> keyAt_loop k (c # cs) = ([], 0)"
  unfolding isBlank_def by (elim disjE) (simp_all add: isLetter_def isDigit_def)

lemma keyAt_loop_stop:
  "token_stop r \<Longrightarrow> is_token w \<Longrightarrow> keyAt_loop k (w @ r) = keyAt_loop k w"
proof (induction w arbitrary: k)
  case Nil
  then show ?case
    by (cases r) (simp_all add: token_stop_def keyAt_loop_blank del: keyAt_loop.simps(2))
qed (simp add: is_token_def)

lemma parseKV_loop_Nil [simp]: "parseKV_loop pairs [] = pairs"
  by (subst parseKV_loop.simps) simp

lemma parseKV_loop_blank: "isBlank c \<Longrightarrow> parseKV_loop pairs (c # r) = parseKV_loop pairs r"
  by (simp only: parseKV_loop.simps [of pairs "c # r"] parseKV_loop.simps [of pairs r]
      dropWhile.simps if_True)

lemma key_char_first: "isLetter c \<or> c = CHR ''_'' \<Longrightarrow> key_char c"
  by (auto simp: key_char_def)

lemma valid_key_chars: "valid_key k \<Longrightarrow> c \<in> set k \<Longrightarrow> key_char c"
  by (cases k) (auto simp: valid_key_def intro: key_char_first)

lemma valid_key_token: "valid_key k \<Longrightarrow> is_token (k @ [CHR ''=''])"
proof -
  assume "valid_key k"
  then have "\<forall>c \<in> set k. \<not> isBlank c"
    using valid_key_chars key_char_plain by blast
  moreover have "\<not> isBlank (CHR ''='')"
    by (simp add: isBlank_def)
  ultimately show ?thesis by (simp add: is_token_def)
qed

lemma parseKV_loop_quoted:
  assumes "valid_key k"
  shows "parseKV_loop pairs (k @ CHR ''='' # quote_value v @ r) =
         parseKV_loop (pairs @ [\<lparr>Key = k, Value = v, quoted = True\<rparr>]) r"
proof -
  have "dropWhile isBlank (k @ CHR ''='' # quote_value v @ r) = k @ CHR ''='' # quote_value v @ r"
    using dropWhile_token [OF valid_key_token [OF assms], of "quote_value v @ r"] by simp
  moreover have "quote_value v \<noteq> []" and "hd (quote_value v) = QUOTE"
    by (simp_all add: quote_value_def)
  ultimately show ?thesis
    by (subst parseKV_loop.simps)
      (simp add: Let_def keyAt_valid [OF assms] unquote_quote_value)
qed

lemma parseKV_loop_token:
  assumes "valid_key k" and "is_token w" and "token_stop r" and "\<not> has_prefix w [QUOTE]"
  shows "parseKV_loop pairs (k @ CHR ''='' # w @ r) =
         parseKV_loop (pairs @ [\<lparr>Key = k, Value = w, quoted = False\<rparr>]) r"
proof -
  have "dropWhile isBlank (k @ CHR ''='' # w @ r) = k @ CHR ''='' # w @ r"
    using dropWhile_token [OF valid_key_token [OF assms(1)], of "w @ r"] by simp
  moreover have "w @ r = [] \<or> hd (w @ r) \<noteq> QUOTE"
    using assms(3,4) by (cases w) (auto simp: token_stop_def isBlank_def has_prefix_def)
  ultimately show ?thesis
    by (subst parseKV_loop.simps)
      (auto simp: Let_def keyAt_valid [OF assms(1)] tokenEnd_append [OF assms(2,3)])
qed

lemma parseKV_loop_continue:
  assumes "is_token w" and "w \<noteq> []" and "token_stop r" and "snd (keyAt w) = 0"
  shows "parseKV_loop pairs (w @ r) = parseKV_loop (continue_value pairs w) r"
proof -
  have "snd (keyAt (w @ r)) = 0"
    using assms by (simp add: keyAt_def keyAt_loop_stop)
  then obtain key where "keyAt (w @ r) = (key, 0)"
    by (metis prod.collapse)
  then show ?thesis
    using assms(2)
    by (subst parseKV_loop.simps)
      (simp add: Let_def dropWhile_token [OF assms(1,2)] tokenEnd_append [OF assms(1,3)])
qed

subsection \<open>Unquoted values\<close>

text \<open>
  An unquoted value is one token, or several joined by single spaces of which only
  the first may look like a pair.
\<close>

definition plain_tokens :: "bytes list \<Rightarrow> bool" where
  "plain_tokens ws \<longleftrightarrow> (\<forall>w \<in> set ws. w \<noteq> [] \<and> is_token w) \<and> (\<forall>w \<in> set (tl ws). snd (keyAt w) = 0)"

definition plain_value :: "bytes \<Rightarrow> bool" where
  "plain_value v \<longleftrightarrow> v = [] \<or> plain_tokens (split_byte SP v)"

definition wf_pair :: "kv_pair \<Rightarrow> bool" where
  "wf_pair p \<longleftrightarrow> valid_key (Key p) \<and> (quoted p \<or> plain_value (Value p))"

text \<open>The printer: pairs separated by one space, quoted values escaped.\<close>

definition print_pair :: "kv_pair \<Rightarrow> bytes" where
  "print_pair p = Key p @ [CHR ''=''] @ (if quoted p then quote_value (Value p) else Value p)"

definition print_kv :: "kv_pair list \<Rightarrow> bytes" where
  "print_kv ps = join_bytes [SP] (map print_pair ps)"

lemma split_byte_nonempty [simp]: "split_byte c s \<noteq> []"
  by (cases s) (auto split: list.splits)

lemma join_split: "join_bytes [c] (split_byte c s) = s"
proof (induction s)
  case (Cons x s)
  obtain w ws where "split_byte c s = w # ws"
    using split_byte_nonempty [of c s] by (cases "split_byte c s") auto
  with Cons show ?case by (auto simp: join_byte_Cons)
qed simp

lemma split_byte_single: "c \<notin> set w \<Longrightarrow> split_byte c w = [w]"
  by (induction w) auto

lemma split_byte_append:
  "c \<notin> set w \<Longrightarrow> split_byte c (s @ [c] @ w) = split_byte c s @ [w]"
proof (induction s)
  case (Cons x s)
  obtain v vs where "split_byte c s = v # vs"
    using split_byte_nonempty [of c s] by (cases "split_byte c s") auto
  with Cons show ?case by auto
qed (simp add: split_byte_single)

lemma is_token_no_space: "is_token w \<Longrightarrow> SP \<notin> set w"
  by (auto simp: is_token_def isBlank_def)

lemma plain_value_token: "is_token w \<Longrightarrow> plain_value w"
  by (simp add: plain_value_def plain_tokens_def split_byte_single is_token_no_space)

lemma plain_value_extend:
  assumes "plain_value v" and "v \<noteq> []" and "is_token w" and "w \<noteq> []" and "snd (keyAt w) = 0"
  shows "plain_value (v @ [SP] @ w)"
  using assms split_byte_append [OF is_token_no_space [OF assms(3)], of v]
  by (cases "split_byte SP v") (auto simp: plain_value_def plain_tokens_def)

lemma parseKV_loop_tokens:
  assumes "\<not> quoted p" and "Value p \<noteq> []" and "token_stop r"
    and "\<forall>w \<in> set ws. w \<noteq> [] \<and> is_token w \<and> snd (keyAt w) = 0"
  shows "parseKV_loop (ps @ [p]) (concat (map ((#) SP) ws) @ r) =
         parseKV_loop (ps @ [p\<lparr>Value := Value p @ concat (map ((#) SP) ws)\<rparr>]) r"
  using assms
proof (induction ws arbitrary: p)
  case (Cons w ws)
  have blank: "isBlank SP" by (simp add: isBlank_def)
  have stop: "token_stop (concat (map ((#) SP) ws) @ r)"
    using Cons.prems(3) by (cases ws) (simp_all add: token_stop_def isBlank_def)
  let ?p = "p\<lparr>Value := Value p @ [SP] @ w\<rparr>"
  have "parseKV_loop (ps @ [p]) (concat (map ((#) SP) (w # ws)) @ r) =
        parseKV_loop (ps @ [p]) (w @ concat (map ((#) SP) ws) @ r)"
    by (simp add: parseKV_loop_blank [OF blank])
  also have "\<dots> = parseKV_loop (ps @ [?p]) (concat (map ((#) SP) ws) @ r)"
    using Cons.prems stop by (subst parseKV_loop_continue) (simp_all add: continue_value_def)
  also have "\<dots> = parseKV_loop (ps @ [?p\<lparr>Value := Value ?p @ concat (map ((#) SP) ws)\<rparr>]) r"
    by (rule Cons.IH) (use Cons.prems in auto)
  finally show ?case by simp
qed simp

lemma parseKV_loop_plain:
  assumes "valid_key k" and "plain_value v" and "token_stop r" and "\<not> has_prefix v [QUOTE]"
  shows "parseKV_loop pairs (k @ CHR ''='' # v @ r) =
         parseKV_loop (pairs @ [\<lparr>Key = k, Value = v, quoted = False\<rparr>]) r"
proof (cases "v = []")
  case True
  with assms show ?thesis
    using parseKV_loop_token [of k "[]" r] by (simp add: is_token_def)
next
  case False
  obtain w ws where ws: "split_byte SP v = w # ws"
    using split_byte_nonempty by (cases "split_byte SP v") auto
  let ?t = "concat (map ((#) SP) ws)"
  have v: "v = w @ ?t"
    using join_split [of SP v] ws by (simp add: join_byte_Cons)
  have w: "w \<noteq> []" "is_token w" and rest: "\<forall>w \<in> set ws. w \<noteq> [] \<and> is_token w \<and> snd (keyAt w) = 0"
    using assms(2) False ws by (auto simp: plain_value_def plain_tokens_def)
  have stop: "token_stop (?t @ r)"
    using assms(3) by (cases ws) (simp_all add: token_stop_def isBlank_def)
  have "\<not> has_prefix w [QUOTE]"
    using assms(4) v w(1) by (cases w) (auto simp: has_prefix_def)
  then have "parseKV_loop pairs (k @ CHR ''='' # w @ ?t @ r) =
        parseKV_loop (pairs @ [\<lparr>Key = k, Value = w, quoted = False\<rparr>]) (?t @ r)"
    by (intro parseKV_loop_token assms w stop)
  also have "\<dots> = parseKV_loop (pairs @ [\<lparr>Key = k, Value = w, quoted = False\<rparr>
        \<lparr>Value := Value \<lparr>Key = k, Value = w, quoted = False\<rparr> @ ?t\<rparr>]) r"
    by (rule parseKV_loop_tokens) (use w rest assms(3) in simp_all)
  finally show ?thesis by (simp add: v)
qed

subsection \<open>Properties\<close>

lemma join_stop:
  "token_stop (concat (map ((#) SP) ws))"
  by (cases ws) (simp_all add: token_stop_def isBlank_def)

lemma parseKV_loop_pair:
  assumes "wf_pair p" and "quoted p \<or> \<not> has_prefix (Value p) [QUOTE]" and "token_stop r"
  shows "parseKV_loop pairs (print_pair p @ r) = parseKV_loop (pairs @ [p]) r"
proof (cases "quoted p")
  case True
  then have eq: "\<lparr>Key = Key p, Value = Value p, quoted = True\<rparr> = p" by (cases p) simp
  from True assms show ?thesis
    using parseKV_loop_quoted [of "Key p" pairs "Value p" r] by (simp add: print_pair_def wf_pair_def eq)
next
  case False
  then have eq: "\<lparr>Key = Key p, Value = Value p, quoted = False\<rparr> = p" by (cases p) simp
  from False assms show ?thesis
    using parseKV_loop_plain [of "Key p" "Value p" r pairs] by (simp add: print_pair_def wf_pair_def eq)
qed

lemma parseKV_loop_print:
  assumes "\<forall>p \<in> set ps. wf_pair p \<and> (quoted p \<or> \<not> has_prefix (Value p) [QUOTE])"
  shows "parseKV_loop pairs (concat (map (\<lambda>p. SP # print_pair p) ps)) = pairs @ ps"
  using assms
proof (induction ps arbitrary: pairs)
  case (Cons p ps)
  have blank: "isBlank SP" by (simp add: isBlank_def)
  have "token_stop (concat (map (\<lambda>p. SP # print_pair p) ps))"
    using join_stop [of "map print_pair ps"] by (simp add: comp_def)
  with Cons show ?case
    by (simp add: parseKV_loop_blank [OF blank] parseKV_loop_pair)
qed simp

lemma parse_print_kv:
  assumes "\<forall>p \<in> set ps. wf_pair p \<and> (quoted p \<or> \<not> has_prefix (Value p) [QUOTE])"
  shows "parseKV (print_kv ps) = ps"
proof (cases ps)
  case Nil
  then show ?thesis by (simp add: parseKV_def print_kv_def)
next
  case (Cons p ps')
  have blank: "isBlank SP" by (simp add: isBlank_def)
  have "SP # print_kv ps = concat (map (\<lambda>p. SP # print_pair p) ps)"
    by (simp add: Cons print_kv_def join_byte_Cons comp_def)
  then have "parseKV_loop [] (SP # print_kv ps) = ps"
    using parseKV_loop_print [OF assms, of "[]"] by simp
  then show ?thesis by (simp add: parseKV_def parseKV_loop_blank [OF blank])
qed

lemma continue_value_wf:
  assumes "\<forall>p \<in> set pairs. wf_pair p" and "is_token w" and "w \<noteq> []" and "snd (keyAt w) = 0"
  shows "\<forall>p \<in> set (continue_value pairs w). wf_pair p"
proof (cases "pairs \<noteq> [] \<and> \<not> quoted (last pairs)")
  case True
  then have "wf_pair (last pairs)" using assms(1) by simp
  with True assms have "wf_pair ((last pairs)\<lparr>Value := (if Value (last pairs) = [] then w
      else Value (last pairs) @ [SP] @ w)\<rparr>)"
    using plain_value_extend [of "Value (last pairs)" w]
    by (auto simp: wf_pair_def plain_value_token)
  with True assms(1) show ?thesis
    by (auto simp: continue_value_def dest: in_set_butlastD)
next
  case False
  with assms(1) show ?thesis by (auto simp: continue_value_def)
qed

lemma is_token_take: "is_token (take (tokenEnd s) s)"
  by (auto simp: is_token_def tokenEnd_def takeWhile_eq_take [symmetric] dest: set_takeWhileD)

lemma token_stop_drop: "token_stop (drop (tokenEnd s) s)"
  unfolding token_stop_def tokenEnd_def dropWhile_eq_drop [symmetric]
  using hd_dropWhile [of "\<lambda>c. \<not> isBlank c" s] by auto

lemma parseKV_loop_wf:
  "\<forall>p \<in> set pairs. wf_pair p \<Longrightarrow> \<forall>p \<in> set (parseKV_loop pairs body). wf_pair p"
proof (induction pairs body rule: parseKV_loop.induct)
  case (1 pairs body)
  define s where "s = dropWhile isBlank body"
  obtain key n where k: "keyAt s = (key, n)" by (cases "keyAt s")
  show ?case
  proof (cases "s = []")
    case True
    with "1.prems" show ?thesis
      by (subst parseKV_loop.simps) (simp add: s_def [symmetric])
  next
    case False
    note eq = parseKV_loop.simps [of pairs body, unfolded Let_def, folded s_def, unfolded k prod.case,
        unfolded if_not_P [OF False]]
    show ?thesis
    proof (cases "n = 0")
      case True
      let ?w = "take (tokenEnd s) s"
      have "0 < tokenEnd s"
        using False hd_dropWhile [of isBlank body] by (intro tokenEnd_pos) (auto simp: s_def)
      with False have "?w \<noteq> []" by simp
      moreover have "keyAt_loop [] (?w @ drop (tokenEnd s) s) = keyAt_loop [] ?w"
        by (rule keyAt_loop_stop [OF token_stop_drop is_token_take])
      then have "keyAt ?w = keyAt s"
        by (simp add: keyAt_def)
      ultimately have "\<forall>p \<in> set (continue_value pairs ?w). wf_pair p"
        using k True "1.prems" by (intro continue_value_wf is_token_take) simp_all
      from "1.IH"(1) [OF s_def False k [symmetric] True this] show ?thesis
        by (simp only: eq True simp_thms if_True)
    next
      case n: False
      define t where "t = drop n s"
      obtain v m where v: "unquote t = (v, m)" by (cases "unquote t")
      have key: "valid_key key" using keyAt_sound [OF k] n by simp
      show ?thesis
      proof (cases "t \<noteq> [] \<and> hd t = QUOTE")
        case True
        have "\<forall>p \<in> set (pairs @ [\<lparr>Key = key, Value = v, quoted = True\<rparr>]). wf_pair p"
          using "1.prems" key by (auto simp: wf_pair_def)
        from "1.IH"(2) [OF s_def False k [symmetric] n t_def True v [symmetric] this] show ?thesis
          by (simp only: eq n True t_def [symmetric] v prod.case simp_thms if_True if_False)
      next
        case t: False
        have "\<forall>p \<in> set (pairs @ [\<lparr>Key = key, Value = take (tokenEnd t) t, quoted = False\<rparr>]). wf_pair p"
          using "1.prems" key is_token_take by (auto simp: wf_pair_def plain_value_token)
        from "1.IH"(3) [OF s_def False k [symmetric] n t_def t this] show ?thesis
          by (simp only: eq n t t_def [symmetric] if_False)
      qed
    qed
  qed
qed

text \<open>
  C29. Round trip: every list of well-formed pairs is read back from its printed form,
  quoted values with every byte they hold, unquoted ones with their single spaces. A
  value that begins with a double quote must be written quoted.
\<close>

theorem parseKV_roundtrip:
  assumes "\<forall>p \<in> set ps. wf_pair p \<and> (quoted p \<or> \<not> has_prefix (Value p) [QUOTE])"
  shows "parseKV (print_kv ps) = ps"
  by (rule parse_print_kv [OF assms])

lemma sample_pairs_wf:
  "\<forall>p \<in> set [\<lparr>Key = ''msg'', Value = ''DNS blocked'', quoted = False\<rparr>,
             \<lparr>Key = ''a'', Value = [QUOTE, BACKSLASH, SP], quoted = True\<rparr>].
     wf_pair p \<and> (quoted p \<or> \<not> has_prefix (Value p) [QUOTE])"
  by (simp add: wf_pair_def valid_key_def plain_value_def plain_tokens_def is_token_def
      isBlank_def isLetter_def isDigit_def key_char_def keyAt_def has_prefix_def)

theorem parseKV_roundtrip_witness:
  "parseKV (print_kv [\<lparr>Key = ''msg'', Value = ''DNS blocked'', quoted = False\<rparr>,
                      \<lparr>Key = ''a'', Value = [QUOTE, BACKSLASH, SP], quoted = True\<rparr>]) =
   [\<lparr>Key = ''msg'', Value = ''DNS blocked'', quoted = False\<rparr>,
    \<lparr>Key = ''a'', Value = [QUOTE, BACKSLASH, SP], quoted = True\<rparr>]"
  by (rule parseKV_roundtrip [OF sample_pairs_wf])

text \<open>
  Whatever the body, every pair read from it is well formed: its key is in the
  grammar the code documents, and an unquoted value is tokens joined by single spaces,
  none of which after the first starts a pair of its own.
\<close>

theorem parseKV_well_formed: "list_all wf_pair (parseKV body)"
  using parseKV_loop_wf [of "[]" body] by (simp add: parseKV_def list_all_iff)

text \<open>
  Reading is stable: printing the pairs read from any body and reading them again
  gives the same pairs, unless an unquoted value begins with a double quote (which
  happens only for a quoted token after an empty value, as in \<open>a= "x"\<close>).
\<close>

theorem parseKV_stable:
  assumes "list_all (\<lambda>p. quoted p \<or> \<not> has_prefix (Value p) [QUOTE]) (parseKV body)"
  shows "parseKV (print_kv (parseKV body)) = parseKV body"
  using assms parseKV_loop_wf [of "[]" body]
  by (intro parse_print_kv) (auto simp: list_all_iff parseKV_def)

lemma parseKV_sample:
  "parseKV ''up a=1  b=x y'' =
   [\<lparr>Key = ''a'', Value = ''1'', quoted = False\<rparr>, \<lparr>Key = ''b'', Value = ''x y'', quoted = False\<rparr>]"
  by (simp add: parseKV_def parseKV_loop.simps keyAt_def isBlank_def isLetter_def isDigit_def
      tokenEnd_def continue_value_def)

theorem parseKV_stable_witness:
  "parseKV (print_kv (parseKV ''up a=1  b=x y'')) = parseKV ''up a=1  b=x y''"
  by (rule parseKV_stable) (simp add: parseKV_sample has_prefix_def)

end
