(* ===== verification/Go_Time.thy ===== *)
theory Go_Time
  imports Go_Strings
begin

text \<open>
  What the source uses of Go's package \<open>time\<close>. A \<open>time.Time\<close> is an instant, \<open>gotime\<close>: the
  nanoseconds since 1970-01-01T00:00:00Z, an unbounded \<open>int\<close>, wherever the code turns it into
  UTC before it prints it or does not print it. Where it prints one as it came, it is a
  \<open>zoned\<close>: the instant and its offset from UTC. A \<open>time.Duration\<close> is an \<open>int64\<close> of nanoseconds; where
  the source relies on its bounds (\<open>Time.Sub\<close> saturates) they are written out.

  \<open>time.Parse\<close> is modelled for the two layouts the source uses, with the freedom the
  library allows (one-digit hours, a comma before the fraction, offsets up to 24:60).
\<close>

type_synonym gotime = int
type_synonym duration = int

abbreviation (input) nanosecond :: duration where "nanosecond \<equiv> 1"
definition second :: duration where "second = 1000000000"
definition minute :: duration where "minute = 60 * second"
definition hour :: duration where "hour = 60 * minute"
definition day :: duration where "day = 24 * hour"

definition max_duration :: duration where "max_duration = 2 ^ 63 - 1"
definition min_duration :: duration where "min_duration = - (2 ^ 63)"

lemmas duration_defs = second_def minute_def hour_def day_def

text \<open>\<open>t.Sub(u)\<close> saturates.\<close>

definition time_sub :: "gotime \<Rightarrow> gotime \<Rightarrow> duration" where
  "time_sub t u = max min_duration (min max_duration (t - u))"

text \<open>
  \<open>t.Truncate(d)\<close>: down to a multiple of \<open>d\<close> since the zero time, January 1 of year 1.
\<close>

definition zero_time :: gotime where "zero_time = - 62135596800 * second"

definition time_truncate :: "gotime \<Rightarrow> duration \<Rightarrow> gotime" where
  "time_truncate t d = (if d \<le> 0 then t else t - (t - zero_time) mod d)"

lemma zero_time_days: "day dvd zero_time"
  by (simp add: zero_time_def duration_defs)

text \<open>For a width that divides a day, truncation counts from the Unix epoch too.\<close>

lemma time_truncate_epoch:
  assumes "0 < d" and "d dvd day"
  shows "time_truncate t d = t - t mod d"
proof -
  have "d dvd zero_time"
    using assms(2) zero_time_days by (rule dvd_trans)
  then have "(t - zero_time) mod d = t mod d"
    by (simp add: mod_diff_right_eq [symmetric])
  with assms(1) show ?thesis by (simp add: time_truncate_def)
qed

subsection \<open>Calendar\<close>

definition leap_year :: "int \<Rightarrow> bool" where
  "leap_year y \<longleftrightarrow> y mod 4 = 0 \<and> (y mod 100 \<noteq> 0 \<or> y mod 400 = 0)"

definition days_in :: "int \<Rightarrow> int \<Rightarrow> int" where
  "days_in m y =
     (if m = 2 then (if leap_year y then 29 else 28)
      else if m \<in> {4, 6, 9, 11} then 30 else 31)"

text \<open>Days from 1970-01-01 to a date of the proleptic Gregorian calendar.\<close>

definition days_from_civil :: "int \<Rightarrow> int \<Rightarrow> int \<Rightarrow> int" where
  "days_from_civil y m d =
     (let y' = (if m \<le> 2 then y - 1 else y);
          era = y' div 400; yoe = y' mod 400;
          mp = (if 2 < m then m - 3 else m + 9);
          doy = (153 * mp + 2) div 5 + d - 1;
          doe = yoe * 365 + yoe div 4 - yoe div 100 + doy
      in era * 146097 + doe - 719468)"

subsection \<open>Times with their zone\<close>

text \<open>
  The offset is in seconds. \<open>Before\<close> and \<open>Equal\<close> compare instants. \<open>local\<close> below is the zone of the
  process: its offset at an instant.
\<close>

record zoned =
  tmInstant :: gotime
  tmOffset :: int

definition in_zone :: "(gotime \<Rightarrow> int) \<Rightarrow> gotime \<Rightarrow> zoned" where
  "in_zone local t = \<lparr>tmInstant = t, tmOffset = local t\<rparr>"

definition utc :: "gotime \<Rightarrow> zoned" where "utc t = \<lparr>tmInstant = t, tmOffset = 0\<rparr>"

lemma zoned_simps [simp]:
  "tmInstant (utc t) = t" "tmOffset (utc t) = 0"
  "tmInstant (in_zone local t) = t" "tmOffset (in_zone local t) = local t"
  by (simp_all add: utc_def in_zone_def)

text \<open>
  \<open>Time.MarshalJSON\<close> fails on a year outside of 0 to 9999, as the zone's clock shows it, and on
  an offset of 24 hours or more. What it writes of the offset are whole minutes.
\<close>

definition wall_clock :: "zoned \<Rightarrow> int" where
  "wall_clock t = tmInstant t + tmOffset t * second"

definition time_marshals :: "zoned \<Rightarrow> bool" where
  "time_marshals t \<longleftrightarrow>
     days_from_civil 0 1 1 * day \<le> wall_clock t \<and> wall_clock t < days_from_civil 10000 1 1 * day
     \<and> \<bar>tmOffset t\<bar> < 24 * 60 * 60"

definition whole_minutes :: "zoned \<Rightarrow> bool" where
  "whole_minutes t \<longleftrightarrow> tmOffset t mod 60 = 0"

subsection \<open>Parsing\<close>

text \<open>\<open>getnum\<close>: two digits, or one where \<open>fixed\<close> is false.\<close>

fun getnum :: "bool \<Rightarrow> bytes \<Rightarrow> (int \<times> bytes) option" where
  "getnum fixed [] = None"
| "getnum fixed (a # s) =
     (if \<not> ascii_digit a then None
      else (case s of
          b # s' \<Rightarrow>
            if ascii_digit b then Some (digit_value a * 10 + digit_value b, s')
            else if fixed then None else Some (digit_value a, s)
        | [] \<Rightarrow> if fixed then None else Some (digit_value a, s)))"

definition skip_byte :: "char \<Rightarrow> bytes \<Rightarrow> bytes option" where
  "skip_byte c s = (case s of x # s' \<Rightarrow> if x = c then Some s' else None | [] \<Rightarrow> None)"

text \<open>\<open>skip\<close> of a layout's space: any run of spaces, or the end of the value.\<close>

definition skip_spaces :: "bytes \<Rightarrow> bytes option" where
  "skip_spaces s =
     (if s \<noteq> [] \<and> hd s \<noteq> SP then None else Some (dropWhile (\<lambda>c. c = SP) s))"

definition long_year :: "bytes \<Rightarrow> (int \<times> bytes) option" where
  "long_year s =
     (if 4 \<le> length s \<and> all_digits (take 4 s)
      then Some (digits_value (take 4 s), drop 4 s) else None)"

text \<open>A number field with its range, the upper bound excluded.\<close>

definition ranged :: "int \<Rightarrow> int \<Rightarrow> (int \<times> bytes) option \<Rightarrow> (int \<times> bytes) option" where
  "ranged lo hi r = Option.bind r (\<lambda>(n, s). if lo \<le> n \<and> n < hi then Some (n, s) else None)"

text \<open>
  The fraction that may follow the seconds whatever the layout: its nanoseconds, from
  at most nine digits.
\<close>

definition fraction :: "bytes \<Rightarrow> int \<times> bytes" where
  "fraction s =
     (if 2 \<le> length s \<and> (s ! 0 = CHR ''.'' \<or> s ! 0 = CHR '','') \<and> ascii_digit (s ! 1)
      then (let ds = takeWhile ascii_digit (tl s); kept = take 9 ds in
            (digits_value kept * 10 ^ (9 - length kept), drop (length ds) (tl s)))
      else (0, s))"

text \<open>\<open>Z07:00\<close>: the offset in seconds.\<close>

definition zone_offset :: "bytes \<Rightarrow> (int \<times> bytes) option" where
  "zone_offset s =
     (if s \<noteq> [] \<and> hd s = CHR ''Z'' then Some (0, tl s)
      else if length s < 6 \<or> s ! 3 \<noteq> CHR '':'' then None
      else (case (getnum True (take 2 (drop 1 s)), getnum True (take 2 (drop 4 s))) of
          (Some (hr, _), Some (mm, _)) \<Rightarrow>
            if 24 < hr \<or> 60 < mm then None
            else if s ! 0 = CHR ''+'' then Some ((hr * 60 + mm) * 60, drop 6 s)
            else if s ! 0 = CHR ''-'' then Some (- ((hr * 60 + mm) * 60), drop 6 s)
            else None
        | _ \<Rightarrow> None))"

definition clock_time :: "bytes \<Rightarrow> (int \<times> int \<times> bytes) option" where
  "clock_time s =
     Option.bind (ranged 0 24 (getnum False s)) (\<lambda>(h, s).
     Option.bind (skip_byte (CHR '':'') s) (\<lambda>s.
     Option.bind (ranged 0 60 (getnum True s)) (\<lambda>(m, s).
     Option.bind (skip_byte (CHR '':'') s) (\<lambda>s.
     Option.bind (ranged 0 60 (getnum True s)) (\<lambda>(sec, s).
     (case fraction s of (ns, s) \<Rightarrow> Some ((h * 60 + m) * 60 + sec, ns, s)))))))"

text \<open>\<open>time.Parse(time.RFC3339, s)\<close>.\<close>

definition parse_rfc3339 :: "bytes \<Rightarrow> gotime option" where
  "parse_rfc3339 s =
     Option.bind (long_year s) (\<lambda>(y, s).
     Option.bind (skip_byte (CHR ''-'') s) (\<lambda>s.
     Option.bind (ranged 1 13 (getnum True s)) (\<lambda>(m, s).
     Option.bind (skip_byte (CHR ''-'') s) (\<lambda>s.
     Option.bind (getnum True s) (\<lambda>(d, s).
     Option.bind (skip_byte (CHR ''T'') s) (\<lambda>s.
     Option.bind (clock_time s) (\<lambda>(secs, ns, s).
     Option.bind (zone_offset s) (\<lambda>(off, s).
     (if s = [] \<and> 1 \<le> d \<and> d \<le> days_in m y
      then Some ((days_from_civil y m d * 86400 + secs - off) * second + ns)
      else None)))))))))"

text \<open>
  Whether \<open>time.Parse(time.Stamp, s)\<close> succeeds, with layout \<open>Jan _2 15:04:05\<close>. The
  year is 0, a leap year; the source uses nothing else of the result.
\<close>

definition short_months :: "bytes list" where
  "short_months = [''jan'', ''feb'', ''mar'', ''apr'', ''may'', ''jun'', ''jul'', ''aug'',
                   ''sep'', ''oct'', ''nov'', ''dec'']"

definition short_month :: "bytes \<Rightarrow> (int \<times> bytes) option" where
  "short_month s =
     (let m = map ascii_lower_byte (take 3 s) in
      if m \<in> set short_months
      then Some (int (length (takeWhile (\<lambda>x. x \<noteq> m) short_months)) + 1, drop 3 s) else None)"

definition parse_stamp :: "bytes \<Rightarrow> bool" where
  "parse_stamp s =
     (case
       Option.bind (short_month s) (\<lambda>(m, s).
       Option.bind (skip_spaces s) (\<lambda>s.
       Option.bind (getnum False s) (\<lambda>(d, s).
       Option.bind (skip_spaces s) (\<lambda>s.
       Option.bind (clock_time s) (\<lambda>(secs, ns, s).
       (if s = [] \<and> 1 \<le> d \<and> d \<le> days_in m 0 then Some () else None))))))
     of Some _ \<Rightarrow> True | None \<Rightarrow> False)"

end
