(* ===== verification/Syslog.thy ===== *)
theory Syslog
  imports Go_Time
begin

text \<open>
  \<open>internal/ingest/syslog.go\<close>: reading an RFC 5424 or RFC 3164 header. Strings are
  indexed as the code indexes them, so an index past the end of the string is a
  value of the model (\<open>Panic\<close>) and not something the types exclude.

  The second half states what the functions promise: \<open>sd_scan\<close> is the reading of
  STRUCTURED-DATA as an automaton over bytes, \<open>print5424\<close> writes a message the way
  RFC 5424 does, and the lemmas connect both with the functions of the code.
\<close>

subsection \<open>The functions of the code\<close>

record syslogMsg =
  msgSeverity :: "int option"
  msgTime :: "gotime option"
  msgHost :: bytes
  msgApp :: bytes
  msgBody :: bytes

definition empty_msg :: syslogMsg where
  "empty_msg = \<lparr>msgSeverity = None, msgTime = None, msgHost = [], msgApp = [], msgBody = []\<rparr>"

text \<open>\<open>line[1:end]\<close> has one to three bytes, so \<open>Atoi\<close> cannot overflow.\<close>

definition parsePRI :: "bytes \<Rightarrow> (int \<times> bytes) option" where
  "parsePRI line =
     (if \<not> has_prefix line ''<'' then None
      else (case index_byte line (CHR ''>'') of
          None \<Rightarrow> None
        | Some end_ \<Rightarrow>
            if end_ < 2 \<or> 4 < end_ then None
            else (case atoi (take (end_ - 1) (drop 1 line)) of
                None \<Rightarrow> None
              | Some n \<Rightarrow> if n < 0 \<or> 191 < n then None else Some (n, drop (end_ + 1) line))))"

definition nilValue :: "bytes \<Rightarrow> bytes" where
  "nilValue s = (if s = ''-'' then [] else s)"

text \<open>
  The inner loop of \<open>structuredDataEnd\<close> from index \<open>i\<close>: the index it stops at. An
  escape moves on by two, so the result may be \<open>length s + 1\<close>.
\<close>

function sd_inner :: "bytes \<Rightarrow> nat \<Rightarrow> bool \<Rightarrow> nat" where
  "sd_inner s i inValue =
     (if \<not> i < length s then i
      else if s ! i = BACKSLASH \<and> inValue then sd_inner s (i + 2) inValue
      else (let inValue' = (if s ! i = QUOTE then \<not> inValue else inValue) in
            if s ! i = CHR '']'' \<and> \<not> inValue' then i
            else sd_inner s (i + 1) inValue'))"
  by pat_completeness auto
termination
  by (relation "measure (\<lambda>(s, i, v). length s - i)") auto

declare sd_inner.simps [simp del]

lemma sd_inner_ge: "i \<le> sd_inner s i v"
proof (induction s i v rule: sd_inner.induct)
  case (1 s i v)
  show ?case
  proof (cases "i < length s")
    case False
    then show ?thesis by (subst sd_inner.simps) simp
  next
    case True
    then have "s ! i = BACKSLASH \<and> v \<Longrightarrow> i + 2 \<le> sd_inner s (i + 2) v"
      and "\<not> (s ! i = BACKSLASH \<and> v) \<Longrightarrow> w = (if s ! i = QUOTE then \<not> v else v) \<Longrightarrow>
           \<not> (s ! i = CHR '']'' \<and> \<not> w) \<Longrightarrow> i + 1 \<le> sd_inner s (i + 1) w" for w
      using "1.IH" by blast+
    with True show ?thesis
      by (subst sd_inner.simps) (simp only: Let_def, force)
  qed
qed

text \<open>
  The outer loop. The comparison \<open>s[i] == ' '\<close> of the last line is evaluated only for
  \<open>i > 0\<close> and \<open>i \<noteq> len(s)\<close>, and panics when \<open>i\<close> is beyond the string.
\<close>

function sd_outer :: "bytes \<Rightarrow> nat \<Rightarrow> (nat \<times> bool) outcome" where
  "sd_outer s i =
     (if i < length s \<and> s ! i = CHR ''['' then
        (let j = sd_inner s (i + 1) False in
         if j = length s then Ret (0, False) else sd_outer s (j + 1))
      else if i = 0 then Ret (i, False)
      else if i = length s then Ret (i, True)
      else if i < length s then Ret (i, s ! i = SP)
      else Panic)"
  by pat_completeness auto
termination
proof (relation "measure (\<lambda>(s, i). length s - i)", simp)
  fix s :: bytes and i j
  assume "i < length s \<and> s ! i = CHR ''[''" "j = sd_inner s (i + 1) False"
  then show "((s, j + 1), s, i) \<in> measure (\<lambda>(s, i). length s - i)"
    using sd_inner_ge [of "i + 1" s False] by auto
qed

declare sd_outer.simps [simp del]

definition structuredDataEnd :: "bytes \<Rightarrow> (nat \<times> bool) outcome" where
  "structuredDataEnd s =
     (if has_prefix s ''-'' then Ret (1, length s = 1 \<or> s ! 1 = SP) else sd_outer s 0)"

definition BOM :: bytes where
  "BOM = [CHR 0xEF, CHR 0xBB, CHR 0xBF]"

text \<open>The loop that cuts the five fields: \<open>None\<close> when a space is missing.\<close>

fun cut_fields :: "nat \<Rightarrow> bytes \<Rightarrow> (bytes list \<times> bytes) option" where
  "cut_fields 0 s = Some ([], s)"
| "cut_fields (Suc n) s =
     (case cut_byte s SP of
        (f, rest, ok) \<Rightarrow>
          if \<not> ok then None
          else map_option (\<lambda>(fs, r). (f # fs, r)) (cut_fields n rest))"

text \<open>A timestamp is \<open>-\<close> (no time) or RFC 3339; \<open>None\<close> when it is neither.\<close>

definition header_time :: "bytes \<Rightarrow> gotime option option" where
  "header_time ts = (if ts = ''-'' then Some None else map_option Some (parse_rfc3339 ts))"

definition parse5424 :: "bytes \<Rightarrow> syslogMsg option outcome" where
  "parse5424 s =
     (case cut_fields 5 s of
        Some ([ts, host, app, procid, msgid], rest) \<Rightarrow>
          (case header_time ts of
             None \<Rightarrow> Ret None
           | Some t \<Rightarrow>
               outcome_bind (structuredDataEnd rest) (\<lambda>(n, ok).
               if \<not> ok then Ret None
               else Ret (Some \<lparr>msgSeverity = None, msgTime = t, msgHost = nilValue host,
                   msgApp = nilValue app,
                   msgBody = trim_prefix (trim_prefix (drop n rest) [SP]) BOM\<rparr>)))
      | _ \<Rightarrow> Ret None)"

text \<open>
  \<open>tag3164\<close>, the expression \<open>^([A-Za-z0-9_./-]{1,48})(?:\[[0-9]+\])?:(?: |$)\<close>: neither
  \<open>[\<close> nor \<open>:\<close> is in the class, so the run it matches is the longest one. The result is
  the application and what follows the match.
\<close>

definition tag_byte :: "char \<Rightarrow> bool" where
  "tag_byte c \<longleftrightarrow> ascii_digit c \<or> (CHR ''A'' \<le> c \<and> c \<le> CHR ''Z'')
     \<or> (CHR ''a'' \<le> c \<and> c \<le> CHR ''z'') \<or> c \<in> set ''_./-''"

definition skip_pid :: "bytes \<Rightarrow> bytes" where
  "skip_pid s =
     (let ds = takeWhile ascii_digit (tl s); rest = dropWhile ascii_digit (tl s) in
      if has_prefix s ''['' \<and> ds \<noteq> [] \<and> has_prefix rest '']'' then tl rest else s)"

definition tag3164 :: "bytes \<Rightarrow> (bytes \<times> bytes) option" where
  "tag3164 s =
     (let app = takeWhile tag_byte s; rest = skip_pid (dropWhile tag_byte s) in
      if app = [] \<or> 48 < length app \<or> \<not> has_prefix rest '':'' then None
      else if tl rest = [] then Some (app, [])
      else if has_prefix (tl rest) [SP] then Some (app, drop 2 rest)
      else None)"

definition parse3164 :: "bytes \<Rightarrow> syslogMsg option" where
  "parse3164 s =
     (if length s < 16 \<or> s ! 15 \<noteq> SP then None
      else if \<not> parse_stamp (take 15 s) then None
      else
        (let s1 = drop 16 s;
             (host, s2) = (if tag3164 s1 = None
                           then (case cut_byte s1 SP of (h, r, _) \<Rightarrow> (h, r)) else ([], s1));
             (app, s3) = (case tag3164 s2 of None \<Rightarrow> ([], s2) | Some (a, r) \<Rightarrow> (a, r))
         in Some \<lparr>msgSeverity = None, msgTime = None, msgHost = host, msgApp = app,
                  msgBody = s3\<rparr>))"

text \<open>The part of \<open>parseSyslog\<close> after RFC 5424 was not recognised.\<close>

definition parse_older :: "int \<Rightarrow> bytes \<Rightarrow> syslogMsg" where
  "parse_older sev rest =
     (case parse3164 rest of
        Some m \<Rightarrow> m\<lparr>msgSeverity := Some sev\<rparr>
      | None \<Rightarrow> empty_msg\<lparr>msgSeverity := Some sev, msgBody := rest\<rparr>)"

definition parseSyslog :: "bytes \<Rightarrow> syslogMsg outcome" where
  "parseSyslog line0 =
     (let line = trim_right_set line0 [CR, LF] in
      case parsePRI line of
        None \<Rightarrow> Ret (empty_msg\<lparr>msgBody := line\<rparr>)
      | Some (pri, rest) \<Rightarrow>
          (let sev = pri mod 8 in
           case cut_prefix rest (''1 '') of
             None \<Rightarrow> Ret (parse_older sev rest)
           | Some after \<Rightarrow>
               outcome_bind (parse5424 after) (\<lambda>r. case r of
                   Some m \<Rightarrow> Ret (m\<lparr>msgSeverity := Some sev\<rparr>)
                 | None \<Rightarrow> Ret (parse_older sev rest))))"


subsection \<open>STRUCTURED-DATA as an automaton\<close>

text \<open>
  What the comment on \<open>structuredDataEnd\<close> describes, byte by byte: between elements, in
  an element, in a quoted value, and after a backslash in a value. The count is the
  number of bytes read. The string may end in any state; after a backslash, the
  code's index has left the string.
\<close>

datatype sd_state = SdBetween | SdElem | SdValue | SdEscape

fun sd_scan :: "sd_state \<Rightarrow> nat \<Rightarrow> bytes \<Rightarrow> (nat \<times> bool) outcome" where
  "sd_scan SdBetween n [] = Ret (n, 0 < n)"
| "sd_scan SdBetween n (c # cs) =
     (if c = CHR ''['' then sd_scan SdElem (n + 1) cs else Ret (n, 0 < n \<and> c = SP))"
| "sd_scan SdElem n [] = Ret (0, False)"
| "sd_scan SdElem n (c # cs) =
     sd_scan (if c = QUOTE then SdValue else if c = CHR '']'' then SdBetween else SdElem) (n + 1) cs"
| "sd_scan SdValue n [] = Ret (0, False)"
| "sd_scan SdValue n (c # cs) =
     sd_scan (if c = QUOTE then SdElem else if c = BACKSLASH then SdEscape else SdValue) (n + 1) cs"
| "sd_scan SdEscape n [] = Panic"
| "sd_scan SdEscape n (c # cs) = sd_scan SdValue (n + 1) cs"

lemma drop_at: "i < length s \<Longrightarrow> drop i s = s ! i # drop (i + 1) s"
  by (simp add: Cons_nth_drop_Suc)

lemma sd_inner_end: "length s \<le> i \<Longrightarrow> sd_inner s i v = i"
  by (subst sd_inner.simps) simp

text \<open>Where the inner loop stops, in terms of the automaton.\<close>

definition sd_resume :: "bytes \<Rightarrow> nat \<Rightarrow> (nat \<times> bool) outcome" where
  "sd_resume s j =
     (if j < length s then sd_scan SdBetween (j + 1) (drop (j + 1) s)
      else if j = length s then Ret (0, False) else Panic)"

lemma sd_inner_scan:
  "i \<le> length s \<Longrightarrow>
   sd_resume s (sd_inner s i v) = sd_scan (if v then SdValue else SdElem) i (drop i s)"
proof (induction s i v rule: sd_inner.induct)
  case (1 s i v)
  note IH2 = "1.IH"(1) and IH1 = "1.IH"(2) [OF _ _ refl]
  show ?case
  proof (cases "i < length s")
    case False
    with "1.prems" show ?thesis
      by (subst sd_inner.simps) (cases v; simp add: sd_resume_def)
  next
    case i: True
    show ?thesis
    proof (cases "s ! i = BACKSLASH \<and> v")
      case True
      then have step: "sd_inner s i True = sd_inner s (i + 2) True"
        using i by (subst sd_inner.simps) simp
      show ?thesis
      proof (cases "i + 1 < length s")
        case more: True
        then have "sd_resume s (sd_inner s (i + 2) v) = sd_scan SdValue (i + 2) (drop (i + 2) s)"
          using IH2 i True by simp
        then show ?thesis
          using True drop_at [OF more] by (simp add: step drop_at [OF i])
      next
        case False
        with i have "i + 1 = length s" by simp
        then show ?thesis
          using True by (simp add: step drop_at [OF i] sd_inner_end sd_resume_def)
      qed
    next
      case plain: False
      define w where "w = (if s ! i = QUOTE then \<not> v else v)"
      show ?thesis
      proof (cases "s ! i = CHR '']'' \<and> \<not> w")
        case True
        then have "sd_inner s i v = i"
          using i plain by (subst sd_inner.simps) (auto simp: w_def Let_def split: if_splits)
        with True i show ?thesis
          by (auto simp: sd_resume_def drop_at [OF i] w_def split: if_splits)
      next
        case False
        then have "sd_inner s i v = sd_inner s (i + 1) w"
          using i plain by (subst sd_inner.simps) (auto simp: w_def Let_def)
        moreover have "sd_resume s (sd_inner s (i + 1) w)
            = sd_scan (if w then SdValue else SdElem) (i + 1) (drop (i + 1) s)"
          using IH1 i plain False by (simp add: w_def)
        ultimately show ?thesis
          using plain False by (auto simp: drop_at [OF i] w_def)
      qed
    qed
  qed
qed

lemma sd_outer_beyond: "length s < i \<Longrightarrow> sd_outer s i = Panic"
  by (subst sd_outer.simps) auto

lemma sd_outer_scan: "i \<le> length s \<Longrightarrow> sd_outer s i = sd_scan SdBetween i (drop i s)"
proof (induction s i rule: sd_outer.induct)
  case (1 s i)
  show ?case
  proof (cases "i < length s \<and> s ! i = CHR ''[''")
    case True
    define j where "j = sd_inner s (i + 1) False"
    have scan: "sd_scan SdBetween i (drop i s) = sd_resume s j"
      using True sd_inner_scan [of "i + 1" s False] by (simp add: j_def drop_at)
    have IH: "j \<noteq> length s \<Longrightarrow> j < length s \<Longrightarrow>
        sd_outer s (j + 1) = sd_scan SdBetween (j + 1) (drop (j + 1) s)"
      using "1.IH" [OF True j_def] by simp
    have "sd_outer s i = (if j = length s then Ret (0, False) else sd_outer s (j + 1))"
      using True by (subst sd_outer.simps) (simp add: j_def)
    with scan IH show ?thesis
      by (auto simp: sd_resume_def sd_outer_beyond)
  next
    case False
    with "1.prems" show ?thesis
      by (subst sd_outer.simps) (cases "i < length s"; auto simp: drop_at)
  qed
qed

text \<open>
  \<open>structuredDataEnd\<close>, a pair of nested loops over indices, computes what the
  automaton of RFC 5424's STRUCTURED-DATA computes: on every string, the same end,
  the same answer and the same failure.
\<close>

theorem structuredDataEnd_automaton:
  "structuredDataEnd s =
     (case s of
        c # cs \<Rightarrow> if c = CHR ''-'' then Ret (1, cs = [] \<or> hd cs = SP) else sd_scan SdBetween 0 s
      | [] \<Rightarrow> Ret (0, False))"
proof (cases s)
  case Nil
  then show ?thesis
    by (simp add: structuredDataEnd_def has_prefix_def sd_outer_scan)
next
  case (Cons c cs)
  then show ?thesis
    by (cases cs) (simp_all add: structuredDataEnd_def has_prefix_def sd_outer_scan)
qed

lemma structuredDataEnd_scan:
  "\<not> has_prefix s ''-'' \<Longrightarrow> structuredDataEnd s = sd_scan SdBetween 0 s"
  by (simp add: structuredDataEnd_def sd_outer_scan)

lemma structuredDataEnd_nil: "has_prefix s ''-'' \<Longrightarrow> structuredDataEnd s \<noteq> Panic"
  by (simp add: structuredDataEnd_def)

subsection \<open>When the parser panics\<close>

fun sd_final :: "sd_state \<Rightarrow> bytes \<Rightarrow> sd_state" where
  "sd_final q [] = q"
| "sd_final SdBetween (c # cs) = (if c = CHR ''['' then sd_final SdElem cs else SdBetween)"
| "sd_final SdElem (c # cs) =
     sd_final (if c = QUOTE then SdValue else if c = CHR '']'' then SdBetween else SdElem) cs"
| "sd_final SdValue (c # cs) =
     sd_final (if c = QUOTE then SdElem else if c = BACKSLASH then SdEscape else SdValue) cs"
| "sd_final SdEscape (c # cs) = sd_final SdValue cs"

lemma sd_scan_Panic: "sd_scan q n s = Panic \<longleftrightarrow> sd_final q s = SdEscape"
  by (induction q n s rule: sd_scan.induct) auto

lemma sd_final_escape_last:
  "sd_final q s = SdEscape \<Longrightarrow> s \<noteq> [] \<Longrightarrow> last s = BACKSLASH"
proof (induction q s rule: sd_final.induct)
  case (4 c cs)
  then show ?case by (cases cs) (auto split: if_splits)
next
  case (5 c cs)
  then show ?case by (cases cs) auto
qed (auto split: if_splits)

lemma cut_byte_parts:
  assumes "cut_byte s c = (f, rest, True)"
  shows "s = f @ c # rest \<and> c \<notin> set f"
proof -
  from assms have "c \<in> set s" by (simp add: cut_byte_def split: if_splits)
  then obtain xs ys where s: "s = xs @ c # ys" and "c \<notin> set xs"
    by (meson split_list_first)
  then have "cut_byte s c = (xs, ys, True)"
    by (simp add: cut_byte_found)
  with assms s \<open>c \<notin> set xs\<close> show ?thesis by simp
qed

lemma cut_fields_suffix: "cut_fields n s = Some (fs, r) \<Longrightarrow> \<exists>pre. s = pre @ r"
proof (induction n arbitrary: s fs)
  case (Suc n)
  obtain f rest ok where c: "cut_byte s SP = (f, rest, ok)"
    using prod_cases3 by blast
  with Suc.prems obtain gs where "ok" and "cut_fields n rest = Some (gs, r)"
    by (auto split: if_splits)
  moreover from Suc.IH [OF this(2)] obtain pre where "rest = pre @ r" by blast
  ultimately have "s = (f @ SP # pre) @ r"
    using cut_byte_parts c by fastforce
  then show ?case by blast
qed simp

lemma cut_fields_length: "cut_fields n s = Some (fs, r) \<Longrightarrow> length fs = n"
  by (induction n arbitrary: s fs) (auto split: prod.splits if_splits)

text \<open>The five fields that precede STRUCTURED-DATA, with their timestamp readable.\<close>

definition sd_of :: "bytes \<Rightarrow> bytes option" where
  "sd_of s =
     (case cut_fields 5 s of
        Some (fs, rest) \<Rightarrow> if header_time (hd fs) = None then None else Some rest
      | None \<Rightarrow> None)"

lemma list5: "length xs = 5 \<Longrightarrow> \<exists>a b c d e. xs = [a, b, c, d, e]"
  by (auto simp: eval_nat_numeral length_Suc_conv)

lemma parse5424_sd_of:
  "parse5424 s = Panic \<longleftrightarrow> (\<exists>sd. sd_of s = Some sd \<and> structuredDataEnd sd = Panic)"
proof (cases "cut_fields 5 s")
  case None
  then show ?thesis by (simp add: parse5424_def sd_of_def)
next
  case (Some p)
  then obtain fs rest where p: "cut_fields 5 s = Some (fs, rest)"
    by (cases p) simp
  from list5 [OF cut_fields_length [OF p]] obtain a b c d e where "fs = [a, b, c, d, e]"
    by blast
  with p show ?thesis
    by (cases "header_time a"; cases "structuredDataEnd rest")
      (auto simp: parse5424_def sd_of_def split: prod.splits if_splits)
qed

lemma parsePRI_suffix: "parsePRI line = Some (pri, rest) \<Longrightarrow> \<exists>pre. line = pre @ rest"
  by (auto simp: parsePRI_def Let_def split: if_splits option.splits)
    (metis append_take_drop_id)

lemma sd_of_suffix: "sd_of s = Some sd \<Longrightarrow> \<exists>pre. s = pre @ sd"
  by (auto simp: sd_of_def split: option.splits prod.splits if_splits dest: cut_fields_suffix)

lemma sd_of_escape_last:
  assumes "sd_of after = Some sd" and "sd_final SdBetween sd = SdEscape"
    and "line = pre @ rest" and "rest = ''1 '' @ after"
  shows "last line = BACKSLASH"
proof -
  from assms(2) have "sd \<noteq> []" by auto
  moreover from assms(2) this have "last sd = BACKSLASH" by (rule sd_final_escape_last)
  moreover from assms(1) obtain pre' where "after = pre' @ sd" using sd_of_suffix by blast
  ultimately show ?thesis using assms(3,4) by auto
qed

text \<open>
  C40. \<open>parseSyslog\<close> promises never to fail. It panics on exactly the lines whose header
  is RFC 5424's up to a STRUCTURED-DATA that the end of the line cuts off after a
  backslash in a quoted value; such a line ends in a backslash.
\<close>

theorem parseSyslog_panic_iff:
  "(parseSyslog line0 = Panic) =
     (\<exists>pri after sd. parsePRI (trim_right_set line0 [CR, LF]) = Some (pri, ''1 '' @ after)
        \<and> sd_of after = Some sd \<and> \<not> has_prefix sd ''-'' \<and> sd_final SdBetween sd = SdEscape
        \<and> last (trim_right_set line0 [CR, LF]) = BACKSLASH)"
proof -
  define line where "line = trim_right_set line0 [CR, LF]"
  show ?thesis
  proof (cases "parsePRI line")
    case None
    then show ?thesis by (simp add: parseSyslog_def line_def)
  next
    case (Some p)
    then obtain pri rest where p: "parsePRI line = Some (pri, rest)" by (cases p) simp
    then obtain pre where pre: "line = pre @ rest"
      using parsePRI_suffix by blast
    show ?thesis
    proof (cases "cut_prefix rest ''1 ''")
      case None
      then show ?thesis
        using p
        by (auto simp: parseSyslog_def line_def cut_prefix_def has_prefix_def split: if_splits)
    next
      case (Some after)
      then have rest: "rest = ''1 '' @ after"
        by (auto simp: cut_prefix_def has_prefix_iff split: if_splits)
      have "parseSyslog line0 = Panic \<longleftrightarrow> parse5424 after = Panic"
        using p Some by (auto simp: parseSyslog_def Let_def line_def [symmetric] outcome_bind_Panic_iff
            split: option.splits)
      also have "\<dots> \<longleftrightarrow> (\<exists>sd. sd_of after = Some sd \<and> structuredDataEnd sd = Panic)"
        by (rule parse5424_sd_of)
      also have "\<dots> \<longleftrightarrow> (\<exists>sd. sd_of after = Some sd \<and> \<not> has_prefix sd ''-''
          \<and> sd_final SdBetween sd = SdEscape)"
        using structuredDataEnd_nil structuredDataEnd_scan sd_scan_Panic by metis
      also have "\<dots> \<longleftrightarrow> (\<exists>sd. sd_of after = Some sd \<and> \<not> has_prefix sd ''-''
          \<and> sd_final SdBetween sd = SdEscape \<and> last line = BACKSLASH)"
        using sd_of_escape_last pre rest by blast
      finally show ?thesis
        using p rest by (simp add: line_def)
    qed
  qed
qed

subsection \<open>What the parser returns\<close>

lemma trim_prefix_suffix: "\<exists>pre. s = pre @ trim_prefix s p"
  by (metis append_Nil append_take_drop_id trim_prefix_def)

lemma parse5424_result:
  assumes "parse5424 s = Ret (Some m)"
  shows "(\<exists>pre. s = pre @ msgBody m) \<and> msgSeverity m = None"
proof -
  obtain fs sd where f: "cut_fields 5 s = Some (fs, sd)"
    using assms by (cases "cut_fields 5 s") (auto simp: parse5424_def)
  from list5 [OF cut_fields_length [OF f]] obtain a b c d e where "fs = [a, b, c, d, e]"
    by blast
  with assms f obtain n where
    m: "msgBody m = trim_prefix (trim_prefix (drop n sd) [SP]) BOM" "msgSeverity m = None"
    by (auto simp: parse5424_def outcome_bind_Ret_iff split: option.splits if_splits)
  obtain p1 p2 where "drop n sd = p1 @ trim_prefix (drop n sd) [SP]"
    and "trim_prefix (drop n sd) [SP] = p2 @ msgBody m"
    using m(1) trim_prefix_suffix by metis
  moreover obtain p0 where "s = p0 @ sd"
    using cut_fields_suffix [OF f] by blast
  ultimately have "s = (p0 @ take n sd @ p1 @ p2) @ msgBody m"
    by (metis append.assoc append_take_drop_id)
  with m(2) show ?thesis by blast
qed

lemma skip_pid_suffix: "\<exists>pre. s = pre @ skip_pid s"
proof (cases s)
  case (Cons c cs)
  have "\<exists>pre. cs = pre @ tl (dropWhile ascii_digit cs)"
    by (metis append_take_drop_id drop_Suc dropWhile_eq_drop tl_drop drop_drop)
  with Cons show ?thesis
    by (auto simp: skip_pid_def Let_def intro: exI [of _ "[]"]) (metis append_Cons)
qed (simp add: skip_pid_def has_prefix_def)

lemma tag3164_suffix: "tag3164 s = Some (a, r) \<Longrightarrow> \<exists>pre. s = pre @ r"
proof -
  assume "tag3164 s = Some (a, r)"
  then have "r = [] \<or> r = drop 2 (skip_pid (dropWhile tag_byte s))"
    by (auto simp: tag3164_def Let_def split: if_splits)
  moreover obtain pre where "dropWhile tag_byte s = pre @ skip_pid (dropWhile tag_byte s)"
    using skip_pid_suffix by blast
  ultimately show ?thesis
    by (metis append_assoc append_Nil2 append_take_drop_id takeWhile_dropWhile_id)
qed

lemma cut_byte_suffix: "cut_byte s c = (f, r, ok) \<Longrightarrow> \<exists>pre. s = pre @ r"
proof (cases ok)
  case False
  assume "cut_byte s c = (f, r, ok)"
  with False have "r = []" by (simp add: cut_byte_def split: if_splits)
  then show ?thesis by simp
next
  case True
  assume "cut_byte s c = (f, r, ok)"
  with True have "s = (f @ [c]) @ r" using cut_byte_parts by fastforce
  then show ?thesis by blast
qed

lemma parse3164_result:
  assumes "parse3164 s = Some m"
  shows "\<exists>pre. s = pre @ msgBody m"
proof -
  define s1 where "s1 = drop 16 s"
  define s2 where "s2 = (if tag3164 s1 = None
      then (case cut_byte s1 SP of (h, r, _) \<Rightarrow> r) else s1)"
  define s3 where "s3 = (case tag3164 s2 of None \<Rightarrow> s2 | Some (a, r) \<Rightarrow> r)"
  have "msgBody m = s3"
    using assms by (auto simp: parse3164_def s1_def s2_def s3_def Let_def
        split: if_splits option.splits prod.splits)
  moreover obtain p3 where "s2 = p3 @ s3"
    by (cases "tag3164 s2") (auto simp: s3_def dest: tag3164_suffix)
  moreover obtain p2 where "s1 = p2 @ s2"
  proof (cases "tag3164 s1 = None")
    case True
    then show ?thesis
      using that cut_byte_suffix by (cases "cut_byte s1 SP") (fastforce simp: s2_def)
  next
    case False
    then have "s2 = s1" by (auto simp: s2_def)
    then show ?thesis using that [of "[]"] by simp
  qed
  ultimately show ?thesis
    by (metis append_assoc append_take_drop_id s1_def)
qed

lemma parse_older_result:
  "(\<exists>pre. rest = pre @ msgBody (parse_older sev rest)) \<and> msgSeverity (parse_older sev rest) = Some sev"
  using parse3164_result by (auto simp: parse_older_def split: option.splits)

text \<open>
  What is read is never invented: the body that \<open>parseSyslog\<close> returns is the end of
  the line as sent, and the severity is in 0..7 and is the low part of a priority that
  stood at the start of the line; without one the whole line is the body.
\<close>

theorem parseSyslog_result:
  assumes "parseSyslog line0 = Ret m"
  shows "(\<exists>pre. trim_right_set line0 [CR, LF] = pre @ msgBody m)
    \<and> (case parsePRI (trim_right_set line0 [CR, LF]) of
         None \<Rightarrow> m = empty_msg\<lparr>msgBody := trim_right_set line0 [CR, LF]\<rparr>
       | Some (pri, rest) \<Rightarrow> msgSeverity m = Some (pri mod 8) \<and> 0 \<le> pri \<and> pri \<le> 191)"
proof (cases "parsePRI (trim_right_set line0 [CR, LF])")
  case None
  with assms show ?thesis by (auto simp: parseSyslog_def)
next
  case (Some p)
  then obtain pri rest where p: "parsePRI (trim_right_set line0 [CR, LF]) = Some (pri, rest)"
    by (cases p) simp
  then have range: "0 \<le> pri \<and> pri \<le> 191"
    by (auto simp: parsePRI_def split: if_splits option.splits)
  obtain pre where pre: "trim_right_set line0 [CR, LF] = pre @ rest"
    using parsePRI_suffix [OF p] by blast
  have "(\<exists>pre. rest = pre @ msgBody m) \<and> msgSeverity m = Some (pri mod 8)"
  proof (cases "cut_prefix rest ''1 ''")
    case None
    with assms p have "m = parse_older (pri mod 8) rest"
      by (simp add: parseSyslog_def)
    with parse_older_result show ?thesis by blast
  next
    case (Some after)
    then have after: "rest = ''1 '' @ after"
      by (auto simp: cut_prefix_def has_prefix_iff split: if_splits)
    from assms p Some obtain r where r: "parse5424 after = Ret r"
      and m: "m = (case r of Some m \<Rightarrow> m\<lparr>msgSeverity := Some (pri mod 8)\<rparr>
                   | None \<Rightarrow> parse_older (pri mod 8) rest)"
      by (auto simp: parseSyslog_def Let_def outcome_bind_Ret_iff split: option.splits)
    show ?thesis
    proof (cases r)
      case None
      with m parse_older_result show ?thesis by auto
    next
      case (Some m')
      with r parse5424_result obtain pre' where "after = pre' @ msgBody m'" by blast
      with after m Some show ?thesis
        by (auto intro: exI [of _ "''1 '' @ pre'"])
    qed
  qed
  then obtain pre' where "rest = pre' @ msgBody m" and "msgSeverity m = Some (pri mod 8)"
    by blast
  then show ?thesis
    using p range pre by (auto intro: exI [of _ "pre @ pre'"])
qed

theorem parseSyslog_result_witness:
  "parsePRI (trim_right_set ''<34>Oct 11 22:14:15 host su[12]: hello'' [CR, LF])
     = Some (34, ''Oct 11 22:14:15 host su[12]: hello'')
   \<and> (\<exists>m. parseSyslog ''<34>Oct 11 22:14:15 host su[12]: hello'' = Ret m
        \<and> msgSeverity m = Some 2 \<and> msgHost m = ''host'' \<and> msgApp m = ''su'' \<and> msgBody m = ''hello'')"
proof -
  define m where "m = \<lparr>msgSeverity = Some 2, msgTime = None, msgHost = ''host'', msgApp = ''su'',
      msgBody = ''hello''\<rparr>"
  have m: "parseSyslog ''<34>Oct 11 22:14:15 host su[12]: hello'' = Ret m"
    unfolding m_def by code_simp
  have p: "parsePRI (trim_right_set ''<34>Oct 11 22:14:15 host su[12]: hello'' [CR, LF])
     = Some (34, ''Oct 11 22:14:15 host su[12]: hello'')"
    by code_simp
  show ?thesis
    using parseSyslog_result [OF m] m p by (simp add: m_def)
qed

subsection \<open>Writing and reading RFC 5424\<close>

text \<open>
  A message as RFC 5424 writes it. A parameter's value is escaped; a STRUCTURED-DATA
  without elements is \<open>-\<close>. \<open>bom\<close> says whether the body has the byte order mark that the
  RFC asks of UTF-8 text.
\<close>

type_synonym sd_element = "bytes \<times> (bytes \<times> bytes) list"

definition escape_value :: "bytes \<Rightarrow> bytes" where
  "escape_value v =
     concat (map (\<lambda>c. if c \<in> {QUOTE, BACKSLASH, CHR '']''} then [BACKSLASH, c] else [c]) v)"

definition print_param :: "bytes \<times> bytes \<Rightarrow> bytes" where
  "print_param p = [SP] @ fst p @ ''='' @ [QUOTE] @ escape_value (snd p) @ [QUOTE]"

definition print_element :: "sd_element \<Rightarrow> bytes" where
  "print_element e = ''['' @ fst e @ concat (map print_param (snd e)) @ '']''"

definition print_sd :: "sd_element list \<Rightarrow> bytes" where
  "print_sd es = (if es = [] then ''-'' else concat (map print_element es))"

definition sd_name :: "bytes \<Rightarrow> bool" where
  "sd_name n \<longleftrightarrow> QUOTE \<notin> set n \<and> CHR '']'' \<notin> set n"

definition sd_ok :: "sd_element list \<Rightarrow> bool" where
  "sd_ok es \<longleftrightarrow> (\<forall>e \<in> set es. sd_name (fst e) \<and> (\<forall>p \<in> set (snd e). sd_name (fst p)))"

definition print5424 ::
  "int \<Rightarrow> bytes \<Rightarrow> bytes \<Rightarrow> bytes \<Rightarrow> bytes \<Rightarrow> bytes \<Rightarrow> sd_element list \<Rightarrow> bool \<Rightarrow> bytes \<Rightarrow> bytes" where
  "print5424 pri ts host app procid msgid es bom body =
     ''<'' @ itoa pri @ ''>1 '' @ concat (map (\<lambda>f. f @ [SP]) [ts, host, app, procid, msgid])
       @ print_sd es @ [SP] @ (if bom then BOM else []) @ body"

lemma sd_scan_name:
  "sd_name n \<Longrightarrow> sd_scan SdElem k (n @ r) = sd_scan SdElem (k + length n) r"
  by (induction n arbitrary: k) (auto simp: sd_name_def)

lemma sd_scan_value:
  "sd_scan SdValue k (escape_value v @ QUOTE # r) = sd_scan SdElem (k + length (escape_value v) + 1) r"
  by (induction v arbitrary: k) (auto simp: escape_value_def)

lemma sd_scan_param:
  "sd_name (fst p) \<Longrightarrow>
   sd_scan SdElem k (print_param p @ r) = sd_scan SdElem (k + length (print_param p)) r"
  by (simp add: print_param_def sd_scan_name sd_scan_value algebra_simps)

lemma sd_scan_params:
  "\<forall>p \<in> set ps. sd_name (fst p) \<Longrightarrow>
   sd_scan SdElem k (concat (map print_param ps) @ r)
     = sd_scan SdElem (k + length (concat (map print_param ps))) r"
  by (induction ps arbitrary: k) (simp_all add: sd_scan_param add.assoc)

lemma sd_scan_element:
  "sd_name (fst e) \<Longrightarrow> \<forall>p \<in> set (snd e). sd_name (fst p) \<Longrightarrow>
   sd_scan SdBetween k (print_element e @ r) = sd_scan SdBetween (k + length (print_element e)) r"
  by (simp add: print_element_def sd_scan_name sd_scan_params algebra_simps)

lemma sd_scan_elements:
  "sd_ok es \<Longrightarrow>
   sd_scan SdBetween k (concat (map print_element es) @ SP # r)
     = Ret (k + length (concat (map print_element es)), 0 < k \<or> es \<noteq> [])"
proof (induction es arbitrary: k)
  case (Cons e es)
  then have "sd_name (fst e)" and "\<forall>p \<in> set (snd e). sd_name (fst p)" and "sd_ok es"
    by (simp_all add: sd_ok_def)
  moreover have "0 < length (print_element e)"
    by (simp add: print_element_def)
  ultimately show ?case
    using Cons.IH [of "k + length (print_element e)"] by (simp add: sd_scan_element add.assoc)
qed simp

lemma structuredDataEnd_print:
  assumes "sd_ok es"
  shows "structuredDataEnd (print_sd es @ SP # r) = Ret (length (print_sd es), True)"
proof (cases es)
  case Nil
  then show ?thesis by (simp add: print_sd_def structuredDataEnd_def has_prefix_def)
next
  case (Cons e es')
  then have "\<not> has_prefix (print_sd es @ SP # r) ''-''"
    by (simp add: print_sd_def print_element_def has_prefix_def)
  moreover have "print_sd es = concat (map print_element es)"
    using Cons by (simp add: print_sd_def)
  ultimately show ?thesis
    using sd_scan_elements [OF assms, of 0 r] Cons by (simp add: structuredDataEnd_scan)
qed

lemma cut_fields_print:
  "\<forall>f \<in> set fs. SP \<notin> set f \<Longrightarrow>
   cut_fields (length fs) (concat (map (\<lambda>f. f @ [SP]) fs) @ r) = Some (fs, r)"
  by (induction fs) (simp_all add: cut_byte_found)

lemma parsePRI_print:
  assumes "0 \<le> pri" and "pri \<le> 191"
  shows "parsePRI (''<'' @ itoa pri @ ''>'' @ r) = Some (pri, r)"
proof -
  have "index_byte (''<'' @ itoa pri @ ''>'' @ r) (CHR ''>'') = Some (length (itoa pri) + 1)"
    using itoa_no_byte [of pri "CHR ''>''"] assms
    by (simp add: index_byte_def takeWhile_append ascii_digit_def less_char_def)
  moreover have "1 \<le> length (itoa pri)" and "length (itoa pri) \<le> 3"
    using itoa_length3 [of pri] itoa_nonempty [of pri] assms by (simp_all add: Suc_le_eq)
  ultimately show ?thesis
    using assms by (simp add: parsePRI_def has_prefix_def atoi_itoa itoa_nonempty)
qed

lemma trim_right_set_id:
  "s = [] \<or> last s \<notin> set cs \<Longrightarrow> trim_right_set s cs = s"
  by (cases s rule: rev_cases) (auto simp: trim_right_set_def)

text \<open>
  A message written as RFC 5424 says is read back: the severity, the time, the host
  and the application (\<open>-\<close> read as absent) and the body, whatever the structured data
  in between and however much of its values had to be escaped.
\<close>

theorem parseSyslog_print5424:
  assumes "0 \<le> pri" and "pri \<le> 191"
    and "header_time ts = Some t"
    and "\<forall>f \<in> set [ts, host, app, procid, msgid]. SP \<notin> set f"
    and "sd_ok es"
    and "bom \<or> \<not> has_prefix body BOM"
    and "body = [] \<or> last body \<notin> {CR, LF}"
  shows "parseSyslog (print5424 pri ts host app procid msgid es bom body) =
     Ret \<lparr>msgSeverity = Some (pri mod 8), msgTime = t, msgHost = nilValue host,
         msgApp = nilValue app, msgBody = body\<rparr>"
proof -
  define tail where "tail = (if bom then BOM else []) @ body"
  define after where "after = concat (map (\<lambda>f. f @ [SP]) [ts, host, app, procid, msgid])
      @ print_sd es @ SP # tail"
  define line where "line = ''<'' @ itoa pri @ ''>'' @ ''1 '' @ after"
  have line: "print5424 pri ts host app procid msgid es bom body = line"
    by (simp add: print5424_def line_def after_def tail_def)
  have "trim_right_set line [CR, LF] = line"
    using assms(7) by (intro trim_right_set_id) (auto simp: line_def after_def tail_def BOM_def)
  moreover have "parsePRI line = Some (pri, ''1 '' @ after)"
    unfolding line_def using assms(1,2) by (rule parsePRI_print)
  moreover have "cut_prefix (''1 '' @ after) ''1 '' = Some after"
    by (simp add: cut_prefix_def has_prefix_def)
  moreover have "cut_fields 5 after = Some ([ts, host, app, procid, msgid], print_sd es @ SP # tail)"
  proof -
    have "length [ts, host, app, procid, msgid] = 5" by simp
    then show ?thesis
      unfolding after_def using cut_fields_print [OF assms(4)] by (simp only:)
  qed
  moreover have "trim_prefix (trim_prefix (SP # tail) [SP]) BOM = body"
    using assms(6) by (auto simp: tail_def trim_prefix_def has_prefix_def BOM_def)
  ultimately show ?thesis
    using assms(3,5)
    by (simp add: line parseSyslog_def parse5424_def structuredDataEnd_print)
qed

theorem parseSyslog_print5424_witness:
  "print5424 165 ''2003-08-24T05:14:15Z'' ''h'' ''-'' ''p'' ''-'' [(''a'', [(''k'', ''v]'' @ [QUOTE])])] True ''x''
     = ''<165>1 2003-08-24T05:14:15Z h - p - [a k='' @ [QUOTE] @ ''v'' @ [BACKSLASH] @ '']''
       @ [BACKSLASH, QUOTE, QUOTE] @ ''] '' @ BOM @ ''x''
   \<and> parseSyslog (print5424 165 ''2003-08-24T05:14:15Z'' ''h'' ''-'' ''p'' ''-''
       [(''a'', [(''k'', ''v]'' @ [QUOTE])])] True ''x'')
     = Ret \<lparr>msgSeverity = Some 5, msgTime = Some 1061702055000000000, msgHost = ''h'', msgApp = [],
           msgBody = ''x''\<rparr>"
proof
  have "header_time ''2003-08-24T05:14:15Z'' = Some (Some 1061702055000000000)"
    by code_simp
  moreover have "sd_ok [(''a'', [(''k'', ''v]'' @ [QUOTE])])]"
    by (simp add: sd_ok_def sd_name_def)
  ultimately show "parseSyslog (print5424 165 ''2003-08-24T05:14:15Z'' ''h'' ''-'' ''p'' ''-''
       [(''a'', [(''k'', ''v]'' @ [QUOTE])])] True ''x'')
     = Ret \<lparr>msgSeverity = Some 5, msgTime = Some 1061702055000000000, msgHost = ''h'', msgApp = [],
           msgBody = ''x''\<rparr>"
    by (subst parseSyslog_print5424) (simp_all add: nilValue_def)
qed code_simp

end
