(* ===== verification/Errors.thy ===== *)
theory Errors
  imports Go_Strings
begin

text \<open>
  \<open>internal/platform/errors/errors.go\<close>: the errors the program declares, and how a
  declared error is found in a chain of causes.

  A Go \<open>error\<close> is a declared error (the type \<open>Error\<close>), an error Postgres reports, with
  its SQLSTATE, a failure of the connection (a connect error, a network error or a
  timeout), or one of another type, \<open>Foreign\<close>, which has a text and the errors it unwraps
  to: none, one (\<open>fmt.Errorf\<close> with \<open>%w\<close>) or several (\<open>errors.Join\<close>). Errors are values here, so
  the copies that \<open>Wrapping\<close>, \<open>With\<close> and \<open>WithFields\<close> make are the results of the
  functions, and the error they are called on is left as it is.
\<close>

subsection \<open>Kinds and errors\<close>

datatype kind =
    KindInternal | KindMalformed | KindInvalid | KindUnauthenticated | KindForbidden
  | KindNotFound | KindConflict | KindRateLimited | KindUnavailable

fun kind_String :: "kind \<Rightarrow> bytes" where
  "kind_String KindInternal = ''internal''"
| "kind_String KindMalformed = ''malformed''"
| "kind_String KindInvalid = ''invalid''"
| "kind_String KindUnauthenticated = ''unauthenticated''"
| "kind_String KindForbidden = ''forbidden''"
| "kind_String KindNotFound = ''not_found''"
| "kind_String KindConflict = ''conflict''"
| "kind_String KindRateLimited = ''rate_limited''"
| "kind_String KindUnavailable = ''unavailable''"

record FieldError =
  fieldName :: bytes
  fieldCode :: bytes
  fieldMessage :: bytes

text \<open>
  An argument of \<open>With\<close>: a \<open>slog.Attr\<close>, a string, or a value of another type (by its
  text).
\<close>

datatype log_arg = LogAttr bytes log_arg | LogString bytes | LogOther bytes

type_synonym attr = "bytes \<times> log_arg"

datatype go_error =
    Declared (err_kind: kind) (err_code: bytes) (err_message: bytes)
      (err_fields: "FieldError list") (err_attrs: "attr list") (err_wrapped: "go_error option")
  | PgError bytes bytes
  | ConnError bytes
  | Foreign bytes "go_error list"

subsection \<open>Making errors\<close>

definition newError :: "kind \<Rightarrow> bytes \<Rightarrow> bytes \<Rightarrow> go_error" where
  "newError k code message = Declared k code message [] [] None"

definition Malformed :: "bytes \<Rightarrow> bytes \<Rightarrow> go_error" where
  "Malformed = newError KindMalformed"
definition Invalid :: "bytes \<Rightarrow> bytes \<Rightarrow> go_error" where
  "Invalid = newError KindInvalid"
definition Unauthenticated :: "bytes \<Rightarrow> bytes \<Rightarrow> go_error" where
  "Unauthenticated = newError KindUnauthenticated"
definition Forbidden :: "bytes \<Rightarrow> bytes \<Rightarrow> go_error" where
  "Forbidden = newError KindForbidden"
definition NotFound :: "bytes \<Rightarrow> bytes \<Rightarrow> go_error" where
  "NotFound = newError KindNotFound"
definition Conflict :: "bytes \<Rightarrow> bytes \<Rightarrow> go_error" where
  "Conflict = newError KindConflict"
definition RateLimited :: "bytes \<Rightarrow> bytes \<Rightarrow> go_error" where
  "RateLimited = newError KindRateLimited"
definition Unavailable :: "bytes \<Rightarrow> bytes \<Rightarrow> go_error" where
  "Unavailable = newError KindUnavailable"

definition Internal :: "bytes \<Rightarrow> go_error" where
  "Internal message = newError KindInternal ''internal_error'' message"

text \<open>
  The three methods that copy an error; they exist for declared errors only, and are
  the identity on the others, which no caller reaches.
\<close>

fun Wrapping :: "go_error \<Rightarrow> go_error \<Rightarrow> go_error" where
  "Wrapping (Declared k c m fs as w) err = Declared k c m fs as (Some err)"
| "Wrapping (PgError c t) err = PgError c t"
| "Wrapping (ConnError t) err = ConnError t"
| "Wrapping (Foreign t es) err = Foreign t es"

fun argsToAttrs :: "log_arg list \<Rightarrow> attr list" where
  "argsToAttrs [] = []"
| "argsToAttrs (LogAttr k v # args) = (k, v) # argsToAttrs args"
| "argsToAttrs (LogOther t # args) = argsToAttrs args"
| "argsToAttrs [LogString k] = []"
| "argsToAttrs (LogString k # v # args) = (k, v) # argsToAttrs args"

fun With :: "go_error \<Rightarrow> log_arg list \<Rightarrow> go_error" where
  "With (Declared k c m fs as w) args = Declared k c m fs (as @ argsToAttrs args) w"
| "With (PgError c t) args = PgError c t"
| "With (ConnError t) args = ConnError t"
| "With (Foreign t es) args = Foreign t es"

fun WithFields :: "go_error \<Rightarrow> FieldError list \<Rightarrow> go_error" where
  "WithFields (Declared k c m fs as w) added = Declared k c m (fs @ added) as w"
| "WithFields (PgError c t) added = PgError c t"
| "WithFields (ConnError t) added = ConnError t"
| "WithFields (Foreign t es) added = Foreign t es"

text \<open>\<open>Internalf(err, format, args...)\<close>, with the text the format makes.\<close>

definition Internalf :: "go_error \<Rightarrow> bytes \<Rightarrow> go_error" where
  "Internalf err message = Wrapping (Internal message) err"

fun error_text :: "go_error \<Rightarrow> bytes" where
  "error_text (Declared k c m fs as w) =
     kind_String k @ '': '' @ c @ (if m \<noteq> [] then '': '' @ m else [])
       @ (case w of Some e \<Rightarrow> '': '' @ error_text e | None \<Rightarrow> [])"
| "error_text (PgError c t) = t"
| "error_text (ConnError t) = t"
| "error_text (Foreign t es) = t"

subsection \<open>Reading errors\<close>

text \<open>
  \<open>errors.As(err, &e)\<close> with a target of type \<open>*Error\<close>: the first declared error in
  preorder. A \<open>nil\<close> error has none, but no caller passes one.
\<close>

fun as_error :: "go_error \<Rightarrow> go_error option" and as_error_list :: "go_error list \<Rightarrow> go_error option"
  where
  "as_error (Declared k c m fs as w) = Some (Declared k c m fs as w)"
| "as_error (PgError c t) = None"
| "as_error (ConnError t) = None"
| "as_error (Foreign t es) = as_error_list es"
| "as_error_list [] = None"
| "as_error_list (e # es) = (case as_error e of Some d \<Rightarrow> Some d | None \<Rightarrow> as_error_list es)"

text \<open>
  \<open>errors.As\<close> with a target of type \<open>*pgconn.PgError\<close>, and the SQLSTATE of what it finds;
  and whether the chain has a failure of the connection.
\<close>

fun as_pg :: "go_error \<Rightarrow> go_error option" and as_pg_list :: "go_error list \<Rightarrow> go_error option" where
  "as_pg (Declared k c m fs as w) = (case w of Some e \<Rightarrow> as_pg e | None \<Rightarrow> None)"
| "as_pg (PgError c t) = Some (PgError c t)"
| "as_pg (ConnError t) = None"
| "as_pg (Foreign t es) = as_pg_list es"
| "as_pg_list [] = None"
| "as_pg_list (e # es) = (case as_pg e of Some c \<Rightarrow> Some c | None \<Rightarrow> as_pg_list es)"

fun sqlstate :: "go_error \<Rightarrow> bytes" where
  "sqlstate (PgError c t) = c"
| "sqlstate _ = []"

definition pg_code :: "go_error \<Rightarrow> bytes option" where
  "pg_code err = map_option sqlstate (as_pg err)"

fun conn_failure :: "go_error \<Rightarrow> bool" and conn_failure_list :: "go_error list \<Rightarrow> bool" where
  "conn_failure (Declared k c m fs as w) = (case w of Some e \<Rightarrow> conn_failure e | None \<Rightarrow> False)"
| "conn_failure (PgError c t) = False"
| "conn_failure (ConnError t) = True"
| "conn_failure (Foreign t es) = conn_failure_list es"
| "conn_failure_list [] = False"
| "conn_failure_list (e # es) = (conn_failure e \<or> conn_failure_list es)"

definition KindOf :: "go_error \<Rightarrow> kind" where
  "KindOf err = (case as_error err of Some e \<Rightarrow> err_kind e | None \<Rightarrow> KindInternal)"

definition CodeOf :: "go_error \<Rightarrow> bytes" where
  "CodeOf err =
     (case as_error err of
        Some e \<Rightarrow> if err_code e \<noteq> [] then err_code e else ''internal_error''
      | None \<Rightarrow> ''internal_error'')"

definition MessageOf :: "go_error \<Rightarrow> bytes" where
  "MessageOf err = (case as_error err of Some e \<Rightarrow> err_message e | None \<Rightarrow> [])"

definition FieldsOf :: "go_error \<Rightarrow> FieldError list" where
  "FieldsOf err = (case as_error err of Some e \<Rightarrow> err_fields e | None \<Rightarrow> [])"

definition AttrsOf :: "go_error \<Rightarrow> attr list" where
  "AttrsOf err = (case as_error err of Some e \<Rightarrow> err_attrs e | None \<Rightarrow> [])"

text \<open>The method \<open>Is\<close>, which \<open>errors.Is\<close> asks of each error of a chain.\<close>

definition error_Is :: "go_error \<Rightarrow> go_error \<Rightarrow> bool" where
  "error_Is e target =
     (case as_error target of
        None \<Rightarrow> False
      | Some t \<Rightarrow> err_kind e = err_kind t \<and> err_code e = err_code t)"

definition declared :: "go_error \<Rightarrow> bool" where
  "declared e \<longleftrightarrow> as_error e = Some e"

lemma as_error_declared: "as_error e = Some d \<Longrightarrow> declared d"
  and "as_error_list es = Some d \<Longrightarrow> declared d"
  by (induction e and es rule: as_error_as_error_list.induct)
    (auto simp: declared_def split: option.splits)

lemmas new_error_defs = newError_def Malformed_def Invalid_def Unauthenticated_def Forbidden_def
  NotFound_def Conflict_def RateLimited_def Unavailable_def Internal_def Internalf_def

lemmas error_views = KindOf_def CodeOf_def MessageOf_def FieldsOf_def AttrsOf_def

text \<open>
  What is attached to an error for the log does not change what a client is told of it.
\<close>

lemma view_Wrapping [result_simps]:
  "KindOf (Wrapping e w) = KindOf e" "CodeOf (Wrapping e w) = CodeOf e"
  "MessageOf (Wrapping e w) = MessageOf e" "FieldsOf (Wrapping e w) = FieldsOf e"
  by (cases e; simp add: error_views)+

lemma view_With [result_simps]:
  "KindOf (With e args) = KindOf e" "CodeOf (With e args) = CodeOf e"
  "MessageOf (With e args) = MessageOf e" "FieldsOf (With e args) = FieldsOf e"
  by (cases e; simp add: error_views)+

lemma view_newError [result_simps]:
  "KindOf (newError k c m) = k" "FieldsOf (newError k c m) = []"
  "MessageOf (newError k c m) = m"
  "CodeOf (newError k c m) = (if c = [] then ''internal_error'' else c)"
  by (simp_all add: newError_def error_views)

end
