(* ===== verification/Authz.thy ===== *)
theory Authz
  imports Errors "HOL-Library.Word"
begin

text \<open>
  \<open>internal/authz/authz.go\<close>, the policies and the enforcer, and
  \<open>internal/api/policies.go\<close>, the policies the program compiles in.

  Roles, resources, actions and scopes are \<open>uint8\<close> in the code, and an enforcer is asked
  about whatever value it is given, so they are \<open>8 word\<close> here and their names are
  constants. The enforcer's map to empty structs is a set of grants.
\<close>

subsection \<open>Roles, resources, actions and scopes\<close>

type_synonym role = "8 word"
type_synonym resource = "8 word"
type_synonym action = "8 word"
type_synonym scope = "8 word"

definition Anonymous :: role where "Anonymous = 0"
definition Admin :: role where "Admin = 1"
definition Viewer :: role where "Viewer = 2"
definition Collector :: role where "Collector = 3"
definition AnyRole :: role where "AnyRole = 4"

definition Health :: resource where "Health = 1"
definition Sessions :: resource where "Sessions = 2"
definition Events :: resource where "Events = 3"
definition AlertRules :: resource where "AlertRules = 4"
definition Alerts :: resource where "Alerts = 5"
definition TenantNames :: resource where "TenantNames = 6"
definition resourceEnd :: resource where "resourceEnd = 7"

definition Read :: action where "Read = 1"
definition Create :: action where "Create = 2"
definition AnyAction :: action where "AnyAction = 3"

definition OwnTenant :: scope where "OwnTenant = 1"
definition AnyTenant :: scope where "AnyTenant = 2"

lemmas role_defs = Anonymous_def Admin_def Viewer_def Collector_def AnyRole_def
lemmas resource_defs = Health_def Sessions_def Events_def AlertRules_def Alerts_def
  TenantNames_def resourceEnd_def
lemmas action_defs = Read_def Create_def AnyAction_def
lemmas scope_defs = OwnTenant_def AnyTenant_def

text \<open>The function \<open>name\<close>: an index outside the names, or one without a name, is invalid.\<close>

definition enum_name :: "bytes list \<Rightarrow> 8 word \<Rightarrow> bytes" where
  "enum_name names v =
     (if unat v < length names \<and> names ! unat v \<noteq> [] then names ! unat v
      else ''invalid('' @ itoa (uint v) @ '')'')"

definition role_String :: "role \<Rightarrow> bytes" where
  "role_String = enum_name [''anonymous'', ''admin'', ''viewer'', ''collector'', ''*'']"

definition resource_String :: "resource \<Rightarrow> bytes" where
  "resource_String =
     enum_name ['''', ''health'', ''sessions'', ''events'', ''alert_rules'', ''alerts'', ''tenants'']"

definition action_String :: "action \<Rightarrow> bytes" where
  "action_String = enum_name ['''', ''read'', ''create'', ''*'']"

definition scope_String :: "scope \<Rightarrow> bytes" where
  "scope_String = enum_name ['''', ''own tenant'', ''any tenant'']"

definition UserRole :: "bytes \<Rightarrow> role option" where
  "UserRole s =
     (if s = ''admin'' then Some Admin else if s = ''viewer'' then Some Viewer else None)"

subsection \<open>Callers\<close>

record caller =
  Role :: role
  Tenant :: bytes
  UserID :: int

definition Authenticated :: "caller \<Rightarrow> bool" where
  "Authenticated c \<longleftrightarrow> Anonymous < Role c \<and> Role c < AnyRole"

subsection \<open>Policies\<close>

record policy =
  pol_role :: role
  pol_scope :: scope
  pol_resource :: resource
  pol_actions :: "action list"

text \<open>\<open>Grant(r).As(s).On(res).Can(actions...)\<close>, each step with what it has collected.\<close>

definition Grant :: "role \<Rightarrow> role" where "Grant r = r"
definition As :: "role \<Rightarrow> scope \<Rightarrow> role \<times> scope" where "As g s = (g, s)"
definition On :: "role \<times> scope \<Rightarrow> resource \<Rightarrow> role \<times> scope \<times> resource" where
  "On g res = (fst g, snd g, res)"
definition policy_Can :: "role \<times> scope \<times> resource \<Rightarrow> action list \<Rightarrow> policy" where
  "policy_Can g acts =
     \<lparr>pol_role = fst g, pol_scope = fst (snd g), pol_resource = snd (snd g), pol_actions = acts\<rparr>"

record policy_set =
  set_name :: bytes
  set_policies :: "policy list"

definition NewSet :: "bytes \<Rightarrow> policy list \<Rightarrow> policy_set" where
  "NewSet name ps = \<lparr>set_name = name, set_policies = ps\<rparr>"

text \<open>\<open>validate\<close>: the text of the error, \<open>None\<close> for \<open>nil\<close>.\<close>

definition validate :: "policy \<Rightarrow> bytes option" where
  "validate p =
     (if AnyRole < pol_role p then Some ''unknown role''
      else if pol_scope p \<noteq> OwnTenant \<and> pol_scope p \<noteq> AnyTenant then Some ''unknown scope''
      else if pol_resource p = 0 \<or> resourceEnd \<le> pol_resource p then Some ''unknown resource''
      else if pol_actions p = [] then Some ''no actions''
      else if pol_role p = Anonymous \<and> pol_scope p = OwnTenant
        then Some ''an anonymous caller has no tenant''
      else if \<exists>a \<in> set (pol_actions p). a = 0 \<or> AnyAction < a then Some ''unknown action''
      else None)"

subsection \<open>The enforcer\<close>

record grant =
  g_role :: role
  g_resource :: resource
  g_scope :: scope
  g_action :: action

type_synonym enforcer = "grant set"

datatype problem = EmptySet bytes | BadPolicy bytes policy bytes

definition add_policy :: "bytes \<Rightarrow> problem list \<times> enforcer \<Rightarrow> policy \<Rightarrow> problem list \<times> enforcer" where
  "add_policy name st p =
     (case validate p of
        Some err \<Rightarrow> (fst st @ [BadPolicy name p err], snd st)
      | None \<Rightarrow> (fst st, snd st \<union>
          (\<lambda>a. \<lparr>g_role = pol_role p, g_resource = pol_resource p, g_scope = pol_scope p, g_action = a\<rparr>)
            ` set (pol_actions p)))"

definition add_set :: "problem list \<times> enforcer \<Rightarrow> policy_set \<Rightarrow> problem list \<times> enforcer" where
  "add_set st ps =
     foldl (add_policy (set_name ps))
       (if set_policies ps = [] then (fst st @ [EmptySet (set_name ps)], snd st) else st)
       (set_policies ps)"

definition New :: "policy_set list \<Rightarrow> problem list + enforcer" where
  "New sets =
     (case foldl add_set ([], {}) sets of
        (problems, grants) \<Rightarrow> if problems \<noteq> [] then Inl problems else Inr grants)"

text \<open>The loop over roles and actions of \<open>allows\<close>.\<close>

definition allows :: "enforcer \<Rightarrow> caller \<Rightarrow> resource \<Rightarrow> scope \<Rightarrow> action \<Rightarrow> bool" where
  "allows e c r s a =
     (\<exists>role \<in> set (take (if Authenticated c then 2 else 1) [Role c, AnyRole]).
      \<exists>act \<in> set [a, AnyAction].
        \<lparr>g_role = role, g_resource = r, g_scope = s, g_action = act\<rparr> \<in> e)"

definition Can :: "enforcer \<Rightarrow> caller \<Rightarrow> resource \<Rightarrow> action \<Rightarrow> bytes \<Rightarrow> bool" where
  "Can e c r a tenant =
     (if tenant \<noteq> [] \<and> tenant = Tenant c \<and> allows e c r OwnTenant a then True
      else allows e c r AnyTenant a)"

definition Deny :: "caller \<Rightarrow> go_error" where
  "Deny c =
     (if \<not> Authenticated c
      then Unauthenticated ''authentication_required'' ''this request needs a credential''
      else With (Forbidden ''permission_denied'' ''you may not do this'')
             [LogString ''role'', LogString (role_String (Role c))])"

definition Authorize :: "enforcer \<Rightarrow> caller \<Rightarrow> resource \<Rightarrow> action \<Rightarrow> bytes \<Rightarrow> go_error option" where
  "Authorize e c r a tenant =
     (if Can e c r a tenant then None
      else Some (With (Deny c)
        [LogString ''resource'', LogString (resource_String r),
         LogString ''action'', LogString (action_String a)]))"

record tenants =
  ten_all :: bool
  ten_one :: bytes

definition Scopes :: "enforcer \<Rightarrow> caller \<Rightarrow> resource \<Rightarrow> action \<Rightarrow> tenants" where
  "Scopes e c r a =
     (if allows e c r AnyTenant a then \<lparr>ten_all = True, ten_one = []\<rparr>
      else if Tenant c \<noteq> [] \<and> allows e c r OwnTenant a then \<lparr>ten_all = False, ten_one = Tenant c\<rparr>
      else \<lparr>ten_all = False, ten_one = []\<rparr>)"

definition tenants_All :: "tenants \<Rightarrow> bool" where
  "tenants_All t = ten_all t"

definition tenants_Empty :: "tenants \<Rightarrow> bool" where
  "tenants_Empty t \<longleftrightarrow> \<not> ten_all t \<and> ten_one t = []"

definition tenants_Contains :: "tenants \<Rightarrow> bytes \<Rightarrow> bool" where
  "tenants_Contains t tenant \<longleftrightarrow> ten_all t \<or> (tenant \<noteq> [] \<and> tenant = ten_one t)"

text \<open>\<open>Only\<close>, with \<open>None\<close> for \<open>ok == false\<close>.\<close>

definition tenants_Only :: "tenants \<Rightarrow> bytes option" where
  "tenants_Only t = (if \<not> ten_all t \<and> ten_one t \<noteq> [] then Some (ten_one t) else None)"

text \<open>\<open>%q\<close> of the tenant in the message is the argument \<open>quoted\<close>.\<close>

definition TenantNotPermitted :: "(bytes \<Rightarrow> bytes) \<Rightarrow> bytes \<Rightarrow> go_error" where
  "TenantNotPermitted quoted tenant =
     Forbidden ''tenant_not_permitted'' (''you may not access tenant '' @ quoted tenant)"

subsection \<open>The program's policies\<close>

definition policies :: "policy_set list" where
  "policies =
     [NewSet ''health''
        [policy_Can (On (As (Grant Anonymous) AnyTenant) Health) [Read],
         policy_Can (On (As (Grant AnyRole) AnyTenant) Health) [Read]],
      NewSet ''sessions''
        [policy_Can (On (As (Grant Anonymous) AnyTenant) Sessions) [Create],
         policy_Can (On (As (Grant AnyRole) AnyTenant) Sessions) [Create]],
      NewSet ''events''
        [policy_Can (On (As (Grant Admin) AnyTenant) Events) [Read, Create],
         policy_Can (On (As (Grant Viewer) OwnTenant) Events) [Read],
         policy_Can (On (As (Grant Collector) AnyTenant) Events) [Create]],
      NewSet ''tenants''
        [policy_Can (On (As (Grant Admin) AnyTenant) TenantNames) [Read],
         policy_Can (On (As (Grant Viewer) OwnTenant) TenantNames) [Read]],
      NewSet ''alerts''
        [policy_Can (On (As (Grant Admin) AnyTenant) AlertRules) [Read, Create],
         policy_Can (On (As (Grant Viewer) OwnTenant) AlertRules) [Read],
         policy_Can (On (As (Grant Admin) AnyTenant) Alerts) [Read],
         policy_Can (On (As (Grant Viewer) OwnTenant) Alerts) [Read]]]"

subsection \<open>What an enforcer answers\<close>

text \<open>A policy speaks of a caller's request: what \<open>Grant(...)\<close> says, without the lookups.\<close>

definition role_matches :: "role \<Rightarrow> caller \<Rightarrow> bool" where
  "role_matches r c \<longleftrightarrow> r = Role c \<or> (r = AnyRole \<and> Authenticated c)"

definition policy_grants :: "policy \<Rightarrow> caller \<Rightarrow> resource \<Rightarrow> action \<Rightarrow> bytes \<Rightarrow> bool" where
  "policy_grants p c r a tenant \<longleftrightarrow>
     role_matches (pol_role p) c \<and> pol_resource p = r
     \<and> (a \<in> set (pol_actions p) \<or> AnyAction \<in> set (pol_actions p))
     \<and> (pol_scope p = AnyTenant
        \<or> pol_scope p = OwnTenant \<and> tenant \<noteq> [] \<and> tenant = Tenant c)"

definition all_policies :: "policy_set list \<Rightarrow> policy list" where
  "all_policies sets = concat (map set_policies sets)"

lemma Can_iff: "Can e c r a t \<longleftrightarrow>
    allows e c r AnyTenant a \<or> (t \<noteq> [] \<and> t = Tenant c \<and> allows e c r OwnTenant a)"
  by (auto simp: Can_def)

subsection \<open>The interface of an enforcer\<close>

text \<open>
  What the handlers rely on: an answer for one tenant, and the set of tenants for a list.
  The law says that both ways of asking agree.
\<close>

locale authority =
  fixes can :: "caller \<Rightarrow> resource \<Rightarrow> action \<Rightarrow> bytes \<Rightarrow> bool"
    and scopes :: "caller \<Rightarrow> resource \<Rightarrow> action \<Rightarrow> tenants"
  assumes contains_can: "tenants_Contains (scopes c r a) t = can c r a t"
begin

lemma all_iff: "tenants_All (scopes c r a) \<longleftrightarrow> can c r a []"
  by (simp add: contains_can [symmetric] tenants_All_def tenants_Contains_def)

lemma all_any: "can c r a [] \<Longrightarrow> can c r a t"
  by (simp add: contains_can [symmetric] tenants_Contains_def)

lemma empty_iff: "tenants_Empty (scopes c r a) \<longleftrightarrow> (\<forall>t. \<not> can c r a t)"
  by (auto simp: contains_can [symmetric] tenants_Empty_def tenants_Contains_def)

lemma only_iff: "tenants_Only (scopes c r a) = Some t \<longleftrightarrow> {u. can c r a u} = {t}"
proof
  assume "tenants_Only (scopes c r a) = Some t"
  then show "{u. can c r a u} = {t}"
    by (auto simp: contains_can [symmetric] tenants_Only_def tenants_Contains_def split: if_splits)
next
  assume single: "{u. can c r a u} = {t}"
  have "\<not> can c r a []"
  proof
    assume "can c r a []"
    then have "{u. can c r a u} = UNIV" using all_any by blast
    with single have "(UNIV :: bytes set) = {t}" by simp
    then have "[SP] = t" and "[TAB] = t" by (metis UNIV_I singletonD)+
    then show False by auto
  qed
  moreover from single have "can c r a t" by blast
  ultimately show "tenants_Only (scopes c r a) = Some t"
    by (auto simp: contains_can [symmetric] tenants_Only_def tenants_Contains_def)
qed

end

lemma Scopes_Contains: "tenants_Contains (Scopes e c r a) t = Can e c r a t"
  by (auto simp: Scopes_def Can_iff tenants_Contains_def)

interpretation enf: authority "Can e" "Scopes e" for e
  by unfold_locales (rule Scopes_Contains)

text \<open>
  A handler that lists asks \<open>Scopes\<close>, one that reads or writes asks \<open>Can\<close>, and under
  every enforcer they agree: a list shows a tenant exactly when asking for that tenant
  is allowed, it is empty exactly when no tenant is, and it is one tenant exactly
  when that is the only one allowed.
\<close>

theorem Scopes_agrees_with_Can:
  "(\<forall>t. tenants_Contains (Scopes e c r a) t = Can e c r a t)
   \<and> tenants_Empty (Scopes e c r a) = (\<forall>t. \<not> Can e c r a t)
   \<and> (\<forall>t. (tenants_Only (Scopes e c r a) = Some t) = ({u. Can e c r a u} = {t}))"
  using enf.contains_can enf.empty_iff enf.only_iff by blast

subsection \<open>Policies and what they grant\<close>

definition grants_of :: "policy \<Rightarrow> enforcer" where
  "grants_of p =
     (\<lambda>a. \<lparr>g_role = pol_role p, g_resource = pol_resource p, g_scope = pol_scope p, g_action = a\<rparr>)
       ` set (pol_actions p)"

lemma add_policies:
  "foldl (add_policy n) st ps =
     (fst st @ concat (map (\<lambda>p. case validate p of Some err \<Rightarrow> [BadPolicy n p err] | None \<Rightarrow> []) ps),
      snd st \<union> (\<Union>p \<in> {p \<in> set ps. validate p = None}. grants_of p))"
proof (induction ps arbitrary: st)
  case (Cons p ps)
  have "add_policy n st p =
      (fst st @ (case validate p of Some err \<Rightarrow> [BadPolicy n p err] | None \<Rightarrow> []),
       snd st \<union> (if validate p = None then grants_of p else {}))"
    by (auto simp: add_policy_def grants_of_def split: option.splits)
  then show ?case
    by (cases "validate p") (auto simp: Cons.IH)
qed simp

definition set_ok :: "policy_set \<Rightarrow> bool" where
  "set_ok s \<longleftrightarrow> set_policies s \<noteq> [] \<and> (\<forall>p \<in> set (set_policies s). validate p = None)"

lemma add_set_problems: "fst (add_set st s) = [] \<longleftrightarrow> fst st = [] \<and> set_ok s"
  by (auto simp: add_set_def add_policies set_ok_def split: option.splits)

lemma add_set_grants:
  "set_ok s \<Longrightarrow> snd (add_set st s) = snd st \<union> (\<Union>p \<in> set (set_policies s). grants_of p)"
  by (auto simp: add_set_def add_policies set_ok_def)

lemma add_sets:
  "(fst (foldl add_set st sets) = [] \<longleftrightarrow> fst st = [] \<and> (\<forall>s \<in> set sets. set_ok s))
   \<and> ((\<forall>s \<in> set sets. set_ok s) \<longrightarrow>
      snd (foldl add_set st sets) = snd st \<union> (\<Union>p \<in> set (all_policies sets). grants_of p))"
proof (induction sets arbitrary: st)
  case (Cons s sets)
  then show ?case
    by (auto simp: add_set_problems add_set_grants all_policies_def)
qed (simp add: all_policies_def)

lemma New_Inr:
  "New sets = Inr e \<longleftrightarrow>
     (\<forall>s \<in> set sets. set_ok s) \<and> e = (\<Union>p \<in> set (all_policies sets). grants_of p)"
  using add_sets [of "([], {})" sets]
  by (auto simp: New_def split: prod.splits if_splits)

lemma valid_scope: "validate p = None \<Longrightarrow> pol_scope p = OwnTenant \<or> pol_scope p = AnyTenant"
  by (auto simp: validate_def split: if_splits)

lemma own_any_differ [simp]: "OwnTenant \<noteq> AnyTenant" "AnyTenant \<noteq> OwnTenant"
  by (simp_all add: scope_defs)

lemma allows_iff:
  "allows e c r s a \<longleftrightarrow>
     (\<exists>role act. role_matches role c \<and> (act = a \<or> act = AnyAction)
        \<and> \<lparr>g_role = role, g_resource = r, g_scope = s, g_action = act\<rparr> \<in> e)"
  by (auto simp: allows_def role_matches_def)

lemma New_Can_iff:
  "New sets = Inr e \<Longrightarrow>
   Can e c r a t = (\<exists>p \<in> set (all_policies sets). policy_grants p c r a t)"
proof -
  assume "New sets = Inr e"
  then have e: "e = (\<Union>p \<in> set (all_policies sets). grants_of p)"
    by (simp add: New_Inr)
  have "allows e c r s a \<longleftrightarrow> (\<exists>p \<in> set (all_policies sets). role_matches (pol_role p) c
      \<and> pol_resource p = r \<and> pol_scope p = s
      \<and> (a \<in> set (pol_actions p) \<or> AnyAction \<in> set (pol_actions p)))" for s
    unfolding allows_iff e grants_of_def by auto
  then show ?thesis
    by (auto simp: Can_iff policy_grants_def)
qed

text \<open>
  C21. Default deny: under an enforcer that \<open>New\<close> accepts, a caller may act exactly when one
  of the policies given says so for its role (or for every authenticated caller), for
  that resource, for that action (or every one), and for every tenant or for the
  caller's own.
\<close>

theorem New_Can:
  assumes "New sets = Inr e"
  shows "Can e c r a t = (\<exists>p \<in> set (all_policies sets). policy_grants p c r a t)"
  using assms by (rule New_Can_iff)

lemma policies_ok: "\<forall>s \<in> set policies. set_ok s"
  by (simp add: policies_def NewSet_def set_ok_def validate_def policy_Can_def On_def As_def Grant_def
      role_defs resource_defs action_defs scope_defs word_less_nat_alt word_le_nat_alt)

lemma New_policies: "New policies = Inr (\<Union>p \<in> set (all_policies policies). grants_of p)"
  using policies_ok by (simp add: New_Inr)

theorem New_Can_witness:
  "\<exists>e. New policies = Inr e
    \<and> Can e \<lparr>Role = Viewer, Tenant = ''demoA'', UserID = 2\<rparr> Events Read ''demoA''
    \<and> \<not> Can e \<lparr>Role = Viewer, Tenant = ''demoA'', UserID = 2\<rparr> Events Read ''demoB''"
  using New_policies New_Can [OF New_policies]
  by (simp add: all_policies_def policies_def NewSet_def policy_grants_def policy_Can_def On_def
      As_def Grant_def role_matches_def role_defs resource_defs action_defs scope_defs)

lemma any_or_anonymous:
  "role_matches Anonymous c \<or> role_matches AnyRole c \<longleftrightarrow> Role c \<le> AnyRole"
proof -
  have "x = 0 \<or> x = 4 \<or> 0 < x \<and> x < 4 \<longleftrightarrow> x \<le> 4" for x :: role
    by (auto simp: word_gt_0 order_le_less)
  then show ?thesis
    by (auto simp: role_matches_def Authenticated_def role_defs)
qed

lemma role_matches_named:
  "r = Admin \<or> r = Viewer \<or> r = Collector \<Longrightarrow> role_matches r c \<longleftrightarrow> Role c = r"
  by (auto simp: role_matches_def role_defs)

lemma policy_grants_Can:
  "policy_grants (policy_Can (On (As (Grant ro) sc) res) acts) c r a t \<longleftrightarrow>
     role_matches ro c \<and> r = res \<and> (a \<in> set acts \<or> AnyAction \<in> set acts)
     \<and> (sc = AnyTenant \<or> sc = OwnTenant \<and> t \<noteq> [] \<and> t = Tenant c)"
  by (auto simp: policy_grants_def policy_Can_def On_def As_def Grant_def)

text \<open>The grants of the program's own enforcer, and what it allows.\<close>

definition program_enforcer :: enforcer where
  "program_enforcer = (\<Union>p \<in> set (all_policies policies). grants_of p)"

lemma New_program: "New policies = Inr program_enforcer"
  unfolding program_enforcer_def by (rule New_policies)

lemma policies_Can:
  "Can program_enforcer c r a t =
       ((r = Health \<and> a = Read \<and> Role c \<le> AnyRole)
       \<or> (r = Sessions \<and> a = Create \<and> Role c \<le> AnyRole)
       \<or> (r = Events \<and> a = Create \<and> (Role c = Admin \<or> Role c = Collector))
       \<or> (r = AlertRules \<and> a = Create \<and> Role c = Admin)
       \<or> ((r = Events \<or> r = TenantNames \<or> r = AlertRules \<or> r = Alerts) \<and> a = Read
           \<and> (Role c = Admin \<or> (Role c = Viewer \<and> t \<noteq> [] \<and> t = Tenant c))))"
proof -
  have action [simp]: "Read \<noteq> AnyAction" "Create \<noteq> AnyAction" "AnyAction \<noteq> Read" "AnyAction \<noteq> Create"
    by (simp_all add: action_defs)
  have "Can program_enforcer c r a t = (\<exists>p \<in> set (all_policies policies). policy_grants p c r a t)"
    by (rule New_program [THEN New_Can_iff])
  also have "\<dots> =
       ((r = Health \<and> a = Read \<and> (role_matches Anonymous c \<or> role_matches AnyRole c))
       \<or> (r = Sessions \<and> a = Create \<and> (role_matches Anonymous c \<or> role_matches AnyRole c))
       \<or> (r = Events \<and> a = Create \<and> (role_matches Admin c \<or> role_matches Collector c))
       \<or> (r = AlertRules \<and> a = Create \<and> role_matches Admin c)
       \<or> ((r = Events \<or> r = TenantNames \<or> r = AlertRules \<or> r = Alerts) \<and> a = Read
           \<and> (role_matches Admin c \<or> (role_matches Viewer c \<and> t \<noteq> [] \<and> t = Tenant c))))"
    by (simp add: all_policies_def policies_def NewSet_def policy_grants_Can)
      (rule iffI; elim disjE conjE; simp)
  finally show ?thesis
    by (simp only: any_or_anonymous role_matches_named simp_thms)
qed

text \<open>
  C4. Who may do what, in full: the program's policies are accepted, and for every caller,
  resource, action and tenant they allow this and nothing else. In particular a viewer
  reaches events, tenants, rules and alerts of its own tenant only, the collector may
  only send events, and nobody creates an alert.
\<close>

theorem policies_matrix:
  "\<exists>e. New policies = Inr e
    \<and> (\<forall>c r a t. Can e c r a t =
        ((r = Health \<and> a = Read \<and> Role c \<le> AnyRole)
       \<or> (r = Sessions \<and> a = Create \<and> Role c \<le> AnyRole)
       \<or> (r = Events \<and> a = Create \<and> (Role c = Admin \<or> Role c = Collector))
       \<or> (r = AlertRules \<and> a = Create \<and> Role c = Admin)
       \<or> ((r = Events \<or> r = TenantNames \<or> r = AlertRules \<or> r = Alerts) \<and> a = Read
           \<and> (Role c = Admin \<or> (Role c = Viewer \<and> t \<noteq> [] \<and> t = Tenant c)))))"
  using New_program policies_Can by blast

subsection \<open>Denials\<close>

text \<open>
  A request is denied exactly when \<open>Can\<close> says no, and the denial tells an anonymous
  caller to authenticate and any other that it may not, never one like the other.
\<close>

theorem Authorize_denial:
  "(case Authorize e c r a t of
      None \<Rightarrow> Can e c r a t
    | Some err \<Rightarrow> \<not> Can e c r a t
        \<and> KindOf err = (if Authenticated c then KindForbidden else KindUnauthenticated)
        \<and> CodeOf err = (if Authenticated c then ''permission_denied'' else ''authentication_required''))"
  by (simp add: Authorize_def Deny_def result_simps Forbidden_def Unauthenticated_def)

end
