(* ===== verification/Store.thy ===== *)
theory Store
  imports Errors
begin

text \<open>
  \<open>internal/platform/pg/pg.go\<close> (transactions and the classes of database failures),
  \<open>internal/store/postgres.go\<close> (the scope of a transaction) and the tenant and user
  repositories.

  Postgres is outside the repository. What it holds is the argument \<open>'d\<close> of the state,
  and every interaction with it may fail for reasons of its own: \<open>fails\<close> says which, by
  the number of the interaction. A statement's effect on the data, and the errors that
  the data cause, are arguments of the operations that send it.
\<close>

subsection \<open>Classes of failures\<close>

definition unreachable :: "go_error \<Rightarrow> bool" where
  "unreachable err =
     (if conn_failure err then True
      else (case pg_code err of
          None \<Rightarrow> False
        | Some code \<Rightarrow> has_prefix code ''08'' \<or> has_prefix code ''53'' \<or> has_prefix code ''57P''))"

definition Wrap :: "go_error \<Rightarrow> bytes \<Rightarrow> go_error" where
  "Wrap err message =
     (if unreachable err
      then Wrapping (With (Unavailable ''database_unavailable'' ''cannot reach the database'')
             [LogString ''during'', LogString message]) err
      else Wrapping (Internal message) err)"

lemma Wrap_kind [result_simps]:
  "KindOf (Wrap err m) = (if unreachable err then KindUnavailable else KindInternal)"
  by (simp add: Wrap_def result_simps Unavailable_def Internal_def)

lemma as_pg_Wrap [result_simps]: "as_pg (Wrap err m) = as_pg err"
  by (simp add: Wrap_def Unavailable_def Internal_def newError_def)

lemma pg_code_Wrap [result_simps]: "pg_code (Wrap err m) = pg_code err"
  by (simp add: pg_code_def as_pg_Wrap)

subsection \<open>Transactions\<close>

record scope =
  scope_TenantID :: bytes
  scope_Admin :: bool

definition AdminScope :: scope where
  "AdminScope = \<lparr>scope_TenantID = [], scope_Admin = True\<rparr>"

definition NoScope :: scope where
  "NoScope = \<lparr>scope_TenantID = [], scope_Admin = False\<rparr>"

text \<open>
  The session: the data as its transaction sees them; the row-level security context in
  force, and the one the session comes back to when its transaction has ended; how many
  transactions and savepoints are open; and the number of interactions so far.
\<close>

record 'd session =
  sData :: 'd
  sScope :: scope
  sBase :: scope
  sDepth :: nat
  sStep :: nat

type_synonym ('d, 'a) db_op = "'d session \<Rightarrow> (go_error + 'a) \<times> 'd session"

text \<open>The same with what else the caller keeps beside its session, a log for instance.\<close>

type_synonym ('d, 'm, 'a) db_op_in =
  "('d, 'm) session_scheme \<Rightarrow> (go_error + 'a) \<times> ('d, 'm) session_scheme"
type_synonym failures = "nat \<Rightarrow> go_error option"

definition interact ::
  "failures \<Rightarrow> ('d, 'm) session_scheme \<Rightarrow> go_error option \<times> ('d, 'm) session_scheme" where
  "interact fails s = (fails (sStep s), s\<lparr>sStep := sStep s + 1\<rparr>)"

text \<open>Back to where \<open>s0\<close> was, whatever has been done since.\<close>

definition rollback ::
  "('d, 'm) session_scheme \<Rightarrow> ('d, 'm) session_scheme \<Rightarrow> ('d, 'm) session_scheme" where
  "rollback s0 s = s\<lparr>sData := sData s0, sScope := sScope s0, sBase := sBase s0, sDepth := sDepth s0\<rparr>"

text \<open>What Postgres does at the end of a transaction that commits, and of a savepoint it releases.\<close>

definition commit :: "nat \<Rightarrow> ('d, 'm) session_scheme \<Rightarrow> ('d, 'm) session_scheme" where
  "commit depth s = s\<lparr>sDepth := depth, sScope := (if depth = 0 then sBase s else sScope s)\<rparr>"

text \<open>
  \<open>InTx\<close>: begin, the function, commit. Begun inside a transaction it is a savepoint: what
  is released stays, the row-level security context too. A COMMIT that fails is taken to have
  had no effect; one whose answer is lost after the server carried it out is not modelled, and
  neither are the gaps that a rollback leaves in a sequence.
\<close>

definition InTx ::
  "failures \<Rightarrow> ('d, 'm, 'a) db_op_in \<Rightarrow> ('d, 'm, 'a) db_op_in" where
  "InTx fails fn s0 =
     (case interact fails s0 of
        (Some err, s1) \<Rightarrow> (Inl (Wrap err ''cannot begin transaction''), s1)
      | (None, s1) \<Rightarrow>
     (case fn (s1\<lparr>sDepth := sDepth s1 + 1\<rparr>) of
        (Inl err, s2) \<Rightarrow> (Inl err, rollback s0 s2)
      | (Inr x, s2) \<Rightarrow>
     (case interact fails s2 of
        (Some err, s3) \<Rightarrow> (Inl (Wrap err ''cannot commit transaction''), rollback s0 s3)
      | (None, s3) \<Rightarrow> (Inr x, commit (sDepth s0) s3))))"

text \<open>
  \<open>set_config(name, value, is_local)\<close>, for the two settings of a scope at once. What is local
  lasts to the end of the transaction, and outside of one not at all; what is not stays with the
  session when the transaction commits.
\<close>

definition set_context :: "bool \<Rightarrow> scope \<Rightarrow> ('d, 'm) session_scheme \<Rightarrow> ('d, 'm) session_scheme" where
  "set_context is_local sc s =
     (if \<not> is_local then s\<lparr>sScope := sc, sBase := sc\<rparr>
      else if sDepth s = 0 then s
      else s\<lparr>sScope := sc\<rparr>)"

definition setScope :: "failures \<Rightarrow> scope \<Rightarrow> ('d, unit) db_op" where
  "setScope fails sc s =
     (case interact fails s of
        (Some err, s1) \<Rightarrow> (Inl (Wrap err ''cannot set tenant context''), s1)
      | (None, s1) \<Rightarrow> (Inr (), set_context True sc s1))"

definition db_bind ::
  "('d, 'm, 'a) db_op_in \<Rightarrow> ('a \<Rightarrow> ('d, 'm, 'b) db_op_in) \<Rightarrow> ('d, 'm, 'b) db_op_in" where
  "db_bind m k s = (case m s of (Inl err, s1) \<Rightarrow> (Inl err, s1) | (Inr x, s1) \<Rightarrow> k x s1)"

definition InScope :: "failures \<Rightarrow> scope \<Rightarrow> ('d, 'a) db_op \<Rightarrow> ('d, 'a) db_op" where
  "InScope fails sc fn = InTx fails (db_bind (setScope fails sc) (\<lambda>_. fn))"

text \<open>One statement: the database answers from the data, unless it cannot answer at all.\<close>

definition statement ::
  "failures \<Rightarrow> (('d, 'm) session_scheme \<Rightarrow> go_error + 'a \<times> 'd) \<Rightarrow> ('d, 'm, 'a) db_op_in" where
  "statement fails answer s =
     (case interact fails s of
        (Some err, s1) \<Rightarrow> (Inl err, s1)
      | (None, s1) \<Rightarrow>
     (case answer s1 of
        Inl err \<Rightarrow> (Inl err, s1)
      | Inr (x, d) \<Rightarrow> (Inr x, s1\<lparr>sData := d\<rparr>)))"

text \<open>The errors of an operation, each turned into another.\<close>

definition map_error ::
  "(go_error \<Rightarrow> go_error) \<Rightarrow> ('d, 'm, 'a) db_op_in \<Rightarrow> ('d, 'm, 'a) db_op_in" where
  "map_error f m s = (case m s of (Inl err, s1) \<Rightarrow> (Inl (f err), s1) | (Inr x, s1) \<Rightarrow> (Inr x, s1))"

text \<open>What row-level security shows and lets in (the policies of the tables).\<close>

definition visible :: "scope \<Rightarrow> bytes \<Rightarrow> bool" where
  "visible sc tenant \<longleftrightarrow> tenant = scope_TenantID sc \<or> scope_Admin sc"

lemma InTx_Inl_data: "InTx fails fn s = (Inl e, s') \<Longrightarrow> sData s' = sData s \<and> sScope s' = sScope s \<and> sBase s' = sBase s \<and> sDepth s' = sDepth s"
  by (auto simp: InTx_def interact_def rollback_def split: prod.splits sum.splits option.splits)

lemma InTx_InrE:
  assumes "InTx fails fn s0 = (Inr x, s')"
  obtains s2 where "fn (s0\<lparr>sStep := sStep s0 + 1, sDepth := sDepth s0 + 1\<rparr>) = (Inr x, s2)"
    and "sData s' = sData s2" and "sDepth s' = sDepth s0"
    and "sBase s' = sBase s2" and "sScope s' = (if sDepth s0 = 0 then sBase s2 else sScope s2)"
  using assms
  by (auto simp: InTx_def interact_def commit_def split: prod.splits sum.splits option.splits)

lemma db_bind_Inr:
  "db_bind m k s = (Inr y, s') \<longleftrightarrow> (\<exists>x s1. m s = (Inr x, s1) \<and> k x s1 = (Inr y, s'))"
  by (auto simp: db_bind_def split: prod.splits sum.splits)

lemma statement_Inr:
  "statement fails answer s = (Inr x, s') \<Longrightarrow>
   \<exists>d. answer (s\<lparr>sStep := sStep s + 1\<rparr>) = Inr (x, d) \<and> s' = s\<lparr>sStep := sStep s + 1, sData := d\<rparr>"
  by (auto simp: statement_def interact_def split: option.splits sum.splits prod.splits)

lemma map_error_Inr [simp]: "map_error f m s = (Inr x, s') \<longleftrightarrow> m s = (Inr x, s')"
  by (auto simp: map_error_def split: prod.splits sum.splits)

lemma setScope_Inr:
  "setScope fails sc s = (Inr u, s') \<Longrightarrow> 0 < sDepth s \<Longrightarrow> s' = s\<lparr>sScope := sc, sStep := sStep s + 1\<rparr>"
  by (auto simp: setScope_def set_context_def interact_def split: option.splits)

subsection \<open>A session used again\<close>

text \<open>
  The pool hands a session to one request after the other. An operation leaves it as fit for the
  next if what it comes back to is what it was; every way the code has to put an operation
  together keeps that.
\<close>

definition keeps_session :: "('d, 'm, 'a) db_op_in \<Rightarrow> bool" where
  "keeps_session fn \<longleftrightarrow> (\<forall>s. sBase (snd (fn s)) = sBase s)"

lemma keeps_session_statement [intro]: "keeps_session (statement fails answer)"
  by (auto simp: keeps_session_def statement_def interact_def split: option.split sum.split)

lemma keeps_session_setScope [intro]: "keeps_session (setScope fails sc)"
  by (auto simp: keeps_session_def setScope_def set_context_def interact_def split: option.split)

lemma keeps_session_bind [intro]:
  assumes "keeps_session m" and "\<And>x. keeps_session (k x)"
  shows "keeps_session (db_bind m k)"
proof -
  have "sBase (snd (db_bind m k s)) = sBase s" for s
  proof (cases "m s")
    case (Pair r s1)
    then have "sBase s1 = sBase s" using assms(1) by (metis keeps_session_def snd_conv)
    with Pair assms(2) show ?thesis by (cases r) (simp_all add: db_bind_def keeps_session_def)
  qed
  then show ?thesis by (simp add: keeps_session_def)
qed

lemma keeps_session_map_error [intro]: "keeps_session m \<Longrightarrow> keeps_session (map_error f m)"
  by (auto simp: keeps_session_def map_error_def split: prod.split sum.split) (metis snd_conv)+

lemma keeps_session_InTx [intro]:
  assumes "keeps_session fn"
  shows "keeps_session (InTx fails fn)"
proof -
  have "sBase (snd (InTx fails fn s)) = sBase s" for s
  proof (cases "InTx fails fn s")
    case (Pair r s')
    show ?thesis
    proof (cases r)
      case (Inl e)
      with Pair InTx_Inl_data [of fails fn s e s'] show ?thesis by simp
    next
      case (Inr x)
      with Pair have "InTx fails fn s = (Inr x, s')" by simp
      then obtain s2 where s2: "fn (s\<lparr>sStep := sStep s + 1, sDepth := sDepth s + 1\<rparr>) = (Inr x, s2)"
        and base: "sBase s' = sBase s2"
        by (rule InTx_InrE)
      from s2 assms have "sBase s2 = sBase (s\<lparr>sStep := sStep s + 1, sDepth := sDepth s + 1\<rparr>)"
        by (metis keeps_session_def snd_conv)
      with Pair base show ?thesis by simp
    qed
  qed
  then show ?thesis by (simp add: keeps_session_def)
qed

lemma keeps_session_InScope [intro]: "keeps_session fn \<Longrightarrow> keeps_session (InScope fails sc fn)"
  unfolding InScope_def by (intro keeps_session_InTx keeps_session_bind keeps_session_setScope)

text \<open>
  C34. The row-level security context of a request never outlives its transaction. The session
  has a context it comes back to, and \<open>fn\<close> is made of statements, further scopes and
  transactions. Then \<open>InScope\<close>, begun outside any transaction, runs \<open>fn\<close> under exactly the scope
  asked for, and whether it fails or succeeds the next request finds the session in the context
  it came with, outside any transaction, with that context still the one it comes back to. An
  error, of a COMMIT too, leaves the data as they were.
\<close>

theorem InScope_contains:
  assumes "keeps_session fn" and "sDepth s = 0" and "sScope s = sBase s"
  shows "case InScope fails sc fn s of (r, s') \<Rightarrow>
     sScope s' = sScope s \<and> sBase s' = sBase s \<and> sDepth s' = 0
     \<and> (case r of
          Inl _ \<Rightarrow> sData s' = sData s
        | Inr x \<Rightarrow> \<exists>s2. fn (s\<lparr>sDepth := 1, sScope := sc, sStep := sStep s + 2\<rparr>) = (Inr x, s2)
            \<and> sData s' = sData s2)"
proof (cases "InScope fails sc fn s")
  case (Pair r s')
  have base: "sBase s' = sBase s"
    using keeps_session_InScope [OF assms(1), of fails sc] Pair by (metis keeps_session_def snd_conv)
  show ?thesis
  proof (cases r)
    case (Inl e)
    with Pair InTx_Inl_data [of fails _ s e s'] assms(2) show ?thesis
      by (auto simp: InScope_def)
  next
    case (Inr x)
    with Pair assms(2) have "InTx fails (db_bind (setScope fails sc) (\<lambda>_. fn)) s = (Inr x, s')"
      by (simp add: InScope_def)
    then obtain s1 where s1: "db_bind (setScope fails sc) (\<lambda>_. fn) (s\<lparr>sStep := sStep s + 1, sDepth := sDepth s + 1\<rparr>) = (Inr x, s1)"
      "sData s' = sData s1" "sDepth s' = 0" "sBase s' = sBase s1" "sScope s' = sBase s1"
      using assms(2) by (auto elim: InTx_InrE)
    then have "fn (s\<lparr>sDepth := 1, sScope := sc, sStep := sStep s + 2\<rparr>) = (Inr x, s1)"
      using assms(2) by (auto simp: db_bind_Inr dest!: setScope_Inr)
    with s1 base Pair Inr assms(3) show ?thesis by auto
  qed
qed

text \<open>A request as the admin, on a session that has seen none, that reads its own context.\<close>

theorem InScope_contains_witness:
  "\<exists>s'. InScope (\<lambda>_. None) AdminScope (statement (\<lambda>_. None) (\<lambda>s. Inr (sScope s, sData s)))
      \<lparr>sData = (), sScope = NoScope, sBase = NoScope, sDepth = 0, sStep = 0\<rparr> = (Inr AdminScope, s')
    \<and> sScope s' = NoScope"
proof -
  let ?fn = "statement (\<lambda>_. None) (\<lambda>s :: unit session. Inr (sScope s, sData s))"
  let ?s = "\<lparr>sData = (), sScope = NoScope, sBase = NoScope, sDepth = 0, sStep = 0\<rparr>"
  have "fst (InScope (\<lambda>_. None) AdminScope ?fn ?s) = Inr AdminScope" by code_simp
  moreover have "keeps_session ?fn" by (rule keeps_session_statement)
  note InScope_contains [OF this, where s = ?s and fails = "\<lambda>_. None" and sc = AdminScope]
  ultimately show ?thesis
    by (cases "InScope (\<lambda>_. None) AdminScope ?fn ?s") auto
qed

subsection \<open>Tenants and users\<close>

definition tenant_byte :: "char \<Rightarrow> bool" where
  "tenant_byte c \<longleftrightarrow> ascii_digit c \<or> (CHR ''A'' \<le> c \<and> c \<le> CHR ''Z'')
     \<or> (CHR ''a'' \<le> c \<and> c \<le> CHR ''z'') \<or> c \<in> set ''_-''"

text \<open>The expression \<open>^[A-Za-z0-9_-]{1,64}$\<close>.\<close>

definition ValidTenantID :: "bytes \<Rightarrow> bool" where
  "ValidTenantID s \<longleftrightarrow> 1 \<le> length s \<and> length s \<le> 64 \<and> (\<forall>c \<in> set s. tenant_byte c)"

definition InvalidTenantID :: bytes where
  "InvalidTenantID = ''tenant must be 1 to 64 letters, digits, '-' or '_'' @ [CHR 0x27]"

record user =
  user_ID :: int
  user_PasswordHash :: bytes
  user_Role :: bytes
  user_TenantID :: "bytes option"

text \<open>
  \<open>FindByEmail\<close>: the row found, if any, or the error of the query, as the database gives
  them for an email.
\<close>

definition FindByEmail :: "(bytes \<Rightarrow> go_error + user option) \<Rightarrow> bytes \<Rightarrow> go_error + user" where
  "FindByEmail query email =
     (case query email of
        Inr None \<Rightarrow> Inl (NotFound ''user_not_found'' ''no user has this email'')
      | Inl err \<Rightarrow> Inl (Wrap err ''cannot look up user'')
      | Inr (Some row) \<Rightarrow> Inr row)"

text \<open>\<open>List\<close> of tenants, ordered by the query: every one, or only the one named.\<close>

definition tenants_List ::
  "(bytes option \<Rightarrow> go_error + (bytes \<times> bytes) list) \<Rightarrow> bytes \<Rightarrow> go_error + (bytes \<times> bytes) list" where
  "tenants_List query only =
     (case query (if only \<noteq> [] then Some only else None) of
        Inl err \<Rightarrow> Inl (Wrap err ''cannot list tenants'')
      | Inr ts \<Rightarrow> Inr ts)"

end
