(* ===== verification/Go_Net.thy ===== *)
theory Go_Net
  imports Go_Strings
begin

text \<open>
  What the source uses of Go's package \<open>net/netip\<close>: \<open>ParseAddr\<close>, \<open>Unmap\<close> and
  \<open>WithZone("")\<close>. An IPv4 address is its 32-bit value, an IPv6 address its 128-bit value
  with a zone.
\<close>

datatype addr = V4 int | V6 int bytes

fun octets_value :: "bytes list \<Rightarrow> int" where
  "octets_value ws = foldl (\<lambda>v w. v * 256 + digits_value w) 0 ws"

text \<open>One octet of \<open>parseIPv4Fields\<close>: decimal, at most 255, without a leading zero.\<close>

definition octet :: "bytes \<Rightarrow> bool" where
  "octet w \<longleftrightarrow> all_digits w \<and> length w \<le> 3 \<and> (hd w = CHR ''0'' \<longrightarrow> length w = 1) \<and> digits_value w \<le> 255"

definition parse_ipv4 :: "bytes \<Rightarrow> int option" where
  "parse_ipv4 s =
     (let ws = split_byte (CHR ''.'') s in
      if length ws = 4 \<and> (\<forall>w \<in> set ws. octet w) then Some (octets_value ws) else None)"

definition hex_value :: "char \<Rightarrow> int option" where
  "hex_value c =
     (if ascii_digit c then Some (byte c - 48)
      else if CHR ''a'' \<le> c \<and> c \<le> CHR ''f'' then Some (byte c - 87)
      else if CHR ''A'' \<le> c \<and> c \<le> CHR ''F'' then Some (byte c - 55)
      else None)"

definition hex_digit :: "char \<Rightarrow> bool" where
  "hex_digit c \<longleftrightarrow> hex_value c \<noteq> None"

definition hex_number :: "bytes \<Rightarrow> int" where
  "hex_number s = foldl (\<lambda>v c. v * 16 + (case hex_value c of Some d \<Rightarrow> d | None \<Rightarrow> 0)) 0 s"

text \<open>
  The loop of \<open>parseIPv6\<close>: the 16-bit groups read so far (\<open>gs\<close>), where the ellipsis
  stood, and what is left of the address. It reads one group a step, and ends with the
  groups, the ellipsis and the rest.
\<close>

type_synonym v6_state = "int list \<times> nat option \<times> bytes"

function v6_groups :: "int list \<Rightarrow> nat option \<Rightarrow> bytes \<Rightarrow> v6_state option" where
  "v6_groups gs ell s =
     (if 8 \<le> length gs then Some (gs, ell, s)
      else
        (let ds = takeWhile hex_digit s; rest = dropWhile hex_digit s in
         if ds = [] \<or> 4 < length ds then None
         else if has_prefix rest ''.'' then
           (if (ell = None \<and> length gs \<noteq> 6) \<or> 6 < length gs then None
            else map_option (\<lambda>v. (gs @ [v div 65536, v mod 65536], ell, [])) (parse_ipv4 s))
         else
           (let gs' = gs @ [hex_number ds] in
            if rest = [] then Some (gs', ell, [])
            else if \<not> has_prefix rest '':'' \<or> length rest = 1 then None
            else if has_prefix (tl rest) '':'' then
              (if ell \<noteq> None then None
               else if tl (tl rest) = [] then Some (gs', Some (length gs'), [])
               else v6_groups gs' (Some (length gs')) (tl (tl rest)))
            else v6_groups gs' ell (tl rest))))"
  by pat_completeness auto
termination
  by (relation "measure (\<lambda>(gs, e, s). 8 - length gs)") auto

declare v6_groups.simps [simp del]

definition groups_value :: "int list \<Rightarrow> int" where
  "groups_value gs = foldl (\<lambda>v g. v * 65536 + g) 0 gs"

definition v6_value :: "v6_state \<Rightarrow> int option" where
  "v6_value st =
     (case st of (gs, ell, s) \<Rightarrow>
        if s \<noteq> [] then None
        else if length gs < 8 then
          (case ell of
             None \<Rightarrow> None
           | Some e \<Rightarrow> Some (groups_value (take e gs @ replicate (8 - length gs) 0 @ drop e gs)))
        else if ell = None then Some (groups_value gs) else None)"

definition parse_ipv6 :: "bytes \<Rightarrow> addr option" where
  "parse_ipv6 s =
     (let (a, zone, zoned) = cut_byte s (CHR ''%'') in
      if zoned \<and> zone = [] then None
      else if a = ''::'' then Some (V6 0 zone)
      else map_option (\<lambda>v. V6 v zone)
             (Option.bind (if has_prefix a ''::'' then v6_groups [] (Some 0) (drop 2 a)
                           else v6_groups [] None a) v6_value))"

text \<open>\<open>ParseAddr\<close>: the first of \<open>.\<close>, \<open>:\<close> and \<open>%\<close> decides.\<close>

definition parse_addr :: "bytes \<Rightarrow> addr option" where
  "parse_addr s =
     (case find (\<lambda>c. c \<in> set ''.:%'') s of
        None \<Rightarrow> None
      | Some c \<Rightarrow>
          if c = CHR ''.'' then map_option V4 (parse_ipv4 s)
          else if c = CHR '':'' then parse_ipv6 s
          else None)"

fun unmap :: "addr \<Rightarrow> addr" where
  "unmap (V4 a) = V4 a"
| "unmap (V6 a zone) = (if a div 2 ^ 32 = 0xFFFF then V4 (a mod 2 ^ 32) else V6 a zone)"

fun without_zone :: "addr \<Rightarrow> addr" where
  "without_zone (V4 a) = V4 a"
| "without_zone (V6 a zone) = V6 a []"

text \<open>What the source keeps of an address: \<open>addr.Unmap().WithZone("")\<close>.\<close>

definition plain_addr :: "addr \<Rightarrow> bool" where
  "plain_addr a \<longleftrightarrow> without_zone (unmap a) = a"

lemma plain_addr_result [simp]: "plain_addr (without_zone (unmap a))"
  by (cases a) (auto simp: plain_addr_def)

end
