(* ===== verification/Search.thy ===== *)
theory Search
  imports Store Go_Time Go_Net
begin

text \<open>
  \<open>internal/store/search.go\<close>: the filter of an events query, its validation, the SQL it
  becomes, and the pages of a search. Postgres is not part of the repository: the text
  sent to it is modelled as it is built, and \<open>cond_holds\<close> states what its documentation
  says of the few fragments the code concatenates.

  Go embeds \<open>EventFilter\<close> in \<open>eventQuery\<close>, and that in \<open>searchQuery\<close>; here the records
  extend one another.
\<close>

subsection \<open>Filters\<close>

record event_filter =
  fTenant :: bytes
  fFrom :: "zoned option"
  fTo :: "zoned option"
  fSources :: "bytes list"
  fEventType :: bytes
  fAction :: bytes
  fSeverityMin :: "int option"
  fSeverityMax :: "int option"
  fSrcIP :: bytes
  fUser :: bytes
  fHost :: bytes
  fTags :: "bytes list"
  fQuery :: bytes

record search_params = event_filter +
  pOrder :: bytes
  pLimit :: int
  pCursor :: bytes

record event_query = event_filter +
  qSrcIP :: "addr option"
  qFrom :: zoned
  qTo :: zoned

record cursor =
  cVersion :: int
  cFrom :: zoned
  cTo :: zoned
  cTs :: zoned
  cID :: int
  cFilter :: bytes

record search_query = event_query +
  qOrder :: bytes
  qLimit :: int
  qAfter :: "cursor option"
  qHash :: bytes

definition defaultSearchLimit :: int where "defaultSearchLimit = 50"
definition maxSearchLimit :: int where "maxSearchLimit = 1000"
definition defaultSearchWindow :: duration where "defaultSearchWindow = 24 * hour"
definition searchAhead :: duration where "searchAhead = hour"
definition cursorVersion :: int where "cursorVersion = 1"

definition OrderDesc :: bytes where "OrderDesc = ''desc''"
definition OrderAsc :: bytes where "OrderAsc = ''asc''"

definition invalidParam :: "bytes \<Rightarrow> go_error" where
  "invalidParam message = Malformed ''invalid_parameter'' message"

definition scopedTo :: "event_filter \<Rightarrow> scope \<Rightarrow> event_filter" where
  "scopedTo f sc =
     (if \<not> scope_Admin sc \<and> trim_space (fTenant f) = [] then f\<lparr>fTenant := scope_TenantID sc\<rparr> else f)"

text \<open>\<open>normalizeSet(values, mapping)\<close>; a nil mapping is the identity.\<close>

definition normalizeSet :: "bytes list \<Rightarrow> (bytes \<Rightarrow> bytes) \<Rightarrow> bytes list" where
  "normalizeSet values mapping =
     remdups_adj (sort (filter (\<lambda>v. v \<noteq> []) (map (\<lambda>v. mapping (trim_space v)) values)))"

text \<open>
  The first text that Postgres would refuse, in the order of the code's table. The
  result is the parameter's name.
\<close>

definition storable_text :: "bytes \<Rightarrow> bool" where
  "storable_text s \<longleftrightarrow> utf8_valid s \<and> NUL \<notin> set s"

definition filter_texts :: "event_filter \<Rightarrow> (bytes \<times> bytes) list" where
  "filter_texts f =
     [(''tenant'', fTenant f), (''event_type'', fEventType f), (''action'', fAction f),
      (''user'', fUser f), (''host'', fHost f), (''q'', fQuery f)]
     @ map (\<lambda>s. (''source'', s)) (fSources f) @ map (\<lambda>t. (''tag'', t)) (fTags f)"

definition severity_out :: "int option \<Rightarrow> bool" where
  "severity_out v = (case v of Some n \<Rightarrow> n < 0 \<or> 10 < n | None \<Rightarrow> False)"

definition resolveFilter :: "(int \<Rightarrow> int) \<Rightarrow> event_filter \<Rightarrow> go_error + event_query" where
  "resolveFilter ul f =
     (if severity_out (fSeverityMin f) then Inl (invalidParam ''severity_min must be between 0 and 10'')
      else if severity_out (fSeverityMax f) then Inl (invalidParam ''severity_max must be between 0 and 10'')
      else if (case (fSeverityMin f, fSeverityMax f) of (Some lo, Some hi) \<Rightarrow> hi < lo | _ \<Rightarrow> False)
        then Inl (invalidParam ''severity_min must not be greater than severity_max'')
      else (case find (\<lambda>t. \<not> storable_text (snd t)) (filter_texts f) of
          Some t \<Rightarrow> Inl (invalidParam (fst t @ '' must be UTF-8 text without NUL characters''))
        | None \<Rightarrow>
            (let f' = f\<lparr>fTenant := trim_space (fTenant f), fEventType := trim_space (fEventType f),
                       fAction := to_lower ul (trim_space (fAction f)),
                       fUser := trim_space (fUser f), fHost := trim_space (fHost f),
                       fSources := normalizeSet (fSources f) (to_lower ul),
                       fTags := normalizeSet (fTags f) (\<lambda>v. v)\<rparr>;
                 q = (\<lambda>ip. event_filter.extend f' \<lparr>qSrcIP = ip, qFrom = utc 0, qTo = utc 0\<rparr>);
                 s = trim_space (fSrcIP f) in
             if s = [] then Inr (q None)
             else (case parse_addr s of
                 None \<Rightarrow> Inl (invalidParam ''src_ip must be an IPv4 or IPv6 address'')
               | Some a \<Rightarrow> Inr (q (Some (without_zone (unmap a))))))))"

text \<open>\<open>now\<close> is in the zone of the process, \<open>local\<close>, and \<open>Add\<close> keeps it there.\<close>

definition defaultWindow :: "(gotime \<Rightarrow> int) \<Rightarrow> gotime \<Rightarrow> zoned \<times> zoned" where
  "defaultWindow local now = (in_zone local (now - defaultSearchWindow), in_zone local (now + searchAhead))"

definition setWindow :: "event_query \<Rightarrow> zoned \<Rightarrow> zoned \<Rightarrow> go_error + event_query" where
  "setWindow q dfrom dto =
     (let fr = (case fFrom q of Some t \<Rightarrow> t | None \<Rightarrow> dfrom);
          t = (case fTo q of Some t \<Rightarrow> t | None \<Rightarrow> dto) in
      if \<not> tmInstant fr < tmInstant t then Inl (invalidParam ''from must be before to'')
      else Inr (q\<lparr>qFrom := fr, qTo := t\<rparr>))"

subsection \<open>Cursors\<close>

text \<open>
  A cursor is opaque to the callers of the API: \<open>enc\<close> and \<open>dec\<close> are its text form and the
  reading of it (JSON in base64; \<open>enc\<close> is \<open>None\<close> where \<open>json.Marshal\<close> fails, and \<open>dec\<close> where either
  reading does), and \<open>digest\<close> is the
  hash of the parameters that \<open>filterHash\<close> takes.
\<close>

type_synonym hash_key =
  "bytes \<times> bytes \<times> bytes list \<times> bytes \<times> bytes \<times> int option \<times> int option
   \<times> addr option \<times> bytes \<times> bytes \<times> bytes list \<times> bytes"

definition filterHash :: "(hash_key \<Rightarrow> bytes) \<Rightarrow> bytes \<Rightarrow> event_query \<Rightarrow> bytes" where
  "filterHash digest order q =
     digest (order, fTenant q, fSources q, fEventType q, fAction q, fSeverityMin q, fSeverityMax q,
             qSrcIP q, fUser q, fHost q, fTags q, fQuery q)"

definition decodeCursor :: "(bytes \<Rightarrow> cursor option) \<Rightarrow> bytes \<Rightarrow> go_error + cursor" where
  "decodeCursor dec s =
     (case dec s of
        Some c \<Rightarrow> if cVersion c \<noteq> cursorVersion
                  then Inl (Malformed ''invalid_cursor'' ''cursor is not one this API issued'')
                  else Inr c
      | None \<Rightarrow> Inl (Malformed ''invalid_cursor'' ''cursor is not one this API issued''))"

definition sameTime :: "zoned option \<Rightarrow> zoned \<Rightarrow> bool" where
  "sameTime explicit fromCursor =
     (case explicit of None \<Rightarrow> True | Some t \<Rightarrow> tmInstant t = tmInstant fromCursor)"

text \<open>
  \<open>resolveSearch\<close>, its steps in the order of the code: limit, order, filter, cursor,
  window.
\<close>

definition resolve_limit :: "int \<Rightarrow> int option" where
  "resolve_limit n =
     (if n = 0 then Some defaultSearchLimit else if n < 1 \<or> maxSearchLimit < n then None else Some n)"

definition resolve_order :: "bytes \<Rightarrow> bytes option" where
  "resolve_order od = (if od = [] then Some OrderDesc
     else if od = OrderAsc \<or> od = OrderDesc then Some od else None)"

definition resolve_cursor ::
  "(bytes \<Rightarrow> cursor option) \<Rightarrow> bytes \<Rightarrow> bytes \<Rightarrow> event_query \<Rightarrow> go_error + cursor option" where
  "resolve_cursor dec s hash q =
     (if s = [] then Inr None
      else (case decodeCursor dec s of
          Inl e \<Rightarrow> Inl e
        | Inr c \<Rightarrow>
            if cFilter c \<noteq> hash \<or> \<not> sameTime (fFrom q) (cFrom c) \<or> \<not> sameTime (fTo q) (cTo c)
            then Inl (Malformed ''invalid_cursor''
              ''cursor was issued for different parameters; start again without it'')
            else Inr (Some c)))"

definition resolveSearch ::
  "(int \<Rightarrow> int) \<Rightarrow> (hash_key \<Rightarrow> bytes) \<Rightarrow> (bytes \<Rightarrow> cursor option) \<Rightarrow> (gotime \<Rightarrow> int) \<Rightarrow> search_params
   \<Rightarrow> gotime \<Rightarrow> go_error + search_query" where
  "resolveSearch ul digest dec local p now =
     (case resolve_limit (pLimit p) of
        None \<Rightarrow> Inl (invalidParam ''limit must be an integer between 1 and 1000'')
      | Some limit \<Rightarrow>
     (case resolve_order (pOrder p) of
        None \<Rightarrow> Inl (invalidParam ''order must be asc or desc'')
      | Some order \<Rightarrow>
     (case resolveFilter ul (event_filter.truncate p) of
        Inl e \<Rightarrow> Inl e
      | Inr q0 \<Rightarrow>
     (let hash = filterHash digest order q0 in
      case resolve_cursor dec (pCursor p) hash q0 of
        Inl e \<Rightarrow> Inl e
      | Inr after \<Rightarrow>
     (let (fr, t) = (case after of None \<Rightarrow> defaultWindow local now | Some c \<Rightarrow> (cFrom c, cTo c)) in
      case setWindow q0 fr t of
        Inl e \<Rightarrow> Inl e
      | Inr q \<Rightarrow> Inr (event_query.extend q
          \<lparr>qOrder = order, qLimit = limit, qAfter = after, qHash = hash\<rparr>))))))"

text \<open>The error of \<open>json.Marshal\<close> is dropped, and the text form of no bytes is empty.\<close>

definition cursorAfter :: "(cursor \<Rightarrow> bytes option) \<Rightarrow> search_query \<Rightarrow> zoned \<Rightarrow> int \<Rightarrow> bytes" where
  "cursorAfter enc q ts eid =
     (case enc \<lparr>cVersion = cursorVersion, cFrom = qFrom q, cTo = qTo q, cTs = ts, cID = eid,
         cFilter = qHash q\<rparr> of None \<Rightarrow> [] | Some s \<Rightarrow> s)"

subsection \<open>The statement\<close>

text \<open>
  A bind parameter, and the conditions of a WHERE clause with the numbers of the
  parameters they refer to. \<open>cond_text\<close> is their SQL.
\<close>

datatype arg =
    ATime gotime | AText bytes | ATexts "bytes list" | AInt int | AAddr addr

datatype cond =
    TsFrom nat | TsBefore nat | TenantIs nat | SourceIn nat | EventTypeIs nat | ActionIs nat
  | SeverityFrom nat | SeverityUpTo nat | SrcIPIs nat | UserIs nat | HostIs nat | HasTags nat
  | RawTextLike nat | AnyValueLike nat
  | AfterPosition bool nat nat

definition placeholder :: "nat \<Rightarrow> bytes" where
  "placeholder n = ''$'' @ itoa (int n)"

definition newline_tab :: bytes where
  "newline_tab = [LF, TAB]"

fun cond_text :: "cond \<Rightarrow> bytes" where
  "cond_text (TsFrom n) = ''ts >= '' @ placeholder n"
| "cond_text (TsBefore n) = ''ts < '' @ placeholder n"
| "cond_text (TenantIs n) = ''tenant_id = '' @ placeholder n"
| "cond_text (SourceIn n) = ''source = ANY('' @ placeholder n @ '')''"
| "cond_text (EventTypeIs n) = ''event_type = '' @ placeholder n"
| "cond_text (ActionIs n) = ''action = '' @ placeholder n"
| "cond_text (SeverityFrom n) = ''severity >= '' @ placeholder n"
| "cond_text (SeverityUpTo n) = ''severity <= '' @ placeholder n"
| "cond_text (SrcIPIs n) = ''src_ip = '' @ placeholder n"
| "cond_text (UserIs n) = ''user_name = '' @ placeholder n"
| "cond_text (HostIs n) = ''host = '' @ placeholder n"
| "cond_text (HasTags n) = ''tags @> '' @ placeholder n"
| "cond_text (RawTextLike n) = ''raw::text ILIKE '' @ placeholder n"
| "cond_text (AnyValueLike n) =
     ''EXISTS ('' @ newline_tab @ ''SELECT 1 FROM jsonb_path_query(raw, 'strict $.**') AS v''
     @ newline_tab @ ''WHERE jsonb_typeof(v) IN ('string', 'number') AND v #>> '{}' ILIKE ''
     @ placeholder n @ '')''"
| "cond_text (AfterPosition asc n m) =
     ''(ts, id) '' @ (if asc then ''>'' else ''<'') @ '' ('' @ placeholder n @ '', '' @ placeholder m @ '')''"

text \<open>
  \<open>bind\<close>: a value appended to the parameters, and the condition with its number. \<open>opt_cond\<close>
  is the \<open>if\<close> around most of them.
\<close>

type_synonym clause = "cond list \<times> arg list"

definition add_cond :: "(nat \<Rightarrow> cond) \<Rightarrow> arg \<Rightarrow> clause \<Rightarrow> clause" where
  "add_cond k v cl = (fst cl @ [k (length (snd cl) + 1)], snd cl @ [v])"

definition opt_cond :: "bool \<Rightarrow> (nat \<Rightarrow> cond) \<Rightarrow> arg \<Rightarrow> clause \<Rightarrow> clause" where
  "opt_cond b k v cl = (if b then add_cond k v cl else cl)"

text \<open>\<open>likeEscaper\<close>, and \<open>escapedInJSON\<close> (the runes it looks for are single bytes).\<close>

definition like_escape :: "bytes \<Rightarrow> bytes" where
  "like_escape s =
     concat (map (\<lambda>c. if c = BACKSLASH \<or> c = CHR ''%'' \<or> c = CHR ''_'' then [BACKSLASH, c] else [c]) s)"

definition escapedInJSON :: "bytes \<Rightarrow> bool" where
  "escapedInJSON s \<longleftrightarrow> (\<exists>c \<in> set s. c = QUOTE \<or> c = BACKSLASH \<or> byte c < 0x20)"

definition query_conds :: "bytes \<Rightarrow> clause \<Rightarrow> clause" where
  "query_conds q cl =
     (if q = [] then cl
      else
        (let n = length (snd cl) + 1; args = snd cl @ [AText (''%'' @ like_escape q @ ''%'')] in
         (fst cl @ (if escapedInJSON q then [] else [RawTextLike n]) @ [AnyValueLike n], args)))"

definition the_int :: "int option \<Rightarrow> arg" where
  "the_int v = AInt (case v of Some n \<Rightarrow> n | None \<Rightarrow> 0)"

definition the_addr :: "addr option \<Rightarrow> arg" where
  "the_addr v = AAddr (case v of Some a \<Rightarrow> a | None \<Rightarrow> V4 0)"

definition where_clause :: "'a event_query_scheme \<Rightarrow> clause \<Rightarrow> clause" where
  "where_clause q cl0 =
     (let cl = add_cond TsFrom (ATime (tmInstant (qFrom q))) cl0;
          cl = add_cond TsBefore (ATime (tmInstant (qTo q))) cl;
          cl = opt_cond (fTenant q \<noteq> []) TenantIs (AText (fTenant q)) cl;
          cl = opt_cond (fSources q \<noteq> []) SourceIn (ATexts (fSources q)) cl;
          cl = opt_cond (fEventType q \<noteq> []) EventTypeIs (AText (fEventType q)) cl;
          cl = opt_cond (fAction q \<noteq> []) ActionIs (AText (fAction q)) cl;
          cl = opt_cond (fSeverityMin q \<noteq> None) SeverityFrom (the_int (fSeverityMin q)) cl;
          cl = opt_cond (fSeverityMax q \<noteq> None) SeverityUpTo (the_int (fSeverityMax q)) cl;
          cl = opt_cond (qSrcIP q \<noteq> None) SrcIPIs (the_addr (qSrcIP q)) cl;
          cl = opt_cond (fUser q \<noteq> []) UserIs (AText (fUser q)) cl;
          cl = opt_cond (fHost q \<noteq> []) HostIs (AText (fHost q)) cl;
          cl = opt_cond (fTags q \<noteq> []) HasTags (ATexts (fTags q)) cl
      in query_conds (fQuery q) cl)"

definition eventColumns :: bytes where
  "eventColumns =
     ''id, ts, received_at, tenant_id, source, vendor, product,'' @ [LF, TAB]
     @ ''event_type, event_subtype, severity, action, src_ip, src_port, dst_ip, dst_port,'' @ [LF, TAB]
     @ ''protocol, user_name, host, process, url, http_method, status_code, rule_name,'' @ [LF, TAB]
     @ ''rule_id, cloud_account_id, cloud_region, cloud_service, raw, tags''"

definition and_text :: "cond list \<Rightarrow> bytes" where
  "and_text cs = join_bytes ([LF] @ ''  AND '') (map cond_text cs)"

text \<open>\<open>sql()\<close>: its conditions with their parameters, and the text and all parameters.\<close>

definition search_conds :: "search_query \<Rightarrow> clause" where
  "search_conds q =
     (let cl = where_clause q ([], []) in
      case qAfter q of
        None \<Rightarrow> cl
      | Some c \<Rightarrow>
          (let n = length (snd cl) + 1 in
           (fst cl @ [AfterPosition (qOrder q = OrderAsc) n (n + 1)],
            snd cl @ [ATime (tmInstant (cTs c)), AInt (cID c)])))"

definition search_sql :: "search_query \<Rightarrow> bytes \<times> arg list" where
  "search_sql q =
     (let (cs, args) = search_conds q;
          dir = (if qOrder q = OrderAsc then ''ASC'' else ''DESC'');
          args' = args @ [AInt (qLimit q + 1)] in
      (''SELECT '' @ eventColumns @ [LF] @ ''FROM events'' @ [LF] @ ''WHERE '' @ and_text cs
       @ [LF] @ ''ORDER BY ts '' @ dir @ '', id '' @ dir
       @ [LF] @ ''LIMIT '' @ placeholder (length args'), args'))"

end
