(* ===== verification/Go_Utf8.thy ===== *)
theory Go_Utf8
  imports Go_Strings
begin

text \<open>
  Well-formed UTF-8 text: reading it rune by rune, an induction rule over its runes, and that
  the operations on text the source uses keep it well-formed.
\<close>

lemma byte_inj: "byte c = byte d \<longleftrightarrow> c = d"
  by (simp add: byte_def)

lemma rune_width_ascii: "byte c < 128 \<Longrightarrow> rune_width (c # s) = 1"
  by (simp add: rune_size_def case_prod_beta Let_def)

lemma rune_width_le: "rune_width s \<le> length s"
  by (cases s) (auto simp: Let_def rune_size_def split: prod.splits)

lemma runes_step:
  "s \<noteq> [] \<Longrightarrow> rune_width s \<noteq> 0 \<Longrightarrow>
   runes s = (take (rune_width s) s, True) # runes (drop (rune_width s) s)"
  by (subst runes.simps) simp

lemma runes_ascii: "byte c < 128 \<Longrightarrow> runes (c # s) = ([c], True) # runes s"
  using rune_width_ascii [of c s] by (simp add: runes_step)

text \<open>Bytes of a sequence of two or more bytes are 128 or above.\<close>

lemma accept_range_ge: "accept_range b = (lo, hi) \<Longrightarrow> 128 \<le> lo"
  by (auto simp: accept_range_def split: if_splits)

lemma rune_width_multi:
  assumes "rune_width (c # cs) = n" and "2 \<le> n"
  shows "n - 1 \<le> length cs" and "128 \<le> byte c"
    and "\<forall>x \<in> set (take (n - 1) cs). 128 \<le> byte x"
proof -
  obtain lo hi where a: "accept_range (byte c) = (lo, hi)" by fastforce
  from assms a have n: "rune_size (byte c) = n" and len: "n - 1 \<le> length cs"
    and first: "cont_byte lo hi (cs ! 0)"
    and rest: "\<forall>x \<in> set (take (n - 2) (drop 1 cs)). cont_byte 128 191 x"
    by (simp_all add: Let_def split: if_splits)
  show "n - 1 \<le> length cs" by (rule len)
  show "128 \<le> byte c"
    using n assms(2) by (simp add: rune_size_def split: if_splits)
  show "\<forall>x \<in> set (take (n - 1) cs). 128 \<le> byte x"
  proof (cases cs)
    case Nil
    then show ?thesis by simp
  next
    case (Cons d ds)
    then have "take (n - 1) cs = d # take (n - 2) ds"
      using assms(2) by (simp add: take_Cons' numeral_2_eq_2)
    moreover have "128 \<le> byte d"
      using first Cons accept_range_ge [OF a] by (simp add: cont_byte_def)
    moreover have "\<forall>x \<in> set (take (n - 2) ds). 128 \<le> byte x"
      using rest Cons by (auto simp: cont_byte_def)
    ultimately show ?thesis by simp
  qed
qed

lemma runes_cases:
  assumes "utf8_valid s" and "s \<noteq> []"
  obtains (ascii) c t where "s = c # t" "byte c < 128" "utf8_valid t"
    | (multi) w t where "s = w @ t" "\<forall>c \<in> set w. 128 \<le> byte c" "2 \<le> length w"
        "rune_width s = length w" "utf8_valid t"
proof -
  obtain c cs where s: "s = c # cs" using assms(2) by (cases s) auto
  have w0: "rune_width s \<noteq> 0"
    using assms(1) s by (subst (asm) utf8_valid_def, subst (asm) runes.simps) (auto split: if_splits)
  then have runes: "runes s = (take (rune_width s) s, True) # runes (drop (rune_width s) s)"
    using assms(2) by (simp add: runes_step)
  then have valid: "utf8_valid (drop (rune_width s) s)"
    using assms(1) by (simp add: utf8_valid_def)
  show thesis
  proof (cases "rune_width s = 1")
    case True
    then have "byte c < 128"
      using s by (auto simp: Let_def rune_size_def split: if_splits prod.splits)
    with True valid s show thesis by (intro ascii) simp_all
  next
    case False
    define n where "n = rune_width s"
    with False w0 have n: "rune_width (c # cs) = n" "2 \<le> n" by (simp_all add: s)
    note multi_bytes = rune_width_multi [OF n]
    have "take n s = c # take (n - 1) cs"
      using n(2) by (simp add: s take_Cons')
    then have "\<forall>x \<in> set (take n s). 128 \<le> byte x"
      using multi_bytes(2,3) by simp
    moreover have "length (take n s) = n"
      using multi_bytes(1) n(2) by (simp add: s)
    ultimately show thesis
      using valid n(2) by (intro multi [of "take n s" "drop n s"]) (simp_all add: n_def)
  qed
qed

lemma utf8_induct [consumes 1, case_names Nil ascii multi]:
  assumes "utf8_valid s"
    and "P []"
    and "\<And>c t. byte c < 128 \<Longrightarrow> utf8_valid t \<Longrightarrow> P t \<Longrightarrow> P (c # t)"
    and "\<And>w t. \<forall>c \<in> set w. 128 \<le> byte c \<Longrightarrow> 2 \<le> length w \<Longrightarrow> rune_width (w @ t) = length w \<Longrightarrow>
           utf8_valid t \<Longrightarrow> P t \<Longrightarrow> P (w @ t)"
  shows "P s"
  using assms(1)
proof (induction s rule: length_induct)
  case (1 s)
  show ?case
  proof (cases "s = []")
    case False
    from runes_cases [OF "1.prems" False] show ?thesis
    proof cases
      case (1 c t)
      with "1.IH" assms(3) show ?thesis by simp
    next
      case (2 w t)
      then have "length t < length s" by (cases w) auto
      with "1.IH" 2 have "P t" by blast
      with 2 assms(4) [of w t] show ?thesis by simp
    qed
  qed (use assms(2) in simp)
qed

text \<open>The width of a sequence does not depend on what follows it, and its value is not ASCII.\<close>

lemma rune_width_swap:
  assumes "rune_width (w @ t) = length w" and "2 \<le> length w"
  shows "rune_width (w @ t') = length w"
proof -
  obtain c d ws where w: "w = c # d # ws"
    using assms(2) by (cases w; cases "tl w") auto
  obtain lo hi where a: "accept_range (byte c) = (lo, hi)" by fastforce
  from assms(1) a w show ?thesis
    by (simp add: Let_def split: if_splits)
qed

lemma rune_value_multi:
  assumes "rune_width (w @ t) = length w" and "2 \<le> length w"
  shows "128 \<le> rune_value w"
proof -
  obtain c d ws where w: "w = c # d # ws"
    using assms(2) by (cases w; cases "tl w") auto
  obtain lo hi where a: "accept_range (byte c) = (lo, hi)" by fastforce
  from assms(1) a w have size: "rune_size (byte c) = length ws + 2"
    and d: "lo \<le> byte d" and ws: "\<forall>x \<in> set ws. 128 \<le> byte x"
    by (auto simp: Let_def cont_byte_def split: if_splits)
  from size have "length ws = 0 \<or> length ws = 1 \<or> length ws = 2"
    by (auto simp: rune_size_def split: if_splits)
  then consider "ws = []" | x where "ws = [x]" | x y where "ws = [x, y]"
    by (auto simp: length_Suc_conv numeral_2_eq_2)
  then show ?thesis
  proof cases
    case 1
    with size d accept_range_ge [OF a] show ?thesis
      by (auto simp: w rune_size_def split: if_splits)
  next
    case (2 x)
    with size have "224 \<le> byte c" by (auto simp: rune_size_def split: if_splits)
    moreover have "byte c = 224 \<Longrightarrow> lo = 160"
      using a by (auto simp: accept_range_def)
    ultimately show ?thesis
      using 2 d ws accept_range_ge [OF a] by (cases "byte c = 224") (auto simp: w)
  next
    case (3 x y)
    with size have "240 \<le> byte c" by (auto simp: rune_size_def split: if_splits)
    moreover have "byte c = 240 \<Longrightarrow> lo = 144"
      using a by (auto simp: accept_range_def)
    ultimately show ?thesis
      using 3 d ws accept_range_ge [OF a] by (cases "byte c = 240") (auto simp: w eval_nat_numeral)
  qed
qed

lemma runes_multi:
  "rune_width (w @ t) = length w \<Longrightarrow> 2 \<le> length w \<Longrightarrow> runes (w @ t) = (w, True) # runes t"
  by (subst runes_step) auto

subsection \<open>Well-formed text\<close>

lemma utf8_valid_Nil [simp]: "utf8_valid []"
  by (simp add: utf8_valid_def)

lemma utf8_valid_ascii: "byte c < 128 \<Longrightarrow> utf8_valid (c # s) \<longleftrightarrow> utf8_valid s"
  by (simp add: utf8_valid_def runes_ascii)

lemma utf8_valid_multi:
  "rune_width (w @ t) = length w \<Longrightarrow> 2 \<le> length w \<Longrightarrow> utf8_valid (w @ t) \<longleftrightarrow> utf8_valid t"
  by (simp add: utf8_valid_def runes_multi)

lemma utf8_valid_append: "utf8_valid s \<Longrightarrow> utf8_valid t \<Longrightarrow> utf8_valid (s @ t)"
proof (induction s rule: utf8_induct)
  case (multi w s)
  then have "rune_width (w @ (s @ t)) = length w" using rune_width_swap by blast
  with multi show ?case using utf8_valid_multi [of w "s @ t"] by simp
qed (simp_all add: utf8_valid_ascii)

lemma utf8_valid_concat: "(\<And>x. x \<in> set xs \<Longrightarrow> utf8_valid x) \<Longrightarrow> utf8_valid (concat xs)"
  by (induction xs) (auto intro: utf8_valid_append)

text \<open>A rune that was read on its own is well-formed.\<close>

lemma rune_valid: "(w, True) \<in> set (runes s) \<Longrightarrow> utf8_valid w"
proof (induction s rule: runes.induct)
  case (1 s)
  show ?case
  proof (cases "s = [] \<or> rune_width s = 0")
    case True
    with 1 show ?thesis by (subst (asm) runes.simps) (auto split: if_splits)
  next
    case False
    then have "runes s = (take (rune_width s) s, True) # runes (drop (rune_width s) s)"
      by (simp add: runes_step)
    with "1.prems" "1.IH"(2) False have "w = take (rune_width s) s \<or> utf8_valid w" by auto
    moreover have "utf8_valid (take (rune_width s) s)"
    proof (cases "rune_width s = 1")
      case True
      from False obtain c cs where "s = c # cs" by (cases s) auto
      with True show ?thesis
        by (auto simp: Let_def rune_size_def utf8_valid_ascii split: if_splits prod.splits)
    next
      case w1: False
      define v where "v = take (rune_width s) s"
      have v: "length v = rune_width s" using rune_width_le [of s] by (simp add: v_def)
      have "rune_width (v @ drop (rune_width s) s) = length v" by (simp add: v) (simp add: v_def)
      moreover have "2 \<le> length v" using w1 False v by linarith
      ultimately have "utf8_valid (v @ []) \<longleftrightarrow> utf8_valid []"
        using rune_width_swap utf8_valid_multi by blast
      then show ?thesis by (simp add: v_def)
    qed
    ultimately show ?thesis by blast
  qed
qed

lemma runes_concat: "concat (map fst (runes s)) = s"
proof (induction s rule: runes.induct)
  case (1 s)
  then show ?case by (subst runes.simps) auto
qed

lemma rune_error_valid [simp]: "utf8_valid rune_error"
  by code_simp

lemma replace_runs_valid:
  "utf8_valid rep \<Longrightarrow> (\<And>w. (w, True) \<in> set rs \<Longrightarrow> utf8_valid w) \<Longrightarrow> utf8_valid (replace_runs rep bad rs)"
  by (induction rep bad rs rule: replace_runs.induct) (auto intro!: utf8_valid_append)

lemma to_valid_utf8_valid: "utf8_valid rep \<Longrightarrow> utf8_valid (to_valid_utf8 s rep)"
  unfolding to_valid_utf8_def using rune_valid by (intro replace_runs_valid)

text \<open>Replacing an ASCII byte.\<close>

lemma replace_byte_valid:
  assumes "byte c < 128" and "utf8_valid rep" and "utf8_valid s"
  shows "utf8_valid (replace_byte c rep s)"
  using assms(3)
proof (induction s rule: utf8_induct)
  case Nil
  then show ?case by (simp add: replace_byte_def)
next
  case (ascii d t)
  then show ?case
    using assms(2) by (simp add: replace_byte_def utf8_valid_append utf8_valid_ascii)
next
  case (multi w t)
  have "replace_byte c rep w = w"
    using multi(1) assms(1) unfolding replace_byte_def
    by (induction w) auto
  moreover have "replace_byte c rep (w @ t) = replace_byte c rep w @ replace_byte c rep t"
    by (simp add: replace_byte_def)
  moreover have "rune_width (w @ replace_byte c rep t) = length w"
    using multi(2,3) rune_width_swap by blast
  ultimately show ?case
    using multi utf8_valid_multi [of w "replace_byte c rep t"] by simp
qed

lemma replace_byte_gone: "c \<notin> set rep \<Longrightarrow> c \<notin> set (replace_byte c rep s)"
  by (induction s) (auto simp: replace_byte_def)

text \<open>Encoding a code point.\<close>

lemma encoded_valid:
  assumes "rune_width w = length w" and "2 \<le> length w"
  shows "utf8_valid w"
  using utf8_valid_multi [of w "[]"] assms by simp

lemma encode_rune_valid:
  assumes "0 \<le> r"
  shows "utf8_valid (encode_rune r)"
proof -
  consider "r < 0x80" | "0x80 \<le> r" "r < 0x800" | "0xD800 \<le> r \<and> r < 0xE000 \<or> 0x10FFFF < r"
    | "0x800 \<le> r" "r < 0x10000" "\<not> (0xD800 \<le> r \<and> r < 0xE000)" | "0x10000 \<le> r" "r \<le> 0x10FFFF"
    by linarith
  then show ?thesis
  proof cases
    case 1
    with assms show ?thesis by (simp add: encode_rune_def utf8_valid_ascii byte_char_of)
  next
    case 2
    then have "2 \<le> r div 64" "r div 64 < 32" by simp_all
    with 2 show ?thesis
      by (intro encoded_valid)
        (auto simp: encode_rune_def rune_size_def accept_range_def cont_byte_def byte_char_of Let_def)
  next
    case 3
    then show ?thesis using assms by (auto simp: encode_rune_def)
  next
    case 4
    have m: "0 \<le> r div 64 mod 64" "r div 64 mod 64 < 64" "0 \<le> r mod 64" "r mod 64 < 64" by simp_all
    have d: "0 \<le> r div 4096" "r div 4096 < 16" using 4 by simp_all
    have q: "r div 64 = 64 * (r div 4096) + r div 64 mod 64"
      using zdiv_zmult2_eq [of 64 r 64] by simp
    have low: "r div 4096 = 0 \<Longrightarrow> 32 \<le> r div 64 mod 64"
      using 4(1) q zdiv_mono1 [of "0x800" r 64] by simp
    have high: "r div 64 mod 64 < 32" if "r div 4096 = 13"
    proof -
      have "r < 0xE000" using that mult_div_mod_eq [of 4096 r] pos_mod_bound [of 4096 r] by linarith
      with 4(3) have "r \<le> 0xD7FF" by linarith
      then show ?thesis using that q zdiv_mono1 [of r "0xD7FF" 64] by simp
    qed
    from 4 have e: "encode_rune r =
      map char_of [0xE0 + r div 4096, 0x80 + r div 64 mod 64, 0x80 + r mod 64]"
      by (auto simp: encode_rune_def)
    have "rune_width (map char_of [a, b, c]) = 3"
      if "a = 0xE0 + k" "b = 0x80 + x" "c = 0x80 + y" "0 \<le> k" "k < 16" "0 \<le> x" "x < 64" "0 \<le> y" "y < 64"
        "k = 0 \<longrightarrow> 32 \<le> x" "k = 13 \<longrightarrow> x < 32" for a b c k x y :: int
      using that by (auto simp: rune_size_def accept_range_def cont_byte_def byte_char_of Let_def)
    from this [OF refl refl refl d m] low high show ?thesis
      unfolding e by (intro encoded_valid) simp_all
  next
    case 5
    have m: "0 \<le> r div 4096 mod 64" "r div 4096 mod 64 < 64" "0 \<le> r div 64 mod 64" "r div 64 mod 64 < 64"
      "0 \<le> r mod 64" "r mod 64 < 64" by simp_all
    have d: "0 \<le> r div 262144" "r div 262144 < 5" using 5 by simp_all
    have q: "r div 4096 = 64 * (r div 262144) + r div 4096 mod 64"
      using zdiv_zmult2_eq [of 64 r 4096] by simp
    have low: "r div 262144 = 0 \<Longrightarrow> 16 \<le> r div 4096 mod 64"
      using 5(1) q zdiv_mono1 [of "0x10000" r 4096] by simp
    have high: "r div 262144 = 4 \<Longrightarrow> r div 4096 mod 64 < 16"
      using 5(2) q zdiv_mono1 [of r "0x10FFFF" 4096] by simp
    from 5 have e: "encode_rune r = map char_of [0xF0 + r div 262144, 0x80 + r div 4096 mod 64,
        0x80 + r div 64 mod 64, 0x80 + r mod 64]"
      by (auto simp: encode_rune_def)
    have "rune_width (map char_of [a, b, c, f]) = 4"
      if "a = 0xF0 + k" "b = 0x80 + x" "c = 0x80 + y" "f = 0x80 + z" "0 \<le> k" "k < 5" "0 \<le> x" "x < 64"
        "0 \<le> y" "y < 64" "0 \<le> z" "z < 64" "k = 0 \<longrightarrow> 16 \<le> x" "k = 4 \<longrightarrow> x < 16"
      for a b c f k x y z :: int
      using that by (auto simp: rune_size_def accept_range_def cont_byte_def byte_char_of Let_def numeral_2_eq_2)
    from this [OF refl refl refl refl d m] low high show ?thesis
      unfolding e by (intro encoded_valid) simp_all
  qed
qed

text \<open>Lowering the case keeps text well-formed and free of NUL, if no code point is lowered to it.\<close>

definition lowers_to_text :: "(int \<Rightarrow> int) \<Rightarrow> bool" where
  "lowers_to_text ul \<longleftrightarrow> (\<forall>r. 0 < ul r)"

lemma ascii_lower_byte_ascii: "byte c < 128 \<Longrightarrow> byte (ascii_lower_byte c) < 128"
  by (auto simp: ascii_lower_byte_def ascii_upper_def char_le_byte byte_char_of) (auto simp: byte_def)

lemma to_lower_valid:
  assumes "lowers_to_text ul"
  shows "utf8_valid (to_lower ul s)"
proof (cases "is_ascii s")
  case True
  then have "utf8_valid (map ascii_lower_byte s)"
    unfolding is_ascii_def by (induction s) (auto simp: utf8_valid_ascii ascii_lower_byte_ascii)
  with True show ?thesis by (simp add: to_lower_def)
next
  case False
  have "utf8_valid (lower_rune ul r)" if "r \<in> set (runes s)" for r
  proof (cases "snd r \<and> length (fst r) = 1")
    case True
    then obtain c where r: "r = ([c], True)" by (cases r) (auto simp: length_Suc_conv)
    with that have "utf8_valid [c]" using rune_valid by blast
    then have "byte c < 128" by (subst (asm) utf8_valid_def, subst (asm) runes.simps)
      (auto simp: rune_size_def Let_def split: if_splits prod.splits)
    with r show ?thesis by (simp add: lower_rune_def utf8_valid_ascii ascii_lower_byte_ascii)
  next
    case False
    with assms show ?thesis
      by (auto simp: lower_rune_def lowers_to_text_def intro!: encode_rune_valid less_imp_le)
  qed
  with False show ?thesis by (auto simp: to_lower_def intro!: utf8_valid_concat)
qed

lemma byte_NUL: "c = NUL \<longleftrightarrow> byte c = 0"
  using byte_inj [of c NUL] by (simp add: byte_def)

lemma byte_bounds: "0 \<le> byte c" "byte c < 256"
  unfolding byte_def using of_char_mod_256 [where 'a = int, of c]
    pos_mod_sign [of 256 "of_char c :: int"] pos_mod_bound [of 256 "of_char c :: int"] by linarith+

lemma ascii_lower_byte_NUL: "ascii_lower_byte c = NUL \<longleftrightarrow> c = NUL"
  using byte_bounds [of c]
  by (auto simp: ascii_lower_byte_def ascii_upper_def char_le_byte byte_NUL byte_char_of) (auto simp: byte_def)

lemma encode_rune_NUL:
  assumes "0 < r"
  shows "NUL \<notin> set (encode_rune r)"
proof -
  have no: "NUL \<notin> set (map char_of ns)" if "\<forall>n \<in> set ns. 0 < n \<and> n < 256" for ns :: "int list"
  proof -
    have "char_of n \<noteq> NUL" if "0 < n" "n < 256" for n :: int
      using that byte_char_of [of n] by (auto simp: byte_NUL)
    with that show ?thesis by fastforce
  qed
  have m: "0 \<le> x mod 64" "x mod 64 < 64" for x :: int by simp_all
  have m': "0 < 0x80 + x mod 64 \<and> 0x80 + x mod 64 < 256" for x :: int using m [of x] by linarith
  consider "r < 0x80" | "0x80 \<le> r" "r < 0x800" | "0xD800 \<le> r \<and> r < 0xE000 \<or> 0x10FFFF < r"
    | "0x800 \<le> r" "r < 0x10000" "\<not> (0xD800 \<le> r \<and> r < 0xE000)" | "0x10000 \<le> r" "r \<le> 0x10FFFF"
    by linarith
  then show ?thesis
  proof cases
    case 1
    then show ?thesis using assms no [of "[r]"] by (simp add: encode_rune_def)
  next
    case 2
    then have "0 \<le> r div 64" "r div 64 < 32" by simp_all
    moreover from 2 have "encode_rune r = map char_of [0xC0 + r div 64, 0x80 + r mod 64]"
      by (auto simp: encode_rune_def)
    ultimately show ?thesis using no [of "[0xC0 + r div 64, 0x80 + r mod 64]"] m' [of r] by simp
  next
    case 3
    then show ?thesis using assms by (auto simp: encode_rune_def rune_error_def)
  next
    case 4
    then have d: "0 \<le> r div 4096" "r div 4096 < 16" by simp_all
    from 4 have "encode_rune r = map char_of [0xE0 + r div 4096, 0x80 + r div 64 mod 64, 0x80 + r mod 64]"
      by (auto simp: encode_rune_def)
    then show ?thesis
      using d m' [of r] m' [of "r div 64"] no [of "[0xE0 + r div 4096, 0x80 + r div 64 mod 64, 0x80 + r mod 64]"] by simp
  next
    case 5
    then have d: "0 \<le> r div 262144" "r div 262144 < 5" by simp_all
    from 5 have "encode_rune r = map char_of [0xF0 + r div 262144, 0x80 + r div 4096 mod 64,
        0x80 + r div 64 mod 64, 0x80 + r mod 64]"
      by (auto simp: encode_rune_def)
    then show ?thesis
      using d m' [of r] m' [of "r div 64"] m' [of "r div 4096"] no [of "[0xF0 + r div 262144,
        0x80 + r div 4096 mod 64, 0x80 + r div 64 mod 64, 0x80 + r mod 64]"] by simp
  qed
qed

lemma to_lower_NUL:
  assumes "lowers_to_text ul" and "NUL \<notin> set s"
  shows "NUL \<notin> set (to_lower ul s)"
proof -
  have "NUL \<notin> set (lower_rune ul r)" if "r \<in> set (runes s)" for r
  proof -
    have "set (fst r) \<subseteq> set (concat (map fst (runes s)))" using that by auto
    then have "NUL \<notin> set (fst r)" using assms(2) by (auto simp: runes_concat)
    then show ?thesis
      using assms(1) by (auto simp: lower_rune_def rune_error_def lowers_to_text_def ascii_lower_byte_NUL encode_rune_NUL
          dest!: sym [of NUL])
  qed
  then show ?thesis
    using assms(2) by (auto simp: to_lower_def ascii_lower_byte_NUL dest!: sym [of NUL])
qed

end
