(* ===== verification/Sql_Like.thy ===== *)
theory Sql_Like
  imports Search Go_Utf8
begin

text \<open>
  Postgres's \<open>LIKE\<close> on code points, as its documentation defines it, and what the escaping
  of \<open>search.go\<close> achieves with it: an escaped text between two \<open>%\<close> matches exactly the
  strings that contain the text. Also the text form of a JSON string, for the cheap
  first pass over \<open>raw::text\<close>.
\<close>

subsection \<open>Code points\<close>

definition codepoints :: "bytes \<Rightarrow> int list" where
  "codepoints s = map (\<lambda>r. rune_value (fst r)) (runes s)"

text \<open>The characters that mean something to \<open>LIKE\<close> or to JSON: none of them is a letter.\<close>

definition like_special :: "int \<Rightarrow> bool" where
  "like_special c \<longleftrightarrow> c = 92 \<or> c = 37 \<or> c = 95"

definition json_special :: "int \<Rightarrow> bool" where
  "json_special c \<longleftrightarrow> c = 34 \<or> c = 92 \<or> c < 32"

definition escape_cp :: "int list \<Rightarrow> int list" where
  "escape_cp q = concat (map (\<lambda>c. if like_special c then [92, c] else [c]) q)"

fun like :: "int list \<Rightarrow> int list \<Rightarrow> bool" where
  "like t [] \<longleftrightarrow> t = []"
| "like [] (p # ps) \<longleftrightarrow> p = 37 \<and> like [] ps"
| "like (c # t) (p # ps) \<longleftrightarrow>
     (if p = 37 then like (c # t) ps \<or> like t (p # ps)
      else if p = 95 then like t ps
      else if p = 92 then (case ps of [] \<Rightarrow> False | e # ps' \<Rightarrow> c = e \<and> like t ps')
      else c = p \<and> like t ps)"

definition ilike :: "(int \<Rightarrow> int) \<Rightarrow> int list \<Rightarrow> int list \<Rightarrow> bool" where
  "ilike lw t p = like (map lw t) (map lw p)"

text \<open>
  Case mapping leaves the special characters alone and maps nothing to them.
\<close>

definition case_map :: "(int \<Rightarrow> int) \<Rightarrow> bool" where
  "case_map lw \<longleftrightarrow> (\<forall>x y. like_special x \<or> json_special x \<longrightarrow> (lw y = x \<longleftrightarrow> y = x))"

definition contains_fold :: "(int \<Rightarrow> int) \<Rightarrow> int list \<Rightarrow> int list \<Rightarrow> bool" where
  "contains_fold lw q t \<longleftrightarrow> (\<exists>a b. map lw t = a @ map lw q @ b)"

lemma like_percent: "like t (37 # ps) \<longleftrightarrow> (\<exists>a b. t = a @ b \<and> like b ps)"
proof (induction t)
  case (Cons c t)
  show ?case
  proof
    assume "like (c # t) (37 # ps)"
    then have "like (c # t) ps \<or> like t (37 # ps)" by simp
    then show "\<exists>a b. c # t = a @ b \<and> like b ps"
    proof
      assume "like t (37 # ps)"
      with Cons.IH obtain a b where "t = a @ b" and "like b ps" by blast
      then show ?thesis by (metis append_Cons)
    qed (metis append_Nil)
  next
    assume "\<exists>a b. c # t = a @ b \<and> like b ps"
    then obtain a b where ab: "c # t = a @ b" "like b ps" by blast
    then show "like (c # t) (37 # ps)"
      using Cons.IH by (cases a) auto
  qed
qed auto

lemma like_escaped: "like t (escape_cp q @ [37]) \<longleftrightarrow> (\<exists>b. t = q @ b)"
proof (induction q arbitrary: t)
  case Nil
  show ?case by (simp add: escape_cp_def like_percent)
next
  case (Cons c q)
  have "escape_cp (c # q) = (if like_special c then [92, c] else [c]) @ escape_cp q"
    by (simp add: escape_cp_def)
  then show ?case
    by (cases t) (auto simp: Cons.IH like_special_def)
qed

lemma like_infix: "like t (37 # escape_cp q @ [37]) \<longleftrightarrow> (\<exists>a b. t = a @ q @ b)"
  by (simp only: like_percent like_escaped) blast

lemma fold_special:
  "case_map lw \<Longrightarrow> like_special (lw c) \<longleftrightarrow> like_special c"
  "case_map lw \<Longrightarrow> json_special (lw c) \<longleftrightarrow> json_special c"
  by (metis case_map_def)+

lemma fold_special_id: "case_map lw \<Longrightarrow> like_special c \<Longrightarrow> lw c = c"
  by (simp add: case_map_def)

lemma map_fold_escape: "case_map lw \<Longrightarrow> map lw (escape_cp q) = escape_cp (map lw q)"
proof (induction q)
  case (Cons c q)
  have "lw 92 = 92" using Cons.prems by (simp add: fold_special_id like_special_def)
  with Cons show ?case
    by (simp add: escape_cp_def fold_special fold_special_id)
qed (simp add: escape_cp_def)

lemma ilike_escaped:
  "case_map lw \<Longrightarrow> ilike lw t (37 # escape_cp q @ [37]) \<longleftrightarrow> contains_fold lw q t"
  using fold_special_id [of lw 37]
  by (simp add: ilike_def contains_fold_def map_fold_escape like_infix like_special_def)

subsection \<open>The first pass over the text of a JSON value\<close>

definition hex_char :: "int \<Rightarrow> int" where
  "hex_char d = (if d < 10 then 48 + d else 87 + d)"

definition json_char :: "int \<Rightarrow> int list" where
  "json_char c =
     (if c = 34 \<or> c = 92 then [92, c]
      else if c = 8 then [92, 98] else if c = 9 then [92, 116] else if c = 10 then [92, 110]
      else if c = 12 then [92, 102] else if c = 13 then [92, 114]
      else if c < 32 then [92, 117, 48, 48, hex_char (c div 16), hex_char (c mod 16)]
      else [c])"

definition json_text :: "int list \<Rightarrow> int list" where
  "json_text v = concat (map json_char v)"

lemma json_text_plain: "\<forall>c \<in> set v. \<not> json_special c \<Longrightarrow> json_text v = v"
  by (induction v) (auto simp: json_text_def json_char_def json_special_def)

lemma json_text_append: "json_text (u @ v) = json_text u @ json_text v"
  by (simp add: json_text_def)

text \<open>
  A value that contains a text without special characters puts it in the JSON text too.
\<close>

lemma contains_in_json:
  assumes "case_map lw" and "\<forall>c \<in> set q. \<not> json_special c"
    and "raw = a @ json_text v @ b" and "contains_fold lw q v"
  shows "contains_fold lw q raw"
proof -
  from assms(4) obtain x y where xy: "map lw v = x @ map lw q @ y"
    by (auto simp: contains_fold_def)
  define v1 where "v1 = take (length x) v"
  define v2 where "v2 = take (length q) (drop (length x) v)"
  define v3 where "v3 = drop (length q) (drop (length x) v)"
  have v: "v = v1 @ v2 @ v3"
    unfolding v1_def v2_def v3_def by (metis append_take_drop_id)
  have "map lw v2 = take (length q) (drop (length x) (map lw v))"
    by (simp add: v2_def take_map drop_map)
  then have v2: "map lw v2 = map lw q"
    by (simp add: xy)
  have "\<forall>c \<in> set v2. \<not> json_special c"
  proof
    fix c assume "c \<in> set v2"
    then have "lw c \<in> set (map lw q)"
      using v2 by (metis image_eqI set_map)
    then obtain x where "x \<in> set q" and "lw c = lw x" by auto
    with assms(1,2) show "\<not> json_special c"
      using fold_special(2) [OF assms(1)] by metis
  qed
  then have "raw = (a @ json_text v1) @ v2 @ (json_text v3 @ b)"
    using assms(3) v by (simp add: json_text_append json_text_plain)
  then show ?thesis
    unfolding contains_fold_def v2 [symmetric] by (metis map_append)
qed

subsection \<open>The escaper of the code\<close>

lemma codepoints_ascii: "byte c < 128 \<Longrightarrow> codepoints (c # s) = byte c # codepoints s"
  by (simp add: codepoints_def runes_ascii)

lemma codepoints_multi:
  "rune_width (w @ t) = length w \<Longrightarrow> 2 \<le> length w \<Longrightarrow>
   codepoints (w @ t) = rune_value w # codepoints t"
  by (simp add: codepoints_def runes_multi)

lemma byte_special:
  "like_special (byte c) \<longleftrightarrow> c = BACKSLASH \<or> c = CHR ''%'' \<or> c = CHR ''_''"
  "json_special (byte c) \<longleftrightarrow> c = QUOTE \<or> c = BACKSLASH \<or> byte c < 32"
  using byte_inj [of c BACKSLASH] byte_inj [of c "CHR ''%''"] byte_inj [of c "CHR ''_''"]
    byte_inj [of c QUOTE]
  by (auto simp: like_special_def json_special_def byte_def)

lemma like_escape_multi: "\<forall>c \<in> set w. 128 \<le> byte c \<Longrightarrow> like_escape (w @ t) = w @ like_escape t"
proof (induction w)
  case (Cons c w)
  then have "c \<noteq> BACKSLASH \<and> c \<noteq> CHR ''%'' \<and> c \<noteq> CHR ''_''"
    by (auto simp: byte_def)
  with Cons show ?case by (simp add: like_escape_def)
qed simp

lemma codepoints_escape:
  "utf8_valid s \<Longrightarrow> codepoints (like_escape s @ r) = escape_cp (codepoints s) @ codepoints r"
proof (induction s rule: utf8_induct)
  case Nil
  show ?case by (simp add: like_escape_def codepoints_def escape_cp_def)
next
  case (ascii c t)
  have "byte BACKSLASH < 128" by (simp add: byte_def)
  with ascii show ?case
    by (auto simp: like_escape_def escape_cp_def codepoints_ascii byte_special)
      (simp_all add: byte_def)
next
  case (multi w t)
  have "rune_width (w @ like_escape t @ r) = length w"
    using rune_width_swap multi.hyps by blast
  moreover have "\<not> like_special (rune_value w)"
    using rune_value_multi multi.hyps by (fastforce simp: like_special_def)
  ultimately show ?case
    using multi by (simp add: like_escape_multi codepoints_multi escape_cp_def)
qed

lemma codepoints_pattern:
  "utf8_valid q \<Longrightarrow>
   codepoints (''%'' @ like_escape q @ ''%'') = 37 # escape_cp (codepoints q) @ [37]"
  using codepoints_escape [of q "''%''"]
  by (simp add: codepoints_ascii byte_def codepoints_def [of "[]"])

lemma escapedInJSON_codepoints:
  "utf8_valid q \<Longrightarrow> \<not> escapedInJSON q \<Longrightarrow> \<forall>c \<in> set (codepoints q). \<not> json_special c"
proof (induction q rule: utf8_induct)
  case Nil
  show ?case by (simp add: codepoints_def)
next
  case (ascii c t)
  then show ?case by (auto simp: escapedInJSON_def codepoints_ascii byte_special)
next
  case (multi w t)
  moreover have "\<not> json_special (rune_value w)"
    using rune_value_multi multi.hyps by (fastforce simp: json_special_def)
  ultimately show ?case
    by (auto simp: escapedInJSON_def codepoints_multi)
qed

end
