(* ===== verification/Search_Query.thy ===== *)
theory Search_Query
  imports Sql_Like "HOL-Library.Product_Lexorder"
begin

text \<open>
  What the statements of \<open>search.go\<close> select. A row of the table \<open>events\<close> is kept as the
  columns a filter looks at, and \<open>cond_holds\<close> gives Postgres's meaning of each condition,
  which looks its parameters up by their numbers, as the placeholders do. The text of a
  value in \<open>raw\<close> is a list of code points; \<open>lw\<close> is the database's case mapping.
\<close>

record row =
  rID :: int
  rTs :: gotime
  rTenant :: bytes
  rSource :: bytes
  rEventType :: "bytes option"
  rAction :: "bytes option"
  rSeverity :: "int option"
  rSrcIP :: "addr option"
  rUser :: "bytes option"
  rHost :: "bytes option"
  rTags :: "bytes list"
  rRawText :: "int list"
  rRawValues :: "int list list"

text \<open>Each string or number in \<open>raw\<close> stands in its text form, escaped.\<close>

definition row_ok :: "row \<Rightarrow> bool" where
  "row_ok r \<longleftrightarrow> (\<forall>v \<in> set (rRawValues r). \<exists>a b. rRawText r = a @ json_text v @ b)"

definition arg_at :: "arg list \<Rightarrow> nat \<Rightarrow> arg option" where
  "arg_at args n = (if 1 \<le> n \<and> n \<le> length args then Some (args ! (n - 1)) else None)"

definition position :: "row \<Rightarrow> gotime \<times> int" where
  "position r = (rTs r, rID r)"

definition before_pos :: "gotime \<times> int \<Rightarrow> gotime \<times> int \<Rightarrow> bool" where
  "before_pos p q \<longleftrightarrow> fst p < fst q \<or> (fst p = fst q \<and> snd p < snd q)"

text \<open>A comparison with NULL is not true.\<close>

fun cond_holds :: "(int \<Rightarrow> int) \<Rightarrow> arg list \<Rightarrow> row \<Rightarrow> cond \<Rightarrow> bool" where
  "cond_holds lw args r (TsFrom n) = (case arg_at args n of Some (ATime t) \<Rightarrow> t \<le> rTs r | _ \<Rightarrow> False)"
| "cond_holds lw args r (TsBefore n) = (case arg_at args n of Some (ATime t) \<Rightarrow> rTs r < t | _ \<Rightarrow> False)"
| "cond_holds lw args r (TenantIs n) = (arg_at args n = Some (AText (rTenant r)))"
| "cond_holds lw args r (SourceIn n) = (case arg_at args n of Some (ATexts ss) \<Rightarrow> rSource r \<in> set ss | _ \<Rightarrow> False)"
| "cond_holds lw args r (EventTypeIs n) =
     (case arg_at args n of Some (AText s) \<Rightarrow> rEventType r = Some s | _ \<Rightarrow> False)"
| "cond_holds lw args r (ActionIs n) =
     (case arg_at args n of Some (AText s) \<Rightarrow> rAction r = Some s | _ \<Rightarrow> False)"
| "cond_holds lw args r (SeverityFrom n) =
     (case (arg_at args n, rSeverity r) of (Some (AInt k), Some v) \<Rightarrow> k \<le> v | _ \<Rightarrow> False)"
| "cond_holds lw args r (SeverityUpTo n) =
     (case (arg_at args n, rSeverity r) of (Some (AInt k), Some v) \<Rightarrow> v \<le> k | _ \<Rightarrow> False)"
| "cond_holds lw args r (SrcIPIs n) =
     (case arg_at args n of Some (AAddr a) \<Rightarrow> rSrcIP r = Some a | _ \<Rightarrow> False)"
| "cond_holds lw args r (UserIs n) = (case arg_at args n of Some (AText s) \<Rightarrow> rUser r = Some s | _ \<Rightarrow> False)"
| "cond_holds lw args r (HostIs n) = (case arg_at args n of Some (AText s) \<Rightarrow> rHost r = Some s | _ \<Rightarrow> False)"
| "cond_holds lw args r (HasTags n) =
     (case arg_at args n of Some (ATexts ts) \<Rightarrow> set ts \<subseteq> set (rTags r) | _ \<Rightarrow> False)"
| "cond_holds lw args r (RawTextLike n) =
     (case arg_at args n of Some (AText p) \<Rightarrow> ilike lw (rRawText r) (codepoints p) | _ \<Rightarrow> False)"
| "cond_holds lw args r (AnyValueLike n) =
     (case arg_at args n of Some (AText p) \<Rightarrow> (\<exists>v \<in> set (rRawValues r). ilike lw v (codepoints p)) | _ \<Rightarrow> False)"
| "cond_holds lw args r (AfterPosition asc n m) =
     (case (arg_at args n, arg_at args m) of
        (Some (ATime t), Some (AInt i)) \<Rightarrow>
          if asc then before_pos (t, i) (position r) else before_pos (position r) (t, i)
      | _ \<Rightarrow> False)"

declare cond_holds.simps [simp del]

lemma cond_holds_simps [simp]:
  "cond_holds lw args r (TsFrom n) = (\<exists>t. arg_at args n = Some (ATime t) \<and> t \<le> rTs r)"
  "cond_holds lw args r (TsBefore n) = (\<exists>t. arg_at args n = Some (ATime t) \<and> rTs r < t)"
  "cond_holds lw args r (TenantIs n) = (arg_at args n = Some (AText (rTenant r)))"
  "cond_holds lw args r (SourceIn n) = (\<exists>ss. arg_at args n = Some (ATexts ss) \<and> rSource r \<in> set ss)"
  "cond_holds lw args r (EventTypeIs n) =
     (\<exists>s. arg_at args n = Some (AText s) \<and> rEventType r = Some s)"
  "cond_holds lw args r (ActionIs n) = (\<exists>s. arg_at args n = Some (AText s) \<and> rAction r = Some s)"
  "cond_holds lw args r (SeverityFrom n) =
     (\<exists>k v. arg_at args n = Some (AInt k) \<and> rSeverity r = Some v \<and> k \<le> v)"
  "cond_holds lw args r (SeverityUpTo n) =
     (\<exists>k v. arg_at args n = Some (AInt k) \<and> rSeverity r = Some v \<and> v \<le> k)"
  "cond_holds lw args r (SrcIPIs n) = (\<exists>a. arg_at args n = Some (AAddr a) \<and> rSrcIP r = Some a)"
  "cond_holds lw args r (UserIs n) = (\<exists>s. arg_at args n = Some (AText s) \<and> rUser r = Some s)"
  "cond_holds lw args r (HostIs n) = (\<exists>s. arg_at args n = Some (AText s) \<and> rHost r = Some s)"
  "cond_holds lw args r (HasTags n) =
     (\<exists>ts. arg_at args n = Some (ATexts ts) \<and> set ts \<subseteq> set (rTags r))"
  "cond_holds lw args r (RawTextLike n) =
     (\<exists>p. arg_at args n = Some (AText p) \<and> ilike lw (rRawText r) (codepoints p))"
  "cond_holds lw args r (AnyValueLike n) =
     (\<exists>p. arg_at args n = Some (AText p) \<and> (\<exists>v \<in> set (rRawValues r). ilike lw v (codepoints p)))"
  "cond_holds lw args r (AfterPosition asc n m) =
     (\<exists>t i. arg_at args n = Some (ATime t) \<and> arg_at args m = Some (AInt i) \<and>
       (if asc then before_pos (t, i) (position r) else before_pos (position r) (t, i)))"
             apply (simp_all only: cond_holds.simps)
             apply (auto split: option.splits arg.splits) [14]
  by (cases "arg_at args n"; cases "arg_at args m"; cases "the (arg_at args n)"; cases "the (arg_at args m)") auto

definition selects :: "(int \<Rightarrow> int) \<Rightarrow> clause \<Rightarrow> row \<Rightarrow> bool" where
  "selects lw cl r \<longleftrightarrow> (\<forall>c \<in> set (fst cl). cond_holds lw (snd cl) r c)"

text \<open>What a filter means, as the comments on \<open>EventFilter\<close> put it.\<close>

definition matches :: "(int \<Rightarrow> int) \<Rightarrow> 'a event_query_scheme \<Rightarrow> row \<Rightarrow> bool" where
  "matches lw q r \<longleftrightarrow>
     tmInstant (qFrom q) \<le> rTs r \<and> rTs r < tmInstant (qTo q)
     \<and> (fTenant q = [] \<or> rTenant r = fTenant q)
     \<and> (fSources q = [] \<or> rSource r \<in> set (fSources q))
     \<and> (fEventType q = [] \<or> rEventType r = Some (fEventType q))
     \<and> (fAction q = [] \<or> rAction r = Some (fAction q))
     \<and> (case fSeverityMin q of None \<Rightarrow> True | Some k \<Rightarrow> \<exists>v. rSeverity r = Some v \<and> k \<le> v)
     \<and> (case fSeverityMax q of None \<Rightarrow> True | Some k \<Rightarrow> \<exists>v. rSeverity r = Some v \<and> v \<le> k)
     \<and> (case qSrcIP q of None \<Rightarrow> True | Some a \<Rightarrow> rSrcIP r = Some a)
     \<and> (fUser q = [] \<or> rUser r = Some (fUser q))
     \<and> (fHost q = [] \<or> rHost r = Some (fHost q))
     \<and> set (fTags q) \<subseteq> set (rTags r)
     \<and> (fQuery q = [] \<or> (\<exists>v \<in> set (rRawValues r). contains_fold lw (codepoints (fQuery q)) v))"

subsection \<open>Clauses are built in step with their parameters\<close>

text \<open>
  Every condition refers only to parameters that are there, so what is appended later
  changes nothing for it.
\<close>

fun cond_params :: "cond \<Rightarrow> nat list" where
  "cond_params (TsFrom n) = [n]" | "cond_params (TsBefore n) = [n]"
| "cond_params (TenantIs n) = [n]" | "cond_params (SourceIn n) = [n]"
| "cond_params (EventTypeIs n) = [n]" | "cond_params (ActionIs n) = [n]"
| "cond_params (SeverityFrom n) = [n]" | "cond_params (SeverityUpTo n) = [n]"
| "cond_params (SrcIPIs n) = [n]" | "cond_params (UserIs n) = [n]"
| "cond_params (HostIs n) = [n]" | "cond_params (HasTags n) = [n]"
| "cond_params (RawTextLike n) = [n]" | "cond_params (AnyValueLike n) = [n]"
| "cond_params (AfterPosition asc n m) = [n, m]"

definition clause_ok :: "clause \<Rightarrow> bool" where
  "clause_ok cl \<longleftrightarrow>
     (\<forall>c \<in> set (fst cl). \<forall>n \<in> set (cond_params c). 1 \<le> n \<and> n \<le> length (snd cl))"

lemma arg_at_append: "1 \<le> n \<Longrightarrow> n \<le> length args \<Longrightarrow> arg_at (args @ later) n = arg_at args n"
  by (auto simp: arg_at_def nth_append)

lemma arg_at_new [simp]: "arg_at (args @ [v]) (Suc (length args)) = Some v"
  by (simp add: arg_at_def)

lemma cond_holds_append:
  "\<forall>n \<in> set (cond_params c). 1 \<le> n \<and> n \<le> length args \<Longrightarrow>
   cond_holds lw (args @ later) r c = cond_holds lw args r c"
  by (cases c) (simp_all add: arg_at_append)

lemma selects_append_args:
  "clause_ok (cs, args) \<Longrightarrow>
   (\<forall>c \<in> set cs. cond_holds lw (args @ later) r c) = selects lw (cs, args) r"
  by (auto simp: selects_def clause_ok_def cond_holds_append)

lemma add_cond_ok [wf_intros]:
  "clause_ok cl \<Longrightarrow> (\<And>n. cond_params (k n) = [n]) \<Longrightarrow> clause_ok (add_cond k v cl)"
  by (auto simp: clause_ok_def add_cond_def le_Suc_eq Suc_le_eq)

lemma opt_cond_ok [wf_intros]:
  "clause_ok cl \<Longrightarrow> (\<And>n. cond_params (k n) = [n]) \<Longrightarrow> clause_ok (opt_cond b k v cl)"
  by (auto simp: opt_cond_def add_cond_ok)

lemma query_conds_ok [wf_intros]: "clause_ok cl \<Longrightarrow> clause_ok (query_conds q cl)"
  by (auto simp: clause_ok_def query_conds_def Let_def le_Suc_eq Suc_le_eq)

lemma selects_add_cond:
  "clause_ok cl \<Longrightarrow>
   selects lw (add_cond k v cl) r \<longleftrightarrow>
     selects lw cl r \<and> cond_holds lw (snd cl @ [v]) r (k (Suc (length (snd cl))))"
  using selects_append_args [of "fst cl" "snd cl" lw "[v]" r]
  by (auto simp: selects_def add_cond_def)

lemma selects_opt_cond:
  "clause_ok cl \<Longrightarrow>
   selects lw (opt_cond b k v cl) r \<longleftrightarrow>
     selects lw cl r \<and> (b \<longrightarrow> cond_holds lw (snd cl @ [v]) r (k (Suc (length (snd cl)))))"
  by (auto simp: opt_cond_def selects_add_cond)

lemma selects_query_conds:
  assumes "clause_ok cl" and "case_map lw" and "row_ok r" and "utf8_valid q"
  shows "selects lw (query_conds q cl) r \<longleftrightarrow>
     selects lw cl r \<and> (q = [] \<or> (\<exists>v \<in> set (rRawValues r). contains_fold lw (codepoints q) v))"
proof (cases "q = []")
  case False
  define pat where "pat = ''%'' @ like_escape q @ ''%''"
  have ilike: "ilike lw v (codepoints pat) \<longleftrightarrow> contains_fold lw (codepoints q) v" for v
    unfolding pat_def codepoints_pattern [OF assms(4)] by (rule ilike_escaped [OF assms(2)])
  have "selects lw (query_conds q cl) r \<longleftrightarrow> selects lw cl r
      \<and> (\<not> escapedInJSON q \<longrightarrow> contains_fold lw (codepoints q) (rRawText r))
      \<and> (\<exists>v \<in> set (rRawValues r). contains_fold lw (codepoints q) v)"
  proof -
    define n where "n = Suc (length (snd cl))"
    have "query_conds q cl = (fst cl @ (if escapedInJSON q then [] else [RawTextLike n])
        @ [AnyValueLike n], snd cl @ [AText pat])"
      using False by (simp add: query_conds_def pat_def n_def)
    moreover have "(\<forall>c \<in> set (fst cl). cond_holds lw (snd cl @ [AText pat]) r c) = selects lw cl r"
      using selects_append_args [of "fst cl" "snd cl"] assms(1) by simp
    ultimately show ?thesis
      by (cases "escapedInJSON q") (auto simp: selects_def ball_Un n_def ilike)
  qed
  moreover have "\<not> escapedInJSON q \<Longrightarrow> v \<in> set (rRawValues r) \<Longrightarrow>
      contains_fold lw (codepoints q) v \<Longrightarrow> contains_fold lw (codepoints q) (rRawText r)" for v
    using contains_in_json [OF assms(2) escapedInJSON_codepoints [OF assms(4)]] assms(3)
    by (auto simp: row_ok_def)
  ultimately show ?thesis using False by blast
qed (simp add: query_conds_def)

lemma clause_ok_Nil [wf_intros]: "clause_ok ([], [])"
  by (simp add: clause_ok_def)

lemma where_clause_ok: "clause_ok (where_clause q ([], []))"
  unfolding where_clause_def Let_def by (intro wf_intros cond_params.simps)

text \<open>A clause and what it selects, extended one condition at a time.\<close>

definition clause_means :: "(int \<Rightarrow> int) \<Rightarrow> row \<Rightarrow> clause \<Rightarrow> bool \<Rightarrow> bool" where
  "clause_means lw r cl P \<longleftrightarrow> clause_ok cl \<and> selects lw cl r = P"

lemma means_Nil: "clause_means lw r ([], []) True"
  by (simp add: clause_means_def clause_ok_Nil selects_def)

lemma means_add_cond:
  assumes "clause_means lw r cl P" and "\<And>n. cond_params (k n) = [n]"
    and "\<And>args. cond_holds lw (args @ [v]) r (k (Suc (length args))) = Q"
  shows "clause_means lw r (add_cond k v cl) (P \<and> Q)"
  using assms by (simp add: clause_means_def add_cond_ok selects_add_cond)

lemma means_opt_cond:
  assumes "clause_means lw r cl P" and "\<And>n. cond_params (k n) = [n]"
    and "\<And>args. b \<Longrightarrow> cond_holds lw (args @ [v]) r (k (Suc (length args))) = Q"
    and "\<not> b \<Longrightarrow> Q"
  shows "clause_means lw r (opt_cond b k v cl) (P \<and> Q)"
  using assms by (auto simp: clause_means_def opt_cond_ok selects_opt_cond)

lemma means_query_conds:
  assumes "clause_means lw r cl P" and "case_map lw" and "row_ok r" and "utf8_valid q"
  shows "clause_means lw r (query_conds q cl)
    (P \<and> (q = [] \<or> (\<exists>v \<in> set (rRawValues r). contains_fold lw (codepoints q) v)))"
  using assms by (auto simp: clause_means_def query_conds_ok selects_query_conds)

lemma where_clause_means:
  assumes "case_map lw" and "row_ok r" and "utf8_valid (fQuery q)"
  shows "clause_means lw r (where_clause q ([], []))
    ((((((((((((((True \<and> tmInstant (qFrom q) \<le> rTs r) \<and> rTs r < tmInstant (qTo q))
     \<and> (fTenant q = [] \<or> rTenant r = fTenant q))
     \<and> (fSources q = [] \<or> rSource r \<in> set (fSources q)))
     \<and> (fEventType q = [] \<or> rEventType r = Some (fEventType q)))
     \<and> (fAction q = [] \<or> rAction r = Some (fAction q)))
     \<and> (case fSeverityMin q of None \<Rightarrow> True | Some k \<Rightarrow> \<exists>v. rSeverity r = Some v \<and> k \<le> v))
     \<and> (case fSeverityMax q of None \<Rightarrow> True | Some k \<Rightarrow> \<exists>v. rSeverity r = Some v \<and> v \<le> k))
     \<and> (case qSrcIP q of None \<Rightarrow> True | Some a \<Rightarrow> rSrcIP r = Some a))
     \<and> (fUser q = [] \<or> rUser r = Some (fUser q)))
     \<and> (fHost q = [] \<or> rHost r = Some (fHost q)))
     \<and> set (fTags q) \<subseteq> set (rTags r))
     \<and> (fQuery q = [] \<or> (\<exists>v \<in> set (rRawValues r). contains_fold lw (codepoints (fQuery q)) v))))"
  unfolding where_clause_def Let_def
  by (intro means_query_conds means_opt_cond means_add_cond means_Nil assms)
    (auto simp: the_int_def the_addr_def)

lemma where_clause_selects:
  assumes "case_map lw" and "row_ok r" and "utf8_valid (fQuery q)"
  shows "selects lw (where_clause q ([], [])) r \<longleftrightarrow> matches lw q r"
  using where_clause_means [OF assms] by (simp add: clause_means_def matches_def conj_assoc)

subsection \<open>A page\<close>

text \<open>The condition that continues after a cursor, in the order of the search.\<close>

definition beyond :: "bool \<Rightarrow> (gotime \<times> int) option \<Rightarrow> row \<Rightarrow> bool" where
  "beyond asc a r =
     (case a of
        None \<Rightarrow> True
      | Some p \<Rightarrow> if asc then before_pos p (position r) else before_pos (position r) p)"

definition cursor_pos :: "cursor \<Rightarrow> gotime \<times> int" where
  "cursor_pos c = (tmInstant (cTs c), cID c)"

definition ascending :: "search_query \<Rightarrow> bool" where
  "ascending q \<longleftrightarrow> qOrder q = OrderAsc"

text \<open>
  What Postgres answers to \<open>search_sql\<close> from the rows row-level security shows: those the
  conditions select, in order, no more than LIMIT.
\<close>

definition in_order :: "bool \<Rightarrow> row list \<Rightarrow> row list" where
  "in_order asc rs = (if asc then sort_key position rs else rev (sort_key position rs))"

definition run_search :: "(int \<Rightarrow> int) \<Rightarrow> row list \<Rightarrow> search_query \<Rightarrow> row list" where
  "run_search lw table q =
     take (nat (qLimit q + 1)) (in_order (ascending q) (filter (selects lw (search_conds q)) table))"

text \<open>
  \<open>read\<close>, with the query as an operation that fails with the database's own errors, and
  \<open>searchError\<close>, which tells its timeout from the request's (\<open>gone\<close>).
\<close>

definition searchError :: "bool \<Rightarrow> go_error \<Rightarrow> bytes \<Rightarrow> go_error" where
  "searchError gone err message =
     (if \<not> gone \<and> pg_code err = Some ''57014''
      then Wrapping (Unavailable ''search_timeout''
        ''the search took longer than 10s; narrow the time range or the free-text query'') err
      else Wrap err message)"

definition set_timeout :: "failures \<Rightarrow> ('d, unit) db_op" where
  "set_timeout fails s =
     (case interact fails s of
        (Some err, s1) \<Rightarrow> (Inl (Wrap err ''cannot set search timeout''), s1)
      | (None, s1) \<Rightarrow> (Inr (), s1))"

definition read_events :: "failures \<Rightarrow> scope \<Rightarrow> bool \<Rightarrow> bytes \<Rightarrow> ('d, 'a list) db_op \<Rightarrow> ('d, 'a list) db_op" where
  "read_events fails sc gone message query =
     InScope fails sc (db_bind (set_timeout fails) (\<lambda>_ s.
       case query s of
         (Inl err, s1) \<Rightarrow> (Inl (searchError gone err message), s1)
       | (Inr rows, s1) \<Rightarrow> (Inr rows, s1)))"

text \<open>
  The end of \<open>Search\<close>: one row more than the limit means there is a further page. The time of a
  row that pgx reads is in the zone of the process.
\<close>

definition page_of :: "(cursor \<Rightarrow> bytes option) \<Rightarrow> (gotime \<Rightarrow> int) \<Rightarrow> search_query \<Rightarrow> 'a row_scheme list \<Rightarrow> 'a row_scheme list \<times> bytes" where
  "page_of enc local q events =
     (if qLimit q < int (length events)
      then (let page = take (nat (qLimit q)) events; e = page ! (nat (qLimit q) - 1) in
            (page, cursorAfter enc q (in_zone local (rTs e)) (rID e)))
      else (events, []))"

definition EventRepo_Search ::
  "(int \<Rightarrow> int) \<Rightarrow> (hash_key \<Rightarrow> bytes) \<Rightarrow> (bytes \<Rightarrow> cursor option) \<Rightarrow> (cursor \<Rightarrow> bytes option) \<Rightarrow> (gotime \<Rightarrow> int)
   \<Rightarrow> (scope \<Rightarrow> bytes \<times> arg list \<Rightarrow> go_error + 'a row_scheme list) \<Rightarrow> scope \<Rightarrow> search_params \<Rightarrow> gotime
   \<Rightarrow> go_error + 'a row_scheme list \<times> bytes" where
  "EventRepo_Search ul digest dec enc local db sc p now =
     (case resolveSearch ul digest dec local
             (p\<lparr>fTenant := fTenant (scopedTo (event_filter.truncate p) sc)\<rparr>) now of
        Inl e \<Rightarrow> Inl e
      | Inr q \<Rightarrow>
     (case db sc (search_sql q) of
        Inl e \<Rightarrow> Inl e
      | Inr events \<Rightarrow> Inr (page_of enc local q events)))"

lemma search_conds_selects:
  assumes "case_map lw" and "row_ok r" and "utf8_valid (fQuery q)"
  shows "selects lw (search_conds q) r \<longleftrightarrow>
    matches lw q r \<and> beyond (ascending q) (map_option cursor_pos (qAfter q)) r"
proof (cases "qAfter q")
  case None
  with where_clause_selects [OF assms] show ?thesis
    by (simp add: search_conds_def beyond_def)
next
  case (Some c)
  define cl where "cl = where_clause q ([], [])"
  have ok: "clause_ok cl" unfolding cl_def by (rule where_clause_ok)
  have "arg_at (snd cl @ [ATime (tmInstant (cTs c)), AInt (cID c)]) (Suc (length (snd cl))) = Some (ATime (tmInstant (cTs c)))"
    and "arg_at (snd cl @ [ATime (tmInstant (cTs c)), AInt (cID c)]) (Suc (Suc (length (snd cl)))) = Some (AInt (cID c))"
    by (simp_all add: arg_at_def nth_append)
  then have "selects lw (search_conds q) r \<longleftrightarrow>
      selects lw cl r \<and> beyond (ascending q) (Some (cursor_pos c)) r"
    using selects_append_args [of "fst cl" "snd cl" lw "[ATime (tmInstant (cTs c)), AInt (cID c)]" r] ok Some
    by (auto simp: search_conds_def cl_def [symmetric] selects_def beyond_def ascending_def
        cursor_pos_def)
  with where_clause_selects [OF assms] Some show ?thesis
    by (simp add: cl_def)
qed

text \<open>What a validated query carries over from the parameters.\<close>

lemma find_None_all: "find P xs = None \<longleftrightarrow> (\<forall>x \<in> set xs. \<not> P x)"
  by (auto simp: find_None_iff)

lemma resolveFilter_Inr:
  assumes "resolveFilter ul f = Inr q"
  shows "storable_text (fQuery q)" and "fFrom q = fFrom f" and "fTo q = fTo f" and "fQuery q = fQuery f"
proof -
  from assms have "\<forall>t \<in> set (filter_texts f). storable_text (snd t)"
    by (auto simp: resolveFilter_def Let_def find_None_all split: if_splits option.splits)
  then have "storable_text (fQuery f)"
    by (auto simp: filter_texts_def)
  moreover have q: "fFrom q = fFrom f" "fTo q = fTo f" "fQuery q = fQuery f"
    using assms by (auto simp: resolveFilter_def Let_def event_filter.defs
        split: if_splits option.splits)
  ultimately show "storable_text (fQuery q)" "fFrom q = fFrom f" "fTo q = fTo f" "fQuery q = fQuery f"
    by simp_all
qed

lemma distinct_remdups_adj_sorted:
  "sorted xs \<Longrightarrow> distinct (remdups_adj xs)" for xs :: "'a :: linorder list"
proof (induction xs rule: remdups_adj.induct)
  case (3 x y xs)
  then show ?case by (cases "x = y") (auto simp: less_le)
qed auto

lemma set_normalizeSet:
  "set (normalizeSet vs m) = {v. v \<noteq> [] \<and> (\<exists>w \<in> set vs. v = m (trim_space w))}"
  by (auto simp: normalizeSet_def)

lemma normalizeSet_sorted: "sorted (normalizeSet vs m) \<and> distinct (normalizeSet vs m)"
  by (simp add: normalizeSet_def distinct_remdups_adj_sorted)

text \<open>
  Equivalent filters look the same to the cursor check: two lists of values are
  normalized to the same list exactly when they are the same set of values up to
  spacing, mapping, order, repetition and empty values; and the list has no repetition.
\<close>

theorem normalizeSet_canonical:
  "sorted (normalizeSet vs m) \<and> distinct (normalizeSet vs m)
   \<and> (normalizeSet vs m = normalizeSet ws m) =
      ({v \<in> (\<lambda>w. m (trim_space w)) ` set vs. v \<noteq> []} = {v \<in> (\<lambda>w. m (trim_space w)) ` set ws. v \<noteq> []})"
proof -
  have set_eq: "set (normalizeSet vs m) = {v \<in> (\<lambda>w. m (trim_space w)) ` set vs. v \<noteq> []}" for vs
    by (auto simp: set_normalizeSet)
  have "normalizeSet vs m = normalizeSet ws m \<longleftrightarrow> set (normalizeSet vs m) = set (normalizeSet ws m)"
    using normalizeSet_sorted sorted_distinct_set_unique by metis
  then show ?thesis
    using normalizeSet_sorted by (simp add: set_eq)
qed

lemma resolve_limit_Some: "resolve_limit n = Some l \<Longrightarrow> 1 \<le> l \<and> l \<le> 1000"
  by (auto simp: resolve_limit_def defaultSearchLimit_def maxSearchLimit_def split: if_splits)

lemma resolve_order_Some: "resolve_order od = Some order \<Longrightarrow> order = OrderAsc \<or> order = OrderDesc"
  by (auto simp: resolve_order_def split: if_splits)

lemma setWindow_Inr:
  "setWindow q0 a b = Inr q \<Longrightarrow>
   q = q0\<lparr>qFrom := (case fFrom q0 of Some t \<Rightarrow> t | None \<Rightarrow> a),
          qTo := (case fTo q0 of Some t \<Rightarrow> t | None \<Rightarrow> b)\<rparr> \<and> tmInstant (qFrom q) < tmInstant (qTo q)"
  by (auto simp: setWindow_def Let_def split: if_splits)

text \<open>The steps of a search that was accepted.\<close>

lemma resolveSearch_Inr:
  assumes "resolveSearch ul digest dec local p now = Inr q"
  obtains limit order q0 q1 after where
    "resolve_limit (pLimit p) = Some limit" "resolve_order (pOrder p) = Some order"
    "resolveFilter ul (event_filter.truncate p) = Inr q0"
    "resolve_cursor dec (pCursor p) (filterHash digest order q0) q0 = Inr after"
    "setWindow q0 (fst (case after of None \<Rightarrow> defaultWindow local now | Some c \<Rightarrow> (cFrom c, cTo c)))
       (snd (case after of None \<Rightarrow> defaultWindow local now | Some c \<Rightarrow> (cFrom c, cTo c))) = Inr q1"
    "q = event_query.extend q1 \<lparr>qOrder = order, qLimit = limit, qAfter = after,
          qHash = filterHash digest order q0\<rparr>"
  using assms by (auto simp: resolveSearch_def Let_def split: option.splits sum.splits prod.splits)

text \<open>
  C26. The statement selects what the filter says: for a search that was accepted and any
  row, the conditions sent to Postgres, with their parameters looked up by placeholder,
  hold exactly when the row matches the filter and lies after the cursor. The cheap
  first pass over the text of \<open>raw\<close> never loses a row.
\<close>

theorem search_statement_selects:
  assumes "resolveSearch ul digest dec local p now = Inr q" and "case_map lw" and "row_ok r"
  shows "selects lw (search_conds q) r =
    (matches lw q r \<and> beyond (ascending q) (map_option cursor_pos (qAfter q)) r)"
proof -
  from assms(1) obtain limit order q0 q1 after where
    "resolve_limit (pLimit p) = Some limit" "resolve_order (pOrder p) = Some order"
    and filt: "resolveFilter ul (event_filter.truncate p) = Inr q0"
    and "resolve_cursor dec (pCursor p) (filterHash digest order q0) q0 = Inr after"
    and win: "setWindow q0 (fst (case after of None \<Rightarrow> defaultWindow local now | Some c \<Rightarrow> (cFrom c, cTo c)))
       (snd (case after of None \<Rightarrow> defaultWindow local now | Some c \<Rightarrow> (cFrom c, cTo c))) = Inr q1"
    and q: "q = event_query.extend q1 \<lparr>qOrder = order, qLimit = limit, qAfter = after,
          qHash = filterHash digest order q0\<rparr>"
    by (rule resolveSearch_Inr)
  have "fQuery q1 = fQuery q0"
    using setWindow_Inr [OF win] by (elim conjE) simp
  then have "utf8_valid (fQuery q)"
    using q resolveFilter_Inr(1) [OF filt] by (simp add: event_query.defs storable_text_def)
  with assms(2,3) show ?thesis by (rule search_conds_selects)
qed

definition sample_search :: search_params where
  "sample_search = \<lparr>fTenant = ''a'', fFrom = Some (utc 0), fTo = Some (utc 10), fSources = [], fEventType = [],
     fAction = [], fSeverityMin = Some 3, fSeverityMax = None, fSrcIP = [], fUser = [], fHost = [],
     fTags = [], fQuery = ''5%'', pOrder = [], pLimit = 2, pCursor = []\<rparr>"

definition sample_match :: row where
  "sample_match = \<lparr>rID = 1, rTs = 4, rTenant = ''a'', rSource = ''api'', rEventType = None,
     rAction = None, rSeverity = Some 5, rSrcIP = None, rUser = None, rHost = None, rTags = [],
     rRawText = codepoints ''15% off'', rRawValues = [codepoints ''15% off'']\<rparr>"

theorem search_statement_selects_witness:
  "\<exists>q. resolveSearch (\<lambda>c. c) (\<lambda>k. ''h'') (\<lambda>s. None) (\<lambda>_. 0) sample_search 0 = Inr q
    \<and> selects (\<lambda>c. c) (search_conds q) sample_match"
proof -
  define q where "q = \<lparr>fTenant = ''a'', fFrom = Some (utc 0), fTo = Some (utc 10), fSources = [], fEventType = [],
     fAction = [], fSeverityMin = Some 3, fSeverityMax = None, fSrcIP = [], fUser = [], fHost = [],
     fTags = [], fQuery = ''5%'', qSrcIP = None, qFrom = utc 0, qTo = utc 10, qOrder = ''desc'', qLimit = 2,
     qAfter = None, qHash = ''h''\<rparr>"
  have q: "resolveSearch (\<lambda>c. c) (\<lambda>k. ''h'') (\<lambda>s. None) (\<lambda>_. 0) sample_search 0 = Inr q"
    unfolding q_def by code_simp
  have cps: "codepoints ''15% off'' = [49, 53, 37, 32, 111, 102, 102]" and "codepoints ''5%'' = [53, 37]"
    by code_simp+
  then have "contains_fold (\<lambda>c. c) (codepoints ''5%'') (codepoints ''15% off'')"
    by (auto simp: contains_fold_def intro: exI [of _ "[49]"])
  then have row: "matches (\<lambda>c. c) q sample_match"
    by (simp add: matches_def q_def sample_match_def)
  have "json_text (codepoints ''15% off'') = codepoints ''15% off''"
    unfolding cps by (simp add: json_text_def json_char_def)
  then have "row_ok sample_match"
    by (auto simp: row_ok_def sample_match_def intro: exI [of _ "[]"])
  moreover have "case_map (\<lambda>c. c)" by (simp add: case_map_def)
  ultimately have "selects (\<lambda>c. c) (search_conds q) sample_match"
    using search_statement_selects [OF q] row by (simp add: beyond_def q_def)
  with q show ?thesis by blast
qed

subsection \<open>The text of the statement\<close>

text \<open>
  Which filters a query sets, its order, and whether it continues after a cursor: nothing of
  the values.
\<close>

definition filters_set :: "search_query \<Rightarrow> bool list" where
  "filters_set q =
     [fTenant q = [], fSources q = [], fEventType q = [], fAction q = [], fSeverityMin q = None,
      fSeverityMax q = None, qSrcIP q = None, fUser q = [], fHost q = [], fTags q = [], fQuery q = [],
      qOrder q = OrderAsc, qAfter q = None]"

text \<open>The conditions of a clause but the cheap first pass over the text of \<open>raw\<close>.\<close>

fun first_pass :: "cond \<Rightarrow> bool" where
  "first_pass (RawTextLike n) = True"
| "first_pass _ = False"

definition same_filters :: "clause \<Rightarrow> clause \<Rightarrow> bool" where
  "same_filters cl cl' \<longleftrightarrow>
     filter (\<lambda>c. \<not> first_pass c) (fst cl) = filter (\<lambda>c. \<not> first_pass c) (fst cl')
     \<and> length (snd cl) = length (snd cl')"

definition same_text :: "clause \<Rightarrow> clause \<Rightarrow> bool" where
  "same_text cl cl' \<longleftrightarrow> fst cl = fst cl' \<and> length (snd cl) = length (snd cl')"

lemma same_text_filters: "same_text cl cl' \<Longrightarrow> same_filters cl cl'"
  by (simp add: same_text_def same_filters_def)

lemma same_text_intros:
  "same_text cl cl' \<Longrightarrow> same_text (add_cond k v cl) (add_cond k v' cl')"
  "same_text cl cl' \<Longrightarrow> b = b' \<Longrightarrow> same_text (opt_cond b k v cl) (opt_cond b' k v' cl')"
  by (auto simp: same_text_def add_cond_def opt_cond_def)

text \<open>The conditions before those of the free text.\<close>

definition value_conds :: "search_query \<Rightarrow> clause" where
  "value_conds q = where_clause (q\<lparr>fQuery := []\<rparr>) ([], [])"

lemma where_clause_split: "where_clause q ([], []) = query_conds (fQuery q) (value_conds q)"
  unfolding where_clause_def value_conds_def Let_def by (simp add: query_conds_def)

lemma same_text_values:
  assumes "filters_set q = filters_set q'"
  shows "same_text (value_conds q) (value_conds q')"
  unfolding value_conds_def where_clause_def Let_def using assms
  by (simp add: query_conds_def filters_set_def, intro same_text_intros) (simp_all add: same_text_def)

lemma same_search:
  assumes "filters_set q = filters_set q'"
  shows "same_filters (search_conds q) (search_conds q')"
    and "escapedInJSON (fQuery q) = escapedInJSON (fQuery q') \<Longrightarrow> same_text (search_conds q) (search_conds q')"
proof -
  have set: "(fQuery q = []) = (fQuery q' = [])" "(qAfter q = None) = (qAfter q' = None)"
    "(qOrder q = OrderAsc) = (qOrder q' = OrderAsc)"
    using assms by (simp_all add: filters_set_def)
  have "same_filters (where_clause q ([], [])) (where_clause q' ([], []))"
    using same_text_values [OF assms] set(1)
    by (auto simp: where_clause_split query_conds_def same_filters_def same_text_def Let_def)
  then show "same_filters (search_conds q) (search_conds q')"
    using set(2,3) by (auto simp: search_conds_def same_filters_def Let_def split: option.splits)
  assume "escapedInJSON (fQuery q) = escapedInJSON (fQuery q')"
  then have "same_text (where_clause q ([], [])) (where_clause q' ([], []))"
    using same_text_values [OF assms] set(1)
    by (auto simp: where_clause_split query_conds_def same_text_def Let_def)
  then show "same_text (search_conds q) (search_conds q')"
    using set(2,3) by (auto simp: search_conds_def same_text_def Let_def split: option.splits)
qed

text \<open>The first pass is there for a text that JSON spells as it is.\<close>

definition no_first_pass :: "clause \<Rightarrow> bool" where
  "no_first_pass cl \<longleftrightarrow> (\<forall>c \<in> set (fst cl). \<not> first_pass c)"

lemma no_first_pass_intros:
  "no_first_pass ([], [])"
  "no_first_pass cl \<Longrightarrow> (\<And>n. \<not> first_pass (k n)) \<Longrightarrow> no_first_pass (add_cond k v cl)"
  "no_first_pass cl \<Longrightarrow> (\<And>n. \<not> first_pass (k n)) \<Longrightarrow> no_first_pass (opt_cond b k v cl)"
  by (auto simp: no_first_pass_def add_cond_def opt_cond_def)

lemma value_conds_first_pass: "no_first_pass (value_conds q)"
proof -
  have "query_conds (fQuery (q\<lparr>fQuery := []\<rparr>)) cl = cl" for cl
    by (simp add: query_conds_def)
  then show ?thesis
    unfolding value_conds_def where_clause_def Let_def
    by (simp only:) (intro no_first_pass_intros; simp)
qed

lemma search_conds_first_pass:
  "(\<exists>c \<in> set (fst (search_conds q)). first_pass c) = (fQuery q \<noteq> [] \<and> \<not> escapedInJSON (fQuery q))"
proof -
  have "(\<exists>c \<in> set (fst (where_clause q ([], []))). first_pass c) = (fQuery q \<noteq> [] \<and> \<not> escapedInJSON (fQuery q))"
    using value_conds_first_pass [of q]
    by (auto simp: where_clause_split query_conds_def no_first_pass_def Let_def)
  then show ?thesis by (auto simp: search_conds_def Let_def split: option.splits)
qed

text \<open>Every placeholder has its parameter and every parameter its placeholder.\<close>

definition clause_full :: "clause \<Rightarrow> bool" where
  "clause_full cl \<longleftrightarrow> (\<Union>c \<in> set (fst cl). set (cond_params c)) = {1..length (snd cl)}"

lemma clause_full_intros:
  "clause_full ([], [])"
  "clause_full cl \<Longrightarrow> (\<And>n. cond_params (k n) = [n]) \<Longrightarrow> clause_full (add_cond k v cl)"
  "clause_full cl \<Longrightarrow> (\<And>n. cond_params (k n) = [n]) \<Longrightarrow> clause_full (opt_cond b k v cl)"
  "clause_full cl \<Longrightarrow> clause_full (query_conds q cl)"
  by (auto simp: clause_full_def add_cond_def opt_cond_def query_conds_def Let_def
      atLeastAtMostSuc_conv)

lemma search_conds_full: "clause_full (search_conds q)"
proof -
  have "clause_full (where_clause q ([], []))"
    unfolding where_clause_def Let_def by (intro clause_full_intros cond_params.simps)
  then show ?thesis
    by (auto simp: search_conds_def clause_full_def Let_def atLeastAtMostSuc_conv split: option.splits)
qed

text \<open>
  C39. Values go in as parameters. Two searches that set the same filters send as many
  parameters and, but for the cheap first pass over \<open>raw\<close>, the same conditions, whatever the
  values; one fact about the free text decides on that pass, whether JSON would escape it, and
  if the two agree on it they send the same text. The placeholders of a statement are exactly
  the numbers of its parameters.
\<close>

theorem search_sql_by_filters:
  assumes "filters_set q = filters_set q'"
  shows "length (snd (search_sql q)) = length (snd (search_sql q'))
    \<and> filter (\<lambda>c. \<not> first_pass c) (fst (search_conds q)) = filter (\<lambda>c. \<not> first_pass c) (fst (search_conds q'))
    \<and> (\<exists>c \<in> set (fst (search_conds q)). first_pass c) = (fQuery q \<noteq> [] \<and> \<not> escapedInJSON (fQuery q))
    \<and> (escapedInJSON (fQuery q) = escapedInJSON (fQuery q') \<longrightarrow> fst (search_sql q) = fst (search_sql q'))
    \<and> insert (length (snd (search_sql q))) (\<Union>c \<in> set (fst (search_conds q)). set (cond_params c))
        = {1..length (snd (search_sql q))}"
proof -
  have "(qOrder q = OrderAsc) = (qOrder q' = OrderAsc)"
    using assms by (simp add: filters_set_def)
  then have sql: "same_text (search_conds q) (search_conds q') \<Longrightarrow> fst (search_sql q) = fst (search_sql q')"
    by (auto simp: search_sql_def same_text_def Let_def split: prod.splits)
  have len: "length (snd (search_sql q)) = Suc (length (snd (search_conds q)))" for q
    by (simp add: search_sql_def Let_def split: prod.splits)
  have "insert (Suc (length (snd (search_conds q)))) (\<Union>c \<in> set (fst (search_conds q)). set (cond_params c))
      = {1..Suc (length (snd (search_conds q)))}"
    using search_conds_full [of q] by (auto simp: clause_full_def)
  with same_search(1) [OF assms] sql same_search(2) [OF assms] search_conds_first_pass [of q]
  show ?thesis unfolding len same_filters_def by simp
qed

text \<open>
  A search for a user's events: of one named \<open>bob\<close>, or of one named like an injection; and one
  for a text that JSON spells as it is, or not.
\<close>

definition user_query :: "bytes \<Rightarrow> bytes \<Rightarrow> search_query" where
  "user_query name q = \<lparr>fTenant = ''a'', fFrom = None, fTo = None, fSources = [], fEventType = [],
     fAction = [], fSeverityMin = None, fSeverityMax = None, fSrcIP = [], fUser = name, fHost = [],
     fTags = [], fQuery = q, qSrcIP = None, qFrom = utc 0, qTo = utc 10, qOrder = ''desc'', qLimit = 2,
     qAfter = None, qHash = ''h''\<rparr>"

theorem search_sql_by_filters_witness:
  "fst (search_sql (user_query ''bob'' [])) = fst (search_sql (user_query (CHR 0x27 # '' OR 1=1 --'') []))
    \<and> length (snd (search_sql (user_query ''bob'' ''x''))) = length (snd (search_sql (user_query ''bob'' [QUOTE])))"
  using search_sql_by_filters [of "user_query ''bob'' []" "user_query (CHR 0x27 # '' OR 1=1 --'') []"]
    search_sql_by_filters [of "user_query ''bob'' ''x''" "user_query ''bob'' [QUOTE]"]
  by (simp add: filters_set_def user_query_def)

end
