(* ===== verification/Search_Paging.thy ===== *)
theory Search_Paging
  imports Search_Query
begin

text \<open>
  The pages of a search: what \<open>resolveSearch\<close> lets through, and that following
  \<open>NextCursor\<close> from page to page reads every event of the search once, in order.
\<close>

subsection \<open>What a resolved search looks like\<close>

lemma resolveFilter_normal:
  assumes "resolveFilter ul f = Inr q"
  shows "trimmed (fTenant q)" and "sorted (fSources q)" and "distinct (fTags q)"
    and "qSrcIP q = None \<or> plain_addr (the (qSrcIP q))"
  using assms normalizeSet_sorted
  by (auto simp: resolveFilter_def Let_def event_filter.defs split: if_splits option.splits)

lemma view_invalidParam [result_simps]:
  "KindOf (invalidParam m) = KindMalformed" "CodeOf (invalidParam m) = ''invalid_parameter''"
  by (simp_all add: invalidParam_def Malformed_def result_simps)

lemma resolveFilter_Inl:
  "resolveFilter ul f = Inl e \<Longrightarrow> KindOf e = KindMalformed \<and> CodeOf e = ''invalid_parameter''"
  by (auto simp: resolveFilter_def Let_def result_simps split: if_splits option.splits)

lemma setWindow_Inl:
  "setWindow q a b = Inl e \<Longrightarrow> KindOf e = KindMalformed \<and> CodeOf e = ''invalid_parameter''"
  by (auto simp: setWindow_def Let_def result_simps split: if_splits)

lemma resolve_cursor_Inl:
  "resolve_cursor dec s hash q = Inl e \<Longrightarrow> KindOf e = KindMalformed \<and> CodeOf e = ''invalid_cursor''"
  by (auto simp: resolve_cursor_def decodeCursor_def Malformed_def result_simps
      split: if_splits option.splits sum.splits)

lemma resolveSearch_Inl:
  "resolveSearch ul digest dec local p now = Inl e \<Longrightarrow>
   KindOf e = KindMalformed \<and> (CodeOf e = ''invalid_parameter'' \<or> CodeOf e = ''invalid_cursor'')"
  by (auto simp: resolveSearch_def Let_def result_simps
      dest: resolveFilter_Inl setWindow_Inl resolve_cursor_Inl
      split: option.splits sum.splits prod.splits)

lemma resolveSearch_shape:
  assumes "resolveSearch ul digest dec local p now = Inr q"
  shows "utf8_valid (fQuery q) \<and> 1 \<le> qLimit q \<and> (pCursor p = [] \<longrightarrow> qAfter q = None) \<and> (\<exists>k. qHash q = digest k)"
proof -
  from assms obtain limit order q0 q1 after where
    limit: "resolve_limit (pLimit p) = Some limit"
    and filt: "resolveFilter ul (event_filter.truncate p) = Inr q0"
    and cur: "resolve_cursor dec (pCursor p) (filterHash digest order q0) q0 = Inr after"
    and win: "setWindow q0 (fst (case after of None \<Rightarrow> defaultWindow local now | Some c \<Rightarrow> (cFrom c, cTo c)))
       (snd (case after of None \<Rightarrow> defaultWindow local now | Some c \<Rightarrow> (cFrom c, cTo c))) = Inr q1"
    and q: "q = event_query.extend q1 \<lparr>qOrder = order, qLimit = limit, qAfter = after,
          qHash = filterHash digest order q0\<rparr>"
    by (rule resolveSearch_Inr)
  have "fQuery q1 = fQuery q0"
    using setWindow_Inr [OF win] by (elim conjE) simp
  moreover have "qHash q = filterHash digest order q0"
    using q by (simp add: event_query.defs)
  then have "\<exists>k. qHash q = digest k"
    unfolding filterHash_def by blast
  ultimately show ?thesis
    using q resolveFilter_Inr(1) [OF filt] resolve_limit_Some [OF limit] cur
    by (auto simp: event_query.defs storable_text_def resolve_cursor_def)
qed

text \<open>
  A search that \<open>resolveSearch\<close> accepts has a page size in 1..1000, one of the two
  orders, a window that is not empty and that has the ends the caller gave, no text that
  Postgres refuses, filters in canonical form and an address without zone; a search it
  does not accept is answered as a malformed request with one of two codes.
\<close>

theorem resolveSearch_result:
  "(case resolveSearch ul digest dec local p now of
      Inl e \<Rightarrow> KindOf e = KindMalformed \<and> (CodeOf e = ''invalid_parameter'' \<or> CodeOf e = ''invalid_cursor'')
    | Inr q \<Rightarrow>
        1 \<le> qLimit q \<and> qLimit q \<le> 1000 \<and> (qOrder q = OrderAsc \<or> qOrder q = OrderDesc)
        \<and> tmInstant (qFrom q) < tmInstant (qTo q)
        \<and> qFrom q = (case (fFrom p, qAfter q) of (Some t, _) \<Rightarrow> t | (None, Some c) \<Rightarrow> cFrom c
                      | (None, None) \<Rightarrow> in_zone local (now - 24 * hour))
        \<and> qTo q = (case (fTo p, qAfter q) of (Some t, _) \<Rightarrow> t | (None, Some c) \<Rightarrow> cTo c
                    | (None, None) \<Rightarrow> in_zone local (now + hour))
        \<and> storable_text (fQuery q) \<and> trimmed (fTenant q) \<and> sorted (fSources q) \<and> distinct (fTags q)
        \<and> (qSrcIP q = None \<or> plain_addr (the (qSrcIP q))))"
proof (cases "resolveSearch ul digest dec local p now")
  case (Inl e)
  then have "KindOf e = KindMalformed \<and> (CodeOf e = ''invalid_parameter'' \<or> CodeOf e = ''invalid_cursor'')"
    by (rule resolveSearch_Inl)
  with Inl show ?thesis by simp
next
  case (Inr q)
  then obtain limit order q0 q1 after where
    limit: "resolve_limit (pLimit p) = Some limit" and order: "resolve_order (pOrder p) = Some order"
    and filt: "resolveFilter ul (event_filter.truncate p) = Inr q0"
    and win: "setWindow q0 (fst (case after of None \<Rightarrow> defaultWindow local now | Some c \<Rightarrow> (cFrom c, cTo c)))
       (snd (case after of None \<Rightarrow> defaultWindow local now | Some c \<Rightarrow> (cFrom c, cTo c))) = Inr q1"
    and q: "q = event_query.extend q1 \<lparr>qOrder = order, qLimit = limit, qAfter = after,
          qHash = filterHash digest order q0\<rparr>"
    by (rule resolveSearch_Inr)
  note q1 = setWindow_Inr [OF win]
  have [simp]: "fFrom q0 = fFrom p" "fTo q0 = fTo p"
    using resolveFilter_Inr [OF filt] by (simp_all add: event_filter.defs)
  have parts: "trimmed (fTenant q0)" "sorted (fSources q0)" "distinct (fTags q0)"
    "qSrcIP q0 = None \<or> plain_addr (the (qSrcIP q0))" "storable_text (fQuery q0)"
    using resolveFilter_normal [OF filt] resolveFilter_Inr [OF filt] by simp_all
  from limit order q1 parts have
    "1 \<le> limit \<and> limit \<le> 1000" "order = OrderAsc \<or> order = OrderDesc"
    using resolve_limit_Some resolve_order_Some by blast+
  with q1 parts show ?thesis
    by (elim conjE, simp add: Inr q event_query.defs)
      (auto simp: defaultWindow_def defaultSearchWindow_def searchAhead_def split: option.splits)
qed

subsection \<open>Keyset paging\<close>

text \<open>
  A reader of pages asks for what comes after the last row it has; \<open>fetch k a xs\<close> answers
  at most \<open>k\<close> rows of the result \<open>xs\<close> after row \<open>a\<close>. \<open>walk\<close> is the reader: a page is full
  when one row more than the limit came back.
\<close>

fun walk :: "(nat \<Rightarrow> 'a option \<Rightarrow> 'a list \<Rightarrow> 'a list) \<Rightarrow> nat \<Rightarrow> nat \<Rightarrow> 'a option \<Rightarrow> 'a list
    \<Rightarrow> 'a list list option" where
  "walk fetch lim 0 a xs = None"
| "walk fetch lim (Suc n) a xs =
     (let evs = fetch (lim + 1) a xs in
      if lim < length evs
      then map_option ((#) (take lim evs)) (walk fetch lim n (Some (evs ! (lim - 1))) xs)
      else Some [evs])"

locale keyset =
  fixes lt :: "'a \<Rightarrow> 'a \<Rightarrow> bool"
    and fetch :: "nat \<Rightarrow> 'a option \<Rightarrow> 'a list \<Rightarrow> 'a list"
  assumes fetch_first: "fetch k None xs = take k xs"
    and fetch_next: "sorted_wrt lt (ys @ x # zs) \<Longrightarrow> fetch k (Some x) (ys @ x # zs) = take k zs"
begin

lemma fetch_after_read:
  "sorted_wrt lt (ys @ zs) \<Longrightarrow> fetch k (if ys = [] then None else Some (last ys)) (ys @ zs) = take k zs"
proof (cases ys rule: rev_cases)
  case (snoc us x)
  assume "sorted_wrt lt (ys @ zs)"
  with snoc fetch_next [of us x zs k] show ?thesis by simp
qed (simp add: fetch_first)

lemma walk_reads_all:
  assumes "sorted_wrt lt (ys @ zs)" and "0 < lim" and "length zs < n"
  shows "\<exists>pages. walk fetch lim n (if ys = [] then None else Some (last ys)) (ys @ zs) = Some pages
    \<and> concat pages = zs \<and> (\<forall>pg \<in> set pages. length pg \<le> lim)"
  using assms
proof (induction n arbitrary: ys zs)
  case (Suc n)
  define evs where "evs = take (lim + 1) zs"
  have evs: "fetch (lim + 1) (if ys = [] then None else Some (last ys)) (ys @ zs) = evs"
    unfolding evs_def using Suc.prems(1) by (rule fetch_after_read)
  show ?case
  proof (cases "lim < length zs")
    case False
    with evs show ?thesis by (auto simp: Let_def evs_def)
  next
    case True
    define pg where "pg = take lim zs"
    have len: "length pg = lim" and split: "zs = pg @ drop lim zs"
      using True by (simp_all add: pg_def)
    have last: "(if ys @ pg = [] then None else Some (last (ys @ pg))) = Some (evs ! (lim - 1))"
      using len \<open>0 < lim\<close> by (auto simp: last_append last_conv_nth evs_def pg_def)
    have sorted: "sorted_wrt lt ((ys @ pg) @ drop lim zs)"
      using Suc.prems(1) split by simp
    have fuel: "length (drop lim zs) < n"
      using Suc.prems(2,3) True by simp
    from Suc.IH [OF sorted Suc.prems(2) fuel] last split obtain pages where
      "walk fetch lim n (Some (evs ! (lim - 1))) (ys @ zs) = Some pages"
      "concat pages = drop lim zs" "\<forall>pg \<in> set pages. length pg \<le> lim"
      by auto
    moreover have "lim < length evs" and "take lim evs = pg"
      using True by (simp_all add: evs_def pg_def)
    ultimately show ?thesis
      using evs len split by (auto simp: Let_def)
  qed
qed simp

end

definition fetch_after :: "bool \<Rightarrow> nat \<Rightarrow> row option \<Rightarrow> row list \<Rightarrow> row list" where
  "fetch_after asc k a xs = take k (filter (beyond asc (map_option position a)) xs)"

lemma beyond_asym: "beyond asc (Some (position x)) y \<Longrightarrow> \<not> beyond asc (Some (position y)) x"
  by (auto simp: beyond_def before_pos_def split: if_splits)

lemma filter_beyond:
  assumes "sorted_wrt (\<lambda>x. beyond asc (Some (position x))) (ys @ x # zs)"
  shows "filter (beyond asc (Some (position x))) (ys @ x # zs) = zs"
proof -
  have "\<forall>y \<in> set ys. \<not> beyond asc (Some (position x)) y"
    using assms beyond_asym by (auto simp: sorted_wrt_append)
  moreover have "\<forall>z \<in> set zs. beyond asc (Some (position x)) z"
    using assms by (auto simp: sorted_wrt_append)
  moreover have "\<not> beyond asc (Some (position x)) x"
    using beyond_asym by blast
  ultimately show ?thesis by simp
qed

interpretation by_position: keyset "\<lambda>x. beyond asc (Some (position x))" "fetch_after asc" for asc
  by unfold_locales (simp_all add: fetch_after_def filter_beyond [simplified] beyond_def [of _ None])

subsection \<open>Following the cursor\<close>

text \<open>
  A client that sends the parameters of a search again with each \<open>NextCursor\<close> it gets,
  at the times \<open>now\<close> gives by what is left of its fuel. \<open>None\<close> is a request that was
  refused, or no fuel.
\<close>

fun search_pages ::
  "(int \<Rightarrow> int) \<Rightarrow> (int \<Rightarrow> int) \<Rightarrow> (hash_key \<Rightarrow> bytes) \<Rightarrow> (cursor \<Rightarrow> bytes option) \<Rightarrow> (bytes \<Rightarrow> cursor option)
   \<Rightarrow> (gotime \<Rightarrow> int) \<Rightarrow> row list \<Rightarrow> (nat \<Rightarrow> gotime) \<Rightarrow> nat \<Rightarrow> search_params \<Rightarrow> row list list option" where
  "search_pages lw ul digest enc dec local table now 0 p = None"
| "search_pages lw ul digest enc dec local table now (Suc n) p =
     (case resolveSearch ul digest dec local p (now n) of
        Inl e \<Rightarrow> None
      | Inr q \<Rightarrow>
          (case page_of enc local q (run_search lw table q) of
             (page, next_cursor) \<Rightarrow>
               if next_cursor = [] then Some [page]
               else map_option ((#) page)
                 (search_pages lw ul digest enc dec local table now n (p\<lparr>pCursor := next_cursor\<rparr>))))"

text \<open>The next request is accepted, and is the same search from the cursor's position on.\<close>

lemma resolveSearch_next:
  assumes "resolveSearch ul digest dec local p now = Inr q"
    and "c = \<lparr>cVersion = cursorVersion, cFrom = qFrom q, cTo = qTo q, cTs = ts, cID = eid, cFilter = qHash q\<rparr>"
    and "dec s = Some c" and "s \<noteq> []"
  shows "resolveSearch ul digest dec local (p\<lparr>pCursor := s\<rparr>) now' = Inr (q\<lparr>qAfter := Some c\<rparr>)"
proof -
  from assms(1) obtain limit order q0 q1 after where
    limit: "resolve_limit (pLimit p) = Some limit" and order: "resolve_order (pOrder p) = Some order"
    and filt: "resolveFilter ul (event_filter.truncate p) = Inr q0"
    and win: "setWindow q0 (fst (case after of None \<Rightarrow> defaultWindow local now | Some c \<Rightarrow> (cFrom c, cTo c)))
       (snd (case after of None \<Rightarrow> defaultWindow local now | Some c \<Rightarrow> (cFrom c, cTo c))) = Inr q1"
    and q: "q = event_query.extend q1 \<lparr>qOrder = order, qLimit = limit, qAfter = after,
          qHash = filterHash digest order q0\<rparr>"
    by (rule resolveSearch_Inr)
  note q1 = setWindow_Inr [OF win]
  have trunc: "event_filter.truncate (p\<lparr>pCursor := s\<rparr>) = event_filter.truncate p"
    by (simp add: event_filter.defs)
  have c: "cFrom c = qFrom q1" "cTo c = qTo q1" "cFilter c = filterHash digest order q0"
    "cVersion c = cursorVersion"
    using assms(2) q by (simp_all add: event_query.defs)
  have "resolve_cursor dec s (filterHash digest order q0) q0 = Inr (Some c)"
    using assms(3,4) c q1
    by (auto simp: resolve_cursor_def decodeCursor_def sameTime_def split: option.splits)
  moreover have "setWindow q0 (cFrom c) (cTo c) = Inr q1"
    using q1 c by (auto simp: setWindow_def Let_def split: option.splits)
  ultimately show ?thesis
    using limit order filt q trunc by (simp add: resolveSearch_def event_query.defs)
qed

text \<open>The result of a search, in its order, and one page of it.\<close>

definition search_result :: "(int \<Rightarrow> int) \<Rightarrow> search_query \<Rightarrow> row list \<Rightarrow> row list" where
  "search_result lw q table = in_order (ascending q) (filter (matches lw q) table)"

lemma filter_in_order: "filter P (in_order asc rs) = in_order asc (filter P rs)"
  by (simp add: in_order_def filter_sort rev_filter [symmetric])

lemma set_in_order [simp]: "set (in_order asc rs) = set rs"
  by (simp add: in_order_def)

lemma run_search_fetch:
  assumes "case_map lw" and "\<forall>r \<in> set table. row_ok r" and "utf8_valid (fQuery q)"
    and "map_option cursor_pos (qAfter q) = map_option position a" and "0 \<le> qLimit q"
  shows "run_search lw table q =
    fetch_after (ascending q) (nat (qLimit q) + 1) a (search_result lw q table)"
proof -
  have "filter (selects lw (search_conds q)) table =
      filter (\<lambda>r. matches lw q r \<and> beyond (ascending q) (map_option position a) r) table"
    using assms(1-4) search_conds_selects by (intro filter_cong) auto
  moreover have "nat (qLimit q + 1) = nat (qLimit q) + 1"
    using assms(5) by simp
  ultimately show ?thesis
    by (simp add: run_search_def fetch_after_def search_result_def filter_in_order conj_commute)
qed

lemma position_less: "position x < position y \<longleftrightarrow> before_pos (position x) (position y)"
  by (cases "position x"; cases "position y") (auto simp: before_pos_def)

lemma in_order_sorted:
  assumes "distinct (map rID rs)"
  shows "sorted_wrt (\<lambda>x. beyond asc (Some (position x))) (in_order asc rs)"
proof -
  define ss where "ss = sort_key position rs"
  have "distinct (map position ss)"
  proof -
    have "distinct (map rID ss)"
      using assms by (simp add: ss_def distinct_map)
    then have "inj_on position (set ss)" and "distinct ss"
      by (auto simp: distinct_map inj_on_def position_def)
    then show ?thesis by (simp add: distinct_map)
  qed
  moreover have "sorted (map position ss)"
    by (simp add: ss_def)
  ultimately have "sorted_wrt (<) (map position ss)"
    by (simp add: strict_sorted_iff)
  then have "sorted_wrt (\<lambda>x y. before_pos (position x) (position y)) ss"
    by (simp add: sorted_wrt_map position_less)
  then show ?thesis
    by (simp add: in_order_def beyond_def [abs_def] sorted_wrt_rev ss_def [symmetric])
qed

lemma matches_after [simp]: "matches lw (q\<lparr>qAfter := c\<rparr>) = matches lw q"
  by (rule ext) (simp add: matches_def)

text \<open>The cursor a full page hands out, and when \<open>json.Marshal\<close> can write it.\<close>

definition cursor_to :: "(gotime \<Rightarrow> int) \<Rightarrow> search_query \<Rightarrow> row \<Rightarrow> cursor" where
  "cursor_to local q e =
     \<lparr>cVersion = cursorVersion, cFrom = qFrom q, cTo = qTo q, cTs = in_zone local (rTs e), cID = rID e,
      cFilter = qHash q\<rparr>"

definition window_marshals :: "search_query \<Rightarrow> bool" where
  "window_marshals q \<longleftrightarrow> time_marshals (qFrom q) \<and> time_marshals (qTo q)"

text \<open>
  What is documented of \<open>encoding/json\<close> and base64: a cursor has a text, which is not empty,
  exactly if its three times can be written; and it is read back as it was if its offsets are
  whole minutes, its number fits and its text is UTF-8.
\<close>

definition cursor_marshals :: "cursor \<Rightarrow> bool" where
  "cursor_marshals c \<longleftrightarrow> time_marshals (cFrom c) \<and> time_marshals (cTo c) \<and> time_marshals (cTs c)"

definition cursor_exact :: "cursor \<Rightarrow> bool" where
  "cursor_exact c \<longleftrightarrow>
     whole_minutes (cFrom c) \<and> whole_minutes (cTo c) \<and> whole_minutes (cTs c)
     \<and> - (2 ^ 63) \<le> cID c \<and> cID c < 2 ^ 63 \<and> cVersion c = cursorVersion \<and> utf8_valid (cFilter c)"

definition cursor_text_ok :: "(cursor \<Rightarrow> bytes option) \<Rightarrow> (bytes \<Rightarrow> cursor option) \<Rightarrow> bool" where
  "cursor_text_ok enc dec \<longleftrightarrow>
     (\<forall>c. (enc c = None) = (\<not> cursor_marshals c))
     \<and> (\<forall>c s. enc c = Some s \<longrightarrow> s \<noteq> [] \<and> (cursor_exact c \<longrightarrow> dec s = Some c))"

text \<open>A row as Postgres has it: a number of its sequence and a time that the zone can show.\<close>

definition row_marshals :: "(gotime \<Rightarrow> int) \<Rightarrow> row \<Rightarrow> bool" where
  "row_marshals local r \<longleftrightarrow>
     time_marshals (in_zone local (rTs r)) \<and> whole_minutes (in_zone local (rTs r)) \<and> 0 < rID r \<and> rID r < 2 ^ 63"

lemma cursor_read_back:
  assumes "cursor_text_ok enc dec" and "row_marshals local e" and "window_marshals q"
    and "whole_minutes (qFrom q)" "whole_minutes (qTo q)" and "utf8_valid (qHash q)"
  shows "\<exists>s. enc (cursor_to local q e) = Some s \<and> s \<noteq> [] \<and> dec s = Some (cursor_to local q e)"
proof -
  have "cursor_marshals (cursor_to local q e)" "cursor_exact (cursor_to local q e)"
    using assms(2-6) by (auto simp: cursor_to_def cursor_marshals_def cursor_exact_def row_marshals_def window_marshals_def)
  with assms(1) show ?thesis
    unfolding cursor_text_ok_def by (cases "enc (cursor_to local q e)") auto
qed

lemma cursor_dropped:
  "cursor_text_ok enc dec \<Longrightarrow> \<not> window_marshals q \<Longrightarrow> enc (cursor_to local q e) = None"
  by (auto simp: cursor_text_ok_def cursor_to_def cursor_marshals_def window_marshals_def)

lemma page_of_full:
  "1 \<le> qLimit q \<Longrightarrow> nat (qLimit q) < length evs \<Longrightarrow>
   page_of enc local q evs = (take (nat (qLimit q)) evs,
     case enc (cursor_to local q (evs ! (nat (qLimit q) - 1))) of None \<Rightarrow> [] | Some s \<Rightarrow> s)"
  using nat_less_iff [of "qLimit q" "length evs"]
  by (simp add: page_of_def Let_def cursorAfter_def cursor_to_def)

lemma set_fetch_after: "set (fetch_after asc k a xs) \<subseteq> set xs"
  by (auto simp: fetch_after_def dest: in_set_takeD)

lemma search_pages_walk:
  assumes "case_map lw" and "\<forall>r \<in> set table. row_ok r \<and> row_marshals local r"
    and "cursor_text_ok enc dec"
    and "\<forall>m. n = Suc m \<longrightarrow> resolveSearch ul digest dec local p (now m) = Inr q"
    and "map_option cursor_pos (qAfter q) = map_option position a"
    and "utf8_valid (fQuery q)" and "1 \<le> qLimit q"
    and "window_marshals q" "whole_minutes (qFrom q)" "whole_minutes (qTo q)" "utf8_valid (qHash q)"
  shows "search_pages lw ul digest enc dec local table now n p =
    walk (fetch_after (ascending q)) (nat (qLimit q)) n a (search_result lw q table)"
  using assms(4-11)
proof (induction n arbitrary: p q a)
  case (Suc n)
  define lim where "lim = nat (qLimit q)"
  define xs where "xs = search_result lw q table"
  define evs where "evs = fetch_after (ascending q) (lim + 1) a xs"
  have fetch: "fetch_after (ascending q) (Suc lim) a xs = evs" by (simp add: evs_def)
  have q: "resolveSearch ul digest dec local p (now n) = Inr q" using Suc.prems(1) by blast
  have run: "run_search lw table q = evs"
    unfolding evs_def xs_def lim_def using assms(1,2) Suc.prems by (intro run_search_fetch) auto
  show ?case
  proof (cases "lim < length evs")
    case False
    then have "page_of enc local q evs = (evs, [])"
      using nat_less_iff [of "qLimit q" "length evs"] Suc.prems(4) by (simp add: page_of_def lim_def)
    with False q run show ?thesis
      by (simp add: lim_def [symmetric] xs_def [symmetric] fetch Let_def)
  next
    case True
    define e where "e = evs ! (lim - 1)"
    define c where "c = cursor_to local q e"
    define q' where "q' = q\<lparr>qAfter := Some c\<rparr>"
    have last: "evs ! (lim - Suc 0) = e" by (simp add: e_def)
    have "e \<in> set evs" using True by (simp add: e_def)
    then have "e \<in> set table"
      using set_fetch_after [of "ascending q" "lim + 1" a xs]
      by (auto simp: evs_def xs_def search_result_def)
    then obtain s where s: "enc c = Some s" "s \<noteq> []" "dec s = Some c"
      using cursor_read_back [OF assms(3) _ Suc.prems(5-8)] assms(2) unfolding c_def by blast
    have page: "page_of enc local q evs = (take lim evs, s)"
      using True Suc.prems(4) page_of_full [of q evs enc local] s(1) by (simp add: lim_def e_def c_def)
    have "\<forall>m. resolveSearch ul digest dec local (p\<lparr>pCursor := s\<rparr>) (now m) = Inr q'"
      unfolding q'_def using resolveSearch_next [OF q c_def [unfolded cursor_to_def] s(3,2)] by blast
    moreover have "map_option cursor_pos (qAfter q') = map_option position (Some e)"
      by (simp add: q'_def c_def cursor_to_def cursor_pos_def position_def)
    ultimately have "search_pages lw ul digest enc dec local table now n (p\<lparr>pCursor := s\<rparr>) =
        walk (fetch_after (ascending q')) (nat (qLimit q')) n (Some e) (search_result lw q' table)"
      using Suc.prems(3-8) by (intro Suc.IH) (simp_all add: q'_def window_marshals_def)
    moreover have "search_result lw q' table = xs" and "ascending q' = ascending q"
      and "qLimit q' = qLimit q"
      by (simp_all add: q'_def xs_def search_result_def ascending_def)
    ultimately show ?thesis
      using True q run page s(2)
      by (simp add: lim_def [symmetric] xs_def [symmetric] fetch Let_def last)
  qed
qed simp

text \<open>A window that cannot be written ends the search with its first page.\<close>

lemma search_pages_stop:
  assumes "case_map lw" and "\<forall>r \<in> set table. row_ok r" and "cursor_text_ok enc dec"
    and "resolveSearch ul digest dec local p (now n) = Inr q" and "qAfter q = None"
    and "utf8_valid (fQuery q)" and "1 \<le> qLimit q" and "\<not> window_marshals q"
  shows "search_pages lw ul digest enc dec local table now (Suc n) p =
    Some [take (nat (qLimit q)) (search_result lw q table)]"
proof -
  define evs where "evs = fetch_after (ascending q) (nat (qLimit q) + 1) None (search_result lw q table)"
  have run: "run_search lw table q = evs"
    unfolding evs_def using assms(1,2,5-7) by (intro run_search_fetch) auto
  have "page_of enc local q evs = (take (nat (qLimit q)) evs, [])"
  proof (cases "nat (qLimit q) < length evs")
    case True
    then show ?thesis
      using assms(7) page_of_full [of q evs enc local] cursor_dropped [OF assms(3,8)] by simp
  next
    case False
    then show ?thesis
      using nat_less_iff [of "qLimit q" "length evs"] assms(7) by (simp add: page_of_def)
  qed
  moreover have "take (nat (qLimit q)) evs = take (nat (qLimit q)) (search_result lw q table)"
    by (simp add: evs_def fetch_after_def beyond_def min_def)
  ultimately show ?thesis using assms(4) run by simp
qed

text \<open>
  C1. Following \<open>NextCursor\<close> reads the search completely: from a first request without a
  cursor that is accepted, every further request is accepted, no page is larger than
  the limit, and the pages together are exactly the events that match, each once, in the
  order asked for; one request more than there are events is always enough. That is so exactly
  as long as the ends of the window can be written into a cursor: a window with an end whose
  offset is 24 hours or more, which \<open>time.Parse\<close> lets through, has no \<open>NextCursor\<close>, and its
  reader is given the first page alone.
\<close>

theorem search_pages_complete:
  assumes "case_map lw" and "\<forall>r \<in> set table. row_ok r \<and> row_marshals local r" and "distinct (map rID table)"
    and "cursor_text_ok enc dec" and "\<forall>k. utf8_valid (digest k)"
    and "pCursor p = []" and "resolveSearch ul digest dec local p (now n) = Inr q" and "length table \<le> n"
    and "whole_minutes (qFrom q)" and "whole_minutes (qTo q)"
  shows "\<exists>pages. search_pages lw ul digest enc dec local table now (Suc n) p = Some pages
    \<and> concat pages = (if window_marshals q then search_result lw q table
        else take (nat (qLimit q)) (search_result lw q table))
    \<and> (\<forall>pg \<in> set pages. int (length pg) \<le> qLimit q)"
proof -
  have ok: "utf8_valid (fQuery q)" "1 \<le> qLimit q" "qAfter q = None" "utf8_valid (qHash q)"
    using resolveSearch_shape [OF assms(7)] assms(5,6) by force+
  show ?thesis
  proof (cases "window_marshals q")
    case True
    have "search_pages lw ul digest enc dec local table now (Suc n) p =
        walk (fetch_after (ascending q)) (nat (qLimit q)) (Suc n) None (search_result lw q table)"
      using assms(1,2,4,7,9,10) ok True by (intro search_pages_walk) auto
    moreover have "sorted_wrt (\<lambda>x. beyond (ascending q) (Some (position x))) (search_result lw q table)"
      unfolding search_result_def using assms(3)
      by (intro in_order_sorted) (simp add: distinct_map_filter)
    moreover have "length (search_result lw q table) < Suc n"
      using assms(8) le_trans [OF length_filter_le [of "matches lw q" table]]
      by (simp add: search_result_def in_order_def less_Suc_eq_le)
    ultimately show ?thesis
      using by_position.walk_reads_all [of "ascending q" "[]" "search_result lw q table" "nat (qLimit q)" "Suc n"]
        ok True by fastforce
  next
    case False
    with search_pages_stop [of lw table enc dec ul digest local p now n q] assms(1,2,4,7) ok
    show ?thesis by simp
  qed
qed

text \<open>
  A text form of cursors, so that the property above can be applied: numbers in unary,
  with a sign, and the filter at the end.
\<close>

definition put_int :: "int \<Rightarrow> bytes" where
  "put_int n = (if n < 0 then ''-'' else ''+'') @ replicate (nat \<bar>n\<bar>) (CHR ''1'') @ '';''"

definition get_int :: "bytes \<Rightarrow> int \<times> bytes" where
  "get_int s =
     (let k = int (length (takeWhile (\<lambda>c. c = CHR ''1'') (tl s)));
          rest = dropWhile (\<lambda>c. c = CHR ''1'') (tl s) in
      (if hd s = CHR ''-'' then - k else k, tl rest))"

lemma get_put_int: "get_int (put_int n @ r) = (n, r)"
proof -
  have "takeWhile (\<lambda>c. c = CHR ''1'') (replicate k (CHR ''1'') @ CHR '';'' # r) = replicate k (CHR ''1'')"
    and "dropWhile (\<lambda>c. c = CHR ''1'') (replicate k (CHR ''1'') @ CHR '';'' # r) = CHR '';'' # r" for k
    by (induction k) simp_all
  then show ?thesis by (simp add: get_int_def put_int_def)
qed

definition put_time :: "zoned \<Rightarrow> bytes" where
  "put_time t = put_int (tmInstant t) @ put_int (tmOffset t)"

definition get_time :: "bytes \<Rightarrow> zoned \<times> bytes" where
  "get_time s = (let (t, s) = get_int s; (off, s) = get_int s in (\<lparr>tmInstant = t, tmOffset = off\<rparr>, s))"

lemma get_put_time: "get_time (put_time t @ r) = (t, r)"
  by (simp add: get_time_def put_time_def get_put_int)

definition unary_cursor :: "cursor \<Rightarrow> bytes option" where
  "unary_cursor c =
     (if cursor_marshals c
      then Some (put_int (cVersion c) @ put_time (cFrom c) @ put_time (cTo c) @ put_time (cTs c)
        @ put_int (cID c) @ cFilter c)
      else None)"

definition read_unary_cursor :: "bytes \<Rightarrow> cursor option" where
  "read_unary_cursor s0 =
     (let (v, s1) = get_int s0; (f, s2) = get_time s1; (t, s3) = get_time s2; (ts, s4) = get_time s3;
          (i, s5) = get_int s4 in
      Some \<lparr>cVersion = v, cFrom = f, cTo = t, cTs = ts, cID = i, cFilter = s5\<rparr>)"

lemma unary_cursor_ok: "cursor_text_ok unary_cursor read_unary_cursor"
  by (auto simp: cursor_text_ok_def unary_cursor_def read_unary_cursor_def get_put_int get_put_time
      split: if_splits) (simp add: put_int_def)

definition sample_row :: "int \<Rightarrow> gotime \<Rightarrow> row" where
  "sample_row i t = \<lparr>rID = i, rTs = t, rTenant = ''a'', rSource = ''api'', rEventType = None,
     rAction = None, rSeverity = Some 5, rSrcIP = None, rUser = None, rHost = None, rTags = [],
     rRawText = [], rRawValues = []\<rparr>"

text \<open>A search of ten nanoseconds whose window is given with an offset, in seconds.\<close>

definition sample_params :: "int \<Rightarrow> search_params" where
  "sample_params off = \<lparr>fTenant = ''a'', fFrom = Some \<lparr>tmInstant = 0, tmOffset = off\<rparr>, fTo = Some (utc 10),
     fSources = [], fEventType = [], fAction = [], fSeverityMin = Some 3, fSeverityMax = None, fSrcIP = [],
     fUser = [], fHost = [], fTags = [], fQuery = [], pOrder = [], pLimit = 2, pCursor = []\<rparr>"

definition sample_rows :: "row list" where
  "sample_rows = [sample_row 1 4, sample_row 2 7, sample_row 3 7]"

definition sample_query :: "int \<Rightarrow> search_query" where
  "sample_query off = \<lparr>fTenant = ''a'', fFrom = Some \<lparr>tmInstant = 0, tmOffset = off\<rparr>, fTo = Some (utc 10),
     fSources = [], fEventType = [], fAction = [], fSeverityMin = Some 3, fSeverityMax = None, fSrcIP = [],
     fUser = [], fHost = [], fTags = [], fQuery = [], qSrcIP = None,
     qFrom = \<lparr>tmInstant = 0, tmOffset = off\<rparr>, qTo = utc 10, qOrder = ''desc'', qLimit = 2,
     qAfter = None, qHash = ''h''\<rparr>"

lemma sample_resolves:
  "resolveSearch (\<lambda>c. c) (\<lambda>k. ''h'') read_unary_cursor (\<lambda>_. 0) (sample_params off) 0 = Inr (sample_query off)"
  unfolding sample_params_def sample_query_def by code_simp

lemma sample_result: "map rID (search_result (\<lambda>c. c) (sample_query off) sample_rows) = [3, 2, 1]"
  by (simp add: search_result_def sample_query_def sample_rows_def sample_row_def matches_def in_order_def
      ascending_def OrderAsc_def position_def)

text \<open>In UTC the three events are read; with an offset of 24 hours the page of two is all there is.\<close>

theorem search_pages_complete_witness:
  "\<exists>utc_pages far_pages.
     search_pages (\<lambda>c. c) (\<lambda>c. c) (\<lambda>k. ''h'') unary_cursor read_unary_cursor (\<lambda>_. 0) sample_rows (\<lambda>_. 0) 4
        (sample_params 0) = Some utc_pages
     \<and> search_pages (\<lambda>c. c) (\<lambda>c. c) (\<lambda>k. ''h'') unary_cursor read_unary_cursor (\<lambda>_. 0) sample_rows (\<lambda>_. 0) 4
        (sample_params (24 * 60 * 60)) = Some far_pages
     \<and> map rID (concat utc_pages) = [3, 2, 1] \<and> map rID (concat far_pages) = [3, 2]"
proof -
  have year: "days_from_civil 0 1 1 = - 719528" "days_from_civil 10000 1 1 = 2932897" by code_simp+
  have "case_map (\<lambda>c. c)" by (simp add: case_map_def)
  moreover have "\<forall>r \<in> set sample_rows. row_ok r \<and> row_marshals (\<lambda>_. 0) r" and "distinct (map rID sample_rows)"
    by (simp_all add: sample_rows_def sample_row_def row_ok_def row_marshals_def time_marshals_def
        whole_minutes_def wall_clock_def year duration_defs)
  moreover have "pCursor (sample_params off) = []" and "length sample_rows \<le> 3"
    and "whole_minutes (qFrom (sample_query 0))" "whole_minutes (qFrom (sample_query (24 * 60 * 60)))"
    and "whole_minutes (qTo (sample_query off))" "utf8_valid ''h''" for off
    by (simp_all add: sample_params_def sample_rows_def sample_query_def whole_minutes_def) code_simp
  moreover have "window_marshals (sample_query 0)" and "\<not> window_marshals (sample_query (24 * 60 * 60))"
    by (simp_all add: window_marshals_def sample_query_def time_marshals_def wall_clock_def year duration_defs)
  ultimately obtain utc_pages far_pages where
    "search_pages (\<lambda>c. c) (\<lambda>c. c) (\<lambda>k. ''h'') unary_cursor read_unary_cursor (\<lambda>_. 0) sample_rows (\<lambda>_. 0) 4
        (sample_params 0) = Some utc_pages"
    "concat utc_pages = search_result (\<lambda>c. c) (sample_query 0) sample_rows"
    "search_pages (\<lambda>c. c) (\<lambda>c. c) (\<lambda>k. ''h'') unary_cursor read_unary_cursor (\<lambda>_. 0) sample_rows (\<lambda>_. 0) 4
        (sample_params (24 * 60 * 60)) = Some far_pages"
    "concat far_pages = take 2 (search_result (\<lambda>c. c) (sample_query (24 * 60 * 60)) sample_rows)"
    using search_pages_complete [where lw = "\<lambda>c. c" and ul = "\<lambda>c. c" and digest = "\<lambda>k. ''h''" and table = sample_rows
        and enc = unary_cursor and dec = read_unary_cursor and local = "\<lambda>_. 0" and now = "\<lambda>_. 0" and n = 3
        and p = "sample_params 0" and q = "sample_query 0"]
      search_pages_complete [where lw = "\<lambda>c. c" and ul = "\<lambda>c. c" and digest = "\<lambda>k. ''h''" and table = sample_rows
        and enc = unary_cursor and dec = read_unary_cursor and local = "\<lambda>_. 0" and now = "\<lambda>_. 0" and n = 3
        and p = "sample_params (24 * 60 * 60)" and q = "sample_query (24 * 60 * 60)"]
      sample_resolves unary_cursor_ok
    by (auto simp: numeral_eq_Suc sample_query_def)
  moreover have "map rID (take 2 (search_result (\<lambda>c. c) (sample_query (24 * 60 * 60)) sample_rows)) = [3, 2]"
    by (simp add: take_map [symmetric] sample_result)
  ultimately show ?thesis using sample_result [of 0] by auto
qed

end
