(* ===== verification/Counts.thy ===== *)
theory Counts
  imports Search_Paging "HOL-Library.Signed_Division" "HOL-Library.Multiset"
begin

text \<open>
  \<open>internal/store/counts.go\<close>: the most frequent values of a field, and the timeline. A
  division of durations is Go's, towards zero (\<open>sdiv\<close>).
\<close>

definition defaultTopLimit :: int where "defaultTopLimit = 10"
definition maxTopLimit :: int where "maxTopLimit = 100"
definition autoIntervals :: int where "autoIntervals = 200"
definition maxIntervals :: int where "maxIntervals = 1440"

subsection \<open>Top values\<close>

definition TopFields :: "bytes list" where
  "TopFields = [''src_ip'', ''dst_ip'', ''user'', ''host'', ''event_type'']"

text \<open>\<open>fieldColumns\<close>: the column counted on and the text a value is reported as.\<close>

definition fieldColumns :: "bytes \<Rightarrow> (bytes \<times> bytes) option" where
  "fieldColumns f =
     (if f = ''src_ip'' then Some (''src_ip'', ''host(src_ip)'')
      else if f = ''dst_ip'' then Some (''dst_ip'', ''host(dst_ip)'')
      else if f = ''user'' then Some (''user_name'', ''user_name'')
      else if f = ''host'' then Some (''host'', ''host'')
      else if f = ''event_type'' then Some (''event_type'', ''event_type'')
      else None)"

record top_params = event_filter +
  tField :: bytes
  tLimit :: int

definition resolveCount :: "(int \<Rightarrow> int) \<Rightarrow> (gotime \<Rightarrow> int) \<Rightarrow> event_filter \<Rightarrow> gotime \<Rightarrow> go_error + event_query" where
  "resolveCount ul local f now =
     (case resolveFilter ul f of
        Inl e \<Rightarrow> Inl e
      | Inr q \<Rightarrow> setWindow q (fst (defaultWindow local now)) (snd (defaultWindow local now)))"

definition resolve_top_limit :: "int \<Rightarrow> int option" where
  "resolve_top_limit n =
     (if n = 0 then Some defaultTopLimit else if n < 1 \<or> maxTopLimit < n then None else Some n)"

definition top_sql :: "bytes \<times> bytes \<Rightarrow> int \<Rightarrow> event_query \<Rightarrow> bytes \<times> arg list" where
  "top_sql field limit q =
     (let (cs, args) = where_clause q ([], []); args' = args @ [AInt limit] in
      (''SELECT '' @ snd field @ '' AS value, count(*) AS count'' @ [LF] @ ''FROM events'' @ [LF]
       @ ''WHERE '' @ join_bytes ([LF] @ ''  AND '') (map cond_text cs @ [fst field @ '' IS NOT NULL''])
       @ [LF] @ ''GROUP BY '' @ fst field
       @ [LF] @ ''ORDER BY count(*) DESC, '' @ snd field @ '' COLLATE '' @ [QUOTE] @ ''C'' @ [QUOTE]
       @ [LF] @ ''LIMIT '' @ placeholder (length args'), args'))"

text \<open>
  \<open>Top\<close>, with the database's answer to a statement as the argument \<open>db\<close>.
\<close>

definition Top ::
  "(int \<Rightarrow> int) \<Rightarrow> (gotime \<Rightarrow> int) \<Rightarrow> (scope \<Rightarrow> bytes \<times> arg list \<Rightarrow> go_error + (bytes \<times> int) list) \<Rightarrow> scope
   \<Rightarrow> top_params \<Rightarrow> gotime \<Rightarrow> go_error + zoned \<times> zoned \<times> (bytes \<times> int) list" where
  "Top ul local db sc p now =
     (case fieldColumns (tField p) of
        None \<Rightarrow> Inl (invalidParam (''field must be one of '' @ join_bytes '', '' TopFields))
      | Some field \<Rightarrow>
     (case resolve_top_limit (tLimit p) of
        None \<Rightarrow> Inl (invalidParam ''limit must be an integer between 1 and 100'')
      | Some limit \<Rightarrow>
     (case resolveCount ul local (scopedTo (event_filter.truncate p) sc) now of
        Inl e \<Rightarrow> Inl e
      | Inr q \<Rightarrow>
     (case db sc (top_sql field limit q) of
        Inl e \<Rightarrow> Inl e
      | Inr values \<Rightarrow> Inr (qFrom q, qTo q, values)))))"

subsection \<open>Intervals\<close>

type_synonym interval = "bytes \<times> duration"

definition intervals :: "interval list" where
  "intervals =
     [(''1m'', minute), (''5m'', 5 * minute), (''15m'', 15 * minute), (''30m'', 30 * minute),
      (''1h'', hour), (''3h'', 3 * hour), (''6h'', 6 * hour), (''12h'', 12 * hour),
      (''1d'', 24 * hour)]"

definition TimelineIntervals :: "bytes list" where
  "TimelineIntervals = map fst intervals"

definition interval_parts :: "duration \<Rightarrow> interval \<Rightarrow> int" where
  "interval_parts window iv = (window - 1) sdiv snd iv + 1"

definition auto_interval :: "duration \<Rightarrow> interval" where
  "auto_interval window =
     (case find (\<lambda>iv. interval_parts window iv \<le> autoIntervals) intervals of
        Some iv \<Rightarrow> iv
      | None \<Rightarrow> last intervals)"

definition bucket_span :: "gotime \<Rightarrow> gotime \<Rightarrow> interval \<Rightarrow> interval \<times> gotime \<times> int" where
  "bucket_span fr t iv =
     (let first = time_truncate fr (snd iv) in
      (iv, first, (time_sub t first - 1) sdiv snd iv + 1))"

definition pickInterval ::
  "bytes \<Rightarrow> gotime \<Rightarrow> gotime \<Rightarrow> go_error + interval \<times> gotime \<times> int" where
  "pickInterval name fr t =
     (let window = time_sub t fr in
      if name = [] then
        (if maxIntervals < interval_parts window (auto_interval window)
         then Inl (invalidParam ''from and to are more than 1440 days apart, too far for a timeline'')
         else Inr (bucket_span fr t (auto_interval window)))
      else
        (case find (\<lambda>iv. fst iv = name) intervals of
           None \<Rightarrow> Inl (invalidParam (''interval must be one of '' @ join_bytes '', '' TimelineIntervals))
         | Some iv \<Rightarrow>
             if maxIntervals < interval_parts window iv
             then Inl (invalidParam (''from and to are more than 1440 intervals of '' @ name
               @ '' apart; choose a longer interval or a shorter window''))
             else Inr (bucket_span fr t iv)))"

subsection \<open>The timeline\<close>

text \<open>A bucket is its start and its count.\<close>

type_synonym bucket = "gotime \<times> int"

record timeline_params = event_filter +
  tlInterval :: bytes

record timeline =
  tlFrom :: zoned
  tlTo :: zoned
  tlName :: bytes
  tlBuckets :: "bucket list"

text \<open>\<open>iv.width.Seconds()\<close> is a whole number of seconds for every interval.\<close>

definition timeline_sql :: "interval \<Rightarrow> gotime \<Rightarrow> event_query \<Rightarrow> bytes \<times> arg list" where
  "timeline_sql iv first q =
     (let (cs, args) = where_clause q ([], []); n = length args in
      (''SELECT date_bin(make_interval(secs => '' @ placeholder (n + 1) @ ''), ts, '' @ placeholder (n + 2)
       @ ''::timestamptz) AS start, count(*) AS count'' @ [LF] @ ''FROM events'' @ [LF]
       @ ''WHERE '' @ and_text cs @ [LF] @ ''GROUP BY 1'',
       args @ [AInt (snd iv div second), ATime first]))"

text \<open>
  The map from the starts the database counted to their counts, by microsecond, and the
  buckets read from it; an absent key reads 0.
\<close>

definition unix_micro :: "gotime \<Rightarrow> int" where
  "unix_micro t = t div 1000"

definition count_map :: "bucket list \<Rightarrow> int \<Rightarrow> int option" where
  "count_map counted = foldl (\<lambda>m b. m(unix_micro (fst b) \<mapsto> snd b)) Map.empty counted"

definition fill_buckets :: "duration \<Rightarrow> gotime \<Rightarrow> int \<Rightarrow> bucket list \<Rightarrow> bucket list" where
  "fill_buckets width first n counted =
     map (\<lambda>i. let start = first + int i * width in
              (start, case count_map counted (unix_micro start) of Some c \<Rightarrow> c | None \<Rightarrow> 0))
       [0..<nat n]"

definition Timeline ::
  "(int \<Rightarrow> int) \<Rightarrow> (gotime \<Rightarrow> int) \<Rightarrow> (scope \<Rightarrow> bytes \<times> arg list \<Rightarrow> go_error + bucket list) \<Rightarrow> scope \<Rightarrow> timeline_params
   \<Rightarrow> gotime \<Rightarrow> go_error + timeline" where
  "Timeline ul local db sc p now =
     (case resolveCount ul local (scopedTo (event_filter.truncate p) sc) now of
        Inl e \<Rightarrow> Inl e
      | Inr q \<Rightarrow>
     (case pickInterval (tlInterval p) (tmInstant (qFrom q)) (tmInstant (qTo q)) of
        Inl e \<Rightarrow> Inl e
      | Inr (iv, first, n) \<Rightarrow>
     (case db sc (timeline_sql iv first q) of
        Inl e \<Rightarrow> Inl e
      | Inr counted \<Rightarrow>
          Inr \<lparr>tlFrom = qFrom q, tlTo = qTo q, tlName = fst iv,
               tlBuckets = fill_buckets (snd iv) first n counted\<rparr>)))"

subsection \<open>Properties of the buckets\<close>

lemma intervals_width:
  assumes "iv \<in> set intervals"
  shows "0 < snd iv \<and> snd iv dvd day \<and> snd iv \<le> day \<and> 1000 dvd snd iv"
proof -
  have "\<forall>iv \<in> set intervals. 0 < snd iv \<and> snd iv dvd day \<and> snd iv \<le> day \<and> 1000 dvd snd iv"
    by (simp add: intervals_def duration_defs)
  with assms show ?thesis by blast
qed

lemma sdiv_nonneg: "0 \<le> a \<Longrightarrow> 0 < b \<Longrightarrow> a sdiv b = a div (b :: int)"
  by (cases "a = 0") (simp_all add: signed_divide_int_def sgn_if)

lemma auto_interval_in: "auto_interval w \<in> set intervals"
  by (auto simp: auto_interval_def find_Some_iff intervals_def split: option.splits)

lemma find_Some_mem: "find P xs = Some x \<Longrightarrow> x \<in> set xs \<and> P x"
  by (induction xs) (auto split: if_splits)

lemma pickInterval_Inr:
  assumes "pickInterval name fr t = Inr r"
  obtains iv where "iv \<in> set intervals" and "r = bucket_span fr t iv"
    and "interval_parts (time_sub t fr) iv \<le> 1440"
    and "if name = [] then iv = auto_interval (time_sub t fr) else fst iv = name"
proof (cases "name = []")
  case True
  with assms that [of "auto_interval (time_sub t fr)"] auto_interval_in show thesis
    by (simp add: pickInterval_def Let_def maxIntervals_def split: if_splits)
next
  case False
  with assms obtain iv where f: "find (\<lambda>iv. fst iv = name) intervals = Some iv"
    and "interval_parts (time_sub t fr) iv \<le> 1440" and "r = bucket_span fr t iv"
    by (auto simp: pickInterval_def Let_def maxIntervals_def split: if_splits option.splits)
  with find_Some_mem [OF f] False that [of iv] show thesis by simp
qed

lemma div_bounds: "0 < w \<Longrightarrow> a div w * w \<le> a \<and> a < (a div w + 1) * w" for a w :: int
proof -
  assume "0 < w"
  then have "0 \<le> a mod w" and "a mod w < w" by simp_all
  moreover have "a = a div w * w + a mod w" by simp
  ultimately show ?thesis unfolding distrib_right mult_1 by linarith
qed

text \<open>A window that an interval divides into few parts did not saturate.\<close>

lemma parts_window:
  assumes "fr < t" and "iv \<in> set intervals" and "interval_parts (time_sub t fr) iv \<le> 1440"
  shows "time_sub t fr = t - fr" and "t - fr \<le> 1440 * snd iv"
proof -
  define w where "w = snd iv"
  have w: "0 < w" "w \<le> day" using intervals_width [OF assms(2)] by (simp_all add: w_def)
  define win where "win = time_sub t fr"
  have win: "0 < win" using assms(1) by (simp add: win_def time_sub_def max_duration_def)
  with w have "(win - 1) div w \<le> 1439"
    using assms(3) by (simp add: interval_parts_def win_def w_def sdiv_nonneg)
  then have "((win - 1) div w + 1) * w \<le> 1440 * w"
    using w(1) by (intro mult_right_mono) auto
  then have "win - 1 < 1440 * w"
    using div_bounds [OF w(1), of "win - 1"] by linarith
  then have le: "win \<le> 1440 * w" by simp
  also have "\<dots> \<le> 1440 * day" using w(2) by simp
  also have "\<dots> < max_duration" by (simp add: max_duration_def duration_defs)
  finally show eq: "time_sub t fr = t - fr"
    using assms(1) by (auto simp: win_def time_sub_def min_duration_def)
  show "t - fr \<le> 1440 * snd iv"
    using le by (simp add: win_def eq w_def)
qed

text \<open>The buckets of an accepted interval, as numbers.\<close>

lemma bucket_span_bounds:
  assumes "fr < t" and "iv \<in> set intervals" and "interval_parts (time_sub t fr) iv \<le> 1440"
    and "bucket_span fr t iv = (iv', first, n)"
  shows "iv' = iv" and "first mod snd iv = 0" and "first \<le> fr" and "fr < first + snd iv"
    and "first + (n - 1) * snd iv < t" and "t \<le> first + n * snd iv" and "1 \<le> n" and "n \<le> 1441"
proof -
  define w where "w = snd iv"
  have w: "0 < w" "w dvd day" "w \<le> day"
    using intervals_width [OF assms(2)] by (simp_all add: w_def)
  have win: "t - fr \<le> 1440 * w"
    using parts_window [OF assms(1-3)] by (simp add: w_def)
  have span: "iv' = iv" "first = time_truncate fr w" "n = (time_sub t first - 1) sdiv w + 1"
    using assms(4) by (auto simp: bucket_span_def Let_def w_def)
  have first: "first = fr - fr mod w"
    using span(2) time_truncate_epoch [OF w(1,2)] by simp
  have mod: "0 \<le> fr mod w" "fr mod w < w" using w(1) by simp_all
  show "iv' = iv" by (rule span(1))
  have first_w: "first = fr div w * w"
    using first by (simp add: minus_mod_eq_div_mult)
  then show "first mod snd iv = 0" by (simp add: w_def)
  show "first \<le> fr" and "fr < first + snd iv"
    using first mod by (simp_all add: w_def)
  have range: "0 < t - first" "t - first \<le> 1441 * w"
    using first mod win assms(1) by linarith+
  then have "t - first \<le> 1441 * day" using w by auto
  also have "\<dots> < max_duration" by (simp add: max_duration_def duration_defs)
  finally have "time_sub t first = t - first"
    using range(1) by (auto simp: time_sub_def min_duration_def)
  then have n: "n = (t - first - 1) div w + 1"
    using span(3) range(1) w(1) by (simp add: sdiv_nonneg)
  have b: "(n - 1) * w \<le> t - first - 1" "t - first - 1 < n * w"
    using div_bounds [OF w(1), of "t - first - 1"] n by simp_all
  then show "first + (n - 1) * snd iv < t" and "t \<le> first + n * snd iv"
    by (simp_all add: w_def)
  show "1 \<le> n" using n range(1) w(1) by (simp add: pos_imp_zdiv_nonneg_iff)
  have "(n - 1) * w < 1441 * w" using b(1) range(2) by linarith
  then show "n \<le> 1441" using w(1) by simp
qed

lemma auto_interval_shortest:
  "(\<forall>iv' \<in> set intervals. snd iv' < snd (auto_interval w) \<longrightarrow> 200 < interval_parts w iv')
   \<and> (interval_parts w (auto_interval w) \<le> 200 \<or> snd (auto_interval w) = day)"
proof -
  have sorted: "sorted_wrt (\<lambda>a b. snd a < snd b) intervals"
    by (simp add: intervals_def duration_defs)
  show ?thesis
  proof (cases "find (\<lambda>iv. interval_parts w iv \<le> autoIntervals) intervals")
    case None
    then have "\<forall>iv \<in> set intervals. 200 < interval_parts w iv"
      by (auto simp: find_None_all autoIntervals_def)
    moreover have "snd (auto_interval w) = day"
      using None by (simp add: auto_interval_def intervals_def day_def)
    ultimately show ?thesis by blast
  next
    case (Some iv)
    then obtain i where i: "i < length intervals" "interval_parts w (intervals ! i) \<le> 200"
      "iv = intervals ! i" "\<forall>j<i. 200 < interval_parts w (intervals ! j)"
      unfolding find_Some_iff autoIntervals_def not_le by blast
    have "200 < interval_parts w iv'" if mem: "iv' \<in> set intervals" and less: "snd iv' < snd iv" for iv'
    proof -
      obtain j where j: "j < length intervals" "iv' = intervals ! j"
        using mem by (auto simp: in_set_conv_nth)
      have "j < i"
      proof (rule ccontr)
        assume "\<not> j < i"
        then have "snd iv \<le> snd iv'"
          using sorted i j by (cases "i = j") (auto simp: sorted_wrt_iff_nth_less less_imp_le)
        with less show False by simp
      qed
      with i j show ?thesis by simp
    qed
    with i Some show ?thesis by (simp add: auto_interval_def)
  qed
qed

lemma pickInterval_facts:
  assumes "fr < t" and "pickInterval name fr t = Inr (iv, first, n)"
  shows "iv \<in> set intervals \<and> snd iv dvd first
    \<and> first \<le> fr \<and> t \<le> first + n * snd iv \<and> 1 \<le> n"
proof -
  from assms(2) obtain iv0 where iv0: "iv0 \<in> set intervals" "(iv, first, n) = bucket_span fr t iv0"
    "interval_parts (time_sub t fr) iv0 \<le> 1440"
    by (rule pickInterval_Inr)
  note span = bucket_span_bounds [OF assms(1) iv0(1,3) iv0(2) [symmetric]]
  show ?thesis using span iv0(1) by auto
qed

text \<open>
  For every window that is accepted, named or automatic, the buckets start on whole
  multiples of the interval since the Unix epoch, cover the window, and neither the
  first nor the last of them is outside it; there are between 1 and 1441. The automatic
  interval is the shortest that divides the window into at most 200 parts, or a day.
\<close>

theorem pickInterval_covers:
  assumes "fr < t" and "pickInterval name fr t = Inr (iv, first, n)"
  shows "iv \<in> set intervals \<and> first mod snd iv = 0
    \<and> first \<le> fr \<and> fr < first + snd iv \<and> first + (n - 1) * snd iv < t \<and> t \<le> first + n * snd iv
    \<and> 1 \<le> n \<and> n \<le> 1441
    \<and> (if name = []
       then (\<forall>iv' \<in> set intervals. snd iv' < snd iv \<longrightarrow> 200 < interval_parts (t - fr) iv')
         \<and> (interval_parts (t - fr) iv \<le> 200 \<or> snd iv = day)
       else fst iv = name)"
proof -
  from assms(2) obtain iv0 where iv0: "iv0 \<in> set intervals" "(iv, first, n) = bucket_span fr t iv0"
    "interval_parts (time_sub t fr) iv0 \<le> 1440"
    "if name = [] then iv0 = auto_interval (time_sub t fr) else fst iv0 = name"
    by (rule pickInterval_Inr)
  note span = bucket_span_bounds [OF assms(1) iv0(1,3) iv0(2) [symmetric]]
  have win: "time_sub t fr = t - fr"
    using parts_window [OF assms(1) iv0(1,3)] by simp
  have "if name = []
       then (\<forall>iv' \<in> set intervals. snd iv' < snd iv \<longrightarrow> 200 < interval_parts (t - fr) iv')
         \<and> (interval_parts (t - fr) iv \<le> 200 \<or> snd iv = day)
       else fst iv = name"
    using iv0(4) auto_interval_shortest [of "t - fr"] span(1) by (simp add: win split: if_splits)
  then show ?thesis using iv0(1) span by simp
qed

theorem pickInterval_covers_witness:
  "\<exists>first n. pickInterval [] 0 (25 * hour + 1) = Inr ((''15m'', 15 * minute), first, n)
    \<and> first \<le> 0 \<and> 25 * hour + 1 \<le> first + n * (15 * minute) \<and> n = 101"
proof -
  have r: "pickInterval [] 0 (25 * hour + 1) = Inr ((''15m'', 15 * minute), 0, 101)"
    by code_simp
  have "(0 :: int) < 25 * hour + 1" by (simp add: duration_defs)
  from pickInterval_covers [OF this r] r show ?thesis by simp
qed

subsection \<open>Properties of the counts\<close>

text \<open>
  What Postgres answers to \<open>timeline_sql\<close>: \<open>date_bin\<close> puts an event in the bin of its
  time, and the groups, in any order, are the bins that have events with their number.
\<close>

definition date_bin :: "duration \<Rightarrow> gotime \<Rightarrow> gotime \<Rightarrow> gotime" where
  "date_bin width origin t = origin + (t - origin) div width * width"

definition group_counts :: "duration \<Rightarrow> gotime \<Rightarrow> row list \<Rightarrow> bucket list" where
  "group_counts width origin rs =
     map (\<lambda>s. (s, int (length (filter (\<lambda>r. date_bin width origin (rTs r) = s) rs))))
       (remdups (map (\<lambda>r. date_bin width origin (rTs r)) rs))"

lemma count_map_other:
  "k \<notin> (unix_micro \<circ> fst) ` set bs \<Longrightarrow>
   foldl (\<lambda>m b. m(unix_micro (fst b) \<mapsto> snd b)) m bs k = m k"
  by (induction bs arbitrary: m) auto

lemma count_map_mem:
  "inj_on (unix_micro \<circ> fst) (set bs) \<Longrightarrow> distinct bs \<Longrightarrow> (s, c) \<in> set bs \<Longrightarrow>
   foldl (\<lambda>m b. m(unix_micro (fst b) \<mapsto> snd b)) m bs (unix_micro s) = Some c"
proof (induction bs arbitrary: m)
  case (Cons b bs)
  show ?case
  proof (cases "(s, c) = b")
    case True
    then have "unix_micro s \<notin> (unix_micro \<circ> fst) ` set bs"
      using Cons.prems(1,2) by (force simp: inj_on_def)
    then have "foldl (\<lambda>m b. m(unix_micro (fst b) \<mapsto> snd b)) (m(unix_micro s \<mapsto> c)) bs (unix_micro s)
        = (m(unix_micro s \<mapsto> c)) (unix_micro s)"
      by (rule count_map_other)
    then show ?thesis
      unfolding True [symmetric] foldl_Cons fst_conv snd_conv by (simp only: fun_upd_same)
  next
    case False
    then have "(s, c) \<in> set bs" using Cons.prems(3) by auto
    then show ?thesis
      using Cons.IH [of "m(unix_micro (fst b) \<mapsto> snd b)"] Cons.prems by simp
  qed
qed simp

text \<open>The value of a bucket's count: what the database counted for its start, or 0.\<close>

lemma count_map_lookup:
  assumes "distinct (map fst bs)" and "\<forall>b \<in> set bs. 1000 dvd fst b" and "1000 dvd s"
  shows "count_map bs (unix_micro s) = map_of bs s"
proof -
  have inj: "unix_micro a = unix_micro b \<Longrightarrow> 1000 dvd a \<Longrightarrow> 1000 dvd b \<Longrightarrow> a = b" for a b
    by (auto simp: unix_micro_def)
  show ?thesis
  proof (cases "map_of bs s")
    case None
    then have "s \<notin> fst ` set bs" by (simp add: map_of_eq_None_iff)
    then have "unix_micro s \<notin> (unix_micro \<circ> fst) ` set bs"
      using assms(2,3) inj by auto
    with None show ?thesis by (simp add: count_map_def count_map_other)
  next
    case (Some c)
    then have mem: "(s, c) \<in> set bs" by (rule map_of_SomeD)
    moreover have "inj_on (unix_micro \<circ> fst) (set bs)"
    proof (rule inj_onI)
      fix x y assume xy: "x \<in> set bs" "y \<in> set bs" "(unix_micro \<circ> fst) x = (unix_micro \<circ> fst) y"
      then have "fst x = fst y" using inj assms(2) by simp
      with xy assms(1) show "x = y" by (auto simp: distinct_map dest: inj_onD)
    qed
    moreover have "distinct bs" using assms(1) by (simp add: distinct_map)
    ultimately show ?thesis using Some by (simp add: count_map_def count_map_mem)
  qed
qed

lemma group_counts_keys:
  "map fst (group_counts w o' rs) = remdups (map (\<lambda>r. date_bin w o' (rTs r)) rs)"
  by (simp add: group_counts_def comp_def)

lemma group_counts_lookup:
  "map_of (group_counts w o' rs) s =
     (if \<exists>r \<in> set rs. date_bin w o' (rTs r) = s
      then Some (int (length (filter (\<lambda>r. date_bin w o' (rTs r) = s) rs))) else None)"
  by (auto simp: group_counts_def map_of_map_restrict restrict_map_def)

text \<open>An event is in the bin of a bucket exactly when its time is within the bucket.\<close>

lemma date_bin_bucket:
  assumes "0 < w"
  shows "date_bin w first t = first + int i * w \<longleftrightarrow> first + int i * w \<le> t \<and> t < first + int i * w + w"
proof
  assume "date_bin w first t = first + int i * w"
  then have "(t - first) div w * w = int i * w" by (simp add: date_bin_def)
  moreover have "((t - first) div w + 1) * w = (t - first) div w * w + w"
    by (simp add: distrib_right)
  ultimately show "first + int i * w \<le> t \<and> t < first + int i * w + w"
    using div_bounds [OF assms, of "t - first"] by linarith
next
  assume "first + int i * w \<le> t \<and> t < first + int i * w + w"
  then have "t - first = int i * w + (t - first - int i * w)" "0 \<le> t - first - int i * w"
    "t - first - int i * w < w"
    by auto
  then have "(t - first) div w = int i"
    using assms by (metis div_mult_self3 div_pos_pos_trivial less_irrefl add.left_neutral add.commute)
  then show "date_bin w first t = first + int i * w" by (simp add: date_bin_def)
qed

lemma sum_bins:
  "(\<forall>r \<in> set rs. b r < n) \<Longrightarrow>
   sum_list (map (\<lambda>i. int (length (filter (\<lambda>r. b r = i) rs))) [0..<n]) = int (length rs)"
proof (induction rs)
  case (Cons r rs)
  have "sum_list (map (\<lambda>i. int (length (filter (\<lambda>r. b r = i) (r # rs)))) [0..<n]) =
      sum_list (map (\<lambda>i. (if b r = i then 1 else 0) + int (length (filter (\<lambda>r. b r = i) rs))) [0..<n])"
    by (rule arg_cong [of _ _ sum_list]) simp
  also have "\<dots> = sum_list (map (\<lambda>i. if b r = i then 1 else 0) [0..<n]) + int (length rs)"
    using Cons by (simp add: sum_list_addf)
  also have "sum_list (map (\<lambda>i. if b r = i then 1 else 0) [0..<n]) = (1 :: int)"
    using Cons.prems by (simp add: interv_sum_list_conv_sum_set_nat)
  finally show ?case by simp
qed simp

text \<open>Every row of the window is in one bucket.\<close>

lemma date_bins_total:
  assumes w: "0 < w" and window: "\<And>r. r \<in> set (rs :: row list) \<Longrightarrow> first \<le> rTs r \<and> rTs r < first + n * w"
  shows "sum_list (map (\<lambda>i. int (length (filter (\<lambda>r. date_bin w first (rTs r) = first + int i * w) rs))) [0..<nat n])
    = int (length rs)"
proof -
  define b where "b = (\<lambda>r :: row. nat ((rTs r - first) div w))"
  have bin: "date_bin w first (rTs r) = first + int i * w \<longleftrightarrow> b r = i" if "r \<in> set rs" for r i
    using window [OF that] w by (auto simp: date_bin_def b_def pos_imp_zdiv_nonneg_iff)
  have "b r < nat n" if r: "r \<in> set rs" for r
  proof -
    have "(rTs r - first) div w * w < n * w"
      using window [OF r] div_bounds [OF w, of "rTs r - first"] by linarith
    then have "(rTs r - first) div w < n" using w by simp
    moreover have "0 \<le> (rTs r - first) div w"
      using window [OF r] w by (simp add: pos_imp_zdiv_nonneg_iff)
    ultimately show "b r < nat n" by (simp add: b_def)
  qed
  then have "sum_list (map (\<lambda>i. int (length (filter (\<lambda>r. b r = i) rs))) [0..<nat n]) = int (length rs)"
    by (intro sum_bins ballI)
  moreover have "filter (\<lambda>r. date_bin w first (rTs r) = first + int i * w) rs = filter (\<lambda>r. b r = i) rs" for i
    using bin by (intro filter_cong) auto
  ultimately show ?thesis by simp
qed

text \<open>The database's groups, in whatever order, are looked up like the reference's.\<close>

lemma group_counts_any_order:
  assumes "mset counted = mset (group_counts w first rs)" and "1000 dvd w" and "1000 dvd first"
  shows "map_of counted = map_of (group_counts w first rs)"
    and "distinct (map fst counted)" and "\<forall>b \<in> set counted. 1000 dvd fst b"
proof -
  have bin_start: "1000 dvd date_bin w first t" for t
    using assms(2,3) by (simp add: date_bin_def dvd_add dvd_mult)
  have "mset (map fst counted) = mset (map fst (group_counts w first rs))"
    using assms(1) by simp
  then show d: "distinct (map fst counted)"
    unfolding group_counts_keys using mset_eq_imp_distinct_iff distinct_remdups by blast
  have d': "distinct (map fst (group_counts w first rs))"
    unfolding group_counts_keys by simp
  have set_eq: "set counted = set (group_counts w first rs)"
    using assms(1) by (rule mset_eq_setD)
  with d d' show "map_of counted = map_of (group_counts w first rs)"
    by (simp add: map_of_inject_set)
  show "\<forall>b \<in> set counted. 1000 dvd fst b"
    using set_eq bin_start by (auto simp: group_counts_def)
qed

text \<open>
  C35. The timeline counts what the search shows: given Postgres's groups in any order,
  each bucket holds the number of matching events whose time is in it, empty buckets
  included, and the buckets together count every matching event once.
\<close>

theorem fill_buckets_counts:
  assumes "tmInstant (qFrom q) < tmInstant (qTo q)" and "pickInterval name (tmInstant (qFrom q)) (tmInstant (qTo q)) = Inr (iv, first, n)"
    and "mset counted = mset (group_counts (snd iv) first (filter (matches lw q) table))"
  shows "map fst (fill_buckets (snd iv) first n counted) = map (\<lambda>i. first + int i * snd iv) [0..<nat n]
    \<and> (\<forall>b \<in> set (fill_buckets (snd iv) first n counted). snd b =
        int (length (filter (\<lambda>r. matches lw q r \<and> fst b \<le> rTs r \<and> rTs r < fst b + snd iv) table)))
    \<and> sum_list (map snd (fill_buckets (snd iv) first n counted)) =
        int (length (filter (matches lw q) table))"
proof -
  define w where "w = snd iv"
  define rs where "rs = filter (matches lw q) table"
  note covers = pickInterval_facts [OF assms(1,2), folded w_def]
  have w: "0 < w" "1000 dvd w" "1000 dvd first"
    using intervals_width [of iv] covers by (auto simp: w_def intro: dvd_trans)
  have start: "1000 dvd first + int i * w" for i
    using w by (simp add: dvd_add dvd_mult)
  have "mset counted = mset (group_counts w first rs)" using assms(3) by (simp add: w_def rs_def)
  note rows = group_counts_any_order [OF this w(2,3)]
  have count: "(case count_map counted (unix_micro (first + int i * w)) of Some c \<Rightarrow> c | None \<Rightarrow> 0)
      = int (length (filter (\<lambda>r. date_bin w first (rTs r) = first + int i * w) rs))" for i
    unfolding count_map_lookup [OF rows(2,3) start] rows(1) group_counts_lookup
    by (auto simp: filter_empty_conv)
  define bs where "bs = fill_buckets w first n counted"
  have bs: "bs = map (\<lambda>i. (first + int i * w,
      int (length (filter (\<lambda>r. date_bin w first (rTs r) = first + int i * w) rs)))) [0..<nat n]"
    unfolding bs_def fill_buckets_def Let_def count ..
  have "\<forall>b \<in> set bs. snd b =
      int (length (filter (\<lambda>r. matches lw q r \<and> fst b \<le> rTs r \<and> rTs r < fst b + w) table))"
    unfolding bs by (simp add: date_bin_bucket [OF w(1)] rs_def conj_commute)
  moreover have "map fst bs = map (\<lambda>i. first + int i * w) [0..<nat n]"
    by (simp add: bs comp_def)
  moreover have "sum_list (map snd bs) = int (length rs)"
    unfolding bs map_map comp_def snd_conv
    by (rule date_bins_total [OF w(1)]) (use covers in \<open>auto simp: rs_def matches_def\<close>)
  ultimately show ?thesis
    by (simp add: bs_def w_def rs_def)
qed

theorem fill_buckets_counts_witness:
  "\<exists>(q :: event_query) counted. pickInterval ''1m'' (tmInstant (qFrom q)) (tmInstant (qTo q)) = Inr ((''1m'', minute), 0, 2)
    \<and> map snd (fill_buckets minute 0 2 counted) = [1, 1]"
proof -
  define q where "q = \<lparr>fTenant = ''a'', fFrom = None, fTo = None, fSources = [], fEventType = [],
     fAction = [], fSeverityMin = None, fSeverityMax = None, fSrcIP = [], fUser = [], fHost = [],
     fTags = [], fQuery = [], qSrcIP = None, qFrom = utc 0, qTo = utc (minute + 5)\<rparr>"
  define table where "table = [sample_row 1 4, sample_row 2 (minute + 1), sample_row 3 (minute + 7)]"
  define counted where "counted = group_counts minute 0 (filter (matches (\<lambda>c. c) q) table)"
  have pick: "pickInterval ''1m'' (tmInstant (qFrom q)) (tmInstant (qTo q)) = Inr ((''1m'', minute), 0, 2)"
    unfolding q_def by code_simp
  have "tmInstant (qFrom q) < tmInstant (qTo q)" by (simp add: q_def duration_defs)
  note counts = fill_buckets_counts [OF this pick, of counted "\<lambda>c. c" table, simplified snd_conv,
      OF arg_cong [OF counted_def, of mset]]
  have buckets: "map fst (fill_buckets minute 0 2 counted) = [0, minute]"
    using counts by (simp add: upt_rec numeral_2_eq_2)
  then obtain c0 c1 where b: "fill_buckets minute 0 2 counted = [(0, c0), (minute, c1)]"
    by (auto simp: map_eq_Cons_conv)
  have "c0 = 1" and "c1 = 1"
    using counts unfolding b
    by (simp_all add: table_def sample_row_def matches_def q_def duration_defs)
  with b pick show ?thesis
    by (intro exI [of _ q] exI [of _ counted] conjI) simp_all
qed

end
