(* ===== verification/Event_Data.thy ===== *)
theory Event_Data
  imports Go_Time Go_Net
begin

text \<open>
  One normalized event, \<open>store.NewEventParams\<close> of \<open>internal/store/events.go\<close>: what the
  normalizer builds and the store inserts. A pointer is an option; \<open>Raw\<close> is the bytes of
  a JSON object. A nil \<open>Tags\<close> is stored as an empty array, so both are the empty list.
\<close>

record new_event =
  evTs :: gotime
  evTenantID :: bytes
  evSource :: bytes
  evVendor :: "bytes option"
  evProduct :: "bytes option"
  evEventType :: "bytes option"
  evEventSubtype :: "bytes option"
  evSeverity :: "int option"
  evAction :: "bytes option"
  evSrcIP :: "addr option"
  evSrcPort :: "int option"
  evDstIP :: "addr option"
  evDstPort :: "int option"
  evProtocol :: "bytes option"
  evUserName :: "bytes option"
  evHost :: "bytes option"
  evProcess :: "bytes option"
  evURL :: "bytes option"
  evHTTPMethod :: "bytes option"
  evStatusCode :: "int option"
  evRuleName :: "bytes option"
  evRuleID :: "bytes option"
  evCloudAccountID :: "bytes option"
  evCloudRegion :: "bytes option"
  evCloudService :: "bytes option"
  evRaw :: bytes
  evTags :: "bytes list"

definition zero_event :: new_event where
  "zero_event = \<lparr>evTs = 0, evTenantID = [], evSource = [], evVendor = None, evProduct = None,
     evEventType = None, evEventSubtype = None, evSeverity = None, evAction = None, evSrcIP = None,
     evSrcPort = None, evDstIP = None, evDstPort = None, evProtocol = None, evUserName = None,
     evHost = None, evProcess = None, evURL = None, evHTTPMethod = None, evStatusCode = None,
     evRuleName = None, evRuleID = None, evCloudAccountID = None, evCloudRegion = None,
     evCloudService = None, evRaw = [], evTags = []\<rparr>"

end
