(* ===== verification/Events.thy ===== *)
theory Events
  imports Event_Data Store
begin

text \<open>
  \<open>internal/store/events.go\<close>: inserting a batch. The data of the session are the known
  tenants and the events stored; the order of the list is the order of insertion. What
  the database refuses of an event, by its own values, is the argument \<open>refuse\<close>: the
  SQLSTATE of the error. \<open>quoted\<close> is \<open>%q\<close> of the \<open>fmt\<close> package.
\<close>

record events_db =
  dbTenants :: "bytes set"
  dbEvents :: "new_event list"

definition insertChunk :: nat where "insertChunk = 1000"

definition unknownTenant :: "(bytes \<Rightarrow> bytes) \<Rightarrow> bytes \<Rightarrow> go_error" where
  "unknownTenant quoted tid = Invalid ''unknown_tenant'' (''tenant '' @ quoted tid @ '' does not exist'')"

definition refusal :: "(bytes \<Rightarrow> bytes) \<Rightarrow> go_error \<Rightarrow> bytes \<Rightarrow> go_error option" where
  "refusal quoted err tenant =
     (case as_pg err of
        None \<Rightarrow> None
      | Some pgErr \<Rightarrow>
          (let code = sqlstate pgErr in
           if code = ''23503'' then Some (unknownTenant quoted tenant)
           else if code = ''54000'' \<or> has_prefix code ''22'' \<or> has_prefix code ''23''
             then Some (Wrapping (Invalid ''unstorable_event'' ''the database refused a value in this event'')
                    pgErr)
           else None))"

text \<open>
  One INSERT: row-level security, the foreign key to the tenants, the event's own values.
\<close>

definition insert_row ::
  "failures \<Rightarrow> (new_event \<Rightarrow> bytes option) \<Rightarrow> new_event \<Rightarrow> (events_db, unit) db_op" where
  "insert_row fails refuse e s =
     (case interact fails s of
        (Some err, s1) \<Rightarrow> (Inl err, s1)
      | (None, s1) \<Rightarrow>
          if \<not> visible (sScope s1) (evTenantID e) then (Inl (PgError ''42501'' []), s1)
          else if evTenantID e \<notin> dbTenants (sData s1) then (Inl (PgError ''23503'' []), s1)
          else (case refuse e of
              Some code \<Rightarrow> (Inl (PgError code []), s1)
            | None \<Rightarrow> (Inr (), s1\<lparr>sData := (sData s1)\<lparr>dbEvents := dbEvents (sData s1) @ [e]\<rparr>\<rparr>)))"

text \<open>The statements of a batch; after the first that fails, the rest have no effect.\<close>

fun exec_rows ::
  "failures \<Rightarrow> (new_event \<Rightarrow> bytes option) \<Rightarrow> new_event list \<Rightarrow> (events_db, unit) db_op" where
  "exec_rows fails refuse [] s = (Inr (), s)"
| "exec_rows fails refuse (e # es) s =
     (case insert_row fails refuse e s of
        (Inl err, s1) \<Rightarrow> (Inl err, s1)
      | (Inr _, s1) \<Rightarrow> exec_rows fails refuse es s1)"

definition execBatch ::
  "failures \<Rightarrow> (new_event \<Rightarrow> bytes option) \<Rightarrow> new_event list \<Rightarrow> (events_db, unit) db_op" where
  "execBatch fails refuse params s =
     (case exec_rows fails refuse params s of
        (Inl err, s1) \<Rightarrow> (Inl (Wrap err ''cannot insert events''), s1)
      | (Inr _, s1) \<Rightarrow> (Inr (), s1))"

type_synonym rejections = "go_error option list"

text \<open>The second pass of \<open>insertEvents\<close>, one event at a time.\<close>

fun insert_each ::
  "(bytes \<Rightarrow> bytes) \<Rightarrow> failures \<Rightarrow> (new_event \<Rightarrow> bytes option) \<Rightarrow> new_event list \<Rightarrow> bytes \<Rightarrow> nat list
   \<Rightarrow> rejections \<Rightarrow> (events_db, rejections) db_op" where
  "insert_each quoted fails refuse events tenant [] rejected s = (Inr rejected, s)"
| "insert_each quoted fails refuse events tenant (i # idx) rejected s =
     (case InTx fails (execBatch fails refuse [events ! i]) s of
        (Inr _, s1) \<Rightarrow> insert_each quoted fails refuse events tenant idx rejected s1
      | (Inl err, s1) \<Rightarrow>
          (case refusal quoted err tenant of
             None \<Rightarrow> (Inl err, s1)
           | Some r \<Rightarrow> insert_each quoted fails refuse events tenant idx (rejected[i := Some r]) s1))"

definition insertEvents ::
  "(bytes \<Rightarrow> bytes) \<Rightarrow> failures \<Rightarrow> (new_event \<Rightarrow> bytes option) \<Rightarrow> new_event list \<Rightarrow> nat list
   \<Rightarrow> rejections \<Rightarrow> (events_db, rejections) db_op" where
  "insertEvents quoted fails refuse events idx rejected s =
     (let tenant = evTenantID (events ! hd idx) in
      case InTx fails (execBatch fails refuse (map ((!) events) idx)) s of
        (Inr _, s1) \<Rightarrow> (Inr rejected, s1)
      | (Inl err, s1) \<Rightarrow>
          if refusal quoted err tenant = None then (Inl err, s1)
          else insert_each quoted fails refuse events tenant idx rejected s1)"

text \<open>\<open>FilterTenantIDs\<close>, as the set of the tenants found.\<close>

definition knownTenants :: "failures \<Rightarrow> new_event list \<Rightarrow> (events_db, bytes set) db_op" where
  "knownTenants fails events s =
     (case interact fails s of
        (Some err, s1) \<Rightarrow> (Inl (Wrap err ''cannot look up tenants''), s1)
      | (None, s1) \<Rightarrow> (Inr (set (map evTenantID events) \<inter> dbTenants (sData s1)), s1))"

text \<open>
  The loop that groups by tenant: the tenants in order of arrival, the positions of each,
  and the rejections.
\<close>

record grouping =
  gTenants :: "bytes list"
  gByTenant :: "bytes \<Rightarrow> nat list"
  gRejected :: rejections

definition group_event ::
  "(bytes \<Rightarrow> bytes) \<Rightarrow> bytes set \<Rightarrow> new_event list \<Rightarrow> grouping \<Rightarrow> nat \<Rightarrow> grouping" where
  "group_event quoted known events g i =
     (let t = evTenantID (events ! i) in
      if t \<notin> known then g\<lparr>gRejected := (gRejected g)[i := Some (unknownTenant quoted t)]\<rparr>
      else g\<lparr>gTenants := (if t \<in> set (gTenants g) then gTenants g else gTenants g @ [t]),
             gByTenant := (gByTenant g)(t := gByTenant g t @ [i])\<rparr>)"

definition group_events :: "(bytes \<Rightarrow> bytes) \<Rightarrow> bytes set \<Rightarrow> new_event list \<Rightarrow> grouping" where
  "group_events quoted known events =
     foldl (group_event quoted known events)
       \<lparr>gTenants = [], gByTenant = (\<lambda>_. []), gRejected = replicate (length events) None\<rparr>
       [0..<length events]"

text \<open>\<open>slices.Chunk\<close>.\<close>

function chunks :: "nat \<Rightarrow> 'a list \<Rightarrow> 'a list list" where
  "chunks n xs = (if xs = [] \<or> n = 0 then [] else take n xs # chunks n (drop n xs))"
  by pat_completeness auto
termination
  by (relation "measure (\<lambda>(n, xs). length xs)") auto

declare chunks.simps [simp del]

fun insert_chunks ::
  "(bytes \<Rightarrow> bytes) \<Rightarrow> failures \<Rightarrow> (new_event \<Rightarrow> bytes option) \<Rightarrow> new_event list \<Rightarrow> nat list list
   \<Rightarrow> rejections \<Rightarrow> (events_db, rejections) db_op" where
  "insert_chunks quoted fails refuse events [] rejected s = (Inr rejected, s)"
| "insert_chunks quoted fails refuse events (c # cs) rejected s =
     (case insertEvents quoted fails refuse events c rejected s of
        (Inl err, s1) \<Rightarrow> (Inl err, s1)
      | (Inr rejected', s1) \<Rightarrow> insert_chunks quoted fails refuse events cs rejected' s1)"

fun insert_tenants ::
  "(bytes \<Rightarrow> bytes) \<Rightarrow> failures \<Rightarrow> (new_event \<Rightarrow> bytes option) \<Rightarrow> new_event list
   \<Rightarrow> (bytes \<Rightarrow> nat list) \<Rightarrow> bytes list \<Rightarrow> rejections \<Rightarrow> (events_db, rejections) db_op" where
  "insert_tenants quoted fails refuse events byTenant [] rejected s = (Inr rejected, s)"
| "insert_tenants quoted fails refuse events byTenant (t # ts) rejected s =
     (case setScope fails \<lparr>scope_TenantID = t, scope_Admin = False\<rparr> s of
        (Inl err, s1) \<Rightarrow> (Inl err, s1)
      | (Inr _, s1) \<Rightarrow>
     (case insert_chunks quoted fails refuse events (chunks insertChunk (byTenant t)) rejected s1 of
        (Inl err, s2) \<Rightarrow> (Inl err, s2)
      | (Inr rejected', s2) \<Rightarrow> insert_tenants quoted fails refuse events byTenant ts rejected' s2))"

definition Insert ::
  "(bytes \<Rightarrow> bytes) \<Rightarrow> failures \<Rightarrow> (new_event \<Rightarrow> bytes option) \<Rightarrow> new_event list
   \<Rightarrow> (events_db, rejections) db_op" where
  "Insert quoted fails refuse events s =
     (if events = [] then (Inr [], s)
      else (case knownTenants fails events s of
          (Inl err, s1) \<Rightarrow> (Inl err, s1)
        | (Inr known, s1) \<Rightarrow>
            (let g = group_events quoted known events in
             InTx fails (insert_tenants quoted fails refuse events (gByTenant g) (gTenants g)
               (gRejected g)) s1)))"

subsection \<open>What is stored and what is rejected\<close>

text \<open>Rows added at the end of the table, and nothing else changed.\<close>

definition added :: "new_event list \<Rightarrow> events_db session \<Rightarrow> events_db session \<Rightarrow> bool" where
  "added es s s' \<longleftrightarrow>
     sData s' = (sData s)\<lparr>dbEvents := dbEvents (sData s) @ es\<rparr>
     \<and> sDepth s' = sDepth s"

definition rejection_ok :: "(bytes \<Rightarrow> bytes) \<Rightarrow> go_error \<Rightarrow> bool" where
  "rejection_ok quoted r \<longleftrightarrow>
     KindOf r = KindInvalid \<and> (CodeOf r = ''unknown_tenant'' \<or> CodeOf r = ''unstorable_event'')"

lemma added_refl: "added [] s s"
  by (simp add: added_def)

lemma added_trans: "added xs s s1 \<Longrightarrow> added ys s1 s2 \<Longrightarrow> added (xs @ ys) s s2"
  by (simp add: added_def)

lemma unknownTenant_ok: "rejection_ok quoted (unknownTenant quoted t)"
  by (simp add: rejection_ok_def unknownTenant_def Invalid_def result_simps)

lemma refusal_ok: "refusal quoted err t = Some r \<Longrightarrow> rejection_ok quoted r"
  by (auto simp: refusal_def Let_def rejection_ok_def unknownTenant_def Invalid_def result_simps
      split: option.splits if_splits)

lemma exec_rows_Inr:
  "exec_rows fails refuse es s = (Inr u, s') \<Longrightarrow>
   added es s s' \<and> sScope s' = sScope s
   \<and> (\<forall>e \<in> set es. evTenantID e \<in> dbTenants (sData s) \<and> visible (sScope s) (evTenantID e))"
proof (induction es arbitrary: s)
  case (Cons e es)
  then obtain s1 where s1: "insert_row fails refuse e s = (Inr (), s1)"
    and rest: "exec_rows fails refuse es s1 = (Inr u, s')"
    by (auto split: prod.splits sum.splits)
  from s1 have "added [e] s s1 \<and> sScope s1 = sScope s
      \<and> evTenantID e \<in> dbTenants (sData s) \<and> visible (sScope s) (evTenantID e)"
    by (auto simp: insert_row_def interact_def added_def split: option.splits if_splits)
  moreover from Cons.IH [OF rest] have "added es s1 s' \<and> sScope s' = sScope s1
      \<and> (\<forall>e \<in> set es. evTenantID e \<in> dbTenants (sData s1) \<and> visible (sScope s1) (evTenantID e))" .
  ultimately show ?case
    using added_trans [of "[e]" s s1 es s'] by (auto simp: added_def)
qed (simp add: added_refl)

lemma execBatch_tx:
  assumes "InTx fails (execBatch fails refuse es) s = (Inr u, s')" and "0 < sDepth s"
  shows "added es s s' \<and> sScope s' = sScope s
   \<and> (\<forall>e \<in> set es. evTenantID e \<in> dbTenants (sData s) \<and> visible (sScope s) (evTenantID e))"
proof -
  from assms(1) obtain s2 where s2: "execBatch fails refuse es
      (s\<lparr>sStep := sStep s + 1, sDepth := sDepth s + 1\<rparr>) = (Inr u, s2)"
    and s': "sData s' = sData s2" "sDepth s' = sDepth s"
      "sScope s' = (if sDepth s = 0 then sBase s2 else sScope s2)"
    by (rule InTx_InrE)
  from s2 have "exec_rows fails refuse es (s\<lparr>sStep := sStep s + 1, sDepth := sDepth s + 1\<rparr>) = (Inr (), s2)"
    by (auto simp: execBatch_def split: prod.splits sum.splits)
  from exec_rows_Inr [OF this] s' assms(2) show ?thesis
    by (auto simp: added_def)
qed

text \<open>
  What has become of the events at \<open>idx\<close>: each is stored, in order, or has a rejection, and
  the other events' rejections are as they were.
\<close>

definition settled ::
  "(bytes \<Rightarrow> bytes) \<Rightarrow> new_event list \<Rightarrow> nat list \<Rightarrow> rejections \<Rightarrow> events_db session
   \<Rightarrow> rejections \<Rightarrow> events_db session \<Rightarrow> bool" where
  "settled quoted events idx rej s rej' s' \<longleftrightarrow>
     length rej' = length rej
     \<and> (\<forall>i. i \<notin> set idx \<longrightarrow> rej' ! i = rej ! i)
     \<and> (\<forall>i \<in> set idx. case rej' ! i of Some r \<Rightarrow> rejection_ok quoted r
          | None \<Rightarrow> evTenantID (events ! i) \<in> dbTenants (sData s) \<and> visible (sScope s) (evTenantID (events ! i)))
     \<and> added (map ((!) events) (filter (\<lambda>i. rej' ! i = None) idx)) s s'
     \<and> sScope s' = sScope s"

definition pending :: "nat list \<Rightarrow> rejections \<Rightarrow> bool" where
  "pending idx rej \<longleftrightarrow> distinct idx \<and> (\<forall>i \<in> set idx. i < length rej \<and> rej ! i = None)"

lemma settled_Nil: "settled quoted events [] rej s rej s"
  by (simp add: settled_def added_refl)

lemma settled_append:
  assumes "settled quoted events xs rej s rej1 s1" and "settled quoted events ys rej1 s1 rej2 s2"
    and "set xs \<inter> set ys = {}"
  shows "settled quoted events (xs @ ys) rej s rej2 s2"
proof -
  have keep: "\<forall>i \<in> set xs. rej2 ! i = rej1 ! i"
    using assms(2,3) by (auto simp: settled_def)
  then have "filter (\<lambda>i. rej2 ! i = None) xs = filter (\<lambda>i. rej1 ! i = None) xs"
    by (auto intro: filter_cong)
  then have rows: "added (map ((!) events) (filter (\<lambda>i. rej2 ! i = None) (xs @ ys))) s s2"
    using assms(1,2) added_trans [of _ s s1 _ s2] by (simp add: settled_def)
  have same: "dbTenants (sData s1) = dbTenants (sData s)" "sScope s1 = sScope s"
    using assms(1) by (auto simp: settled_def added_def)
  have xs: "\<forall>i \<in> set xs. case rej2 ! i of Some r \<Rightarrow> rejection_ok quoted r
      | None \<Rightarrow> evTenantID (events ! i) \<in> dbTenants (sData s) \<and> visible (sScope s) (evTenantID (events ! i))"
    using assms(1) keep by (simp add: settled_def)
  have ys: "\<forall>i \<in> set ys. case rej2 ! i of Some r \<Rightarrow> rejection_ok quoted r
      | None \<Rightarrow> evTenantID (events ! i) \<in> dbTenants (sData s) \<and> visible (sScope s) (evTenantID (events ! i))"
    using assms(2) [unfolded settled_def same] by blast
  have "length rej2 = length rej" "\<forall>i. i \<notin> set (xs @ ys) \<longrightarrow> rej2 ! i = rej ! i" "sScope s2 = sScope s"
    using assms(1,2) by (simp_all add: settled_def)
  with rows xs ys show ?thesis
    unfolding settled_def set_append ball_Un by blast
qed

lemma pending_step:
  "settled quoted events xs rej s rej1 s1 \<Longrightarrow> pending (xs @ ys) rej \<Longrightarrow> pending ys rej1"
  by (auto simp: pending_def settled_def)

lemma settled_one:
  assumes "i < length rej" and "rejection_ok quoted r" and "sData s' = sData s" "sDepth s' = sDepth s"
    "sScope s' = sScope s"
  shows "settled quoted events [i] rej s (rej[i := Some r]) s'"
  using assms by (auto simp: settled_def added_def)

lemma insert_each_settled:
  assumes "insert_each quoted fails refuse events t idx rej s = (Inr rej', s')"
    and "pending idx rej" and "0 < sDepth s"
  shows "settled quoted events idx rej s rej' s'"
  using assms
proof (induction idx arbitrary: rej s)
  case (Cons i idx)
  have i: "i < length rej" "rej ! i = None" "i \<notin> set idx" and pend: "pending ([i] @ idx) rej"
    using Cons.prems(2) by (simp_all add: pending_def)
  show ?case
  proof (cases "InTx fails (execBatch fails refuse [events ! i]) s")
    case (Pair res s1)
    show ?thesis
    proof (cases res)
      case (Inr u)
      then have one: "settled quoted events [i] rej s rej s1"
        using execBatch_tx [OF Pair [unfolded Inr] Cons.prems(3)] i by (simp add: settled_def)
      then have "0 < sDepth s1"
        using Cons.prems(3) by (simp add: settled_def added_def)
      moreover have "insert_each quoted fails refuse events t idx rej s1 = (Inr rej', s')"
        using Cons.prems(1) Pair Inr by simp
      ultimately have "settled quoted events idx rej s1 rej' s'"
        using Cons.IH pending_step [OF one pend] by blast
      with settled_append [OF one] i(3) show ?thesis by fastforce
    next
      case (Inl err)
      then obtain r where r: "refusal quoted err t = Some r"
        and rest: "insert_each quoted fails refuse events t idx (rej[i := Some r]) s1 = (Inr rej', s')"
        using Cons.prems(1) Pair by (auto split: option.splits)
      have one: "settled quoted events [i] rej s (rej[i := Some r]) s1"
        using InTx_Inl_data [OF Pair [unfolded Inl]] i(1) refusal_ok [OF r]
        by (intro settled_one) simp_all
      then have "0 < sDepth s1"
        using Cons.prems(3) by (simp add: settled_def added_def)
      with rest have "settled quoted events idx (rej[i := Some r]) s1 rej' s'"
        using Cons.IH pending_step [OF one pend] by blast
      with settled_append [OF one] i(3) show ?thesis by fastforce
    qed
  qed
qed (simp add: settled_Nil)

lemma insertEvents_settled:
  assumes "insertEvents quoted fails refuse events idx rej s = (Inr rej', s')"
    and "pending idx rej" and "0 < sDepth s"
  shows "settled quoted events idx rej s rej' s'"
proof (cases "InTx fails (execBatch fails refuse (map ((!) events) idx)) s")
  case (Pair res s1)
  show ?thesis
  proof (cases res)
    case (Inr u)
    then have "rej' = rej" "s' = s1"
      using assms(1) Pair by (simp_all add: insertEvents_def)
    moreover have "filter (\<lambda>i. rej ! i = None) idx = idx"
      using assms(2) by (simp add: pending_def)
    ultimately show ?thesis
      using execBatch_tx [OF Pair [unfolded Inr] assms(3)] assms(2)
      by (simp add: settled_def pending_def)
  next
    case (Inl err)
    then have each: "insert_each quoted fails refuse events (evTenantID (events ! hd idx)) idx rej s1 = (Inr rej', s')"
      using assms(1) Pair by (auto simp: insertEvents_def Let_def split: if_splits)
    have same: "sData s1 = sData s" "sScope s1 = sScope s" "sDepth s1 = sDepth s"
      using InTx_Inl_data [OF Pair [unfolded Inl]] by simp_all
    then have "settled quoted events idx rej s1 rej' s'"
      using insert_each_settled [OF each assms(2)] assms(3) by simp
    then show ?thesis unfolding settled_def added_def same .
  qed
qed

lemma insert_chunks_settled:
  assumes "insert_chunks quoted fails refuse events cs rej s = (Inr rej', s')"
    and "pending (concat cs) rej" and "0 < sDepth s"
  shows "settled quoted events (concat cs) rej s rej' s'"
  using assms
proof (induction cs arbitrary: rej s)
  case (Cons c cs)
  then obtain rej1 s1 where c: "insertEvents quoted fails refuse events c rej s = (Inr rej1, s1)"
    and rest: "insert_chunks quoted fails refuse events cs rej1 s1 = (Inr rej', s')"
    by (auto split: prod.splits sum.splits)
  have pend: "pending (c @ concat cs) rej" using Cons.prems(2) by simp
  then have "pending c rej" by (simp add: pending_def)
  then have one: "settled quoted events c rej s rej1 s1"
    using insertEvents_settled [OF c] Cons.prems(3) by blast
  then have "0 < sDepth s1"
    using Cons.prems(3) by (simp add: settled_def added_def)
  with rest have "settled quoted events (concat cs) rej1 s1 rej' s'"
    using Cons.IH pending_step [OF one pend] by blast
  with settled_append [OF one] pend show ?case by (simp add: pending_def)
qed (simp add: settled_Nil)

lemma concat_chunks: "0 < n \<Longrightarrow> concat (chunks n xs) = xs"
proof (induction n xs rule: chunks.induct)
  case (1 n xs)
  then show ?case
    by (subst chunks.simps) auto
qed

lemma insert_tenants_settled:
  assumes "insert_tenants quoted fails refuse events by ts rej s = (Inr rej', s')"
    and "pending (concat (map by ts)) rej" and "0 < sDepth s"
    and "\<forall>t. \<forall>i \<in> set (by t). evTenantID (events ! i) = t"
  shows "length rej' = length rej
    \<and> (\<forall>i. i \<notin> set (concat (map by ts)) \<longrightarrow> rej' ! i = rej ! i)
    \<and> (\<forall>i \<in> set (concat (map by ts)). case rej' ! i of Some r \<Rightarrow> rejection_ok quoted r
         | None \<Rightarrow> evTenantID (events ! i) \<in> dbTenants (sData s))
    \<and> added (map ((!) events) (filter (\<lambda>i. rej' ! i = None) (concat (map by ts)))) s s'"
  using assms(1-3)
proof (induction ts arbitrary: rej s)
  case Nil
  then show ?case by (simp add: added_refl)
next
  case (Cons t ts)
  from Cons.prems(1) obtain s1 rej2 s2 where
    scope: "setScope fails \<lparr>scope_TenantID = t, scope_Admin = False\<rparr> s = (Inr (), s1)"
    and chunk: "insert_chunks quoted fails refuse events (chunks insertChunk (by t)) rej s1 = (Inr rej2, s2)"
    and rest: "insert_tenants quoted fails refuse events by ts rej2 s2 = (Inr rej', s')"
    by (auto split: prod.splits sum.splits)
  have s1: "sData s1 = sData s" "sDepth s1 = sDepth s"
    using setScope_Inr [OF scope] Cons.prems by simp_all
  have all: "concat (chunks insertChunk (by t)) = by t"
    by (rule concat_chunks) (simp add: insertChunk_def)
  have pend: "pending (by t @ concat (map by ts)) rej" using Cons.prems(2) by simp
  then have "pending (by t) rej" by (simp add: pending_def)
  then have one: "settled quoted events (by t) rej s1 rej2 s2"
    using insert_chunks_settled [OF chunk] all s1 Cons.prems(3) by simp
  have s2: "sDepth s2 = sDepth s" "dbTenants (sData s2) = dbTenants (sData s)"
    using one s1 by (auto simp: settled_def added_def)
  have IH: "length rej' = length rej2
    \<and> (\<forall>i. i \<notin> set (concat (map by ts)) \<longrightarrow> rej' ! i = rej2 ! i)
    \<and> (\<forall>i \<in> set (concat (map by ts)). case rej' ! i of Some r \<Rightarrow> rejection_ok quoted r
         | None \<Rightarrow> evTenantID (events ! i) \<in> dbTenants (sData s2))
    \<and> added (map ((!) events) (filter (\<lambda>i. rej' ! i = None) (concat (map by ts)))) s2 s'"
    using Cons.IH [OF rest pending_step [OF one pend]] s2(1) Cons.prems(3) by simp
  have "set (by t) \<inter> set (concat (map by ts)) = {}"
    using pend unfolding pending_def distinct_append by blast
  then have keep: "\<forall>i \<in> set (by t). rej' ! i = rej2 ! i"
    using IH by blast
  then have "filter (\<lambda>i. rej' ! i = None) (by t) = filter (\<lambda>i. rej2 ! i = None) (by t)"
    by (auto intro: filter_cong)
  then have rows: "added (map ((!) events) (filter (\<lambda>i. rej' ! i = None) (concat (map by (t # ts))))) s s'"
    using one IH s1 by (simp add: settled_def added_def)
  have here: "\<forall>i \<in> set (by t). case rej' ! i of Some r \<Rightarrow> rejection_ok quoted r
      | None \<Rightarrow> evTenantID (events ! i) \<in> dbTenants (sData s)"
    using one [unfolded settled_def s1] keep by (auto split: option.splits)
  have there: "\<forall>i \<in> set (concat (map by ts)). case rej' ! i of Some r \<Rightarrow> rejection_ok quoted r
      | None \<Rightarrow> evTenantID (events ! i) \<in> dbTenants (sData s)"
    using IH [unfolded s2(2)] by blast
  have "length rej' = length rej" "\<forall>i. i \<notin> set (concat (map by (t # ts))) \<longrightarrow> rej' ! i = rej ! i"
    using IH one by (simp_all add: settled_def)
  with rows here there show ?case
    by (simp only: list.map concat.simps set_append ball_Un simp_thms)
qed

subsection \<open>Grouping by tenant\<close>

text \<open>After the positions below \<open>n\<close>.\<close>

definition grouped :: "(bytes \<Rightarrow> bytes) \<Rightarrow> bytes set \<Rightarrow> new_event list \<Rightarrow> nat \<Rightarrow> grouping \<Rightarrow> bool" where
  "grouped quoted known events n g \<longleftrightarrow>
     (\<forall>t. gByTenant g t = (if t \<in> known then filter (\<lambda>i. evTenantID (events ! i) = t) [0..<n] else []))
     \<and> distinct (gTenants g) \<and> set (gTenants g) = {t \<in> known. \<exists>i<n. evTenantID (events ! i) = t}
     \<and> length (gRejected g) = length events
     \<and> (\<forall>i < length events. gRejected g ! i =
          (if i < n \<and> evTenantID (events ! i) \<notin> known
           then Some (unknownTenant quoted (evTenantID (events ! i))) else None))"

lemma group_step:
  assumes "grouped quoted known events n g" and "n < length events"
  shows "grouped quoted known events (Suc n) (group_event quoted known events g n)"
  using assms
  by (auto simp: grouped_def group_event_def Let_def nth_list_update less_Suc_eq)

lemma group_events_grouped: "grouped quoted known events (length events) (group_events quoted known events)"
proof -
  have "n \<le> length events \<Longrightarrow> grouped quoted known events n
      (foldl (group_event quoted known events)
       \<lparr>gTenants = [], gByTenant = (\<lambda>_. []), gRejected = replicate (length events) None\<rparr> [0..<n])" for n
  proof (induction n)
    case 0
    show ?case by (simp add: grouped_def)
  next
    case (Suc n)
    then show ?case using group_step by simp
  qed
  then show ?thesis by (simp add: group_events_def)
qed

text \<open>
  The list of positions in the order of insertion: by tenant, in order of arrival within
  each tenant.
\<close>

lemma grouped_concat:
  assumes "grouped quoted known events n g"
  shows "distinct (concat (map (gByTenant g) (gTenants g)))"
    and "set (concat (map (gByTenant g) (gTenants g))) = {i. i < n \<and> evTenantID (events ! i) \<in> known}"
proof -
  have by_t: "t \<in> known \<Longrightarrow> gByTenant g t = filter (\<lambda>i. evTenantID (events ! i) = t) [0..<n]"
    and ts: "distinct (gTenants g)" "set (gTenants g) = {t \<in> known. \<exists>i<n. evTenantID (events ! i) = t}" for t
    using assms by (auto simp: grouped_def)
  have mem: "i \<in> set (gByTenant g t) \<Longrightarrow> t \<in> set (gTenants g) \<Longrightarrow> i < n \<and> evTenantID (events ! i) = t" for i t
    using by_t ts(2) by auto
  show "set (concat (map (gByTenant g) (gTenants g))) = {i. i < n \<and> evTenantID (events ! i) \<in> known}"
    using by_t ts(2) by auto
  have dist: "t \<in> set (gTenants g) \<Longrightarrow> distinct (gByTenant g t)" for t
    using by_t ts(2) by auto
  have "distinct (concat (map (gByTenant g) us))"
    if "distinct us" "set us \<subseteq> set (gTenants g)" for us
    using that
  proof (induction us)
    case (Cons u us)
    have "False" if i: "i \<in> set (gByTenant g u)" and t: "t \<in> set us" "i \<in> set (gByTenant g t)" for i t
    proof -
      have "evTenantID (events ! i) = u" and "evTenantID (events ! i) = t"
        using mem [OF i] mem [OF t(2)] t(1) Cons.prems(2) by auto
      with t(1) Cons.prems(1) show False by simp
    qed
    then have "set (gByTenant g u) \<inter> set (concat (map (gByTenant g) us)) = {}"
      by (simp only: set_concat set_map) blast
    with Cons dist show ?case by simp
  qed simp
  then show "distinct (concat (map (gByTenant g) (gTenants g)))"
    using ts(1) by blast
qed

text \<open>One tenant's part of what was stored.\<close>

lemma grouped_tenant_part:
  assumes "grouped quoted known events n g"
  shows "filter (\<lambda>i. evTenantID (events ! i) = t) (concat (map (gByTenant g) (gTenants g))) =
    (if t \<in> known then filter (\<lambda>i. evTenantID (events ! i) = t) [0..<n] else [])"
proof -
  have by_t: "u \<in> known \<Longrightarrow> gByTenant g u = filter (\<lambda>i. evTenantID (events ! i) = u) [0..<n]"
    and ts: "distinct (gTenants g)" "set (gTenants g) = {t \<in> known. \<exists>i<n. evTenantID (events ! i) = t}" for u
    using assms by (auto simp: grouped_def)
  have part: "filter (\<lambda>i. evTenantID (events ! i) = t) (concat (map (gByTenant g) us)) =
      (if t \<in> set us then gByTenant g t else [])"
    if "distinct us" "set us \<subseteq> known" for us
    using that
  proof (induction us)
    case (Cons u us)
    have "filter (\<lambda>i. evTenantID (events ! i) = t) (gByTenant g u) = (if t = u then gByTenant g t else [])"
      using by_t Cons.prems by (auto simp: filter_empty_conv)
    with Cons show ?case by auto
  qed simp
  have "t \<in> known \<Longrightarrow> t \<notin> set (gTenants g) \<Longrightarrow> gByTenant g t = []"
    using by_t ts(2) by (auto simp: filter_empty_conv)
  moreover have "t \<in> set (gTenants g) \<Longrightarrow> t \<in> known" using ts(2) by auto
  ultimately show ?thesis
    using part [OF ts(1)] by_t ts(2) by auto
qed

lemma knownTenants_Inr:
  "knownTenants fails events s = (Inr known, s1) \<Longrightarrow>
   known = set (map evTenantID events) \<inter> dbTenants (sData s) \<and> sData s1 = sData s \<and> sDepth s1 = sDepth s"
  by (auto simp: knownTenants_def interact_def split: option.splits)

lemma Insert_Inr:
  assumes "Insert quoted fails refuse events s = (Inr rejected, s')" and "events \<noteq> []"
  obtains known g s1 s2 s3 where
    "known = set (map evTenantID events) \<inter> dbTenants (sData s)"
    "g = group_events quoted known events"
    "sData s2 = sData s" "0 < sDepth s2"
    "insert_tenants quoted fails refuse events (gByTenant g) (gTenants g) (gRejected g) s2 = (Inr rejected, s3)"
    "sData s' = sData s3"
proof -
  from assms obtain known s1 where k: "knownTenants fails events s = (Inr known, s1)"
    and tx: "InTx fails (insert_tenants quoted fails refuse events
        (gByTenant (group_events quoted known events)) (gTenants (group_events quoted known events))
        (gRejected (group_events quoted known events))) s1 = (Inr rejected, s')"
    by (auto simp: Insert_def Let_def split: prod.splits sum.splits)
  from tx obtain s3 where "insert_tenants quoted fails refuse events
        (gByTenant (group_events quoted known events)) (gTenants (group_events quoted known events))
        (gRejected (group_events quoted known events))
        (s1\<lparr>sStep := sStep s1 + 1, sDepth := sDepth s1 + 1\<rparr>) = (Inr rejected, s3)"
    and "sData s' = sData s3"
    by (rule InTx_InrE)
  with knownTenants_Inr [OF k] show thesis
    by (intro that [of known "group_events quoted known events"
          "s1\<lparr>sStep := sStep s1 + 1, sDepth := sDepth s1 + 1\<rparr>" s3]) simp_all
qed

lemma map_filter_upt: "map ((!) xs) (filter (\<lambda>i. P i \<and> Q (xs ! i)) [0..<length xs]) =
   filter Q (map ((!) xs) (filter P [0..<length xs]))"
  by (simp add: filter_map comp_def conj_commute)

text \<open>What was inserted in the order of the tenants is, for each tenant, in the order of arrival.\<close>

lemma grouped_inserted:
  assumes grouped: "grouped quoted known events (length events) g"
    and outside: "\<And>i. i \<notin> set (concat (map (gByTenant g) (gTenants g))) \<Longrightarrow> rejected ! i = gRejected g ! i"
  shows "filter (\<lambda>e. evTenantID e = t)
      (map ((!) events) (filter (\<lambda>i. rejected ! i = None) (concat (map (gByTenant g) (gTenants g)))))
    = map ((!) events) (filter (\<lambda>i. rejected ! i = None \<and> evTenantID (events ! i) = t) [0..<length events])"
proof -
  define order where "order = concat (map (gByTenant g) (gTenants g))"
  have order: "set order = {i. i < length events \<and> evTenantID (events ! i) \<in> known}"
    unfolding order_def using grouped_concat [OF grouped] by blast
  have "filter (\<lambda>i. rejected ! i = None \<and> evTenantID (events ! i) = t) [0..<length events] =
      filter (\<lambda>i. rejected ! i = None) (filter (\<lambda>i. evTenantID (events ! i) = t) order)"
  proof (cases "t \<in> known")
    case True
    then show ?thesis
      using grouped_tenant_part [OF grouped, of t] by (simp add: order_def conj_commute)
  next
    case False
    then have "\<forall>i < length events. evTenantID (events ! i) = t \<longrightarrow> rejected ! i \<noteq> None"
      using order outside [folded order_def] grouped by (auto simp: grouped_def)
    then show ?thesis
      using grouped_tenant_part [OF grouped, of t] False
      by (auto simp: order_def filter_empty_conv)
  qed
  then show ?thesis
    by (simp add: order_def [symmetric] filter_map comp_def conj_commute)
qed

lemma Insert_failed: "Insert quoted fails refuse events s = (Inl err, s') \<Longrightarrow> sData s' = sData s"
  by (auto simp: Insert_def knownTenants_def interact_def Let_def
      split: prod.splits sum.splits option.splits if_splits dest: InTx_Inl_data)

text \<open>What a call of \<open>Insert\<close> that returns no error has done.\<close>

definition inserted :: "(bytes \<Rightarrow> bytes) \<Rightarrow> new_event list \<Rightarrow> rejections \<Rightarrow> events_db session \<Rightarrow> events_db session \<Rightarrow> bool" where
  "inserted quoted events rejected s s' \<longleftrightarrow>
     length rejected = length events
     \<and> (\<exists>new. sData s' = (sData s)\<lparr>dbEvents := dbEvents (sData s) @ new\<rparr>
         \<and> (\<forall>t. filter (\<lambda>e. evTenantID e = t) new =
              map ((!) events) (filter (\<lambda>i. rejected ! i = None \<and> evTenantID (events ! i) = t)
                [0..<length events]))
         \<and> set (map evTenantID new) \<subseteq> dbTenants (sData s))
     \<and> list_all (case_option True (rejection_ok quoted)) rejected"

lemma Insert_inserted:
  assumes ins: "Insert quoted fails refuse events s = (Inr rejected, s')"
  shows "inserted quoted events rejected s s'"
proof (cases "events = []")
  case True
  with ins have "rejected = []" "s' = s" by (simp_all add: Insert_def)
  with True show ?thesis
    by (simp add: inserted_def) (rule exI [of _ "[]"], simp)
next
  case False
  obtain known g s1 s2 s3 where
    g: "g = group_events quoted known events"
    and s2: "sData s2 = sData s" "0 < sDepth s2"
    and run: "insert_tenants quoted fails refuse events (gByTenant g) (gTenants g) (gRejected g) s2 = (Inr rejected, s3)"
    and s3: "sData s' = sData s3"
    by (rule Insert_Inr [OF ins False])
  have grouped: "grouped quoted known events (length events) g"
    unfolding g by (rule group_events_grouped)
  define order where "order = concat (map (gByTenant g) (gTenants g))"
  have order: "distinct order" "set order = {i. i < length events \<and> evTenantID (events ! i) \<in> known}"
    unfolding order_def using grouped_concat [OF grouped] by blast+
  have rej: "length (gRejected g) = length events" "i < length events \<Longrightarrow> gRejected g ! i =
      (if evTenantID (events ! i) \<notin> known then Some (unknownTenant quoted (evTenantID (events ! i))) else None)" for i
    using grouped by (auto simp: grouped_def)
  have "pending order (gRejected g)"
    using order rej by (auto simp: pending_def)
  moreover have "\<forall>t. \<forall>i \<in> set (gByTenant g t). evTenantID (events ! i) = t"
    using grouped by (auto simp: grouped_def split: if_splits)
  ultimately have res: "length rejected = length events" "\<And>i. i \<notin> set order \<Longrightarrow> rejected ! i = gRejected g ! i"
    "\<forall>i \<in> set order. case rejected ! i of Some r \<Rightarrow> rejection_ok quoted r
       | None \<Rightarrow> evTenantID (events ! i) \<in> dbTenants (sData s2)"
    "added (map ((!) events) (filter (\<lambda>i. rejected ! i = None) order)) s2 s3"
    using insert_tenants_settled [OF run _ s2(2)] rej(1) unfolding order_def by simp_all
  define new where "new = map ((!) events) (filter (\<lambda>i. rejected ! i = None) order)"
  have "sData s' = (sData s)\<lparr>dbEvents := dbEvents (sData s) @ new\<rparr>"
    using res(4) s2 s3 by (simp add: added_def new_def)
  moreover have "set (map evTenantID new) \<subseteq> dbTenants (sData s)"
    using res(3) s2(1) by (fastforce simp: new_def split: option.splits)
  moreover have "list_all (case_option True (rejection_ok quoted)) rejected"
  proof -
    have "rejection_ok quoted r" if i: "i < length events" "rejected ! i = Some r" for i r
    proof (cases "i \<in> set order")
      case True
      with res(3) i(2) show ?thesis by (auto dest!: bspec)
    next
      case False
      then have "gRejected g ! i = Some r" using res(2) i(2) by simp
      with rej(2) [OF i(1)] unknownTenant_ok show ?thesis by (auto split: if_splits)
    qed
    then show ?thesis
      using res(1) by (auto simp: list_all_length split: option.splits)
  qed
  ultimately show ?thesis
    using res(1) grouped_inserted [OF grouped res(2) [unfolded order_def]]
    unfolding inserted_def order_def [symmetric] new_def [symmetric] by blast
qed

text \<open>
  C8. A batch is stored whole or not at all, and every event of it is accounted for. Whatever
  fails in the database and whatever it refuses: if \<open>Insert\<close> returns an error, nothing was
  stored; if it does not, there is one answer for each event, each event without a
  rejection is stored exactly once, in its own tenant, which exists, and in order of
  arrival among that tenant's, and nothing else is stored or changed; and each rejection
  is of the client's data, an unknown tenant or a value the database refuses.
\<close>

theorem Insert_exact:
  "(case Insert quoted fails refuse events s of
      (Inl err, s') \<Rightarrow> sData s' = sData s
    | (Inr rejected, s') \<Rightarrow>
        length rejected = length events
        \<and> (\<exists>new. sData s' = (sData s)\<lparr>dbEvents := dbEvents (sData s) @ new\<rparr>
            \<and> (\<forall>t. filter (\<lambda>e. evTenantID e = t) new =
                 map ((!) events) (filter (\<lambda>i. rejected ! i = None \<and> evTenantID (events ! i) = t)
                   [0..<length events]))
            \<and> set (map evTenantID new) \<subseteq> dbTenants (sData s))
        \<and> list_all (case_option True (rejection_ok quoted)) rejected)"
  using Insert_failed Insert_inserted [unfolded inserted_def]
  by (fastforce split: prod.splits sum.splits)

subsection \<open>When nothing else goes wrong\<close>

definition refusal_code :: "bytes \<Rightarrow> bool" where
  "refusal_code c \<longleftrightarrow> c = ''54000'' \<or> has_prefix c ''22'' \<or> has_prefix c ''23''"

text \<open>Events that row-level security lets in under the scope of the session.\<close>

definition admissible :: "events_db session \<Rightarrow> new_event \<Rightarrow> bool" where
  "admissible s e \<longleftrightarrow> evTenantID e \<in> dbTenants (sData s) \<and> visible (sScope s) (evTenantID e)"

lemma refusal_of_code: "refusal quoted (Wrap (PgError c []) m) t = None \<longleftrightarrow> \<not> refusal_code c"
  by (cases "c = ''23503''") (simp_all add: refusal_def refusal_code_def Let_def as_pg_Wrap has_prefix_def)

lemma InTx_live:
  assumes "\<forall>n. fails n = None"
  shows "(\<exists>s1. fn (s\<lparr>sStep := sStep s + 1, sDepth := sDepth s + 1\<rparr>) = (Inl err, s1)) \<Longrightarrow>
           \<exists>s'. InTx fails fn s = (Inl err, s')"
    and "(\<exists>s1. fn (s\<lparr>sStep := sStep s + 1, sDepth := sDepth s + 1\<rparr>) = (Inr x, s1)) \<Longrightarrow>
           \<exists>s'. InTx fails fn s = (Inr x, s')"
  using assms by (auto simp: InTx_def interact_def)

text \<open>
  What the code takes for a fault of the event: among these events there is none that the
  database refuses with another code.
\<close>

definition tolerated :: "(new_event \<Rightarrow> bytes option) \<Rightarrow> new_event list \<Rightarrow> bool" where
  "tolerated refuse es \<longleftrightarrow> (\<forall>e \<in> set es. case refuse e of None \<Rightarrow> True | Some c \<Rightarrow> refusal_code c)"

lemma tolerated_append [simp]:
  "tolerated refuse [] = True" "tolerated refuse (es @ es') = (tolerated refuse es \<and> tolerated refuse es')"
  by (auto simp: tolerated_def)

lemma exec_rows_live:
  assumes "\<forall>n. fails n = None"
  shows "list_all (admissible s) es \<Longrightarrow>
    (if \<forall>e \<in> set es. refuse e = None then \<exists>s1. exec_rows fails refuse es s = (Inr (), s1)
     else \<exists>s1 c e. e \<in> set es \<and> refuse e = Some c \<and> exec_rows fails refuse es s = (Inl (PgError c []), s1))"
proof (induction es arbitrary: s)
  case (Cons e es)
  show ?case
  proof (cases "refuse e")
    case None
    define s1 where "s1 = s\<lparr>sStep := sStep s + 1,
        sData := (sData s)\<lparr>dbEvents := dbEvents (sData s) @ [e]\<rparr>\<rparr>"
    have "insert_row fails refuse e s = (Inr (), s1)"
      using None assms Cons.prems
      by (simp add: insert_row_def interact_def admissible_def s1_def)
    moreover have "list_all (admissible s1) es"
      using Cons.prems by (simp add: list_all_iff admissible_def s1_def)
    ultimately show ?thesis
      using Cons.IH [of s1] None by (auto split: if_splits)
  next
    case (Some c)
    then have "exec_rows fails refuse (e # es) s = (Inl (PgError c []), s\<lparr>sStep := sStep s + 1\<rparr>)"
      using assms Cons.prems by (simp add: insert_row_def interact_def admissible_def)
    with Some show ?thesis by (metis list.set_intros(1) option.distinct(1))
  qed
qed simp

lemma execBatch_live:
  assumes "\<forall>n. fails n = None" and "list_all (admissible s) es"
  shows "if \<forall>e \<in> set es. refuse e = None then \<exists>s1. InTx fails (execBatch fails refuse es) s = (Inr (), s1)
    else \<exists>s1 e c. e \<in> set es \<and> refuse e = Some c
      \<and> InTx fails (execBatch fails refuse es) s = (Inl (Wrap (PgError c []) ''cannot insert events''), s1)"
proof -
  define s0 where "s0 = s\<lparr>sStep := sStep s + 1, sDepth := sDepth s + 1\<rparr>"
  have "list_all (admissible s0) es"
    using assms(2) by (simp add: list_all_iff admissible_def s0_def)
  note rows = exec_rows_live [OF assms(1) this, of refuse]
  show ?thesis
  proof (cases "\<forall>e \<in> set es. refuse e = None")
    case True
    with rows obtain s1 where "exec_rows fails refuse es s0 = (Inr (), s1)" by auto
    then have "execBatch fails refuse es s0 = (Inr (), s1)" by (simp add: execBatch_def)
    then have "\<exists>s1. execBatch fails refuse es s0 = (Inr (), s1)" by (rule exI)
    from InTx_live(2) [OF assms(1), of "execBatch fails refuse es" s "()"] this [unfolded s0_def] True show ?thesis by simp
  next
    case False
    with rows obtain s1 c e where c: "e \<in> set es" "refuse e = Some c" "exec_rows fails refuse es s0 = (Inl (PgError c []), s1)"
      by (auto split: if_splits)
    then have "execBatch fails refuse es s0 = (Inl (Wrap (PgError c []) ''cannot insert events''), s1)"
      by (simp add: execBatch_def)
    then have "\<exists>s1. execBatch fails refuse es s0 = (Inl (Wrap (PgError c []) ''cannot insert events''), s1)"
      by (rule exI)
    from InTx_live(1) [OF assms(1), of "execBatch fails refuse es" s] this [unfolded s0_def] obtain s' where
      "InTx fails (execBatch fails refuse es) s = (Inl (Wrap (PgError c []) ''cannot insert events''), s')"
      by blast
    with c show ?thesis using False by auto
  qed
qed

text \<open>
  What a pass over the events at some positions comes to: a rejection of exactly those that the
  database refuses, or an error if it refuses one with a code that the code does not know.
\<close>

definition refused_only :: "(new_event \<Rightarrow> bytes option) \<Rightarrow> new_event list \<Rightarrow> nat list \<Rightarrow> rejections \<Rightarrow> bool" where
  "refused_only refuse events idx rej \<longleftrightarrow>
     (\<forall>i \<in> set idx. (rej ! i = None) = (refuse (events ! i) = None))"

definition settles :: "(new_event \<Rightarrow> bytes option) \<Rightarrow> new_event list \<Rightarrow> nat list
    \<Rightarrow> (go_error + rejections) \<times> events_db session \<Rightarrow> bool" where
  "settles refuse events idx res \<longleftrightarrow>
     (if tolerated refuse (map ((!) events) idx)
      then \<exists>rej' s'. res = (Inr rej', s') \<and> refused_only refuse events idx rej'
      else \<exists>err s'. res = (Inl err, s'))"

lemma admissible_settled:
  "settled quoted events xs rej s rej' s' \<Longrightarrow> admissible s' = admissible s"
  by (auto simp: settled_def added_def admissible_def fun_eq_iff)

lemma refused_only_append:
  "refused_only refuse events xs rej1 \<Longrightarrow> refused_only refuse events ys rej2 \<Longrightarrow>
   \<forall>i \<in> set xs. rej2 ! i = rej1 ! i \<Longrightarrow> refused_only refuse events (xs @ ys) rej2"
  by (auto simp: refused_only_def)

text \<open>Two passes after one another; the second leaves alone what the first has settled.\<close>

lemma settles_append:
  assumes "settles refuse events xs res1"
    and "\<And>err s1. res1 = (Inl err, s1) \<Longrightarrow> \<exists>err s'. res = (Inl err, s')"
    and "\<And>rej1 s1. res1 = (Inr rej1, s1) \<Longrightarrow> settles refuse events ys res
      \<and> (\<forall>rej' s'. res = (Inr rej', s') \<longrightarrow> (\<forall>i \<in> set xs. rej' ! i = rej1 ! i))"
  shows "settles refuse events (xs @ ys) res"
proof (cases "tolerated refuse (map ((!) events) xs)")
  case True
  with assms(1) obtain rej1 s1 where one: "res1 = (Inr rej1, s1)" "refused_only refuse events xs rej1"
    by (auto simp: settles_def)
  show ?thesis
  proof (cases "tolerated refuse (map ((!) events) ys)")
    case ys: True
    with assms(3) [OF one(1)] obtain rej' s' where "res = (Inr rej', s')" "refused_only refuse events ys rej'"
      "\<forall>i \<in> set xs. rej' ! i = rej1 ! i"
      by (auto simp: settles_def)
    with refused_only_append [OF one(2), of ys rej'] True ys show ?thesis
      by (auto simp: settles_def)
  qed (use assms(3) [OF one(1)] in \<open>simp add: settles_def\<close>)
next
  case False
  with assms(1) obtain err s1 where "res1 = (Inl err, s1)" by (auto simp: settles_def)
  with assms(2) False show ?thesis by (simp add: settles_def)
qed

lemma insert_each_live:
  assumes "\<forall>n. fails n = None"
    and "pending idx rej" and "0 < sDepth s" and "list_all (admissible s) (map ((!) events) idx)"
  shows "settles refuse events idx (insert_each quoted fails refuse events t idx rej s)"
  using assms(2-4)
proof (induction idx arbitrary: rej s)
  case (Cons i idx)
  have i: "i < length rej" "rej ! i = None" and pend: "pending ([i] @ idx) rej"
    using Cons.prems(1) by (simp_all add: pending_def)
  have adm: "list_all (admissible s) [events ! i]"
    using Cons.prems(3) by simp
  note live = execBatch_live [OF assms(1) adm, of refuse]
  have go_on: "settles refuse events (i # idx) (insert_each quoted fails refuse events t (i # idx) rej s)"
    if one: "settled quoted events [i] rej s rej1 s1"
    and eq: "insert_each quoted fails refuse events t (i # idx) rej s = insert_each quoted fails refuse events t idx rej1 s1"
    and ri: "(rej1 ! i = None) = (refuse (events ! i) = None)" "tolerated refuse [events ! i]" for rej1 s1
  proof -
    have pend1: "pending idx rej1" using pending_step [OF one pend] .
    have depth: "0 < sDepth s1" using one Cons.prems(2) by (simp add: settled_def added_def)
    have "list_all (admissible s1) (map ((!) events) idx)"
      using Cons.prems(3) admissible_settled [OF one] by simp
    note rest = Cons.IH [OF pend1 depth this]
    have keep: "rej' ! i = rej1 ! i" if "insert_each quoted fails refuse events t idx rej1 s1 = (Inr rej', s')" for rej' s'
      using insert_each_settled [OF that pend1 depth] Cons.prems(1)
      by (simp add: settled_def pending_def)
    have "settles refuse events ([i] @ idx) (insert_each quoted fails refuse events t idx rej1 s1)"
      by (rule settles_append [where ?res1.0 = "(Inr rej1, s1)"])
        (use ri rest keep in \<open>auto simp: settles_def refused_only_def\<close>)
    with eq show ?thesis by simp
  qed
  show ?case
  proof (cases "refuse (events ! i)")
    case None
    with live obtain s1 where tx: "InTx fails (execBatch fails refuse [events ! i]) s = (Inr (), s1)"
      by auto
    then have "settled quoted events [i] rej s rej s1"
      using execBatch_tx [OF tx Cons.prems(2)] i by (simp add: settled_def)
    with tx i None show ?thesis by (intro go_on [of rej s1]) (simp_all add: tolerated_def)
  next
    case (Some c)
    with live obtain s1 where tx:
      "InTx fails (execBatch fails refuse [events ! i]) s = (Inl (Wrap (PgError c []) ''cannot insert events''), s1)"
      by auto
    show ?thesis
    proof (cases "refusal quoted (Wrap (PgError c []) ''cannot insert events'') t")
      case None
      then have "\<not> tolerated refuse (map ((!) events) (i # idx))"
        using Some by (simp add: refusal_of_code tolerated_def)
      with tx None show ?thesis by (simp add: settles_def)
    next
      case r: (Some r)
      then have "tolerated refuse [events ! i]"
        using Some refusal_of_code [of quoted c "''cannot insert events''" t] by (simp add: tolerated_def)
      moreover have "settled quoted events [i] rej s (rej[i := Some r]) s1"
        using InTx_Inl_data [OF tx] i(1) refusal_ok [OF r] by (intro settled_one) simp_all
      ultimately show ?thesis
        using tx r i Some by (intro go_on [of "rej[i := Some r]" s1]) simp_all
    qed
  qed
qed (simp add: settles_def refused_only_def)

lemma insertEvents_live:
  assumes "\<forall>n. fails n = None"
    and "pending idx rej" and "0 < sDepth s" and "list_all (admissible s) (map ((!) events) idx)"
  shows "settles refuse events idx (insertEvents quoted fails refuse events idx rej s)"
proof -
  define t where "t = evTenantID (events ! hd idx)"
  note live = execBatch_live [OF assms(1,4), of refuse]
  show ?thesis
  proof (cases "\<forall>i \<in> set idx. refuse (events ! i) = None")
    case True
    with live obtain s1 where "InTx fails (execBatch fails refuse (map ((!) events) idx)) s = (Inr (), s1)"
      by (auto split: if_splits)
    moreover have "refused_only refuse events idx rej" "tolerated refuse (map ((!) events) idx)"
      using True assms(2) by (simp_all add: refused_only_def pending_def tolerated_def)
    ultimately show ?thesis by (simp add: insertEvents_def settles_def)
  next
    case False
    with live obtain s1 i c where i: "i \<in> set idx" "refuse (events ! i) = Some c"
      and tx: "InTx fails (execBatch fails refuse (map ((!) events) idx)) s =
        (Inl (Wrap (PgError c []) ''cannot insert events''), s1)"
      by (auto split: if_splits)
    show ?thesis
    proof (cases "refusal quoted (Wrap (PgError c []) ''cannot insert events'') t = None")
      case True
      then have "\<not> tolerated refuse (map ((!) events) idx)"
        using i by (auto simp: refusal_of_code tolerated_def intro!: bexI [of _ i])
      with tx True show ?thesis by (simp add: settles_def insertEvents_def t_def)
    next
      case False
      have same: "sData s1 = sData s" "sScope s1 = sScope s" "sDepth s1 = sDepth s"
        using InTx_Inl_data [OF tx] by simp_all
      have "list_all (admissible s1) (map ((!) events) idx)" and "0 < sDepth s1"
        using assms(3,4) same by (simp_all add: list_all_iff admissible_def)
      from insert_each_live [OF assms(1,2) this(2,1), of refuse quoted t] show ?thesis
        unfolding insertEvents_def Let_def t_def [symmetric] tx prod.case sum.case if_not_P [OF False] .
    qed
  qed
qed

lemma insert_chunks_live:
  assumes "\<forall>n. fails n = None"
    and "pending (concat cs) rej" and "0 < sDepth s"
    and "list_all (admissible s) (map ((!) events) (concat cs))"
  shows "settles refuse events (concat cs) (insert_chunks quoted fails refuse events cs rej s)"
  using assms(2-4)
proof (induction cs arbitrary: rej s)
  case (Cons c cs)
  have pend: "pending (c @ concat cs) rej" and pend_c: "pending c rej"
    using Cons.prems(1) by (simp_all add: pending_def)
  have "list_all (admissible s) (map ((!) events) c)" using Cons.prems(3) by simp
  note first = insertEvents_live [OF assms(1) pend_c Cons.prems(2) this, of refuse quoted]
  have "settles refuse events (concat cs) (insert_chunks quoted fails refuse events cs rej1 s1)
      \<and> (\<forall>rej' s'. insert_chunks quoted fails refuse events cs rej1 s1 = (Inr rej', s') \<longrightarrow> (\<forall>i \<in> set c. rej' ! i = rej1 ! i))"
    if c: "insertEvents quoted fails refuse events c rej s = (Inr rej1, s1)" for rej1 s1
  proof -
    have one: "settled quoted events c rej s rej1 s1"
      by (rule insertEvents_settled [OF c pend_c Cons.prems(2)])
    have pend1: "pending (concat cs) rej1" by (rule pending_step [OF one pend])
    have depth: "0 < sDepth s1" using one Cons.prems(2) by (simp add: settled_def added_def)
    have "list_all (admissible s1) (map ((!) events) (concat cs))"
      using Cons.prems(3) admissible_settled [OF one] by simp
    note rest = Cons.IH [OF pend1 depth this]
    moreover have "set c \<inter> set (concat cs) = {}"
      using pend unfolding pending_def distinct_append by blast
    moreover have "rej' ! i = rej1 ! i"
      if "insert_chunks quoted fails refuse events cs rej1 s1 = (Inr rej', s')" "i \<notin> set (concat cs)" for rej' s' i
      using insert_chunks_settled [OF that(1) pend1 depth] that(2) unfolding settled_def by blast
    ultimately show ?thesis by blast
  qed
  then have "settles refuse events (c @ concat cs) (insert_chunks quoted fails refuse events (c # cs) rej s)"
    by (intro settles_append [OF first]) (simp_all split: prod.splits sum.splits)
  then show ?case by simp
qed (simp add: settles_def refused_only_def)

lemma insert_tenants_live:
  assumes "\<forall>n. fails n = None"
    and "pending (concat (map by ts)) rej" and "0 < sDepth s"
    and "\<forall>t. \<forall>i \<in> set (by t). evTenantID (events ! i) = t" and "set ts \<subseteq> dbTenants (sData s)"
  shows "settles refuse events (concat (map by ts)) (insert_tenants quoted fails refuse events by ts rej s)"
  using assms(2,3,5)
proof (induction ts arbitrary: rej s)
  case (Cons t ts)
  define s1 where "s1 = s\<lparr>sScope := \<lparr>scope_TenantID = t, scope_Admin = False\<rparr>, sStep := sStep s + 1\<rparr>"
  have scope: "setScope fails \<lparr>scope_TenantID = t, scope_Admin = False\<rparr> s = (Inr (), s1)"
    using assms(1) Cons.prems(2) by (simp add: setScope_def set_context_def interact_def s1_def)
  have all: "concat (chunks insertChunk (by t)) = by t"
    by (rule concat_chunks) (simp add: insertChunk_def)
  have pend: "pending (by t @ concat (map by ts)) rej" and pend_t: "pending (by t) rej"
    using Cons.prems(1) by (simp_all add: pending_def)
  have "list_all (admissible s1) (map ((!) events) (by t))"
    using assms(4) Cons.prems(3) by (simp add: list_all_iff admissible_def s1_def visible_def)
  moreover have depth1: "0 < sDepth s1" using Cons.prems(2) by (simp add: s1_def)
  ultimately have first: "settles refuse events (by t) (insert_chunks quoted fails refuse events (chunks insertChunk (by t)) rej s1)"
    using insert_chunks_live [OF assms(1), of "chunks insertChunk (by t)" rej s1 events refuse quoted] all pend_t
    by auto
  have "settles refuse events (concat (map by ts)) (insert_tenants quoted fails refuse events by ts rej2 s2)
      \<and> (\<forall>rej' s'. insert_tenants quoted fails refuse events by ts rej2 s2 = (Inr rej', s') \<longrightarrow> (\<forall>i \<in> set (by t). rej' ! i = rej2 ! i))"
    if chunk: "insert_chunks quoted fails refuse events (chunks insertChunk (by t)) rej s1 = (Inr rej2, s2)" for rej2 s2
  proof -
    have one: "settled quoted events (by t) rej s1 rej2 s2"
      using insert_chunks_settled [OF chunk] all pend_t depth1 by simp
    have pend2: "pending (concat (map by ts)) rej2" by (rule pending_step [OF one pend])
    have s2: "0 < sDepth s2" "dbTenants (sData s2) = dbTenants (sData s)"
      using one Cons.prems(2) by (auto simp: settled_def added_def s1_def)
    have "set ts \<subseteq> dbTenants (sData s2)" using Cons.prems(3) s2(2) by simp
    note rest = Cons.IH [OF pend2 s2(1) this]
    moreover have "set (by t) \<inter> set (concat (map by ts)) = {}"
      using pend unfolding pending_def distinct_append by blast
    moreover have "rej' ! i = rej2 ! i"
      if "insert_tenants quoted fails refuse events by ts rej2 s2 = (Inr rej', s')" "i \<notin> set (concat (map by ts))" for rej' s' i
      using insert_tenants_settled [OF that(1) pend2 s2(1) assms(4)] that(2) by blast
    ultimately show ?thesis by blast
  qed
  then have "settles refuse events (by t @ concat (map by ts)) (insert_tenants quoted fails refuse events by (t # ts) rej s)"
    using scope by (intro settles_append [OF first]) (simp_all split: prod.splits sum.splits)
  then show ?case by simp
qed (simp add: settles_def refused_only_def)

text \<open>The groups of a batch are ready to be inserted.\<close>

lemma grouped_pending:
  assumes "grouped quoted known events (length events) g" and "known = set (map evTenantID events) \<inter> tenants"
  shows "pending (concat (map (gByTenant g) (gTenants g))) (gRejected g)"
    and "\<forall>t. \<forall>i \<in> set (gByTenant g t). evTenantID (events ! i) = t"
    and "set (gTenants g) \<subseteq> tenants"
    and "i < length events \<Longrightarrow> gRejected g ! i =
      (if evTenantID (events ! i) \<notin> known then Some (unknownTenant quoted (evTenantID (events ! i))) else None)"
proof -
  have order: "distinct (concat (map (gByTenant g) (gTenants g)))"
    "set (concat (map (gByTenant g) (gTenants g))) = {i. i < length events \<and> evTenantID (events ! i) \<in> known}"
    using grouped_concat [OF assms(1)] by blast+
  show rej: "i < length events \<Longrightarrow> gRejected g ! i =
      (if evTenantID (events ! i) \<notin> known then Some (unknownTenant quoted (evTenantID (events ! i))) else None)" for i
    using assms(1) by (auto simp: grouped_def)
  have "length (gRejected g) = length events" using assms(1) by (simp add: grouped_def)
  with order rej show "pending (concat (map (gByTenant g) (gTenants g))) (gRejected g)"
    by (auto simp: pending_def)
  show "\<forall>t. \<forall>i \<in> set (gByTenant g t). evTenantID (events ! i) = t"
    using assms(1) by (auto simp: grouped_def split: if_splits)
  show "set (gTenants g) \<subseteq> tenants" using assms by (auto simp: grouped_def)
qed

text \<open>
  C36. One bad event does not fail the others, as long as its refusal is of a kind the code
  knows. When the database answers, whatever the batch and whatever it refuses: if each event of
  a known tenant that it refuses is refused with 54000 or a code of class 22 or 23, \<open>Insert\<close>
  succeeds and rejects exactly the events whose tenant is unknown or that the database refuses;
  and if one is refused with any other code, \<open>Insert\<close> returns an error and has stored nothing of
  the batch.
\<close>

theorem Insert_rejects_only_bad:
  assumes "\<forall>n. fails n = None"
  shows "if tolerated refuse (filter (\<lambda>e. evTenantID e \<in> dbTenants (sData s)) events)
    then \<exists>rejected s'. Insert quoted fails refuse events s = (Inr rejected, s')
      \<and> (\<forall>i < length events. (rejected ! i = None) =
           (evTenantID (events ! i) \<in> dbTenants (sData s) \<and> refuse (events ! i) = None))
    else \<exists>err s'. Insert quoted fails refuse events s = (Inl err, s') \<and> sData s' = sData s"
proof (cases "events = []")
  case True
  then show ?thesis by (simp add: Insert_def)
next
  case False
  define known where "known = set (map evTenantID events) \<inter> dbTenants (sData s)"
  define s1 where "s1 = s\<lparr>sStep := sStep s + 1\<rparr>"
  define s2 where "s2 = s1\<lparr>sStep := sStep s1 + 1, sDepth := sDepth s1 + 1\<rparr>"
  define g where "g = group_events quoted known events"
  define n where "n = length events"
  define run where "run = insert_tenants quoted fails refuse events (gByTenant g) (gTenants g) (gRejected g)"
  have kt: "knownTenants fails events s = (Inr known, s1)"
    using assms(1) by (simp add: knownTenants_def interact_def known_def s1_def)
  then have ins: "Insert quoted fails refuse events s = InTx fails run s1"
    using False by (simp add: Insert_def Let_def g_def run_def)
  have grouped: "grouped quoted known events n g"
    unfolding g_def n_def by (rule group_events_grouped)
  note groups = grouped_pending [OF grouped [unfolded n_def] known_def]
  define order where "order = concat (map (gByTenant g) (gTenants g))"
  have order: "set order = {i. i < n \<and> evTenantID (events ! i) \<in> known}"
    unfolding order_def using grouped_concat [OF grouped] by blast
  then have "set (map ((!) events) order) = set (filter (\<lambda>e. evTenantID e \<in> dbTenants (sData s)) events)"
    unfolding set_map known_def n_def set_filter by (auto simp: in_set_conv_nth image_iff) (metis nth_mem)+
  then have same: "tolerated refuse (map ((!) events) order) =
      tolerated refuse (filter (\<lambda>e. evTenantID e \<in> dbTenants (sData s)) events)"
    by (simp add: tolerated_def)
  have ts: "set (gTenants g) \<subseteq> dbTenants (sData s2)" and depth: "0 < sDepth s2"
    using groups(3) by (simp_all add: s2_def s1_def)
  have settles: "settles refuse events order (run s2)"
    unfolding run_def order_def by (rule insert_tenants_live [OF assms groups(1) depth groups(2) ts])
  show ?thesis
  proof (cases "tolerated refuse (map ((!) events) order)")
    case True
    with settles obtain rejected s3 where
      run: "run s2 = (Inr rejected, s3)" and only: "refused_only refuse events order rejected"
      by (auto simp: settles_def)
    have others: "\<forall>i. i \<notin> set order \<longrightarrow> rejected ! i = gRejected g ! i"
      using insert_tenants_settled [OF run [unfolded run_def] groups(1) depth groups(2)] unfolding order_def by blast
    from InTx_live(2) [OF assms(1), of run s1] run obtain s' where "InTx fails run s1 = (Inr rejected, s')"
      unfolding s2_def by blast
    moreover have "(rejected ! i = None) =
        (evTenantID (events ! i) \<in> dbTenants (sData s) \<and> refuse (events ! i) = None)" if "i < n" for i
    proof (cases "i \<in> set order")
      case True
      then show ?thesis using only order by (simp add: refused_only_def known_def)
    next
      case False
      then have "evTenantID (events ! i) \<notin> known" using order that by simp
      moreover from this have "evTenantID (events ! i) \<notin> dbTenants (sData s)"
        using that by (auto simp: known_def n_def)
      ultimately show ?thesis using False others groups(4) [of i] that by (simp add: n_def)
    qed
    ultimately show ?thesis using True same ins by (auto simp: n_def)
  next
    case False
    with settles obtain err s3 where "run s2 = (Inl err, s3)" by (auto simp: settles_def)
    with InTx_live(1) [OF assms(1), of run s1] obtain s' where "InTx fails run s1 = (Inl err, s')"
      unfolding s2_def by blast
    with ins InTx_Inl_data [of fails run s1 err s'] False same show ?thesis by (simp add: s1_def)
  qed
qed

text \<open>
  A batch with an event that a check refuses and one of an unknown tenant; and the same batch
  against a database that has not the stack for the second event.
\<close>

definition sample_refuse :: "bytes \<Rightarrow> new_event \<Rightarrow> bytes option" where
  "sample_refuse code e = (if evSeverity e = Some 99 then Some code else None)"

definition sample_batch :: "new_event list" where
  "sample_batch = [zero_event\<lparr>evTenantID := ''a''\<rparr>, zero_event\<lparr>evTenantID := ''a'', evSeverity := Some 99\<rparr>,
     zero_event\<lparr>evTenantID := ''b''\<rparr>]"

definition sample_tenants :: "events_db session" where
  "sample_tenants = \<lparr>sData = \<lparr>dbTenants = {''a''}, dbEvents = []\<rparr>, sScope = NoScope, sBase = NoScope,
     sDepth = 0, sStep = 0\<rparr>"

theorem Insert_rejects_only_bad_witness:
  "(\<exists>rejected s'. Insert (\<lambda>s. s) (\<lambda>_. None) (sample_refuse ''23514'') sample_batch sample_tenants = (Inr rejected, s')
      \<and> rejected ! 0 = None \<and> rejected ! 1 \<noteq> None \<and> rejected ! 2 \<noteq> None)
   \<and> (\<exists>err s'. Insert (\<lambda>s. s) (\<lambda>_. None) (sample_refuse ''54001'') sample_batch sample_tenants = (Inl err, s')
      \<and> dbEvents (sData s') = [])"
proof
  have "tolerated (sample_refuse ''23514'') (filter (\<lambda>e. evTenantID e \<in> dbTenants (sData sample_tenants)) sample_batch)"
    by (simp add: tolerated_def sample_refuse_def sample_batch_def sample_tenants_def refusal_code_def has_prefix_def)
  with Insert_rejects_only_bad [where fails = "\<lambda>_. None" and quoted = "\<lambda>s. s" and refuse = "sample_refuse ''23514''"
      and events = sample_batch and s = sample_tenants]
  obtain rejected s' where
    ins: "Insert (\<lambda>s. s) (\<lambda>_. None) (sample_refuse ''23514'') sample_batch sample_tenants = (Inr rejected, s')"
    and iff: "\<forall>i < length sample_batch. (rejected ! i = None) =
         (evTenantID (sample_batch ! i) \<in> dbTenants (sData sample_tenants) \<and> sample_refuse ''23514'' (sample_batch ! i) = None)"
    by auto
  have "rejected ! 0 = None" "rejected ! 1 \<noteq> None" "rejected ! 2 \<noteq> None"
    using iff [rule_format, of 0] iff [rule_format, of 1] iff [rule_format, of 2]
    by (simp_all add: sample_batch_def sample_tenants_def sample_refuse_def zero_event_def)
  with ins show "\<exists>rejected s'. Insert (\<lambda>s. s) (\<lambda>_. None) (sample_refuse ''23514'') sample_batch sample_tenants = (Inr rejected, s')
      \<and> rejected ! 0 = None \<and> rejected ! 1 \<noteq> None \<and> rejected ! 2 \<noteq> None" by blast
  have "\<not> tolerated (sample_refuse ''54001'') (filter (\<lambda>e. evTenantID e \<in> dbTenants (sData sample_tenants)) sample_batch)"
    by (simp add: tolerated_def sample_refuse_def sample_batch_def sample_tenants_def refusal_code_def has_prefix_def)
  with Insert_rejects_only_bad [where fails = "\<lambda>_. None" and quoted = "\<lambda>s. s" and refuse = "sample_refuse ''54001''"
      and events = sample_batch and s = sample_tenants]
  show "\<exists>err s'. Insert (\<lambda>s. s) (\<lambda>_. None) (sample_refuse ''54001'') sample_batch sample_tenants = (Inl err, s')
      \<and> dbEvents (sData s') = []"
    by (auto simp: sample_tenants_def)
qed

end
