(* ===== verification/Go_Float.thy ===== *)
theory Go_Float
  imports Prelude Complex_Main
begin

text \<open>
  Go's \<open>float64\<close> as far as the source computes with it: a number is a rational, and the
  result of an operation is the exact result rounded to 53 bits, to nearest and ties to
  even (IEEE 754). The range of the exponent is not bounded: the source computes on
  counts and durations, far from overflow and from the subnormal numbers.
\<close>

text \<open>The exponent of a positive number: \<open>2 ^ e \<le> x < 2 ^ (e + 1)\<close>.\<close>

function expo :: "rat \<Rightarrow> int" where
  "expo x =
     (if x \<le> 0 then 0
      else if 2 \<le> x then expo (x / 2) + 1
      else if x < 1 then expo (2 * x) - 1
      else 0)"
  by pat_completeness auto
termination
proof (relation "measure (\<lambda>x. if 1 \<le> x then nat \<lfloor>x\<rfloor> else nat \<lceil>1 / x\<rceil>)", simp)
  fix x :: rat
  assume "\<not> x \<le> 0" and x: "2 \<le> x"
  have "\<lfloor>x / 2\<rfloor> < \<lfloor>x\<rfloor>"
  proof -
    have "x / 2 \<le> x - 1" using x by simp
    then have "\<lfloor>x / 2\<rfloor> \<le> \<lfloor>x - 1\<rfloor>" by (rule floor_mono)
    then show ?thesis by simp
  qed
  moreover have "1 \<le> \<lfloor>x\<rfloor>" using x by simp
  ultimately show "(x / 2, x) \<in> measure (\<lambda>x. if 1 \<le> x then nat \<lfloor>x\<rfloor> else nat \<lceil>1 / x\<rceil>)"
    using x by simp
next
  fix x :: rat
  assume pos: "\<not> x \<le> 0" and "\<not> 2 \<le> x" and x: "x < 1"
  have inv: "1 < 1 / x" using pos x by simp
  then have two: "2 \<le> \<lceil>1 / x\<rceil>" by (simp add: le_ceiling_iff)
  show "(2 * x, x) \<in> measure (\<lambda>x. if 1 \<le> x then nat \<lfloor>x\<rfloor> else nat \<lceil>1 / x\<rceil>)"
  proof (cases "1 \<le> 2 * x")
    case True
    have "\<lfloor>2 * x\<rfloor> < 2" using x by (simp add: floor_less_iff)
    from less_le_trans [OF this two] have "\<lfloor>2 * x\<rfloor> < \<lceil>1 / x\<rceil>" .
    with True x two show ?thesis by simp
  next
    case False
    then have "2 < 1 / x" using pos by (simp add: field_simps)
    then have "1 / (2 * x) \<le> 1 / x - 1" by simp
    then have "\<lceil>1 / (2 * x)\<rceil> \<le> \<lceil>1 / x - 1\<rceil>" by (rule ceiling_mono)
    with False x two pos show ?thesis by simp
  qed
qed

declare expo.simps [simp del]

definition pow2 :: "int \<Rightarrow> rat" where
  "pow2 e = (if 0 \<le> e then 2 ^ nat e else inverse (2 ^ nat (- e)))"

lemma pow2_powi: "pow2 e = 2 powi e"
  by (simp add: pow2_def power_int_def power_one_over inverse_eq_divide)

lemma pow2_pos [simp]: "0 < pow2 e"
  by (simp add: pow2_powi)

lemma pow2_sign [simp]: "0 \<le> pow2 e" "\<not> pow2 e < 0" "pow2 e \<noteq> 0" "\<not> pow2 e \<le> 0"
  using pow2_pos [of e] by linarith+

lemma pow2_add: "pow2 (a + b) = pow2 a * pow2 b"
  by (simp add: pow2_powi power_int_add)

lemma pow2_0 [simp]: "pow2 0 = 1" and pow2_1 [simp]: "pow2 1 = 2"
  by (simp_all add: pow2_def)

lemma pow2_mono: "a \<le> b \<Longrightarrow> pow2 a \<le> pow2 b"
  by (simp add: pow2_powi power_int_increasing)

lemma expo_bounds: "0 < x \<Longrightarrow> pow2 (expo x) \<le> x \<and> x < pow2 (expo x + 1)"
proof (induction x rule: expo.induct)
  case (1 x)
  show ?case
  proof (cases "2 \<le> x")
    case True
    then have "pow2 (expo (x / 2)) \<le> x / 2 \<and> x / 2 < pow2 (expo (x / 2) + 1)"
      using 1 by auto
    with True "1.prems" show ?thesis
      by (subst (1 2) expo.simps) (simp add: pow2_add field_simps pow2_def [of 2])
  next
    case False
    show ?thesis
    proof (cases "x < 1")
      case True
      then have "pow2 (expo (2 * x)) \<le> 2 * x \<and> 2 * x < pow2 (expo (2 * x) + 1)"
        using 1 False by auto
      moreover have "pow2 (expo (2 * x)) = 2 * pow2 (expo (2 * x) - 1)"
        using pow2_add [of 1 "expo (2 * x) - 1"] by simp
      ultimately show ?thesis
        using True False "1.prems"
        by (subst (1 2) expo.simps) (simp add: pow2_add field_simps)
    next
      case one: False
      with False "1.prems" show ?thesis
        by (subst (1 2) expo.simps) simp
    qed
  qed
qed

lemma expo_unique:
  assumes "0 < x" and "pow2 e \<le> x" and "x < pow2 (e + 1)"
  shows "expo x = e"
proof -
  note b = expo_bounds [OF assms(1)]
  have "\<not> expo x < e"
  proof
    assume "expo x < e"
    then have "pow2 (expo x + 1) \<le> pow2 e" by (intro pow2_mono) simp
    with b assms(2) show False by simp
  qed
  moreover have "\<not> e < expo x"
  proof
    assume "e < expo x"
    then have "pow2 (e + 1) \<le> pow2 (expo x)" by (intro pow2_mono) simp
    with b assms(3) show False by simp
  qed
  ultimately show ?thesis by simp
qed

lemma expo_mono: "0 < x \<Longrightarrow> x \<le> y \<Longrightarrow> expo x \<le> expo y"
proof (rule ccontr)
  assume "0 < x" "x \<le> y" "\<not> expo x \<le> expo y"
  then have "pow2 (expo y + 1) \<le> pow2 (expo x)" by (intro pow2_mono) simp
  with expo_bounds [of x] expo_bounds [of y] \<open>0 < x\<close> \<open>x \<le> y\<close> show False by simp
qed

text \<open>To the nearest integer, ties to even.\<close>

definition round_even :: "rat \<Rightarrow> int" where
  "round_even y =
     (let f = \<lfloor>y\<rfloor>; d = y - of_int f in
      if d < 1 / 2 then f else if 1 / 2 < d then f + 1 else if even f then f else f + 1)"

lemma round_even_bounds: "\<lfloor>y\<rfloor> \<le> round_even y \<and> round_even y \<le> \<lceil>y\<rceil>"
proof -
  have "round_even y = \<lfloor>y\<rfloor> \<or> (round_even y = \<lfloor>y\<rfloor> + 1 \<and> of_int \<lfloor>y\<rfloor> < y)"
    by (auto simp: round_even_def Let_def)
  then show ?thesis
  proof
    assume "round_even y = \<lfloor>y\<rfloor>"
    then show ?thesis by (simp add: floor_le_ceiling)
  next
    assume "round_even y = \<lfloor>y\<rfloor> + 1 \<and> of_int \<lfloor>y\<rfloor> < y"
    moreover from this have "\<lfloor>y\<rfloor> < \<lceil>y\<rceil>" by (simp add: less_ceiling_iff)
    ultimately show ?thesis by simp
  qed
qed

lemma round_even_int [simp]: "round_even (of_int n) = n"
  by (simp add: round_even_def)

lemma round_even_mono: "x \<le> y \<Longrightarrow> round_even x \<le> round_even y"
proof (cases "\<lfloor>x\<rfloor> = \<lfloor>y\<rfloor>")
  case True
  assume "x \<le> y"
  with True show ?thesis by (auto simp: round_even_def Let_def)
next
  case False
  assume "x \<le> y"
  with False have "\<lfloor>x\<rfloor> + 1 \<le> \<lfloor>y\<rfloor>" using floor_mono [of x y] by linarith
  moreover have "round_even x \<le> \<lfloor>x\<rfloor> + 1"
    by (auto simp: round_even_def Let_def)
  ultimately show ?thesis using round_even_bounds [of y] by linarith
qed

definition fl_pos :: "rat \<Rightarrow> rat" where
  "fl_pos x = (let u = pow2 (expo x - 52) in of_int (round_even (x / u)) * u)"

definition fl :: "rat \<Rightarrow> rat" where
  "fl x = (if x = 0 then 0 else if x < 0 then - fl_pos (- x) else fl_pos x)"

lemma pow2_div: "pow2 a / pow2 b = pow2 (a - b)"
  using pow2_add [of "a - b" b] by (simp add: field_simps)

lemma pow2_nat: "0 \<le> e \<Longrightarrow> pow2 e = of_int (2 ^ nat e)"
  by (simp add: pow2_def)

text \<open>The mantissa of a rounded number lies between 2 ^ 52 and 2 ^ 53.\<close>

lemma fl_pos_bounds:
  assumes "0 < x"
  shows "pow2 (expo x) \<le> fl_pos x" and "fl_pos x \<le> pow2 (expo x + 1)"
proof -
  define u where "u = pow2 (expo x - 52)"
  have u: "0 < u" by (simp add: u_def)
  have "pow2 (expo x) / u = of_int (2 ^ 52)" and "pow2 (expo x + 1) / u = of_int (2 ^ 53)"
    by (simp_all add: u_def pow2_div pow2_nat)
  then have "of_int (2 ^ 52) \<le> x / u" and "x / u \<le> of_int (2 ^ 53)"
    using expo_bounds [OF assms] u by (auto simp: field_simps)
  then have "2 ^ 52 \<le> round_even (x / u)" and "round_even (x / u) \<le> 2 ^ 53"
    using round_even_mono [of "of_int (2 ^ 52)" "x / u"] round_even_mono [of "x / u" "of_int (2 ^ 53)"]
    by (simp_all only: round_even_int)
  then have "of_int (2 ^ 52) * u \<le> of_int (round_even (x / u)) * u"
    and "of_int (round_even (x / u)) * u \<le> of_int (2 ^ 53) * u"
    using u by (simp_all only: of_int_le_iff mult_le_cancel_right_pos)
  moreover have "of_int (2 ^ 52) * u = pow2 (expo x)" and "of_int (2 ^ 53) * u = pow2 (expo x + 1)"
    using pow2_add [of 52 "expo x - 52"] pow2_add [of 53 "expo x - 52"]
    by (simp_all add: u_def pow2_nat add.commute)
  ultimately show "pow2 (expo x) \<le> fl_pos x" and "fl_pos x \<le> pow2 (expo x + 1)"
    by (simp_all only: fl_pos_def Let_def u_def)
qed

lemma fl_pos_mono:
  assumes "0 < x" and "x \<le> y"
  shows "fl_pos x \<le> fl_pos y"
proof (cases "expo x = expo y")
  case True
  have "x / pow2 (expo y - 52) \<le> y / pow2 (expo y - 52)"
    using assms(2) by (simp add: divide_right_mono less_imp_le)
  from round_even_mono [OF this] show ?thesis
    by (simp add: fl_pos_def Let_def True)
next
  case False
  with expo_mono [OF assms] have "expo x + 1 \<le> expo y" by simp
  then have "pow2 (expo x + 1) \<le> pow2 (expo y)" by (rule pow2_mono)
  with fl_pos_bounds(2) [OF assms(1)] fl_pos_bounds(1) [of y] assms show ?thesis by simp
qed

lemma fl_pos_positive: "0 < x \<Longrightarrow> 0 < fl_pos x"
  using fl_pos_bounds(1) [of x] pow2_pos [of "expo x"] by (simp only: less_le_trans)

lemma fl_mono: "x \<le> y \<Longrightarrow> fl x \<le> fl y"
proof -
  assume le: "x \<le> y"
  consider "0 < x" | "x \<le> 0" "0 \<le> y" | "y < 0" by linarith
  then show ?thesis
  proof cases
    case 1
    with le fl_pos_mono show ?thesis by (simp add: fl_def)
  next
    case 2
    have "fl x \<le> 0" using 2 fl_pos_positive [of "- x"] by (auto simp: fl_def)
    moreover have "0 \<le> fl y" using 2 fl_pos_positive [of y] by (auto simp: fl_def)
    ultimately show ?thesis by simp
  next
    case 3
    with le fl_pos_mono [of "- y" "- x"] show ?thesis by (simp add: fl_def)
  qed
qed

text \<open>A whole number of at most 53 bits, over a power of two, is represented exactly.\<close>

lemma fl_pos_exact:
  assumes "0 < n" and "n \<le> 2 ^ 53"
  shows "fl_pos (of_int n * pow2 k) = of_int n * pow2 k"
proof -
  define x where "x = of_int n * pow2 k"
  have x: "0 < x" using assms(1) by (simp add: x_def)
  define e where "e = expo x - k"
  have "x < pow2 (expo x + 1)" and le: "pow2 (expo x) \<le> x" using expo_bounds [OF x] by simp_all
  then have "pow2 (expo x) \<le> of_int (2 ^ 53) * pow2 k"
    using assms(2) pow2_pos [of k] by (auto simp: x_def intro: order_trans mult_right_mono)
  also have "\<dots> = pow2 (53 + k)" by (simp add: pow2_add pow2_nat)
  finally have e53: "e \<le> 53"
  proof (rule_tac ccontr)
    assume "pow2 (expo x) \<le> pow2 (53 + k)" and "\<not> e \<le> 53"
    then have "pow2 (54 + k) \<le> pow2 (53 + k)"
      using pow2_mono [of "54 + k" "expo x"] by (simp add: e_def)
    then show False by (simp add: pow2_add pow2_nat)
  qed
  have "\<exists>m. x / pow2 (expo x - 52) = of_int m"
  proof (cases "e \<le> 52")
    case True
    have "x / pow2 (expo x - 52) = of_int n * pow2 (k - (expo x - 52))"
      by (simp add: x_def pow2_div [symmetric])
    also have "k - (expo x - 52) = 52 - e" by (simp add: e_def)
    also have "of_int n * pow2 (52 - e) = of_int (n * 2 ^ nat (52 - e))"
      using True by (simp add: pow2_nat)
    finally show ?thesis ..
  next
    case False
    with e53 have e: "e = 53" by simp
    have "pow2 53 * pow2 k \<le> of_int n * pow2 k"
    proof -
      have "expo x = 53 + k" using e by (simp add: e_def)
      with le show ?thesis by (simp only: x_def [symmetric] pow2_add)
    qed
    then have "2 ^ 53 \<le> n" by (simp add: pow2_nat)
    with assms(2) have "n = 2 ^ 53" by simp
    then have "x / pow2 (expo x - 52) = pow2 (53 + k - (expo x - 52))"
      by (simp add: x_def pow2_div [symmetric] pow2_add pow2_nat)
    also have "53 + k - (expo x - 52) = 52" using e by (simp add: e_def)
    also have "pow2 52 = of_int (2 ^ 52)" by (simp add: pow2_nat)
    finally show ?thesis ..
  qed
  then obtain m where m: "x / pow2 (expo x - 52) = of_int m" ..
  then have "fl_pos x = of_int m * pow2 (expo x - 52)" by (simp add: fl_pos_def Let_def)
  also have "\<dots> = x" using m pow2_pos [of "expo x - 52"] by (simp add: field_simps)
  finally show ?thesis by (simp add: x_def)
qed

lemma fl_exact: "\<bar>n\<bar> \<le> 2 ^ 53 \<Longrightarrow> fl (of_int n * pow2 k) = of_int n * pow2 k"
  using fl_pos_exact [of n k] fl_pos_exact [of "- n" k] pow2_pos [of k]
  by (auto simp: fl_def zero_less_mult_iff mult_less_0_iff not_less)

lemma fl_int: "\<bar>n\<bar> \<le> 2 ^ 53 \<Longrightarrow> fl (of_int n) = of_int n"
  using fl_exact [of n 0] by simp

end
