(* ===== verification/Limiter.thy ===== *)
theory Limiter
  imports Go_Float Go_Time
begin

text \<open>
  \<open>internal/limiter\<close>: \<open>limiter.go\<close>, what a client is told of an attempt, and
  \<open>memory.go\<close>, the token buckets. The mutex of \<open>Memory\<close> makes each \<open>Take\<close> one step; the
  clock is an argument. The source reads the clock just before it takes the mutex, so that two
  attempts at once may be served in the other order of their times; here they are served in the
  order of their times. Floating point is \<open>fl\<close> of \<open>Go_Float\<close>, applied wherever Go rounds.
\<close>

subsection \<open>The buckets\<close>

record memory =
  mFull :: "bytes \<Rightarrow> gotime option"
  mSwept :: gotime

text \<open>The zero value of \<open>Memory\<close>.\<close>

definition zero_memory :: memory where
  "zero_memory = \<lparr>mFull = (\<lambda>_. None), mSwept = zero_time\<rparr>"

definition sweep :: "memory \<Rightarrow> gotime \<Rightarrow> memory" where
  "sweep m now =
     (if time_sub now (mSwept m) < minute then m
      else m\<lparr>mSwept := now,
             mFull := (\<lambda>k. case mFull m k of
                 Some full \<Rightarrow> if \<not> now < full then None else Some full
               | None \<Rightarrow> None)\<rparr>)"

definition take_interval :: "int \<Rightarrow> duration" where
  "take_interval perMinute = minute div perMinute"

text \<open>The number \<open>Take\<close> returns, from the time until the bucket is full.\<close>

definition tokens_left :: "int \<Rightarrow> duration \<Rightarrow> duration \<Rightarrow> rat" where
  "tokens_left burst until interval =
     fl (fl (fl (of_int burst) - fl (fl (of_int until) / fl (of_int interval))) - 1)"

definition Take :: "memory \<Rightarrow> gotime \<Rightarrow> bytes \<Rightarrow> int \<Rightarrow> int \<Rightarrow> rat \<times> memory" where
  "Take m0 now key perMinute burst =
     (let interval = take_interval perMinute;
          m = sweep m0 now;
          full0 = (case mFull m key of Some t \<Rightarrow> t | None \<Rightarrow> zero_time);
          full = (if full0 < now then now else full0);
          remaining = tokens_left burst (time_sub full now) interval in
      (remaining,
       if 0 \<le> remaining then m\<lparr>mFull := (mFull m)(key := Some (full + interval))\<rparr> else m))"

subsection \<open>The limiter\<close>

record decision =
  dAllowed :: bool
  dLimit :: int
  dRemaining :: int
  dRetryAfter :: duration
  dResetAfter :: duration

record limiter =
  lName :: bytes
  lPerMinute :: int
  lBurst :: int

definition limiter_New :: "bytes \<Rightarrow> int \<Rightarrow> limiter outcome" where
  "limiter_New name perMinute =
     (if perMinute < 1 then Panic
      else Ret \<lparr>lName = name, lPerMinute = perMinute, lBurst = perMinute\<rparr>)"

text \<open>Go's conversion of a float to an integer drops the fraction.\<close>

definition trunc :: "rat \<Rightarrow> int" where
  "trunc x = (if x < 0 then - \<lfloor>- x\<rfloor> else \<lfloor>x\<rfloor>)"

definition float_duration :: "rat \<Rightarrow> rat \<Rightarrow> duration" where
  "float_duration x rate = trunc (fl (fl (x / rate) * fl (of_int minute)))"

definition limiter_key :: "limiter \<Rightarrow> bytes \<Rightarrow> bytes" where
  "limiter_key l key = ''ratelimit:'' @ lName l @ '':'' @ key"

text \<open>\<open>Allow\<close>, from what the backend returned; \<open>None\<close> is an error of the backend.\<close>

definition Allow :: "limiter \<Rightarrow> rat option \<Rightarrow> decision" where
  "Allow l taken =
     (case taken of
        None \<Rightarrow> \<lparr>dAllowed = True, dLimit = lBurst l, dRemaining = lBurst l, dRetryAfter = 0, dResetAfter = 0\<rparr>
      | Some remaining \<Rightarrow>
          (let rate = fl (of_int (lPerMinute l));
               left = (if remaining < 0 then fl (remaining + 1) else remaining) in
           \<lparr>dAllowed = (if remaining < 0 then False else True), dLimit = lBurst l,
            dRemaining = (if remaining < 0 then 0 else trunc remaining),
            dRetryAfter = (if remaining < 0 then float_duration (- remaining) rate else 0),
            dResetAfter = float_duration (fl (fl (of_int (lBurst l)) - max left 0)) rate\<rparr>))"

definition Memory_Allow :: "limiter \<Rightarrow> memory \<Rightarrow> gotime \<Rightarrow> bytes \<Rightarrow> decision \<times> memory" where
  "Memory_Allow l m now key =
     (case Take m now (limiter_key l key) (lPerMinute l) (lBurst l) of
        (remaining, m') \<Rightarrow> (Allow l (Some remaining), m'))"

subsection \<open>Rounding never changes a decision\<close>

text \<open>
  Limits up to 100,000 a minute: then a nanosecond is more than a float of the size of
  \<open>burst\<close> can lose.
\<close>

definition rate_ok :: "int \<Rightarrow> bool" where
  "rate_ok n \<longleftrightarrow> 1 \<le> n \<and> n \<le> 100000"

lemma take_interval_bounds:
  assumes "rate_ok n"
  shows "600000 \<le> take_interval n" and "take_interval n \<le> 60000000000" and "n * take_interval n \<le> 60000000000"
proof -
  have n: "1 \<le> n" "n \<le> 100000" using assms by (simp_all add: rate_ok_def)
  have "minute div 100000 \<le> minute div n"
    using n by (intro zdiv_mono2) (simp_all add: duration_defs)
  then show "600000 \<le> take_interval n" by (simp add: take_interval_def duration_defs)
  show prod: "n * take_interval n \<le> 60000000000"
  proof -
    have "n * (minute div n) + minute mod n = minute" by simp
    moreover have "0 \<le> minute mod n" using n by simp
    moreover have "minute = 60000000000" by (simp add: duration_defs)
    ultimately show ?thesis unfolding take_interval_def by linarith
  qed
  have "1 * take_interval n \<le> n * take_interval n"
    using n by (intro mult_right_mono) (simp_all add: take_interval_def duration_defs pos_imp_zdiv_nonneg_iff)
  with prod show "take_interval n \<le> 60000000000" by simp
qed

lemma tokens_left_decides:
  assumes "rate_ok n" and "0 \<le> d"
  shows "0 \<le> tokens_left n d (take_interval n) \<longleftrightarrow> d \<le> (n - 1) * take_interval n"
proof -
  define I where "I = take_interval n"
  note I = take_interval_bounds [OF assms(1), folded I_def]
  have n: "1 \<le> n" "n \<le> 100000" using assms(1) by (simp_all add: rate_ok_def)
  have flI: "fl (of_int I) = of_int I" and fln: "fl (of_int n) = of_int n"
    using I n by (simp_all add: fl_int)
  define q where "q = fl (fl (of_int d) / of_int I)"
  have left: "tokens_left n d I = fl (fl (of_int n - q) - 1)"
    by (simp add: tokens_left_def flI fln q_def)
  have small: "(n - 1) * I + 1 \<le> 2 ^ 53" and small0: "0 \<le> (n - 1) * I"
    using I n by (simp_all add: left_diff_distrib)
  show ?thesis
  proof (cases "d \<le> (n - 1) * I")
    case True
    then have "fl (of_int d) = of_int d"
      using assms(2) small by (intro fl_int) simp
    moreover have "of_int d \<le> of_int (n - 1) * (of_int I :: rat)"
      using True by (metis of_int_le_iff of_int_mult)
    ultimately have "fl (of_int d) / of_int I \<le> of_int (n - 1)"
      using I(1) by (simp add: divide_le_eq)
    from fl_mono [OF this] have "q \<le> of_int (n - 1)"
      using fl_int [of "n - 1"] n by (simp add: q_def)
    then have "of_int 1 \<le> of_int n - q" by simp
    from fl_mono [OF this] have "0 \<le> fl (of_int n - q) - 1"
      using fl_int [of 1] by simp
    from fl_mono [OF this] have "0 \<le> tokens_left n d I"
      using fl_int [of 0] by (simp add: left)
    with True show ?thesis by (simp add: I_def)
  next
    case False
    define eps where "eps = pow2 (- 36)"
    have eps: "0 < eps" "of_int I * eps \<le> 1"
    proof -
      show "0 < eps" by (simp add: eps_def)
      have "(of_int I :: rat) \<le> of_int (2 ^ 36)"
        using I(2) unfolding of_int_le_iff by simp
      then have "of_int I * eps \<le> of_int (2 ^ 36) * eps"
        using \<open>0 < eps\<close> by (intro mult_right_mono) simp_all
      also have "\<dots> = 1" by (simp add: eps_def pow2_def)
      finally show "of_int I * eps \<le> 1" .
    qed
    have "of_int ((n - 1) * I + 1) \<le> (of_int d :: rat)"
      using False unfolding of_int_le_iff by simp
    from fl_mono [OF this] have "of_int ((n - 1) * I + 1) \<le> fl (of_int d)"
      using fl_int [of "(n - 1) * I + 1"] small small0 by simp
    moreover have "(of_int (n - 1) + eps) * of_int I \<le> of_int ((n - 1) * I + 1)"
    proof -
      have "(of_int (n - 1) + eps) * of_int I = of_int ((n - 1) * I) + of_int I * eps"
        unfolding of_int_mult by (rule trans [OF distrib_right]) (simp only: mult.commute)
      with eps(2) show ?thesis by simp
    qed
    ultimately have "(of_int (n - 1) + eps) * of_int I \<le> fl (of_int d)"
      by (rule order_trans [rotated])
    then have "of_int (n - 1) + eps \<le> fl (of_int d) / of_int I"
      using I(1) by (simp add: le_divide_eq)
    from fl_mono [OF this] have "fl (of_int (n - 1) + eps) \<le> q"
      by (simp add: q_def)
    moreover have "fl (of_int (n - 1) + eps) = of_int (n - 1) + eps"
    proof -
      have "of_int (n - 1) + eps = of_int ((n - 1) * 2 ^ 36 + 1) * pow2 (- 36)"
        by (simp add: eps_def pow2_def field_simps)
      then show ?thesis using fl_exact [of "(n - 1) * 2 ^ 36 + 1" "- 36"] n by simp
    qed
    ultimately have "of_int n - q \<le> 1 - eps" by simp
    from fl_mono [OF this] have "fl (of_int n - q) \<le> 1 - eps"
      using fl_exact [of "2 ^ 36 - 1" "- 36"] by (simp add: eps_def pow2_def left_diff_distrib)
    then have "fl (of_int n - q) - 1 \<le> - eps" by simp
    from fl_mono [OF this] have "tokens_left n d I \<le> - eps"
      using fl_exact [of "- 1" "- 36"] by (simp add: left eps_def)
    with eps(1) False show ?thesis by (simp add: I_def)
  qed
qed

subsection \<open>What a token bucket promises\<close>

text \<open>
  A log of attempts, each with its time, its key and whether it was allowed, and how many
  attempts of a key it allowed from \<open>a\<close> to \<open>b\<close>.
\<close>

fun attempts :: "('m \<Rightarrow> gotime \<Rightarrow> bytes \<Rightarrow> bool \<times> 'm) \<Rightarrow> 'm \<Rightarrow> (gotime \<times> bytes) list
    \<Rightarrow> (gotime \<times> bytes \<times> bool) list" where
  "attempts try_one m [] = []"
| "attempts try_one m ((now, key) # rest) =
     (case try_one m now key of (ok, m') \<Rightarrow> (now, key, ok) # attempts try_one m' rest)"

fun left_after :: "('m \<Rightarrow> gotime \<Rightarrow> bytes \<Rightarrow> bool \<times> 'm) \<Rightarrow> 'm \<Rightarrow> (gotime \<times> bytes) list \<Rightarrow> 'm" where
  "left_after try_one m [] = m"
| "left_after try_one m ((now, key) # rest) = left_after try_one (snd (try_one m now key)) rest"

fun granted :: "bytes \<Rightarrow> gotime \<Rightarrow> gotime \<Rightarrow> (gotime \<times> bytes \<times> bool) list \<Rightarrow> int" where
  "granted key a b [] = 0"
| "granted key a b ((t, k, ok) # trace) =
     (if ok \<and> k = key \<and> a \<le> t \<and> t \<le> b then 1 else 0) + granted key a b trace"

lemma granted_append: "granted key a b (xs @ ys) = granted key a b xs + granted key a b ys"
  by (induction xs) auto

lemma granted_nonneg: "0 \<le> granted key a b trace"
  by (induction trace) auto

lemma attempts_times: "map fst (attempts f m ats) = map fst ats"
  by (induction f m ats rule: attempts.induct) (auto split: prod.splits)

lemma attempts_from:
  assumes "sorted (t # map fst ats)" and "x \<in> set (attempts f m ats)"
  shows "t \<le> fst x"
proof -
  have "fst x \<in> set (map fst ats)"
    using assms(2) attempts_times [of f m ats] by (metis image_eqI list.set_map)
  then show ?thesis using assms(1) by auto
qed

text \<open>Nothing is counted once the trace is past the window.\<close>

lemma granted_after: "(\<And>x. x \<in> set trace \<Longrightarrow> b < fst x) \<Longrightarrow> granted key a b trace = 0"
  by (induction trace) fastforce+

lemma granted_from:
  assumes "a \<le> t" and "\<And>x. x \<in> set trace \<Longrightarrow> t \<le> fst x"
  shows "granted key a b trace = granted key t b trace"
  using assms by (induction trace) fastforce+

text \<open>
  What a backend promises of a bucket of \<open>n\<close> tokens that gains one every \<open>gap\<close>: \<open>level\<close> is
  the time until the bucket of a key is full.
\<close>

locale token_bucket =
  fixes try_one :: "'m \<Rightarrow> gotime \<Rightarrow> bytes \<Rightarrow> bool \<times> 'm"
    and ok :: "'m \<Rightarrow> gotime \<Rightarrow> bool"
    and level :: "'m \<Rightarrow> gotime \<Rightarrow> bytes \<Rightarrow> int"
    and n :: int and gap :: int
  assumes gap: "0 < gap"
    and bounds: "ok m t \<Longrightarrow> 0 \<le> level m t key \<and> level m t key \<le> n * gap"
    and later: "ok m t \<Longrightarrow> t \<le> t' \<Longrightarrow> ok m t'"
    and drains: "ok m t \<Longrightarrow> t \<le> t' \<Longrightarrow> level m t' key = max 0 (level m t key - (t' - t))"
    and keeps: "ok m t \<Longrightarrow> ok (snd (try_one m t key)) t"
    and decides: "ok m t \<Longrightarrow> fst (try_one m t key) \<longleftrightarrow> level m t key \<le> (n - 1) * gap"
    and takes: "ok m t \<Longrightarrow> level (snd (try_one m t key)) t key' =
      level m t key' + (if key' = key \<and> fst (try_one m t key) then gap else 0)"
begin

lemma bounded_from:
  assumes "ok m a" and "a \<le> b" and "sorted (a # map fst ats)"
  shows "gap * granted key a b (attempts try_one m ats) \<le> (b - a) + n * gap - level m a key"
  using assms
proof (induction ats arbitrary: m a)
  case Nil
  then show ?case using bounds [of m a key] by simp
next
  case (Cons x rest)
  obtain t k where x: "x = (t, k)" by (cases x)
  have at: "a \<le> t" "sorted (t # map fst rest)" using Cons.prems(3) x by auto
  obtain won m' where step: "try_one m t k = (won, m')" by (cases "try_one m t k")
  have okt: "ok m t" by (rule later [OF Cons.prems(1) at(1)])
  have ok': "ok m' t" using keeps [OF okt, of k] step by simp
  have lev: "level m t key \<ge> level m a key - (t - a)" "0 \<le> level m t key" "level m t key \<le> n * gap"
    using drains [OF Cons.prems(1) at(1), of key] bounds [OF okt, of key] by auto
  have lev': "level m' t key = level m t key + (if key = k \<and> won then gap else 0)"
    using takes [OF okt, of k key] step by simp
  have same: "granted key a b (attempts try_one m' rest) = granted key t b (attempts try_one m' rest)"
    using at by (intro granted_from attempts_from)
  show ?case
  proof (cases "t \<le> b")
    case True
    have "gap * granted key t b (attempts try_one m' rest) \<le> (b - t) + n * gap - level m' t key"
      by (rule Cons.IH [OF ok' True at(2)])
    then show ?thesis using lev lev' same at(1) True by (auto simp: x step distrib_left)
  next
    case False
    have "granted key a b (attempts try_one m' rest) = 0"
    proof (rule granted_after)
      fix x assume "x \<in> set (attempts try_one m' rest)"
      from attempts_from [OF at(2) this] False show "b < fst x" by simp
    qed
    then show ?thesis using False lev Cons.prems(2) bounds [OF Cons.prems(1), of key]
      by (simp add: x step)
  qed
qed

text \<open>However the attempts are spread, a window grants a full bucket and what it gained.\<close>

lemma bounded:
  assumes "ok m t" and "t \<le> a" and "a \<le> b" and "sorted (t # map fst ats)"
  shows "gap * granted key a b (attempts try_one m ats) \<le> (b - a) + n * gap"
  using assms
proof (induction ats arbitrary: m t)
  case Nil
  then show ?case using bounds [of m t key] by simp
next
  case (Cons x rest)
  obtain s k where x: "x = (s, k)" by (cases x)
  have at: "t \<le> s" "sorted (s # map fst rest)" using Cons.prems(4) x by auto
  show ?case
  proof (cases "s < a")
    case True
    have "ok (snd (try_one m s k)) s"
      by (rule keeps [OF later [OF Cons.prems(1) at(1)]])
    with Cons.IH [of _ s] True Cons.prems(3) at(2) show ?thesis
      by (auto simp: x split: prod.splits)
  next
    case False
    have "sorted (a # map fst (x # rest))" using False at x by auto
    from bounded_from [OF later [OF Cons.prems(1,2)] Cons.prems(3) this, of key]
    show ?thesis using bounds [OF later [OF Cons.prems(1,2)], of key] by simp
  qed
qed

text \<open>Only what was taken since \<open>a\<close> keeps a bucket from being full again.\<close>

lemma level_from:
  assumes "ok m a" and "a \<le> b" and "sorted (a # map fst ats)" and "\<And>x. x \<in> set ats \<Longrightarrow> fst x \<le> b"
  shows "ok (left_after try_one m ats) b \<and> level (left_after try_one m ats) b key
        \<le> max 0 (level m a key - (b - a)) + gap * granted key a b (attempts try_one m ats)"
  using assms
proof (induction ats arbitrary: m a)
  case Nil
  from drains [OF Nil.prems(1,2), of key] later [OF Nil.prems(1,2)] show ?case by simp
next
  case (Cons x rest)
  obtain t k where x: "x = (t, k)" by (cases x)
  have at: "a \<le> t" "t \<le> b" "sorted (t # map fst rest)"
    using Cons.prems(3) Cons.prems(4) [of x] x by auto
  obtain won m' where step: "try_one m t k = (won, m')" by (cases "try_one m t k")
  have okt: "ok m t" by (rule later [OF Cons.prems(1) at(1)])
  have ok': "ok m' t" using keeps [OF okt, of k] step by simp
  have lev: "level m' t key = max 0 (level m a key - (t - a)) + (if key = k \<and> won then gap else 0)"
    using takes [OF okt, of k key] drains [OF Cons.prems(1) at(1), of key] step by simp
  have same: "granted key a b (attempts try_one m' rest) = granted key t b (attempts try_one m' rest)"
    using at by (intro granted_from attempts_from)
  have "ok (left_after try_one m' rest) b \<and> level (left_after try_one m' rest) b key
      \<le> max 0 (level m' t key - (b - t)) + gap * granted key t b (attempts try_one m' rest)"
    using Cons.prems(4) by (intro Cons.IH [OF ok' at(2,3)]) simp
  then show ?case using lev same at gap by (auto simp: x step distrib_left)
qed

lemma level_bound:
  assumes "ok m t" and "t \<le> b - n * gap" and "sorted (t # map fst ats)"
    and "\<And>x. x \<in> set ats \<Longrightarrow> fst x \<le> b"
  shows "ok (left_after try_one m ats) b \<and> level (left_after try_one m ats) b key
        \<le> gap * granted key (b - n * gap) b (attempts try_one m ats)"
  using assms
proof (induction ats arbitrary: m t)
  case Nil
  from drains [OF later [OF Nil.prems(1,2)], of b key] bounds [OF later [OF Nil.prems(1,2)], of key]
    later [OF later [OF Nil.prems(1,2)], of b]
  show ?case by simp
next
  case (Cons x rest)
  obtain s k where x: "x = (s, k)" by (cases x)
  have at: "t \<le> s" "sorted (s # map fst rest)" using Cons.prems(3) x by auto
  show ?case
  proof (cases "s < b - n * gap")
    case True
    have "ok (snd (try_one m s k)) s"
      by (rule keeps [OF later [OF Cons.prems(1) at(1)]])
    with Cons.IH [of _ s] True Cons.prems(4) at(2) show ?thesis
      by (auto simp: x split: prod.splits)
  next
    case False
    have okb: "ok m (b - n * gap)" by (rule later [OF Cons.prems(1,2)])
    have "sorted ((b - n * gap) # map fst (x # rest))" using False at x by auto
    from level_from [OF okb _ this Cons.prems(4), of key] bounds [OF okb, of key]
    show ?thesis by simp
  qed
qed

text \<open>So an attempt is refused only when its key has just had a full bucket's worth.\<close>

lemma refused:
  assumes "ok m t" and "t \<le> b - n * gap" and "sorted (t # map fst ats)"
    and "\<And>x. x \<in> set ats \<Longrightarrow> fst x \<le> b"
    and no: "\<not> fst (try_one (left_after try_one m ats) b key)"
  shows "n \<le> granted key (b - n * gap) b (attempts try_one m ats)"
proof -
  from level_bound [OF assms(1-4), of key] decides no
  have "(n - 1) * gap < gap * granted key (b - n * gap) b (attempts try_one m ats)"
    by fastforce
  then have "gap * (n - 1) < gap * granted key (b - n * gap) b (attempts try_one m ats)"
    by (simp only: mult.commute)
  then show ?thesis using gap by simp
qed

end

subsection \<open>Memory is a token bucket\<close>

definition attempt :: "limiter \<Rightarrow> memory \<Rightarrow> gotime \<Rightarrow> bytes \<Rightarrow> bool \<times> memory" where
  "attempt l m now key = (case Memory_Allow l m now key of (d, m') \<Rightarrow> (dAllowed d, m'))"

definition full_time :: "memory \<Rightarrow> bytes \<Rightarrow> gotime" where
  "full_time m key = (case mFull m key of Some t \<Rightarrow> t | None \<Rightarrow> zero_time)"

definition until_full :: "limiter \<Rightarrow> memory \<Rightarrow> gotime \<Rightarrow> bytes \<Rightarrow> int" where
  "until_full l m now key = max 0 (full_time m (limiter_key l key) - now)"

definition limiter_gap :: "limiter \<Rightarrow> int" where
  "limiter_gap l = take_interval (lPerMinute l)"

definition memory_ok :: "limiter \<Rightarrow> memory \<Rightarrow> gotime \<Rightarrow> bool" where
  "memory_ok l m t \<longleftrightarrow> limiter_New (lName l) (lPerMinute l) = Ret l \<and> rate_ok (lPerMinute l)
     \<and> zero_time \<le> t
     \<and> (\<forall>key. full_time m (limiter_key l key) \<le> t + lPerMinute l * limiter_gap l)"

lemma limiter_key_eq [simp]: "limiter_key l key = limiter_key l key' \<longleftrightarrow> key = key'"
  by (simp add: limiter_key_def)

lemma full_time_sweep:
  "zero_time \<le> now \<Longrightarrow> max now (full_time (sweep m now) key) = max now (full_time m key)"
  by (auto simp: full_time_def sweep_def split: option.splits)

lemma Take_eq:
  assumes "memory_ok l m now"
  shows "Take m now (limiter_key l key) (lPerMinute l) (lBurst l) =
     (let r = tokens_left (lPerMinute l) (until_full l m now key) (limiter_gap l) in
      (r, if 0 \<le> r then (sweep m now)\<lparr>mFull := (mFull (sweep m now))(limiter_key l key :=
              Some (now + until_full l m now key + limiter_gap l))\<rparr> else sweep m now))"
proof -
  define full where "full = max now (full_time (sweep m now) (limiter_key l key))"
  have l: "lBurst l = lPerMinute l" "rate_ok (lPerMinute l)" "zero_time \<le> now"
    "full_time m (limiter_key l key) \<le> now + lPerMinute l * limiter_gap l"
    using assms by (auto simp: memory_ok_def limiter_New_def split: if_splits)
       (metis limiter.select_convs(2) limiter.select_convs(3))
  have full: "full = now + until_full l m now key"
    unfolding full_def full_time_sweep [OF l(3)] by (simp add: until_full_def)
  have "until_full l m now key \<le> lPerMinute l * limiter_gap l" "0 \<le> until_full l m now key"
    using l(4) take_interval_bounds(1) [OF l(2)] l(2)
    by (auto simp: until_full_def rate_ok_def limiter_gap_def)
  then have sub: "time_sub full now = until_full l m now key"
    using take_interval_bounds(3) [OF l(2)]
    by (auto simp: full time_sub_def max_duration_def min_duration_def limiter_gap_def)
  have "Take m now (limiter_key l key) (lPerMinute l) (lBurst l) =
     (let r = tokens_left (lPerMinute l) (until_full l m now key) (limiter_gap l) in
      (r, if 0 \<le> r then (sweep m now)\<lparr>mFull := (mFull (sweep m now))(limiter_key l key :=
              Some (full + limiter_gap l))\<rparr> else sweep m now))"
    unfolding sub [symmetric] l(1)
    by (simp add: Take_def Let_def limiter_gap_def full_def full_time_def max_def not_less)
  then show ?thesis unfolding full .
qed

lemma attempt_eq:
  assumes "memory_ok l m now"
  shows "attempt l m now key =
     (if until_full l m now key \<le> (lPerMinute l - 1) * limiter_gap l
      then (True, (sweep m now)\<lparr>mFull := (mFull (sweep m now))(limiter_key l key :=
              Some (now + until_full l m now key + limiter_gap l))\<rparr>)
      else (False, sweep m now))"
proof -
  have "rate_ok (lPerMinute l)" "0 \<le> until_full l m now key"
    using assms by (simp_all add: memory_ok_def until_full_def)
  then show ?thesis
    using tokens_left_decides [of "lPerMinute l" "until_full l m now key"]
    by (simp add: attempt_def Memory_Allow_def Allow_def Let_def limiter_gap_def
        Take_eq [OF assms, unfolded limiter_gap_def])
      (meson linorder_not_less)
qed

lemma until_full_later:
  "memory_ok l m t \<Longrightarrow> t \<le> now \<Longrightarrow> until_full l m now key = max 0 (until_full l m t key - (now - t))"
  by (auto simp: until_full_def)

lemma until_full_sweep:
  "memory_ok l m now \<Longrightarrow> until_full l (sweep m now) now key = until_full l m now key"
  using full_time_sweep [of now m "limiter_key l key"]
  by (auto simp: until_full_def memory_ok_def max_def split: if_splits)

lemma until_full_bounds:
  assumes "memory_ok l m t"
  shows "0 \<le> until_full l m t key \<and> until_full l m t key \<le> lPerMinute l * limiter_gap l"
proof -
  have "0 \<le> lPerMinute l * limiter_gap l"
    using assms take_interval_bounds(1) [of "lPerMinute l"]
    by (simp add: memory_ok_def rate_ok_def limiter_gap_def)
  with assms show ?thesis
    by (auto simp: memory_ok_def until_full_def diff_le_eq add.commute)
qed

lemma memory_ok_iff:
  "memory_ok l m t \<longleftrightarrow> limiter_New (lName l) (lPerMinute l) = Ret l \<and> rate_ok (lPerMinute l)
     \<and> zero_time \<le> t \<and> (\<forall>key. until_full l m t key \<le> lPerMinute l * limiter_gap l)"
proof (cases "rate_ok (lPerMinute l)")
  case True
  have "0 \<le> lPerMinute l * limiter_gap l"
    using take_interval_bounds(1) [OF True] True by (simp add: rate_ok_def limiter_gap_def)
  with True show ?thesis by (simp add: memory_ok_def until_full_def diff_le_eq add.commute)
qed (simp add: memory_ok_def)

lemma attempt_level:
  assumes "memory_ok l m t"
  shows "until_full l (snd (attempt l m t key)) t key' =
      until_full l m t key' + (if key' = key \<and> fst (attempt l m t key) then limiter_gap l else 0)"
proof -
  have "0 \<le> limiter_gap l"
    using assms take_interval_bounds(1) [of "lPerMinute l"] by (simp add: memory_ok_def limiter_gap_def)
  then show ?thesis
    using until_full_sweep [OF assms, of key'] until_full_bounds [OF assms, of key]
    by (auto simp: attempt_eq [OF assms] until_full_def full_time_def)
qed

interpretation memory_bucket:
  token_bucket "attempt l" "memory_ok l" "until_full l" "lPerMinute l" "max 1 (limiter_gap l)" for l
proof unfold_locales
  have gap: "max 1 (limiter_gap l) = limiter_gap l" if "memory_ok l m t" for m t
    using that take_interval_bounds(1) [of "lPerMinute l"] by (simp add: memory_ok_def limiter_gap_def)
  show "0 < max 1 (limiter_gap l)" by simp
  fix m t key
  assume ok: "memory_ok l m t"
  show "0 \<le> until_full l m t key \<and> until_full l m t key \<le> lPerMinute l * max 1 (limiter_gap l)"
    using until_full_bounds [OF ok] by (simp add: gap [OF ok])
  show decides: "fst (attempt l m t key) \<longleftrightarrow> until_full l m t key \<le> (lPerMinute l - 1) * max 1 (limiter_gap l)"
    by (simp add: attempt_eq [OF ok] gap [OF ok])
  show "until_full l (snd (attempt l m t key)) t key' = until_full l m t key' +
      (if key' = key \<and> fst (attempt l m t key) then max 1 (limiter_gap l) else 0)" for key'
    by (simp only: attempt_level [OF ok] gap [OF ok])
  show "memory_ok l (snd (attempt l m t key)) t"
    unfolding memory_ok_iff attempt_level [OF ok]
    using ok decides until_full_bounds [OF ok]
    by (auto simp: memory_ok_iff gap [OF ok] left_diff_distrib)
  fix t' :: gotime
  assume "t \<le> t'"
  then show "memory_ok l m t'" using ok by (auto simp: memory_ok_def intro: order_trans)
  show "until_full l m t' key = max 0 (until_full l m t key - (t' - t))"
    using \<open>t \<le> t'\<close> by (auto simp: until_full_def)
qed

subsection \<open>Properties\<close>

lemma memory_ok_zero:
  "limiter_New name n = Ret l \<Longrightarrow> n \<le> 100000 \<Longrightarrow>
     memory_ok l zero_memory zero_time \<and> lPerMinute l = n \<and> limiter_gap l = minute div n
       \<and> max 1 (limiter_gap l) = minute div n \<and> 0 < minute div n \<and> n * (minute div n) \<le> minute"
  using take_interval_bounds [of n]
  by (auto simp: memory_ok_def limiter_New_def rate_ok_def full_time_def zero_memory_def limiter_gap_def
      take_interval_def minute_def second_def split: if_splits)

lemma granted_mono: "a \<le> a' \<Longrightarrow> granted key a' b trace \<le> granted key a b trace"
  by (induction trace) auto

text \<open>
  C13. From a fresh \<open>Memory\<close>, however the attempts of any keys arrive in time order, one key
  is allowed at most its burst and what a bucket gains meanwhile in any window: a token
  every \<open>minute div n\<close>. Neither the floating point of \<open>Take\<close> nor the sweep ever lets one more
  through.
\<close>

theorem limiter_grants_at_most:
  assumes "limiter_New name n = Ret l" and "n \<le> 100000"
    and "sorted (zero_time # map fst ats)" and "zero_time \<le> a" and "0 \<le> d"
  shows "granted key a (a + d) (attempts (attempt l) zero_memory ats) \<le> n + d div (minute div n)"
proof -
  note zero = memory_ok_zero [OF assms(1,2)]
  have "minute div n * granted key a (a + d) (attempts (attempt l) zero_memory ats) \<le> d + n * (minute div n)"
    using memory_bucket.bounded [of l zero_memory zero_time a "a + d" ats key] assms zero by simp
  then have "granted key a (a + d) (attempts (attempt l) zero_memory ats) \<le> (d + n * (minute div n)) div (minute div n)"
    using zero zdiv_mono1 [of _ "d + n * (minute div n)" "minute div n"] by fastforce
  then show ?thesis using zero by (simp add: add.commute)
qed

theorem limiter_grants_at_most_witness:
  "granted ''a'' 0 0 (attempts (attempt \<lparr>lName = ''s'', lPerMinute = 1, lBurst = 1\<rparr>) zero_memory
      [(0, ''a''), (0, ''a'')]) \<le> 1"
  using limiter_grants_at_most [of "''s''" 1 _ "[(0, ''a''), (0, ''a'')]" 0 0 "''a''"]
  by (simp add: limiter_New_def zero_time_def duration_defs)

text \<open>
  C37. An attempt is refused only when its own key was allowed a whole burst within the
  minute before it: no one else's attempts, and none of its own refused ones, count against
  it.
\<close>

theorem limiter_refuses_only:
  assumes "limiter_New name n = Ret l" and "n \<le> 100000"
    and "sorted (zero_time # map fst (earlier @ [(now, key)]))" and "zero_time + minute \<le> now"
    and "\<not> fst (attempt l (left_after (attempt l) zero_memory earlier) now key)"
  shows "n \<le> granted key (now - minute) now (attempts (attempt l) zero_memory earlier)"
proof -
  note zero = memory_ok_zero [OF assms(1,2)]
  have "n \<le> granted key (now - n * (minute div n)) now (attempts (attempt l) zero_memory earlier)"
    using memory_bucket.refused [of l zero_memory zero_time now earlier key] assms(3-5) zero
    by (auto simp: sorted_append)
  also have "\<dots> \<le> granted key (now - minute) now (attempts (attempt l) zero_memory earlier)"
    using zero by (intro granted_mono) simp
  finally show ?thesis .
qed

theorem limiter_refuses_only_witness:
  "\<exists>l. limiter_New ''s'' 1 = Ret l
     \<and> 1 \<le> granted ''a'' (5 - minute) 5 (attempts (attempt l) zero_memory [(0, ''b''), (1, ''a'')])"
proof -
  define l where "l = \<lparr>lName = ''s'', lPerMinute = 1, lBurst = 1\<rparr>"
  have new: "limiter_New ''s'' 1 = Ret l" by (simp add: limiter_New_def l_def)
  define m1 where "m1 = snd (attempt l zero_memory 0 ''b'')"
  define m2 where "m2 = snd (attempt l m1 1 ''a'')"
  have l: "lPerMinute l = 1" "limiter_gap l = minute" by (simp_all add: l_def limiter_gap_def take_interval_def)
  have ok0: "memory_ok l zero_memory 0"
    using memory_ok_zero [OF new] by (auto intro: memory_bucket.later simp: zero_time_def duration_defs)
  have ok1: "memory_ok l m1 1"
    unfolding m1_def using memory_bucket.later [OF memory_bucket.keeps [OF ok0], of 1] by simp
  have ok2: "memory_ok l m2 5"
    unfolding m2_def using memory_bucket.later [OF memory_bucket.keeps [OF ok1], of 5] by simp
  have "until_full l zero_memory 0 ''a'' = 0"
    by (simp add: until_full_def full_time_def zero_memory_def zero_time_def duration_defs)
  then have "until_full l m1 0 ''a'' = 0"
    using attempt_level [OF ok0, of "''b''" "''a''"] by (simp add: m1_def)
  then have "until_full l m1 1 ''a'' = 0"
    using until_full_later [OF memory_bucket.keeps [OF ok0], of 1 "''b''" "''a''"] by (simp add: m1_def)
  then have "until_full l m2 1 ''a'' = minute"
    using attempt_level [OF ok1, of "''a''" "''a''"] memory_bucket.decides [OF ok1, of "''a''"]
    by (simp add: m2_def l)
  then have "0 < until_full l m2 5 ''a''"
    using until_full_later [OF memory_bucket.keeps [OF ok1], of 5 "''a''" "''a''"]
    by (simp add: m2_def duration_defs)
  then have "\<not> fst (attempt l m2 5 ''a'')"
    using memory_bucket.decides [OF ok2, of "''a''"] by (simp add: l)
  then have "\<not> fst (attempt l (left_after (attempt l) zero_memory [(0, ''b''), (1, ''a'')]) 5 ''a'')"
    by (simp add: m1_def m2_def)
  with limiter_refuses_only [OF new, of "[(0, ''b''), (1, ''a'')]" 5 "''a''"] new show ?thesis
    by (simp add: zero_time_def duration_defs)
qed

end
