(* ===== verification/Alerts.thy ===== *)
theory Alerts
  imports Counts Events
begin

text \<open>
  \<open>internal/store/alerts.go\<close>: alert rules, the statement that evaluates one, and the
  firings. Postgres's part, from the statement and the tables of \<open>0002_alerting.sql\<close>, is
  written out over the rows: what the statement selects, the unique index that
  \<open>ON CONFLICT\<close> names, the checks a new rule meets.
\<close>

subsection \<open>Rules and firings\<close>

record new_alert_rule =
  ruTenantID :: bytes
  ruName :: bytes
  ruSource :: "bytes option"
  ruEventType :: "bytes option"
  ruAction :: "bytes option"
  ruSeverityMin :: "int option"
  ruTags :: "bytes list"
  ruGroupBy :: bytes
  ruThreshold :: int
  ruWindowMinutes :: int
  ruCooldownMinutes :: int
  ruWebhookURL :: "bytes option"

record alert_rule = new_alert_rule +
  ruID :: int
  ruCreatedAt :: gotime

text \<open>A row of the table \<open>alerts\<close>, and \<open>Alert\<close>, with the name and grouping of its rule.\<close>

record stored_alert =
  alID :: int
  alRuleID :: int
  alTenantID :: bytes
  alGroupKey :: bytes
  alWindowStart :: gotime
  alWindowEnd :: gotime
  alMatched :: int
  alCreatedAt :: gotime

record alert = stored_alert +
  alRuleName :: bytes
  alGroupBy :: bytes

definition GroupBy :: "bytes list" where
  "GroupBy = [''src_ip'', ''dst_ip'', ''user'', ''host'']"

subsection \<open>The statement of an evaluation\<close>

datatype alert_cond = EventCond cond | SourceIs nat | KeyNotNull

type_synonym alert_clause = "alert_cond list \<times> arg list"

fun alert_cond_text :: "bytes \<Rightarrow> alert_cond \<Rightarrow> bytes" where
  "alert_cond_text column (EventCond c) = cond_text c"
| "alert_cond_text column (SourceIs n) = ''source = '' @ placeholder n"
| "alert_cond_text column KeyNotNull = column @ '' IS NOT NULL''"

definition add_alert_cond :: "bool \<Rightarrow> (nat \<Rightarrow> alert_cond) \<Rightarrow> arg \<Rightarrow> alert_clause \<Rightarrow> alert_clause" where
  "add_alert_cond b k v cl =
     (if b then (fst cl @ [k (length (snd cl) + 1)], snd cl @ [v]) else cl)"

definition some_text :: "bytes option \<Rightarrow> arg" where
  "some_text v = AText (case v of Some s \<Rightarrow> s | None \<Rightarrow> [])"

text \<open>
  The statement (\<open>quoted\<close> is \<open>%q\<close>): its conditions, the column and text of the group, all parameters and the
  numbers of those at its end. Parameters 1 to 4 are the rule, the tenant and the window.
\<close>

record evaluation_sql =
  evConds :: "alert_cond list"
  evGroup :: "bytes \<times> bytes"
  evArgs :: "arg list"
  evThreshold :: nat
  evCutoff :: nat
  evName :: nat
  evGroupBy :: nat

definition rule_window :: "alert_rule \<Rightarrow> duration" where
  "rule_window rule = ruWindowMinutes rule * minute"

definition rule_cooldown :: "alert_rule \<Rightarrow> duration" where
  "rule_cooldown rule = ruCooldownMinutes rule * minute"

definition rule_clause :: "alert_rule \<Rightarrow> gotime \<Rightarrow> alert_clause" where
  "rule_clause rule stop =
     (let cl = ([EventCond (TenantIs 2), EventCond (TsFrom 3), EventCond (TsBefore 4), KeyNotNull],
                [AInt (ruID rule), AText (ruTenantID rule), ATime (stop - rule_window rule), ATime stop]);
          cl = add_alert_cond (ruSource rule \<noteq> None) SourceIs (some_text (ruSource rule)) cl;
          cl = add_alert_cond (ruEventType rule \<noteq> None) (EventCond \<circ> EventTypeIs) (some_text (ruEventType rule)) cl;
          cl = add_alert_cond (ruAction rule \<noteq> None) (EventCond \<circ> ActionIs) (some_text (ruAction rule)) cl;
          cl = add_alert_cond (ruSeverityMin rule \<noteq> None) (EventCond \<circ> SeverityFrom) (the_int (ruSeverityMin rule)) cl;
          cl = add_alert_cond (ruTags rule \<noteq> []) (EventCond \<circ> HasTags) (ATexts (ruTags rule)) cl
      in cl)"

definition evaluation :: "(bytes \<Rightarrow> bytes) \<Rightarrow> alert_rule \<Rightarrow> gotime \<Rightarrow> go_error + evaluation_sql" where
  "evaluation quoted rule stop =
     (case fieldColumns (ruGroupBy rule) of
        None \<Rightarrow> Inl (With (Internal (''alert rule groups by unknown '' @ quoted (ruGroupBy rule)))
                 [LogString ''rule_id'', LogOther (itoa (ruID rule))])
      | Some grp \<Rightarrow>
          if ruGroupBy rule \<notin> set GroupBy
          then Inl (With (Internal (''alert rule groups by unknown '' @ quoted (ruGroupBy rule)))
                 [LogString ''rule_id'', LogOther (itoa (ruID rule))])
          else
            (let (conds, args) = rule_clause rule stop; n = length args in
             Inr \<lparr>evConds = conds, evGroup = grp,
               evArgs = args @ [AInt (ruThreshold rule), ATime (stop - rule_cooldown rule),
                  AText (ruName rule), AText (ruGroupBy rule)],
               evThreshold = n + 1, evCutoff = n + 2, evName = n + 3, evGroupBy = n + 4\<rparr>))"

definition evaluation_text :: "evaluation_sql \<Rightarrow> bytes" where
  "evaluation_text st =
     ''WITH counted AS ('' @ [LF]
     @ ''  SELECT '' @ snd (evGroup st) @ '' AS group_key, count(*) AS matched'' @ [LF]
     @ ''  FROM events'' @ [LF]
     @ ''  WHERE '' @ join_bytes ([LF] @ ''    AND '') (map (alert_cond_text (fst (evGroup st))) (evConds st)) @ [LF]
     @ ''  GROUP BY '' @ fst (evGroup st) @ [LF]
     @ ''  HAVING count(*) >= '' @ placeholder (evThreshold st) @ [LF]
     @ '')'' @ [LF]
     @ ''INSERT INTO alerts (rule_id, tenant_id, group_key, window_start, window_end, matched)'' @ [LF]
     @ ''SELECT '' @ placeholder 1 @ ''::bigint, '' @ placeholder 2 @ ''::text, c.group_key, ''
     @ placeholder 3 @ ''::timestamptz, '' @ placeholder 4 @ ''::timestamptz, c.matched'' @ [LF]
     @ ''FROM counted c'' @ [LF]
     @ ''WHERE NOT EXISTS ('' @ [LF]
     @ ''  SELECT FROM alerts a'' @ [LF]
     @ ''  WHERE a.rule_id = '' @ placeholder 1 @ [LF]
     @ ''    AND a.group_key = c.group_key'' @ [LF]
     @ ''    AND a.window_end > '' @ placeholder (evCutoff st) @ [LF]
     @ '')'' @ [LF]
     @ ''ORDER BY c.group_key'' @ [LF]
     @ ''ON CONFLICT (rule_id, group_key, window_start) DO NOTHING'' @ [LF]
     @ ''RETURNING id, rule_id, '' @ placeholder (evName st) @ ''::text AS rule_name, ''
     @ placeholder (evGroupBy st) @ ''::text AS group_by,'' @ [LF]
     @ ''  tenant_id, group_key, window_start, window_end, matched, created_at''"

subsection \<open>What the statement does\<close>

text \<open>A row with the column of \<open>events\<close> that only alerts look at.\<close>

record event_row = row +
  rDstIP :: "addr option"

datatype group_value = GAddr addr | GText bytes

definition column_value :: "bytes \<Rightarrow> event_row \<Rightarrow> group_value option" where
  "column_value column r =
     (if column = ''src_ip'' then map_option GAddr (rSrcIP r)
      else if column = ''dst_ip'' then map_option GAddr (rDstIP r)
      else if column = ''user_name'' then map_option GText (rUser r)
      else if column = ''host'' then map_option GText (rHost r)
      else None)"

text \<open>The text of a group; \<open>host\<close> is Postgres's function of that name.\<close>

fun group_text :: "(addr \<Rightarrow> bytes) \<Rightarrow> group_value \<Rightarrow> bytes" where
  "group_text host (GAddr a) = host a"
| "group_text host (GText s) = s"

fun alert_cond_holds :: "(int \<Rightarrow> int) \<Rightarrow> arg list \<Rightarrow> bytes \<Rightarrow> event_row \<Rightarrow> alert_cond \<Rightarrow> bool" where
  "alert_cond_holds lw args column r (EventCond c) = cond_holds lw args (row.truncate r) c"
| "alert_cond_holds lw args column r (SourceIs n) = (arg_at args n = Some (AText (rSource r)))"
| "alert_cond_holds lw args column r KeyNotNull = (column_value column r \<noteq> None)"

definition int_at :: "arg list \<Rightarrow> nat \<Rightarrow> int" where
  "int_at args n = (case arg_at args n of Some (AInt k) \<Rightarrow> k | _ \<Rightarrow> 0)"

definition time_at :: "arg list \<Rightarrow> nat \<Rightarrow> gotime" where
  "time_at args n = (case arg_at args n of Some (ATime t) \<Rightarrow> t | _ \<Rightarrow> 0)"

definition text_at :: "arg list \<Rightarrow> nat \<Rightarrow> bytes" where
  "text_at args n = (case arg_at args n of Some (AText s) \<Rightarrow> s | _ \<Rightarrow> [])"

text \<open>The common table \<open>counted\<close>: the groups of the rows selected, with their counts.\<close>

definition counted :: "(int \<Rightarrow> int) \<Rightarrow> (addr \<Rightarrow> bytes) \<Rightarrow> evaluation_sql \<Rightarrow> event_row list \<Rightarrow> (bytes \<times> int) list" where
  "counted lw host st rows =
     (let column = fst (evGroup st);
          selected = filter (\<lambda>r. \<forall>c \<in> set (evConds st). alert_cond_holds lw (evArgs st) column r c) rows;
          groups = remdups (map (column_value column) selected);
          counts = map (\<lambda>g. (g, int (length (filter (\<lambda>r. column_value column r = g) selected)))) groups in
      map (\<lambda>(g, n). (case g of Some v \<Rightarrow> group_text host v | None \<Rightarrow> [], n))
        (filter (\<lambda>(g, n). int_at (evArgs st) (evThreshold st) \<le> n) counts))"

text \<open>
  The tables: \<open>next\<close> numbers the firings, and \<open>now()\<close> is the transaction's time. \<open>dbCollate\<close> is the
  sort key of a text in the collation the database was made with, which orders every ORDER BY
  that names no other.
\<close>

record alerts_db =
  adTenants :: "bytes list"
  adEvents :: "event_row list"
  dbRules :: "alert_rule list"
  dbAlerts :: "stored_alert list"
  dbNextRule :: int
  dbNextAlert :: int
  dbNow :: gotime
  dbCollate :: "bytes \<Rightarrow> bytes"

definition recent :: "evaluation_sql \<Rightarrow> scope \<Rightarrow> alerts_db \<Rightarrow> bytes \<Rightarrow> bool" where
  "recent st sc db key \<longleftrightarrow>
     (\<exists>a \<in> set (dbAlerts db). visible sc (alTenantID a) \<and> alRuleID a = int_at (evArgs st) 1
        \<and> alGroupKey a = key \<and> time_at (evArgs st) (evCutoff st) < alWindowEnd a)"

text \<open>
  One row to insert. The unique index sees every row, whatever row-level security hides.
  A conflict uses up a number of the sequence as well.
\<close>

definition insert_alert ::
  "evaluation_sql \<Rightarrow> bytes \<times> int \<Rightarrow> alert list \<times> alerts_db \<Rightarrow> alert list \<times> alerts_db" where
  "insert_alert st grp acc =
     (case (grp, acc) of ((key, matched), (fired, db)) \<Rightarrow>
        (let args = evArgs st;
             a = \<lparr>alID = dbNextAlert db, alRuleID = int_at args 1, alTenantID = text_at args 2, alGroupKey = key,
                  alWindowStart = time_at args 3, alWindowEnd = time_at args 4, alMatched = matched,
                  alCreatedAt = dbNow db\<rparr>;
             db' = db\<lparr>dbNextAlert := dbNextAlert db + 1\<rparr> in
         if \<exists>b \<in> set (dbAlerts db). alRuleID b = alRuleID a \<and> alGroupKey b = alGroupKey a
              \<and> alWindowStart b = alWindowStart a
         then (fired, db')
         else (fired @ [stored_alert.extend a \<lparr>alRuleName = text_at args (evName st), alGroupBy = text_at args (evGroupBy st)\<rparr>],
               db'\<lparr>dbAlerts := dbAlerts db @ [a]\<rparr>)))"

definition run_evaluation ::
  "(int \<Rightarrow> int) \<Rightarrow> (addr \<Rightarrow> bytes) \<Rightarrow> evaluation_sql \<Rightarrow> scope \<Rightarrow> alerts_db \<Rightarrow> alert list \<times> alerts_db" where
  "run_evaluation lw host st sc db =
     fold (insert_alert st)
       (sort_key (dbCollate db \<circ> fst) (filter (\<lambda>(key, n). \<not> recent st sc db key)
          (counted lw host st (filter (\<lambda>r. visible sc (rTenant r)) (adEvents db)))))
       ([], db)"

subsection \<open>The repository\<close>

definition Evaluate ::
  "(bytes \<Rightarrow> bytes) \<Rightarrow> (int \<Rightarrow> int) \<Rightarrow> (addr \<Rightarrow> bytes) \<Rightarrow> failures \<Rightarrow> alert_rule \<Rightarrow> gotime
   \<Rightarrow> (alerts_db, alert list) db_op" where
  "Evaluate quoted lw host fails rule stop s =
     (case evaluation quoted rule stop of
        Inl e \<Rightarrow> (Inl e, s)
      | Inr st \<Rightarrow>
          InScope fails \<lparr>scope_TenantID = ruTenantID rule, scope_Admin = False\<rparr>
            (db_bind (map_error (\<lambda>e. Wrap e ''cannot set evaluation timeout'')
                (statement fails (\<lambda>s. Inr ((), sData s))))
              (\<lambda>_. map_error (\<lambda>e. With (Wrap e ''cannot evaluate alert rule'')
                      [LogString ''rule_id'', LogOther (itoa (ruID rule))])
                (statement fails (\<lambda>s. Inr (run_evaluation lw host st (sScope s) (sData s)))))) s)"

text \<open>
  \<open>CreateRule\<close>: row-level security, the columns' checks and the foreign key, in the order
  Postgres looks at them; \<open>refuse\<close> is what it makes of a value it cannot store at all. The
  gaps that failed statements leave in a sequence are not kept.
\<close>

definition rule_check :: "'a new_alert_rule_scheme \<Rightarrow> bool" where
  "rule_check p \<longleftrightarrow> ruName p \<noteq> []
     \<and> (case ruSource p of None \<Rightarrow> True
        | Some s \<Rightarrow> s \<in> {''firewall'', ''network'', ''crowdstrike'', ''aws'', ''m365'', ''ad'', ''api''})
     \<and> (case ruSeverityMin p of None \<Rightarrow> True | Some n \<Rightarrow> 0 \<le> n \<and> n \<le> 10)
     \<and> ruGroupBy p \<in> {''src_ip'', ''dst_ip'', ''user'', ''host''}
     \<and> 1 \<le> ruThreshold p
     \<and> 1 \<le> ruWindowMinutes p \<and> ruWindowMinutes p \<le> 1440
     \<and> 0 \<le> ruCooldownMinutes p \<and> ruCooldownMinutes p \<le> 10080"

definition insert_rule ::
  "(new_alert_rule \<Rightarrow> go_error option) \<Rightarrow> new_alert_rule \<Rightarrow> scope \<Rightarrow> alerts_db \<Rightarrow> go_error + alert_rule \<times> alerts_db" where
  "insert_rule refuse p sc db =
     (case refuse p of
        Some e \<Rightarrow> Inl e
      | None \<Rightarrow>
          if \<not> visible sc (ruTenantID p)
          then Inl (PgError ''42501'' ''new row violates row-level security policy'')
          else if \<not> rule_check p then Inl (PgError ''23514'' ''new row violates check constraint'')
          else if ruTenantID p \<notin> set (adTenants db) then Inl (PgError ''23503'' ''insert violates foreign key constraint'')
          else
            (let rule = new_alert_rule.extend p \<lparr>ruID = dbNextRule db, ruCreatedAt = dbNow db\<rparr> in
             Inr (rule, db\<lparr>dbRules := dbRules db @ [rule], dbNextRule := dbNextRule db + 1\<rparr>)))"

definition CreateRule ::
  "(bytes \<Rightarrow> bytes) \<Rightarrow> failures \<Rightarrow> (new_alert_rule \<Rightarrow> go_error option) \<Rightarrow> scope \<Rightarrow> new_alert_rule
   \<Rightarrow> (alerts_db, alert_rule) db_op" where
  "CreateRule quoted fails refuse sc p =
     InScope fails sc
       (map_error (\<lambda>e. if pg_code e = Some ''23503'' then unknownTenant quoted (ruTenantID p)
                       else Wrap e ''cannot create alert rule'')
          (statement fails (\<lambda>s. insert_rule refuse p (sScope s) (sData s))))"

text \<open>The queries that list rules and firings, over the rows row-level security shows.\<close>

definition ListAlertRules :: "scope \<Rightarrow> alerts_db \<Rightarrow> alert_rule list" where
  "ListAlertRules sc db = sort_key ruID (filter (\<lambda>r. visible sc (ruTenantID r)) (dbRules db))"

definition ListTenantAlertRules :: "bytes \<Rightarrow> scope \<Rightarrow> alerts_db \<Rightarrow> alert_rule list" where
  "ListTenantAlertRules tenant sc db =
     sort_key ruID (filter (\<lambda>r. visible sc (ruTenantID r) \<and> ruTenantID r = tenant) (dbRules db))"

text \<open>The join of a firing with its rule, which row-level security may hide too.\<close>

definition join_rule :: "scope \<Rightarrow> alerts_db \<Rightarrow> stored_alert \<Rightarrow> alert list" where
  "join_rule sc db a =
     map (\<lambda>r. stored_alert.extend a \<lparr>alRuleName = ruName r, alGroupBy = ruGroupBy r\<rparr>)
       (filter (\<lambda>r. ruID r = alRuleID a \<and> visible sc (ruTenantID r)) (dbRules db))"

definition q_ListAlerts :: "int \<Rightarrow> scope \<Rightarrow> alerts_db \<Rightarrow> alert list" where
  "q_ListAlerts maxRows sc db =
     take (nat maxRows) (concat (map (join_rule sc db)
       (rev (sort_key alID (filter (\<lambda>a. visible sc (alTenantID a)) (dbAlerts db))))))"

definition q_ListTenantAlerts :: "bytes \<Rightarrow> int \<Rightarrow> scope \<Rightarrow> alerts_db \<Rightarrow> alert list" where
  "q_ListTenantAlerts tenant maxRows sc db =
     take (nat maxRows) (concat (map (join_rule sc db)
       (rev (sort_key alID (filter (\<lambda>a. visible sc (alTenantID a) \<and> alTenantID a = tenant) (dbAlerts db))))))"

definition ListRules :: "failures \<Rightarrow> scope \<Rightarrow> bytes \<Rightarrow> (alerts_db, alert_rule list) db_op" where
  "ListRules fails sc tenant =
     InScope fails sc
       (map_error (\<lambda>e. Wrap e ''cannot list alert rules'')
          (if tenant = [] then statement fails (\<lambda>s. Inr (ListAlertRules (sScope s) (sData s), sData s))
           else statement fails (\<lambda>s. Inr (ListTenantAlertRules tenant (sScope s) (sData s), sData s))))"

definition ListAlerts :: "failures \<Rightarrow> scope \<Rightarrow> bytes \<Rightarrow> int \<Rightarrow> (alerts_db, alert list) db_op" where
  "ListAlerts fails sc tenant limit =
     InScope fails sc
       (map_error (\<lambda>e. Wrap e ''cannot list alerts'')
          (if tenant = [] then statement fails (\<lambda>s. Inr (q_ListAlerts limit (sScope s) (sData s), sData s))
           else statement fails (\<lambda>s. Inr (q_ListTenantAlerts tenant limit (sScope s) (sData s), sData s))))"

text \<open>\<open>TenantRepo.ListIDs\<close>, over the same tables: outside any transaction, its error as it is.\<close>

definition ListIDs :: "failures \<Rightarrow> (alerts_db, bytes list) db_op" where
  "ListIDs fails = statement fails (\<lambda>s. Inr (sort_key (dbCollate (sData s)) (adTenants (sData s)), sData s))"

subsection \<open>The meaning of a rule\<close>

definition rule_matches :: "alert_rule \<Rightarrow> gotime \<Rightarrow> event_row \<Rightarrow> bool" where
  "rule_matches rule stop r \<longleftrightarrow>
     rTenant r = ruTenantID rule \<and> stop - rule_window rule \<le> rTs r \<and> rTs r < stop
     \<and> (case ruSource rule of None \<Rightarrow> True | Some x \<Rightarrow> rSource r = x)
     \<and> (case ruEventType rule of None \<Rightarrow> True | Some x \<Rightarrow> rEventType r = Some x)
     \<and> (case ruAction rule of None \<Rightarrow> True | Some x \<Rightarrow> rAction r = Some x)
     \<and> (case ruSeverityMin rule of None \<Rightarrow> True | Some k \<Rightarrow> \<exists>v. rSeverity r = Some v \<and> k \<le> v)
     \<and> set (ruTags rule) \<subseteq> set (rTags r)"

text \<open>The group of an event: what the rule groups by, as the text of the API.\<close>

definition rule_key :: "(addr \<Rightarrow> bytes) \<Rightarrow> alert_rule \<Rightarrow> event_row \<Rightarrow> bytes option" where
  "rule_key host rule r =
     (if ruGroupBy rule = ''src_ip'' then map_option host (rSrcIP r)
      else if ruGroupBy rule = ''dst_ip'' then map_option host (rDstIP r)
      else if ruGroupBy rule = ''user'' then rUser r
      else rHost r)"

text \<open>A conjunction of conditions, whatever parameters come after theirs.\<close>

definition alert_means :: "(int \<Rightarrow> int) \<Rightarrow> bytes \<Rightarrow> event_row \<Rightarrow> alert_clause \<Rightarrow> bool \<Rightarrow> bool" where
  "alert_means lw column r cl P \<longleftrightarrow>
     (\<forall>later. (\<forall>c \<in> set (fst cl). alert_cond_holds lw (snd cl @ later) column r c) = P)"

lemma alert_means_add:
  assumes "alert_means lw column r cl P"
    and "\<And>args n. b \<Longrightarrow> arg_at args n = Some v \<Longrightarrow> alert_cond_holds lw args column r (k n) = Q"
  shows "alert_means lw column r (add_alert_cond b k v cl) (P \<and> (b \<longrightarrow> Q))"
proof -
  have "alert_cond_holds lw (snd cl @ v # later) column r (k (Suc (length (snd cl)))) = Q" if b for later
    using that by (rule assms(2)) (simp add: arg_at_def)
  then show ?thesis
    using assms(1) by (auto simp: alert_means_def add_alert_cond_def)
qed

lemma rule_clause_means:
  "alert_means lw column r (rule_clause rule stop) (rule_matches rule stop r \<and> column_value column r \<noteq> None)"
proof -
  have "alert_means lw column r (rule_clause rule stop)
     ((((((rTenant r = ruTenantID rule \<and> stop - rule_window rule \<le> rTs r \<and> rTs r < stop \<and> column_value column r \<noteq> None)
       \<and> (ruSource rule \<noteq> None \<longrightarrow> rSource r = the (ruSource rule)))
       \<and> (ruEventType rule \<noteq> None \<longrightarrow> rEventType r = ruEventType rule))
       \<and> (ruAction rule \<noteq> None \<longrightarrow> rAction r = ruAction rule))
       \<and> (ruSeverityMin rule \<noteq> None \<longrightarrow> (\<exists>v. rSeverity r = Some v \<and> the (ruSeverityMin rule) \<le> v)))
       \<and> (ruTags rule \<noteq> [] \<longrightarrow> set (ruTags rule) \<subseteq> set (rTags r)))"
    unfolding rule_clause_def Let_def
    by (intro alert_means_add)
       (auto simp: alert_means_def arg_at_def row.truncate_def some_text_def the_int_def)
  also have "?this \<longleftrightarrow> ?thesis"
    by (rule arg_cong [of _ _ "alert_means lw column r (rule_clause rule stop)"])
       (auto simp: rule_matches_def split: option.splits)
  finally show ?thesis .
qed

subsection \<open>The parameters of an evaluation\<close>

definition evaluates :: "alert_rule \<Rightarrow> gotime \<Rightarrow> evaluation_sql \<Rightarrow> bool" where
  "evaluates rule stop st \<longleftrightarrow>
     evConds st = fst (rule_clause rule stop) \<and> fieldColumns (ruGroupBy rule) = Some (evGroup st)
     \<and> ruGroupBy rule \<in> set GroupBy
     \<and> (\<exists>later. evArgs st = snd (rule_clause rule stop) @ later)
     \<and> int_at (evArgs st) 1 = ruID rule \<and> text_at (evArgs st) 2 = ruTenantID rule
     \<and> time_at (evArgs st) 3 = stop - rule_window rule \<and> time_at (evArgs st) 4 = stop
     \<and> int_at (evArgs st) (evThreshold st) = ruThreshold rule
     \<and> time_at (evArgs st) (evCutoff st) = stop - rule_cooldown rule
     \<and> text_at (evArgs st) (evName st) = ruName rule
     \<and> text_at (evArgs st) (evGroupBy st) = ruGroupBy rule"

lemma rule_clause_args:
  "\<exists>xs. snd (rule_clause rule stop) =
     [AInt (ruID rule), AText (ruTenantID rule), ATime (stop - rule_window rule), ATime stop] @ xs"
  by (simp add: rule_clause_def add_alert_cond_def Let_def)

lemma evaluation_Inr:
  assumes "ruGroupBy rule \<in> set GroupBy"
  shows "\<exists>st. evaluation quoted rule stop = Inr st \<and> evaluates rule stop st"
proof -
  obtain grp where grp: "fieldColumns (ruGroupBy rule) = Some grp"
    using assms by (auto simp: GroupBy_def fieldColumns_def)
  obtain xs where xs: "snd (rule_clause rule stop) =
     [AInt (ruID rule), AText (ruTenantID rule), ATime (stop - rule_window rule), ATime stop] @ xs"
    using rule_clause_args by blast
  define n where "n = length (snd (rule_clause rule stop))"
  define st where "st = \<lparr>evConds = fst (rule_clause rule stop), evGroup = grp,
     evArgs = snd (rule_clause rule stop) @ [AInt (ruThreshold rule), ATime (stop - rule_cooldown rule),
       AText (ruName rule), AText (ruGroupBy rule)],
     evThreshold = n + 1, evCutoff = n + 2, evName = n + 3, evGroupBy = n + 4\<rparr>"
  have "arg_at (evArgs st) (n + 1) = Some (AInt (ruThreshold rule))"
    "arg_at (evArgs st) (n + 2) = Some (ATime (stop - rule_cooldown rule))"
    "arg_at (evArgs st) (n + 3) = Some (AText (ruName rule))"
    "arg_at (evArgs st) (n + 4) = Some (AText (ruGroupBy rule))"
    by (simp_all add: st_def n_def arg_at_def nth_append numeral_eq_Suc)
  moreover have "arg_at (evArgs st) 1 = Some (AInt (ruID rule))"
    "arg_at (evArgs st) 2 = Some (AText (ruTenantID rule))"
    "arg_at (evArgs st) 3 = Some (ATime (stop - rule_window rule))"
    "arg_at (evArgs st) 4 = Some (ATime stop)"
    by (simp_all add: st_def xs arg_at_def numeral_eq_Suc)
  moreover have "evThreshold st = n + 1" "evCutoff st = n + 2" "evName st = n + 3" "evGroupBy st = n + 4"
    "evConds st = fst (rule_clause rule stop)" "evGroup st = grp"
    "\<exists>later. evArgs st = snd (rule_clause rule stop) @ later"
    by (simp_all add: st_def)
  ultimately have "evaluates rule stop st"
    using assms grp by (simp add: evaluates_def int_at_def text_at_def time_at_def)
  moreover have "evaluation quoted rule stop = Inr st"
    using assms grp by (simp add: evaluation_def st_def n_def split_beta Let_def)
  ultimately show ?thesis by blast
qed

subsection \<open>The groups counted\<close>

lemma evaluates_column:
  assumes "evaluates rule stop st"
  shows "(ruGroupBy rule, fst (evGroup st)) \<in>
    {(''src_ip'', ''src_ip''), (''dst_ip'', ''dst_ip''), (''user'', ''user_name''), (''host'', ''host'')}"
proof -
  from assms have "fieldColumns (ruGroupBy rule) = Some (evGroup st)" "ruGroupBy rule \<in> set GroupBy"
    by (simp_all add: evaluates_def)
  then show ?thesis by (cases "evGroup st") (auto simp: GroupBy_def fieldColumns_def)
qed

lemma column_text:
  "evaluates rule stop st \<Longrightarrow> map_option (group_text host) (column_value (fst (evGroup st)) r) = rule_key host rule r"
  by (drule evaluates_column)
     (auto simp: column_value_def rule_key_def option.map_comp o_def option.map_ident)

lemma column_inj:
  assumes "inj host" and "evaluates rule stop st" and "rule_key host rule r = rule_key host rule r'"
  shows "column_value (fst (evGroup st)) r = column_value (fst (evGroup st)) r'"
proof -
  have "map_option host a = map_option host b \<longleftrightarrow> a = b" for a b
    using option.inj_map [OF assms(1)] by (simp add: inj_eq)
  then show ?thesis
    using evaluates_column [OF assms(2)] assms(3)
    by (elim insertE) (simp_all add: column_value_def rule_key_def)
qed

lemma evaluates_selects:
  assumes "evaluates rule stop st"
  shows "(\<forall>c \<in> set (evConds st). alert_cond_holds lw (evArgs st) column r c) \<longleftrightarrow>
      rule_matches rule stop r \<and> column_value column r \<noteq> None"
proof -
  from assms obtain later where "evConds st = fst (rule_clause rule stop)"
    "evArgs st = snd (rule_clause rule stop) @ later"
    by (auto simp: evaluates_def)
  then show ?thesis
    using rule_clause_means [of lw column r rule stop] by (simp only: alert_means_def)
qed

definition key_count :: "(addr \<Rightarrow> bytes) \<Rightarrow> alert_rule \<Rightarrow> gotime \<Rightarrow> event_row list \<Rightarrow> bytes \<Rightarrow> int" where
  "key_count host rule stop rows key =
     int (length (filter (\<lambda>r. rule_matches rule stop r \<and> rule_key host rule r = Some key) rows))"

lemma counted_groups:
  assumes "inj host" and st: "evaluates rule stop st"
  shows "distinct (map fst (counted lw host st rows)) \<and>
    (\<forall>key n. (key, n) \<in> set (counted lw host st rows) \<longleftrightarrow>
       n = key_count host rule stop rows key \<and> 0 < n \<and> ruThreshold rule \<le> n)"
proof -
  let ?col = "fst (evGroup st)"
  define f where "f g = (case g of Some v \<Rightarrow> group_text host v | None \<Rightarrow> [])" for g
  define sel where "sel = filter (\<lambda>r. rule_matches rule stop r \<and> column_value ?col r \<noteq> None) rows"
  define G where "G = remdups (map (column_value ?col) sel)"
  define cnt where "cnt g = int (length (filter (\<lambda>r. column_value ?col r = g) sel))" for g
  have thr: "int_at (evArgs st) (evThreshold st) = ruThreshold rule"
    using st by (simp add: evaluates_def)
  have "counted lw host st rows = map (\<lambda>(g, n). (f g, n)) (filter (\<lambda>(g, n). ruThreshold rule \<le> n) (map (\<lambda>g. (g, cnt g)) G))"
    unfolding counted_def Let_def evaluates_selects [OF st] thr sel_def [symmetric] G_def [symmetric]
      cnt_def f_def by simp
  then have eq: "counted lw host st rows = map (\<lambda>g. (f g, cnt g)) (filter (\<lambda>g. ruThreshold rule \<le> cnt g) G)"
    by (simp add: filter_map o_def)
  have key: "f (column_value ?col r) = key \<and> column_value ?col r \<noteq> None \<longleftrightarrow> rule_key host rule r = Some key" for r key
    using column_text [OF st, of host r] by (auto simp: f_def split: option.splits)
  have count: "cnt (column_value ?col r) = key_count host rule stop rows (f (column_value ?col r))"
    if "r \<in> set sel" for r
  proof -
    have kr: "rule_key host rule r = Some (f (column_value ?col r))"
      using that key [of r "f (column_value ?col r)"] by (simp add: sel_def)
    have same: "column_value ?col r' \<noteq> None \<and> column_value ?col r' = column_value ?col r
        \<longleftrightarrow> rule_key host rule r' = Some (f (column_value ?col r))" for r'
      using column_inj [OF assms, of r' r] key [of r' "f (column_value ?col r)"] kr by auto
    have "filter (\<lambda>r'. column_value ?col r' = column_value ?col r) sel =
        filter (\<lambda>r'. rule_matches rule stop r' \<and> rule_key host rule r' = Some (f (column_value ?col r))) rows"
      unfolding sel_def filter_filter same [symmetric] by (intro filter_cong) auto
    then show ?thesis by (simp add: cnt_def key_count_def)
  qed
  have skey: "rule_key host rule r = Some key \<longleftrightarrow> key = f (column_value ?col r)" if "r \<in> set sel" for r key
    using that key [of r key] by (auto simp: sel_def)
  have inj: "inj_on f (set G)"
  proof (rule inj_onI)
    fix g g' assume "g \<in> set G" "g' \<in> set G" "f g = f g'"
    then obtain r r' where "r \<in> set sel" "g = column_value ?col r" "r' \<in> set sel" "g' = column_value ?col r'"
      by (auto simp: G_def)
    with \<open>f g = f g'\<close> show "g = g'"
      using column_inj [OF assms, of r r'] key [of r "f g"] key [of r' "f g"] by (auto simp: sel_def)
  qed
  have "distinct (map fst (counted lw host st rows))"
    using inj by (auto simp: eq o_def distinct_map G_def inj_on_def)
  moreover have "(key, n) \<in> set (counted lw host st rows) \<longleftrightarrow>
      n = key_count host rule stop rows key \<and> 0 < n \<and> ruThreshold rule \<le> n" for key n
  proof -
    have "(key, n) \<in> set (counted lw host st rows) \<longleftrightarrow>
        (\<exists>r \<in> set sel. key = f (column_value ?col r) \<and> n = cnt (column_value ?col r) \<and> ruThreshold rule \<le> n)"
      by (auto simp: eq G_def)
    also have "\<dots> \<longleftrightarrow> (\<exists>r \<in> set sel. rule_key host rule r = Some key) \<and> n = key_count host rule stop rows key \<and> ruThreshold rule \<le> n"
      using skey count by auto
    also have "(\<exists>r \<in> set sel. rule_key host rule r = Some key) \<longleftrightarrow> 0 < key_count host rule stop rows key"
    proof -
      have "\<exists>y. column_value ?col r = Some y" if "rule_key host rule r = Some key" for r
        using that key [of r key] by auto
      then show ?thesis by (auto simp: sel_def key_count_def filter_empty_conv)
    qed
    finally show ?thesis by blast
  qed
  ultimately show ?thesis by blast
qed

subsection \<open>What an evaluation records\<close>

text \<open>A firing of a statement, and whether the unique index stops one.\<close>

definition fired_by :: "evaluation_sql \<Rightarrow> alert \<Rightarrow> bool" where
  "fired_by st a \<longleftrightarrow>
     alRuleID a = int_at (evArgs st) 1 \<and> alTenantID a = text_at (evArgs st) 2
     \<and> alWindowStart a = time_at (evArgs st) 3 \<and> alWindowEnd a = time_at (evArgs st) 4
     \<and> alRuleName a = text_at (evArgs st) (evName st) \<and> alGroupBy a = text_at (evArgs st) (evGroupBy st)"

definition conflicts :: "evaluation_sql \<Rightarrow> stored_alert list \<Rightarrow> bytes \<Rightarrow> bool" where
  "conflicts st alerts key \<longleftrightarrow>
     (\<exists>b \<in> set alerts. alRuleID b = int_at (evArgs st) 1 \<and> alGroupKey b = key
        \<and> alWindowStart b = time_at (evArgs st) 3)"

definition alerts_added :: "alerts_db \<Rightarrow> alert list \<Rightarrow> alerts_db \<Rightarrow> bool" where
  "alerts_added db new db' \<longleftrightarrow>
     dbAlerts db' = dbAlerts db @ map stored_alert.truncate new
     \<and> adTenants db' = adTenants db \<and> adEvents db' = adEvents db \<and> dbRules db' = dbRules db
     \<and> dbNextRule db' = dbNextRule db \<and> dbNow db' = dbNow db \<and> dbNextAlert db \<le> dbNextAlert db'
     \<and> (\<forall>a \<in> set new. dbNextAlert db \<le> alID a \<and> alID a < dbNextAlert db' \<and> alCreatedAt a = dbNow db)
     \<and> sorted_wrt (<) (map alID new)"

lemma alerts_added_step:
  assumes "alerts_added (db\<lparr>dbNextAlert := dbNextAlert db + 1, dbAlerts := dbAlerts db @ [stored_alert.truncate a]\<rparr>) new db'"
    and "alID a = dbNextAlert db" and "alCreatedAt a = dbNow db"
  shows "alerts_added db (a # new) db'"
  using assms by (auto simp: alerts_added_def)

lemma fold_insert_alert:
  assumes "distinct (map fst gs)"
  shows "\<exists>new db'. fold (insert_alert st) gs (fired, db) = (fired @ new, db') \<and> alerts_added db new db'
    \<and> (\<forall>a \<in> set new. fired_by st a)
    \<and> map (\<lambda>a. (alGroupKey a, alMatched a)) new = filter (\<lambda>(key, n). \<not> conflicts st (dbAlerts db) key) gs"
  using assms
proof (induction gs arbitrary: fired db)
  case Nil
  show ?case by (auto simp: alerts_added_def)
next
  case (Cons g gs)
  obtain key n where g: "g = (key, n)" by (cases g)
  show ?case
  proof (cases "conflicts st (dbAlerts db) key")
    case True
    then have "insert_alert st g (fired, db) = (fired, db\<lparr>dbNextAlert := dbNextAlert db + 1\<rparr>)"
      by (auto simp: insert_alert_def conflicts_def g Let_def)
    moreover have "alerts_added (db\<lparr>dbNextAlert := dbNextAlert db + 1\<rparr>) new db' \<Longrightarrow> alerts_added db new db'" for new db'
      by (auto simp: alerts_added_def)
    ultimately show ?thesis
      using Cons.IH [of fired "db\<lparr>dbNextAlert := dbNextAlert db + 1\<rparr>"] Cons.prems True
      by (fastforce simp: g)
  next
    case False
    define a where "a = \<lparr>alID = dbNextAlert db, alRuleID = int_at (evArgs st) 1, alTenantID = text_at (evArgs st) 2,
       alGroupKey = key, alWindowStart = time_at (evArgs st) 3, alWindowEnd = time_at (evArgs st) 4,
       alMatched = n, alCreatedAt = dbNow db, alRuleName = text_at (evArgs st) (evName st),
       alGroupBy = text_at (evArgs st) (evGroupBy st)\<rparr>"
    define db1 where "db1 = db\<lparr>dbNextAlert := dbNextAlert db + 1, dbAlerts := dbAlerts db @ [stored_alert.truncate a]\<rparr>"
    have step: "insert_alert st g (fired, db) = (fired @ [a], db1)"
      using False by (auto simp: insert_alert_def conflicts_def g Let_def a_def db1_def stored_alert.defs)
    have same: "conflicts st (dbAlerts db1) k \<longleftrightarrow> conflicts st (dbAlerts db) k" if "k \<noteq> key" for k
      using that by (auto simp: conflicts_def db1_def a_def stored_alert.defs)
    obtain new db' where IH: "fold (insert_alert st) gs (fired @ [a], db1) = ((fired @ [a]) @ new, db')"
      "alerts_added db1 new db'" "\<forall>a \<in> set new. fired_by st a"
      "map (\<lambda>a. (alGroupKey a, alMatched a)) new = filter (\<lambda>(key, n). \<not> conflicts st (dbAlerts db1) key) gs"
      using Cons.IH [of "fired @ [a]" db1] Cons.prems by auto
    have "alerts_added db (a # new) db'"
      using IH(2) by (intro alerts_added_step) (simp_all add: db1_def a_def)
    moreover have "fired_by st a" "alGroupKey a = key" "alMatched a = n"
      by (simp_all add: fired_by_def a_def)
    moreover have "filter (\<lambda>(key, n). \<not> conflicts st (dbAlerts db1) key) gs =
        filter (\<lambda>(key, n). \<not> conflicts st (dbAlerts db) key) gs"
      using Cons.prems same by (intro filter_cong) (auto simp: g image_iff)
    ultimately show ?thesis
      using IH step False by (intro exI [of _ "a # new"] exI [of _ db']) (simp add: g)
  qed
qed

text \<open>
  When a group fires: enough events, no firing of the group within the cooldown, and none
  for this window.
\<close>

definition fires :: "(addr \<Rightarrow> bytes) \<Rightarrow> alert_rule \<Rightarrow> gotime \<Rightarrow> alerts_db \<Rightarrow> bytes \<Rightarrow> bool" where
  "fires host rule stop db key \<longleftrightarrow>
     0 < key_count host rule stop (adEvents db) key
     \<and> ruThreshold rule \<le> key_count host rule stop (adEvents db) key
     \<and> (\<forall>a \<in> set (dbAlerts db). alRuleID a = ruID rule \<and> alGroupKey a = key \<longrightarrow>
          alWindowEnd a \<le> stop - rule_cooldown rule \<and> alWindowStart a \<noteq> stop - rule_window rule)"

definition firing_of :: "(addr \<Rightarrow> bytes) \<Rightarrow> alert_rule \<Rightarrow> gotime \<Rightarrow> alerts_db \<Rightarrow> alert \<Rightarrow> bool" where
  "firing_of host rule stop db a \<longleftrightarrow>
     fires host rule stop db (alGroupKey a)
     \<and> alMatched a = key_count host rule stop (adEvents db) (alGroupKey a)
     \<and> alRuleID a = ruID rule \<and> alTenantID a = ruTenantID rule
     \<and> alWindowStart a = stop - rule_window rule \<and> alWindowEnd a = stop
     \<and> alRuleName a = ruName rule \<and> alGroupBy a = ruGroupBy rule"

definition tenant_scope :: "alert_rule \<Rightarrow> scope" where
  "tenant_scope rule = \<lparr>scope_TenantID = ruTenantID rule, scope_Admin = False\<rparr>"

lemma key_count_visible:
  "key_count host rule stop (filter (\<lambda>r. visible (tenant_scope rule) (rTenant r)) rows) key =
   key_count host rule stop rows key"
proof -
  have "filter (\<lambda>r. rule_matches rule stop r \<and> rule_key host rule r = Some key)
      (filter (\<lambda>r. visible (tenant_scope rule) (rTenant r)) rows)
    = filter (\<lambda>r. rule_matches rule stop r \<and> rule_key host rule r = Some key) rows"
    unfolding filter_filter
    by (intro filter_cong) (auto simp: rule_matches_def visible_def tenant_scope_def)
  then show ?thesis by (simp only: key_count_def)
qed

lemma run_evaluation_records:
  assumes "inj host" and st: "evaluates rule stop st"
    and own: "\<forall>a \<in> set (dbAlerts db). alRuleID a = ruID rule \<longrightarrow> alTenantID a = ruTenantID rule"
  shows "\<exists>new db'. run_evaluation lw host st (tenant_scope rule) db = (new, db') \<and> alerts_added db new db'
    \<and> sorted (map (dbCollate db \<circ> alGroupKey) new) \<and> distinct (map alGroupKey new) \<and> (\<forall>a \<in> set new. firing_of host rule stop db a)
    \<and> (\<forall>key. fires host rule stop db key \<longrightarrow> key \<in> alGroupKey ` set new)"
proof -
  define rows where "rows = filter (\<lambda>r. visible (tenant_scope rule) (rTenant r)) (adEvents db)"
  define gs where "gs = sort_key (dbCollate db \<circ> fst) (filter (\<lambda>(key, n). \<not> recent st (tenant_scope rule) db key) (counted lw host st rows))"
  have par: "int_at (evArgs st) 1 = ruID rule" "text_at (evArgs st) 2 = ruTenantID rule"
    "time_at (evArgs st) 3 = stop - rule_window rule" "time_at (evArgs st) 4 = stop"
    "time_at (evArgs st) (evCutoff st) = stop - rule_cooldown rule"
    "text_at (evArgs st) (evName st) = ruName rule" "text_at (evArgs st) (evGroupBy st) = ruGroupBy rule"
    using st by (simp_all add: evaluates_def)
  note groups = counted_groups [OF assms(1,2), of lw rows]
  have count: "key_count host rule stop rows key = key_count host rule stop (adEvents db) key" for key
    by (simp add: rows_def key_count_visible)
  have dist: "distinct (map fst gs)"
    using groups by (simp add: gs_def distinct_map inj_on_def)
  have sorted: "sorted (map (dbCollate db \<circ> fst) gs)" by (simp add: gs_def)
  have fire: "(key, n) \<in> set gs \<and> \<not> conflicts st (dbAlerts db) key \<longleftrightarrow>
      fires host rule stop db key \<and> n = key_count host rule stop (adEvents db) key" for key n
  proof -
    have "recent st (tenant_scope rule) db key \<longleftrightarrow>
        (\<exists>a \<in> set (dbAlerts db). alRuleID a = ruID rule \<and> alGroupKey a = key \<and> stop - rule_cooldown rule < alWindowEnd a)"
      unfolding recent_def par using own by (auto simp: visible_def tenant_scope_def)
    moreover have "conflicts st (dbAlerts db) key \<longleftrightarrow>
        (\<exists>a \<in> set (dbAlerts db). alRuleID a = ruID rule \<and> alGroupKey a = key \<and> alWindowStart a = stop - rule_window rule)"
      by (simp only: conflicts_def par)
    moreover have "(key, n) \<in> set gs \<longleftrightarrow> \<not> recent st (tenant_scope rule) db key
        \<and> n = key_count host rule stop (adEvents db) key \<and> 0 < n \<and> ruThreshold rule \<le> n"
      using groups count by (auto simp: gs_def)
    ultimately show ?thesis by (auto simp: fires_def not_less)
  qed
  obtain new db' where run: "fold (insert_alert st) gs ([], db) = (new, db')" "alerts_added db new db'"
    "\<forall>a \<in> set new. fired_by st a"
    "map (\<lambda>a. (alGroupKey a, alMatched a)) new = filter (\<lambda>(key, n). \<not> conflicts st (dbAlerts db) key) gs"
    using fold_insert_alert [OF dist, of st "[]" db] by auto
  have keys: "map alGroupKey new = map fst (filter (\<lambda>(key, n). \<not> conflicts st (dbAlerts db) key) gs)"
    using arg_cong [OF run(4), of "map fst"] by (simp add: o_def)
  have "distinct (map alGroupKey new)"
    unfolding keys using dist by (simp add: distinct_map_filter)
  moreover have "sorted (map (dbCollate db \<circ> alGroupKey) new)"
  proof -
    have "map (dbCollate db \<circ> alGroupKey) new =
        map (dbCollate db \<circ> fst) (filter (\<lambda>(key, n). \<not> conflicts st (dbAlerts db) key) gs)"
      using arg_cong [OF keys, of "map (dbCollate db)"] by simp
    then show ?thesis using sorted_filter [OF sorted] by simp
  qed
  moreover have "firing_of host rule stop db a" if "a \<in> set new" for a
  proof -
    have "(alGroupKey a, alMatched a) \<in> set (filter (\<lambda>(key, n). \<not> conflicts st (dbAlerts db) key) gs)"
      unfolding run(4) [symmetric] using that by force
    then show ?thesis
      using fire [of "alGroupKey a" "alMatched a"] run(3) that unfolding fired_by_def par by (auto simp: firing_of_def)
  qed
  moreover have "key \<in> alGroupKey ` set new" if "fires host rule stop db key" for key
  proof -
    have "key \<in> set (map fst (filter (\<lambda>(key, n). \<not> conflicts st (dbAlerts db) key) gs))"
      using that fire [of key "key_count host rule stop (adEvents db) key"] by force
    then show ?thesis unfolding keys [symmetric] by simp
  qed
  ultimately show ?thesis
    using run(1,2) by (auto simp: run_evaluation_def gs_def rows_def)
qed

subsection \<open>The state of the tables\<close>

text \<open>
  Every firing belongs to a rule, of the same tenant, and spans that rule's window; and the
  firings of one group of a rule are recorded in order, a cooldown apart.
\<close>

definition fired_for :: "alerts_db \<Rightarrow> stored_alert \<Rightarrow> alert_rule \<Rightarrow> bool" where
  "fired_for db a r \<longleftrightarrow> r \<in> set (dbRules db) \<and> ruID r = alRuleID a \<and> ruTenantID r = alTenantID a
     \<and> alWindowStart a = alWindowEnd a - rule_window r"

definition spaced :: "alerts_db \<Rightarrow> stored_alert \<Rightarrow> stored_alert \<Rightarrow> bool" where
  "spaced db a b \<longleftrightarrow> (alRuleID a = alRuleID b \<and> alGroupKey a = alGroupKey b \<longrightarrow>
     alWindowEnd a < alWindowEnd b
     \<and> (\<forall>r \<in> set (dbRules db). ruID r = alRuleID a \<longrightarrow> alWindowEnd a + rule_cooldown r \<le> alWindowEnd b))"

definition alerts_wf :: "alerts_db \<Rightarrow> bool" where
  "alerts_wf db \<longleftrightarrow>
     distinct (map ruID (dbRules db))
     \<and> (\<forall>r \<in> set (dbRules db). ruID r < dbNextRule db \<and> rule_check r \<and> ruTenantID r \<in> set (adTenants db))
     \<and> (\<forall>a \<in> set (dbAlerts db). alID a < dbNextAlert db \<and> (\<exists>r. fired_for db a r))
     \<and> sorted_wrt (\<lambda>a b. alID a < alID b) (dbAlerts db)
     \<and> sorted_wrt (spaced db) (dbAlerts db)"

lemma alerts_wf_own:
  assumes "alerts_wf db" and "rule \<in> set (dbRules db)" and "a \<in> set (dbAlerts db)" and "alRuleID a = ruID rule"
  shows "fired_for db a rule"
proof -
  obtain r where r: "fired_for db a r" using assms(1,3) by (auto simp: alerts_wf_def)
  then have "r = rule"
    using assms by (auto simp: alerts_wf_def fired_for_def distinct_map inj_on_def)
  with r show ?thesis by simp
qed

lemma alerts_wf_evaluated:
  assumes wf: "alerts_wf db" and rule: "rule \<in> set (dbRules db)"
    and added: "alerts_added db new db'" and keys: "distinct (map alGroupKey new)"
    and new: "\<forall>a \<in> set new. firing_of host rule stop db a"
  shows "alerts_wf db'"
proof -
  have rules: "dbRules db' = dbRules db" and alerts: "dbAlerts db' = dbAlerts db @ map stored_alert.truncate new"
    using added by (simp_all add: alerts_added_def)
  have pos: "1 \<le> ruWindowMinutes rule" "0 \<le> ruCooldownMinutes rule"
    using wf rule by (auto simp: alerts_wf_def rule_check_def)
  have "spaced db a (stored_alert.truncate b)" if "a \<in> set (dbAlerts db)" "b \<in> set new" for a b
  proof (cases "alRuleID a = alRuleID b \<and> alGroupKey a = alGroupKey b")
    case True
    have b: "firing_of host rule stop db b" using new that(2) by simp
    with True have "alRuleID a = ruID rule" by (simp add: firing_of_def)
    from alerts_wf_own [OF wf rule that(1) this] have "alWindowStart a = alWindowEnd a - rule_window rule"
      by (simp add: fired_for_def)
    moreover have "alWindowEnd a \<le> stop - rule_cooldown rule" "alWindowStart a \<noteq> stop - rule_window rule"
      "alWindowEnd b = stop"
      using b True that(1) by (auto simp: firing_of_def fires_def)
    moreover have "0 \<le> rule_cooldown rule"
      using pos by (simp add: rule_cooldown_def duration_defs)
    moreover have "r = rule" if "r \<in> set (dbRules db)" "ruID r = ruID rule" for r
      using that wf rule by (auto simp: alerts_wf_def distinct_map inj_on_def)
    ultimately show ?thesis
      using \<open>alRuleID a = ruID rule\<close> by (auto simp: spaced_def stored_alert.defs)
  qed (auto simp: spaced_def stored_alert.defs)
  moreover have "sorted_wrt (spaced db) (map stored_alert.truncate new)"
  proof -
    have "sorted_wrt (\<lambda>a b. alGroupKey a \<noteq> alGroupKey b) new"
      using keys by (simp add: sorted_wrt_iff_nth_less distinct_conv_nth)
    then show ?thesis
      unfolding sorted_wrt_map
      by (rule sorted_wrt_mono_rel [rotated]) (auto simp: spaced_def stored_alert.defs)
  qed
  moreover have "spaced db' = spaced db"
    by (intro ext) (simp add: spaced_def rules)
  ultimately have "sorted_wrt (spaced db') (dbAlerts db')"
    using wf by (auto simp: alerts sorted_wrt_append alerts_wf_def)
  moreover have "fired_for db' (stored_alert.truncate a) rule" if "a \<in> set new" for a
    using that new rule by (auto simp: firing_of_def fired_for_def rules stored_alert.defs)
  moreover have "fired_for db' a r \<longleftrightarrow> fired_for db a r" for a r
    by (simp add: fired_for_def rules)
  moreover have "sorted_wrt (\<lambda>a b. alID a < alID b) (dbAlerts db')"
  proof -
    have "alID a < alID b" if "a \<in> set (dbAlerts db)" "b \<in> set new" for a b
      using that added wf by (fastforce simp: alerts_added_def alerts_wf_def)
    then show ?thesis
      using added wf unfolding alerts
      by (simp add: sorted_wrt_append sorted_wrt_map alerts_added_def alerts_wf_def stored_alert.defs)
  qed
  ultimately show ?thesis
    using wf added
    by (auto simp: alerts_wf_def alerts_added_def rules alerts stored_alert.defs)
qed

subsection \<open>The repository keeps the tables\<close>

lemma InScope_Inr:
  assumes "InScope fails sc fn s = (Inr x, s')"
  shows "\<exists>s1 s2. fn s1 = (Inr x, s2) \<and> sData s1 = sData s \<and> sScope s1 = sc \<and> sData s' = sData s2"
  using assms
  by (fastforce simp: InScope_def db_bind_Inr dest!: setScope_Inr elim!: InTx_InrE)

lemma InScope_Inl: "InScope fails sc fn s = (Inl e, s') \<Longrightarrow> sData s' = sData s"
  by (auto simp: InScope_def dest: InTx_Inl_data)

lemma Evaluate_runs:
  assumes "ruGroupBy rule \<in> set GroupBy"
  shows "\<exists>st. evaluates rule stop st \<and>
    (case Evaluate quoted lw host fails rule stop s of
       (Inl _, s') \<Rightarrow> sData s' = sData s
     | (Inr fired, s') \<Rightarrow> run_evaluation lw host st (tenant_scope rule) (sData s) = (fired, sData s'))"
proof -
  obtain st where st: "evaluation quoted rule stop = Inr st" "evaluates rule stop st"
    using evaluation_Inr [OF assms] by blast
  show ?thesis
  proof (cases "Evaluate quoted lw host fails rule stop s")
    case (Pair r s')
    show ?thesis
    proof (cases r)
      case (Inl e)
      with Pair st InScope_Inl show ?thesis by (auto simp: Evaluate_def)
    next
      case (Inr fired)
      with Pair st have "run_evaluation lw host st (tenant_scope rule) (sData s) = (fired, sData s')"
        by (auto simp: Evaluate_def db_bind_Inr tenant_scope_def dest!: InScope_Inr statement_Inr)
      with Pair Inr st(2) show ?thesis by auto
    qed
  qed
qed

lemma alerts_wf_GroupBy: "alerts_wf db \<Longrightarrow> rule \<in> set (dbRules db) \<Longrightarrow> ruGroupBy rule \<in> set GroupBy"
  by (auto simp: alerts_wf_def rule_check_def GroupBy_def)

lemma Evaluate_wf:
  assumes "inj host" and wf: "alerts_wf (sData s)" and rule: "rule \<in> set (dbRules (sData s))"
  shows "case Evaluate quoted lw host fails rule stop s of
      (Inl _, s') \<Rightarrow> sData s' = sData s
    | (Inr fired, s') \<Rightarrow> alerts_added (sData s) fired (sData s') \<and> alerts_wf (sData s')
        \<and> sorted (map (dbCollate (sData s) \<circ> alGroupKey) fired) \<and> distinct (map alGroupKey fired)
        \<and> (\<forall>a \<in> set fired. firing_of host rule stop (sData s) a)
        \<and> (\<forall>key. fires host rule stop (sData s) key \<longrightarrow> key \<in> alGroupKey ` set fired)"
proof -
  obtain st where st: "evaluates rule stop st"
    "case Evaluate quoted lw host fails rule stop s of
       (Inl _, s') \<Rightarrow> sData s' = sData s
     | (Inr fired, s') \<Rightarrow> run_evaluation lw host st (tenant_scope rule) (sData s) = (fired, sData s')"
    using Evaluate_runs [OF alerts_wf_GroupBy [OF wf rule], where s = s and stop = stop and quoted = quoted and lw = lw and host = host and fails = fails]
    by (elim exE conjE) (rule that)
  have own: "\<forall>a \<in> set (dbAlerts (sData s)). alRuleID a = ruID rule \<longrightarrow> alTenantID a = ruTenantID rule"
    using alerts_wf_own [OF wf rule] by (auto simp: fired_for_def)
  obtain new db' where run: "run_evaluation lw host st (tenant_scope rule) (sData s) = (new, db')"
    "alerts_added (sData s) new db'" "sorted (map (dbCollate (sData s) \<circ> alGroupKey) new)"
    "distinct (map alGroupKey new)" "\<forall>a \<in> set new. firing_of host rule stop (sData s) a"
    "\<forall>key. fires host rule stop (sData s) key \<longrightarrow> key \<in> alGroupKey ` set new"
    using run_evaluation_records [OF assms(1) st(1) own] by blast
  have "alerts_wf db'"
    using wf rule run(2,4,5) by (rule alerts_wf_evaluated)
  with run st(2) show ?thesis
    by (auto split: prod.splits sum.splits)
qed

lemma CreateRule_wf:
  assumes wf: "alerts_wf (sData s)" and create: "CreateRule quoted fails refuse sc p s = (r, s')"
  shows "alerts_wf (sData s')"
proof (cases r)
  case (Inl e)
  from InScope_Inl [OF create [unfolded CreateRule_def Inl]] wf show ?thesis by simp
next
  case (Inr rule)
  from InScope_Inr [OF create [unfolded CreateRule_def Inr]]
  have "insert_rule refuse p sc (sData s) = Inr (rule, sData s')"
    by (auto dest!: statement_Inr)
  then have rule: "rule = new_alert_rule.extend p \<lparr>ruID = dbNextRule (sData s), ruCreatedAt = dbNow (sData s)\<rparr>"
    and db: "sData s' = (sData s)\<lparr>dbRules := dbRules (sData s) @ [rule], dbNextRule := dbNextRule (sData s) + 1\<rparr>"
    and check: "rule_check p" "ruTenantID p \<in> set (adTenants (sData s))"
    by (auto simp: insert_rule_def Let_def split: option.splits if_splits)
  have fresh: "ruID rule = dbNextRule (sData s)" "ruTenantID rule = ruTenantID p" "rule_check rule"
    using check(1) by (simp_all add: rule new_alert_rule.defs rule_check_def)
  have "spaced (sData s') a b" if ab: "spaced (sData s) a b" "a \<in> set (dbAlerts (sData s))" for a b
  proof -
    obtain r where "fired_for (sData s) a r" using wf ab(2) by (auto simp: alerts_wf_def)
    then have "alRuleID a < dbNextRule (sData s)"
      using wf by (auto simp: alerts_wf_def fired_for_def)
    with ab(1) show ?thesis by (auto simp: spaced_def db fresh)
  qed
  then have "sorted_wrt (spaced (sData s')) (dbAlerts (sData s))"
    using wf by (auto simp: alerts_wf_def intro: sorted_wrt_mono_rel [of _ "spaced (sData s)"])
  moreover have "fired_for (sData s') a r" if "fired_for (sData s) a r" for a r
    using that by (auto simp: fired_for_def db)
  moreover have "ruID r < dbNextRule (sData s)" if "r \<in> set (dbRules (sData s))" for r
    using wf that by (simp add: alerts_wf_def)
  ultimately show ?thesis
    using wf fresh check(2) by (fastforce simp: alerts_wf_def db)
qed

subsection \<open>Properties\<close>

text \<open>
  C32. What one evaluation records: exactly the groups that fire, once each and in the order
  of their keys in the database's collation, whatever that is, each with the number of its matching events, its window, and the rule's
  name and grouping; the tables otherwise stay as they are. An error records nothing.
\<close>

theorem Evaluate_records:
  assumes "inj host" and "alerts_wf (sData s)" and "rule \<in> set (dbRules (sData s))"
  shows "case Evaluate quoted lw host fails rule stop s of
      (Inl _, s') \<Rightarrow> sData s' = sData s
    | (Inr fired, s') \<Rightarrow> alerts_added (sData s) fired (sData s')
        \<and> sorted (map (dbCollate (sData s) \<circ> alGroupKey) fired) \<and> distinct (map alGroupKey fired)
        \<and> alGroupKey ` set fired = {key. fires host rule stop (sData s) key}
        \<and> (\<forall>a \<in> set fired. firing_of host rule stop (sData s) a)"
  using Evaluate_wf [OF assms, where quoted = quoted and lw = lw and fails = fails and stop = stop]
  by (auto simp: firing_of_def split: prod.splits sum.splits)

text \<open>
  The tables as requests and evaluations leave them, and whatever ingestion, new tenants
  and time do in between. Rules and firings are never changed or deleted.
\<close>

inductive alerts_reach :: "(bytes \<Rightarrow> bytes) \<Rightarrow> (int \<Rightarrow> int) \<Rightarrow> (addr \<Rightarrow> bytes) \<Rightarrow> alerts_db \<Rightarrow> bool"
  for quoted lw host where
  start: "alerts_reach quoted lw host \<lparr>adTenants = ts, adEvents = es, dbRules = [], dbAlerts = [],
      dbNextRule = 1, dbNextAlert = 1, dbNow = t, dbCollate = collate\<rparr>"
| others: "alerts_reach quoted lw host db \<Longrightarrow> set (adTenants db) \<subseteq> set ts \<Longrightarrow>
    alerts_reach quoted lw host (db\<lparr>adTenants := ts, adEvents := es, dbNow := t\<rparr>)"
| create: "alerts_reach quoted lw host (sData s) \<Longrightarrow> CreateRule quoted fails refuse sc p s = (r, s') \<Longrightarrow>
    alerts_reach quoted lw host (sData s')"
| evaluate: "alerts_reach quoted lw host (sData s) \<Longrightarrow> rule \<in> set (dbRules (sData s)) \<Longrightarrow>
    Evaluate quoted lw host fails rule stop s = (r', s') \<Longrightarrow> alerts_reach quoted lw host (sData s')"

lemma alerts_reach_wf:
  assumes "inj host" and "alerts_reach quoted lw host db"
  shows "alerts_wf db"
  using assms(2)
proof induction
  case (start ts es t)
  show ?case by (simp add: alerts_wf_def)
next
  case (others db ts t es)
  have "spaced (db\<lparr>adTenants := ts, adEvents := es, dbNow := t\<rparr>) = spaced db"
    by (intro ext) (simp add: spaced_def)
  with others show ?case by (auto simp: alerts_wf_def fired_for_def)
next
  case (create s fails refuse sc p r s')
  then show ?case by (blast intro: CreateRule_wf)
next
  case (evaluate s rule fails stop r' s')
  from Evaluate_wf [OF assms(1) evaluate.IH evaluate.hyps(2), where quoted = quoted and lw = lw and fails = fails and stop = stop] evaluate.hyps(3) evaluate.IH
  show ?case by (auto split: sum.splits)
qed

text \<open>
  C15. However often rules are evaluated, at whatever times and over whatever events, the
  firings of one rule and group are recorded in the order of their windows and a cooldown
  apart: no window of a group ever fires twice.
\<close>

theorem firings_spaced:
  assumes "inj host" and "alerts_reach quoted lw host db" and "i < j" and "j < length (dbAlerts db)"
    and "alRuleID (dbAlerts db ! i) = alRuleID (dbAlerts db ! j)"
    and "alGroupKey (dbAlerts db ! i) = alGroupKey (dbAlerts db ! j)"
  shows "alWindowEnd (dbAlerts db ! i) < alWindowEnd (dbAlerts db ! j)
    \<and> (\<exists>rule \<in> set (dbRules db). ruID rule = alRuleID (dbAlerts db ! i)
        \<and> alWindowEnd (dbAlerts db ! i) + rule_cooldown rule \<le> alWindowEnd (dbAlerts db ! j))"
proof -
  have wf: "alerts_wf db" using assms(1,2) by (rule alerts_reach_wf)
  then have "spaced db (dbAlerts db ! i) (dbAlerts db ! j)"
    using assms(3,4) by (auto simp: alerts_wf_def sorted_wrt_iff_nth_less)
  moreover obtain rule where "fired_for db (dbAlerts db ! i) rule"
    using wf assms(3,4) unfolding alerts_wf_def by (meson less_trans nth_mem)
  ultimately show ?thesis
    using assms(5,6) by (auto simp: spaced_def fired_for_def)
qed

text \<open>A rule on users, and one user's events, two minutes apart.\<close>

definition sample_rule :: new_alert_rule where
  "sample_rule = \<lparr>ruTenantID = ''a'', ruName = ''n'', ruSource = None, ruEventType = None, ruAction = None,
     ruSeverityMin = None, ruTags = [], ruGroupBy = ''user'', ruThreshold = 1, ruWindowMinutes = 1,
     ruCooldownMinutes = 1, ruWebhookURL = None\<rparr>"

definition sample_event :: "gotime \<Rightarrow> event_row" where
  "sample_event t = row.extend ((sample_row 1 t)\<lparr>rUser := Some ''bob''\<rparr>) \<lparr>rDstIP = None\<rparr>"

definition sample_tables :: "alerts_db session" where
  "sample_tables = \<lparr>sData = \<lparr>adTenants = [''a''], adEvents = [sample_event 0, sample_event (2 * minute)],
     dbRules = [], dbAlerts = [], dbNextRule = 1, dbNextAlert = 1, dbNow = 0, dbCollate = (\<lambda>s. s)\<rparr>, sScope = NoScope, sBase = NoScope, sDepth = 0, sStep = 0\<rparr>"

definition sample_created :: "alerts_db session" where
  "sample_created = snd (CreateRule (\<lambda>s. s) (\<lambda>_. None) (\<lambda>_. None) AdminScope sample_rule sample_tables)"

definition sample_evaluated :: "(addr \<Rightarrow> bytes) \<Rightarrow> gotime \<Rightarrow> alerts_db session \<Rightarrow> (go_error + alert list) \<times> alerts_db session" where
  "sample_evaluated host stop s =
     Evaluate (\<lambda>s. s) (\<lambda>c. c) host (\<lambda>_. None) (hd (dbRules (sData sample_created))) stop s"

definition sample_host :: "addr \<Rightarrow> bytes" where
  "sample_host a = (case a of V4 n \<Rightarrow> put_int n | V6 n zone \<Rightarrow> CHR ''6'' # put_int n @ zone)"

lemma put_int_append: "put_int n @ x = put_int m @ y \<longleftrightarrow> n = m \<and> x = y"
  by (metis get_put_int prod.inject)

lemma inj_sample_host: "inj sample_host"
proof (rule injI)
  fix a b assume eq: "sample_host a = sample_host b"
  have same: "put_int n = put_int m \<longleftrightarrow> n = m" for n m
    using put_int_append [of n "[]" m "[]"] by simp
  have six: "put_int n \<noteq> CHR ''6'' # s" "CHR ''6'' # s \<noteq> put_int n" for n s
    by (simp_all add: put_int_def)
  from eq show "a = b"
    by (cases a; cases b) (simp_all add: sample_host_def same six put_int_append)
qed

lemma sample_runs:
  "map (\<lambda>a. (alRuleID a, alGroupKey a, alWindowEnd a)) (dbAlerts (sData
      (snd (sample_evaluated host (3 * minute) (snd (sample_evaluated host minute sample_created))))))
    = [(1, ''bob'', minute), (1, ''bob'', 3 * minute)]"
  by code_simp

lemma sample_rules:
  "dbRules (sData sample_created) \<noteq> []"
  "dbRules (sData (snd (sample_evaluated host minute sample_created))) = dbRules (sData sample_created)"
  by code_simp+

lemma reach_created:
  "alerts_reach quoted lw host (sData s) \<Longrightarrow> alerts_reach quoted lw host (sData (snd (CreateRule quoted fails refuse sc p s)))"
  by (cases "CreateRule quoted fails refuse sc p s") (auto intro: alerts_reach.create)

lemma reach_evaluated:
  "alerts_reach quoted lw host (sData s) \<Longrightarrow> rule \<in> set (dbRules (sData s)) \<Longrightarrow>
   alerts_reach quoted lw host (sData (snd (Evaluate quoted lw host fails rule stop s)))"
  by (cases "Evaluate quoted lw host fails rule stop s") (auto intro: alerts_reach.evaluate)

lemma sample_reach:
  "alerts_reach (\<lambda>s. s) (\<lambda>c. c) host (sData sample_created)"
  "alerts_reach (\<lambda>s. s) (\<lambda>c. c) host (sData (snd (sample_evaluated host minute sample_created)))"
  "alerts_reach (\<lambda>s. s) (\<lambda>c. c) host (sData
      (snd (sample_evaluated host (3 * minute) (snd (sample_evaluated host minute sample_created)))))"
proof -
  have "alerts_reach (\<lambda>s. s) (\<lambda>c. c) host (sData sample_tables)"
    by (simp add: sample_tables_def alerts_reach.start)
  then show 1: "alerts_reach (\<lambda>s. s) (\<lambda>c. c) host (sData sample_created)"
    unfolding sample_created_def by (rule reach_created)
  have rule: "hd (dbRules (sData sample_created)) \<in> set (dbRules (sData sample_created))"
    using sample_rules(1) by (rule hd_in_set)
  show 2: "alerts_reach (\<lambda>s. s) (\<lambda>c. c) host (sData (snd (sample_evaluated host minute sample_created)))"
    unfolding sample_evaluated_def by (rule reach_evaluated [OF 1 rule])
  show "alerts_reach (\<lambda>s. s) (\<lambda>c. c) host (sData
      (snd (sample_evaluated host (3 * minute) (snd (sample_evaluated host minute sample_created)))))"
    unfolding sample_evaluated_def [of _ "3 * minute"]
    by (rule reach_evaluated [OF 2]) (simp only: sample_rules(2) rule)
qed

theorem Evaluate_records_witness:
  "alerts_wf (sData sample_created)
    \<and> alGroupKey ` set (projr (fst (sample_evaluated sample_host minute sample_created)))
        = {key. fires sample_host (hd (dbRules (sData sample_created))) minute (sData sample_created) key}"
proof -
  have wf: "alerts_wf (sData sample_created)"
    using inj_sample_host sample_reach(1) by (rule alerts_reach_wf)
  have rule: "hd (dbRules (sData sample_created)) \<in> set (dbRules (sData sample_created))"
    using sample_rules(1) by (rule hd_in_set)
  have ok: "\<not> isl (fst (sample_evaluated host minute sample_created))" for host
    by code_simp
  from ok [of sample_host] Evaluate_records [OF inj_sample_host wf rule, where quoted = "\<lambda>s. s" and lw = "\<lambda>c. c"
      and fails = "\<lambda>_. None" and stop = minute] wf
  show ?thesis by (auto simp: sample_evaluated_def split: prod.splits sum.splits)
qed

theorem firings_spaced_witness:
  "alerts_reach (\<lambda>s. s) (\<lambda>c. c) sample_host (sData (snd (sample_evaluated sample_host (3 * minute)
      (snd (sample_evaluated sample_host minute sample_created)))))
    \<and> minute < 3 * minute"
proof -
  define db where "db = sData (snd (sample_evaluated sample_host (3 * minute)
      (snd (sample_evaluated sample_host minute sample_created))))"
  have reach: "alerts_reach (\<lambda>s. s) (\<lambda>c. c) sample_host db"
    unfolding db_def by (rule sample_reach)
  obtain a b where ab: "dbAlerts db = [a, b]" "alRuleID a = 1" "alRuleID b = 1" "alGroupKey a = ''bob''"
    "alGroupKey b = ''bob''" "alWindowEnd a = minute" "alWindowEnd b = 3 * minute"
    using sample_runs [of sample_host] unfolding db_def [symmetric] by auto
  then have "alWindowEnd a < alWindowEnd b"
    using firings_spaced [OF inj_sample_host reach, of 0 1] by simp
  then show ?thesis using ab reach by (simp add: db_def)
qed

end
