(* ===== verification/Go_Log.thy ===== *)
theory Go_Log
  imports Errors
begin

text \<open>
  What the source uses of \<open>log/slog\<close> and of Prometheus: a log is the list of its entries,
  a counter with one label is a function from the label's value, and \<open>Inc\<close> adds one.
\<close>

datatype log_level = LevelDebug | LevelInfo | LevelWarn | LevelError

record log_entry =
  lgLevel :: log_level
  lgMessage :: bytes
  lgAttrs :: "attr list"

definition inc :: "bytes \<Rightarrow> (bytes \<Rightarrow> nat) \<Rightarrow> bytes \<Rightarrow> nat" where
  "inc label c = c(label := c label + 1)"

definition int_attr :: "bytes \<Rightarrow> int \<Rightarrow> attr" where
  "int_attr name n = (name, LogOther (FormatInt n))"

definition text_attr :: "bytes \<Rightarrow> bytes \<Rightarrow> attr" where
  "text_attr name s = (name, LogString s)"

text \<open>A failure of the database that will pass is a warning, any other an error.\<close>

definition failure_level :: "go_error \<Rightarrow> log_level" where
  "failure_level err = (if KindOf err = KindUnavailable then LevelWarn else LevelError)"

definition error_attrs :: "go_error \<Rightarrow> attr list" where
  "error_attrs err = text_attr ''error'' (error_text err) # AttrsOf err"

end
