(* ===== verification/Alerting.thy ===== *)
theory Alerting
  imports Alerts Go_Log
begin

text \<open>
  \<open>internal/alerting\<close>: the evaluator, which runs every tenant's rules on a schedule and
  delivers what they raise, and the webhook. What it calls (the repositories, the
  notifier, the context) acts on a world \<open>'w\<close>; its log and its counters are part of its
  own state.
\<close>

subsection \<open>Schedule\<close>

definition Interval :: duration where "Interval = minute"
definition Lag :: duration where "Lag = 30 * second"

definition WindowEnd :: "gotime \<Rightarrow> gotime" where
  "WindowEnd now = time_truncate (now - Lag) minute"

subsection \<open>Counters\<close>

record alert_metrics =
  mRaised :: "bytes \<Rightarrow> nat"
  mEvaluations :: "bytes \<Rightarrow> nat"
  mDeliveries :: "bytes \<Rightarrow> nat"

definition newMetrics :: alert_metrics where
  "newMetrics = \<lparr>mRaised = (\<lambda>_. 0), mEvaluations = (\<lambda>_. 0), mDeliveries = (\<lambda>_. 0)\<rparr>"

subsection \<open>What the evaluator calls\<close>

text \<open>An alert as the API lists it.\<close>

record api_alert =
  gaID :: bytes
  gaRuleID :: bytes
  gaRuleName :: bytes
  gaTenant :: bytes
  gaGroupBy :: bytes
  gaGroupKey :: bytes
  gaCount :: int
  gaWindowStart :: gotime
  gaWindowEnd :: gotime
  gaCreatedAt :: gotime

definition Body :: "alert \<Rightarrow> api_alert" where
  "Body a = \<lparr>gaID = FormatInt (alID a), gaRuleID = FormatInt (alRuleID a), gaRuleName = alRuleName a,
     gaTenant = alTenantID a, gaGroupBy = alGroupBy a, gaGroupKey = alGroupKey a, gaCount = alMatched a,
     gaWindowStart = alWindowStart a, gaWindowEnd = alWindowEnd a, gaCreatedAt = alCreatedAt a\<rparr>"

record 'w services =
  svListIDs :: "'w \<Rightarrow> (go_error + bytes list) \<times> 'w"
  svListRules :: "scope \<Rightarrow> bytes \<Rightarrow> 'w \<Rightarrow> (go_error + alert_rule list) \<times> 'w"
  svEvaluate :: "alert_rule \<Rightarrow> gotime \<Rightarrow> 'w \<Rightarrow> (go_error + alert list) \<times> 'w"
  svSend :: "bytes \<Rightarrow> api_alert \<Rightarrow> 'w \<Rightarrow> go_error option \<times> 'w"
  svCtxErr :: "'w \<Rightarrow> go_error option"
  svURLHost :: "bytes \<Rightarrow> bytes"

record 'w evaluator =
  eWorld :: 'w
  eMetrics :: alert_metrics
  eLog :: "log_entry list"

definition log_to :: "log_level \<Rightarrow> bytes \<Rightarrow> attr list \<Rightarrow> 'w evaluator \<Rightarrow> 'w evaluator" where
  "log_to level message attrs e = e\<lparr>eLog := eLog e @ [\<lparr>lgLevel = level, lgMessage = message, lgAttrs = attrs\<rparr>]\<rparr>"

definition count_raised :: "bytes \<Rightarrow> 'w evaluator \<Rightarrow> 'w evaluator" where
  "count_raised tenant e = e\<lparr>eMetrics := (eMetrics e)\<lparr>mRaised := inc tenant (mRaised (eMetrics e))\<rparr>\<rparr>"

definition count_evaluation :: "bytes \<Rightarrow> 'w evaluator \<Rightarrow> 'w evaluator" where
  "count_evaluation outcome e =
     e\<lparr>eMetrics := (eMetrics e)\<lparr>mEvaluations := inc outcome (mEvaluations (eMetrics e))\<rparr>\<rparr>"

definition count_delivery :: "bytes \<Rightarrow> 'w evaluator \<Rightarrow> 'w evaluator" where
  "count_delivery outcome e =
     e\<lparr>eMetrics := (eMetrics e)\<lparr>mDeliveries := inc outcome (mDeliveries (eMetrics e))\<rparr>\<rparr>"

definition logFailure :: "bytes \<Rightarrow> go_error \<Rightarrow> attr list \<Rightarrow> 'w evaluator \<Rightarrow> 'w evaluator" where
  "logFailure message err attrs e =
     log_to (failure_level err) message (attrs @ error_attrs err) e"

subsection \<open>The evaluator\<close>

definition deliver :: "'w services \<Rightarrow> bytes \<Rightarrow> alert \<Rightarrow> 'w evaluator \<Rightarrow> 'w evaluator" where
  "deliver sv target a e =
     (let attrs = [int_attr ''alert_id'' (alID a), int_attr ''rule_id'' (alRuleID a),
                   text_attr ''webhook_host'' (svURLHost sv target)] in
      case svSend sv target (Body a) (eWorld e) of
        (Some err, w) \<Rightarrow>
          (let e = e\<lparr>eWorld := w\<rparr> in
           if svCtxErr sv w \<noteq> None then e
           else log_to LevelWarn ''webhook delivery failed'' (attrs @ [text_attr ''error'' (error_text err)])
                  (count_delivery ''failed'' e))
      | (None, w) \<Rightarrow>
          log_to LevelInfo ''webhook delivered'' attrs (count_delivery ''delivered'' (e\<lparr>eWorld := w\<rparr>)))"

definition raise_alert :: "'w services \<Rightarrow> alert_rule \<Rightarrow> alert \<Rightarrow> 'w evaluator \<Rightarrow> 'w evaluator" where
  "raise_alert sv rule a e =
     (let e = log_to LevelInfo ''alert raised''
            [int_attr ''alert_id'' (alID a), int_attr ''rule_id'' (alRuleID a),
             text_attr ''tenant'' (alTenantID a), text_attr ''group_by'' (alGroupBy a),
             text_attr ''group_key'' (alGroupKey a), int_attr ''count'' (alMatched a)]
            (count_raised (alTenantID a) e) in
      case ruWebhookURL rule of None \<Rightarrow> e | Some url \<Rightarrow> deliver sv url a e)"

definition evaluate_rule :: "'w services \<Rightarrow> gotime \<Rightarrow> alert_rule \<Rightarrow> 'w evaluator \<Rightarrow> 'w evaluator" where
  "evaluate_rule sv stop rule e =
     (case svEvaluate sv rule stop (eWorld e) of
        (Inl err, w) \<Rightarrow>
          (let e = e\<lparr>eWorld := w\<rparr> in
           if svCtxErr sv w = None
           then logFailure ''cannot evaluate an alert rule'' err
                  [int_attr ''rule_id'' (ruID rule), text_attr ''tenant'' (ruTenantID rule)]
                  (count_evaluation ''failed'' e)
           else e)
      | (Inr fired, w) \<Rightarrow>
          fold (raise_alert sv rule) fired (count_evaluation ''ok'' (e\<lparr>eWorld := w\<rparr>)))"

text \<open>The two loops of \<open>Run\<close>; an error is the context's, and ends both.\<close>

fun run_rules :: "'w services \<Rightarrow> gotime \<Rightarrow> alert_rule list \<Rightarrow> 'w evaluator \<Rightarrow> go_error option \<times> 'w evaluator" where
  "run_rules sv stop [] e = (None, e)"
| "run_rules sv stop (rule # rules) e =
     (let e = evaluate_rule sv stop rule e in
      case svCtxErr sv (eWorld e) of
        Some err \<Rightarrow> (Some err, e)
      | None \<Rightarrow> run_rules sv stop rules e)"

fun run_tenants :: "'w services \<Rightarrow> gotime \<Rightarrow> bytes list \<Rightarrow> 'w evaluator \<Rightarrow> go_error option \<times> 'w evaluator" where
  "run_tenants sv stop [] e = (None, e)"
| "run_tenants sv stop (tenant # tenants) e =
     (case svListRules sv \<lparr>scope_TenantID = tenant, scope_Admin = False\<rparr> tenant (eWorld e) of
        (Inl err, w) \<Rightarrow>
          (let e = e\<lparr>eWorld := w\<rparr> in
           case svCtxErr sv w of
             Some cerr \<Rightarrow> (Some cerr, e)
           | None \<Rightarrow> run_tenants sv stop tenants
               (logFailure ''cannot list a tenant's alert rules'' err [text_attr ''tenant'' tenant] e))
      | (Inr rules, w) \<Rightarrow>
          (case run_rules sv stop rules (e\<lparr>eWorld := w\<rparr>) of
             (Some err, e) \<Rightarrow> (Some err, e)
           | (None, e) \<Rightarrow> run_tenants sv stop tenants e))"

definition Run :: "'w services \<Rightarrow> gotime \<Rightarrow> 'w evaluator \<Rightarrow> go_error option \<times> 'w evaluator" where
  "Run sv now e =
     (case svListIDs sv (eWorld e) of
        (Inl err, w) \<Rightarrow> (Some (Internalf err ''cannot list tenants''), e\<lparr>eWorld := w\<rparr>)
      | (Inr tenants, w) \<Rightarrow> run_tenants sv (WindowEnd now) tenants (e\<lparr>eWorld := w\<rparr>))"

subsection \<open>The webhook\<close>

text \<open>
  \<open>Send\<close>. The client is outside: it answers a status (with its text) or fails, perhaps with
  a \<open>url.Error\<close>, whose own text has the URL in it and whose cause has not. A request that
  cannot be built is one \<open>valid\<close> rejects; the alert's JSON always encodes.
\<close>

datatype http_answer = Answered int bytes | Failed go_error | FailedURL bytes go_error

definition Webhook_Send ::
  "(bytes \<Rightarrow> bool) \<Rightarrow> (bytes \<Rightarrow> api_alert \<Rightarrow> 'w \<Rightarrow> http_answer \<times> 'w) \<Rightarrow> bytes \<Rightarrow> api_alert \<Rightarrow> 'w
   \<Rightarrow> go_error option \<times> 'w" where
  "Webhook_Send valid post target a w =
     (if \<not> valid target then (Some (Foreign ''cannot build webhook request'' []), w)
      else (case post target a w of
          (Failed err, w') \<Rightarrow> (Some err, w')
        | (FailedURL url err, w') \<Rightarrow> (Some err, w')
        | (Answered code status, w') \<Rightarrow>
            (if code < 200 \<or> 299 < code
             then Some (Foreign (''webhook answered '' @ status) []) else None, w')))"

subsection \<open>What the evaluator relies on\<close>

text \<open>
  What one run leaves behind: firings appended to the table, each for the run's window and
  counted under its tenant; entries appended to the log; and, unless it is being stopped, one
  delivery for every firing whose rule has a webhook.
\<close>

definition has_webhook :: "alerts_db \<Rightarrow> stored_alert \<Rightarrow> bool" where
  "has_webhook db a \<longleftrightarrow> (\<exists>rule \<in> set (dbRules db). ruID rule = alRuleID a \<and> ruWebhookURL rule \<noteq> None)"

definition deliveries :: "'w evaluator \<Rightarrow> nat" where
  "deliveries e = mDeliveries (eMetrics e) ''delivered'' + mDeliveries (eMetrics e) ''failed''"

definition same_tables :: "alerts_db \<Rightarrow> alerts_db \<Rightarrow> bool" where
  "same_tables db db' \<longleftrightarrow> adTenants db' = adTenants db \<and> adEvents db' = adEvents db \<and> dbRules db' = dbRules db"

definition settles :: "('w \<Rightarrow> alerts_db) \<Rightarrow> 'w services \<Rightarrow> gotime \<Rightarrow> 'w evaluator \<Rightarrow> 'w evaluator \<Rightarrow> bool" where
  "settles tables sv stop e e' \<longleftrightarrow>
     same_tables (tables (eWorld e)) (tables (eWorld e'))
     \<and> (\<exists>new. dbAlerts (tables (eWorld e')) = dbAlerts (tables (eWorld e)) @ new
          \<and> (\<forall>a \<in> set new. alWindowEnd a = stop)
          \<and> (\<forall>t. mRaised (eMetrics e') t = mRaised (eMetrics e) t + length (filter (\<lambda>a. alTenantID a = t) new))
          \<and> ((\<forall>w. svCtxErr sv w = None) \<longrightarrow>
              deliveries e' = deliveries e + length (filter (has_webhook (tables (eWorld e))) new)))
     \<and> (\<exists>entries. eLog e' = eLog e @ entries)"

lemma settles_refl: "settles tables sv stop e e"
  by (simp add: settles_def same_tables_def)

lemma settles_trans:
  assumes "settles tables sv stop e1 e2" and "settles tables sv stop e2 e3"
  shows "settles tables sv stop e1 e3"
proof -
  have "has_webhook (tables (eWorld e2)) = has_webhook (tables (eWorld e1))"
    using assms(1) by (auto simp: settles_def same_tables_def has_webhook_def fun_eq_iff)
  note web = this
  obtain new1 l1 where 1: "dbAlerts (tables (eWorld e2)) = dbAlerts (tables (eWorld e1)) @ new1"
    "\<forall>a \<in> set new1. alWindowEnd a = stop" "eLog e2 = eLog e1 @ l1"
    "\<And>t. mRaised (eMetrics e2) t = mRaised (eMetrics e1) t + length (filter (\<lambda>a. alTenantID a = t) new1)"
    "(\<forall>w. svCtxErr sv w = None) \<Longrightarrow> deliveries e2 = deliveries e1 + length (filter (has_webhook (tables (eWorld e1))) new1)"
    using assms(1) unfolding settles_def by metis
  obtain new2 l2 where 2: "dbAlerts (tables (eWorld e3)) = dbAlerts (tables (eWorld e2)) @ new2"
    "\<forall>a \<in> set new2. alWindowEnd a = stop" "eLog e3 = eLog e2 @ l2"
    "\<And>t. mRaised (eMetrics e3) t = mRaised (eMetrics e2) t + length (filter (\<lambda>a. alTenantID a = t) new2)"
    "(\<forall>w. svCtxErr sv w = None) \<Longrightarrow> deliveries e3 = deliveries e2 + length (filter (has_webhook (tables (eWorld e2))) new2)"
    using assms(2) unfolding settles_def by metis
  have "same_tables (tables (eWorld e1)) (tables (eWorld e3))"
    using assms by (simp add: settles_def same_tables_def)
  moreover have "\<forall>a \<in> set (new1 @ new2). alWindowEnd a = stop"
    using 1(2) 2(2) by auto
  ultimately show ?thesis
    unfolding settles_def using 1 2 web
    by (intro conjI exI [of _ "new1 @ new2"] exI [of _ "l1 @ l2"]) simp_all
qed

text \<open>A failure the run has logged.\<close>

definition logged :: "bytes \<Rightarrow> attr \<Rightarrow> 'w evaluator \<Rightarrow> bool" where
  "logged message attr e \<longleftrightarrow> (\<exists>l \<in> set (eLog e). lgMessage l = message \<and> attr \<in> set (lgAttrs l))"

lemma logged_settles: "settles tables sv stop e e' \<Longrightarrow> logged m x e \<Longrightarrow> logged m x e'"
  by (auto simp: settles_def logged_def)

lemma logFailure_simps [simp]:
  "eWorld (logFailure m err attrs e) = eWorld e" "eMetrics (logFailure m err attrs e) = eMetrics e"
  "x \<in> set attrs \<Longrightarrow> logged m x (logFailure m err attrs e)"
  by (simp_all add: logFailure_def log_to_def logged_def)

lemma settles_logFailure:
  "settles tables sv stop e e1 \<Longrightarrow> settles tables sv stop e (logFailure m err attrs e1)"
  by (auto simp: settles_def logFailure_def log_to_def deliveries_def)

text \<open>
  A rule the run has dealt with: nothing of it is left to fire in this window, or the log
  says what failed.
\<close>

definition covered :: "(addr \<Rightarrow> bytes) \<Rightarrow> gotime \<Rightarrow> alerts_db \<Rightarrow> alert_rule \<Rightarrow> 'w evaluator \<Rightarrow> bool" where
  "covered host stop db rule e \<longleftrightarrow>
     (\<forall>key. \<not> fires host rule stop db key)
     \<or> logged ''cannot evaluate an alert rule'' (int_attr ''rule_id'' (ruID rule)) e
     \<or> logged ''cannot list a tenant's alert rules'' (text_attr ''tenant'' (ruTenantID rule)) e"

lemma covered_settles:
  assumes "settles tables sv stop e e'" and "covered host stop (tables (eWorld e)) rule e"
  shows "covered host stop (tables (eWorld e')) rule e'"
proof -
  have "fires host rule stop (tables (eWorld e)) key" if "fires host rule stop (tables (eWorld e')) key" for key
    using that assms(1) by (auto simp: fires_def settles_def same_tables_def)
  with assms(2) show ?thesis
    unfolding covered_def by (blast intro: logged_settles [OF assms(1)])
qed

text \<open>
  What the evaluator relies on: reading changes no table, and an evaluation records what
  fires or nothing at all.
\<close>

locale alert_store =
  fixes sv :: "'w services" and tables :: "'w \<Rightarrow> alerts_db" and good :: "'w \<Rightarrow> bool" and host :: "addr \<Rightarrow> bytes"
  assumes lists_tenants: "good w \<Longrightarrow> svListIDs sv w = (r, w') \<Longrightarrow> good w' \<and> tables w' = tables w
      \<and> (\<forall>ts. r = Inr ts \<longrightarrow> set ts = set (adTenants (tables w)))"
    and lists_rules: "good w \<Longrightarrow> svListRules sv \<lparr>scope_TenantID = t, scope_Admin = False\<rparr> t w = (r', w') \<Longrightarrow>
      good w' \<and> tables w' = tables w
      \<and> (\<forall>rs. r' = Inr rs \<longrightarrow> set rs = {rule \<in> set (dbRules (tables w)). ruTenantID rule = t})"
    and evaluates: "good w \<Longrightarrow> rule \<in> set (dbRules (tables w)) \<Longrightarrow> svEvaluate sv rule stop w = (r'', w') \<Longrightarrow>
      good w' \<and> (case r'' of
          Inl _ \<Rightarrow> tables w' = tables w
        | Inr fired \<Rightarrow> alerts_added (tables w) fired (tables w')
            \<and> (\<forall>a \<in> set fired. firing_of host rule stop (tables w) a)
            \<and> (\<forall>key. fires host rule stop (tables w) key \<longrightarrow> key \<in> alGroupKey ` set fired))"
    and sends: "good w \<Longrightarrow> svSend sv url a w = (r3, w') \<Longrightarrow> good w' \<and> tables w' = tables w"
    and rules_distinct: "good w \<Longrightarrow> distinct (map ruID (dbRules (tables w)))"
begin

lemma deliver_effect:
  assumes "good (eWorld e)"
  shows "good (eWorld (deliver sv url a e)) \<and> tables (eWorld (deliver sv url a e)) = tables (eWorld e)
    \<and> mRaised (eMetrics (deliver sv url a e)) = mRaised (eMetrics e)
    \<and> ((\<forall>w. svCtxErr sv w = None) \<longrightarrow> deliveries (deliver sv url a e) = deliveries e + 1)
    \<and> (\<exists>entries. eLog (deliver sv url a e) = eLog e @ entries)"
  using sends [OF assms]
  by (cases "svSend sv url (Body a) (eWorld e)")
     (auto simp: deliver_def Let_def log_to_def count_delivery_def deliveries_def inc_def split: option.splits)

lemma raise_alert_effect:
  assumes "good (eWorld e)"
  shows "good (eWorld (raise_alert sv rule a e)) \<and> tables (eWorld (raise_alert sv rule a e)) = tables (eWorld e)
    \<and> (\<forall>t. mRaised (eMetrics (raise_alert sv rule a e)) t
        = mRaised (eMetrics e) t + (if alTenantID a = t then 1 else 0))
    \<and> ((\<forall>w. svCtxErr sv w = None) \<longrightarrow>
        deliveries (raise_alert sv rule a e) = deliveries e + (if ruWebhookURL rule = None then 0 else 1))
    \<and> (\<exists>entries. eLog (raise_alert sv rule a e) = eLog e @ entries)"
proof (cases "ruWebhookURL rule")
  case None
  with assms show ?thesis
    by (simp add: raise_alert_def Let_def log_to_def count_raised_def deliveries_def inc_def)
next
  case (Some url)
  define e1 where "e1 = log_to LevelInfo ''alert raised''
      [int_attr ''alert_id'' (alID a), int_attr ''rule_id'' (alRuleID a),
       text_attr ''tenant'' (alTenantID a), text_attr ''group_by'' (alGroupBy a),
       text_attr ''group_key'' (alGroupKey a), int_attr ''count'' (alMatched a)] (count_raised (alTenantID a) e)"
  have "raise_alert sv rule a e = deliver sv url a e1"
    by (simp add: raise_alert_def Let_def Some e1_def)
  moreover have "eWorld e1 = eWorld e" "deliveries e1 = deliveries e" "\<exists>entries. eLog e1 = eLog e @ entries"
    "mRaised (eMetrics e1) = inc (alTenantID a) (mRaised (eMetrics e))"
    by (simp_all add: e1_def log_to_def count_raised_def deliveries_def)
  ultimately show ?thesis
    using deliver_effect [of e1 url a] assms Some by (auto simp: inc_def)
qed

lemma raise_all_effect:
  assumes "good (eWorld e)"
  shows "good (eWorld (fold (raise_alert sv rule) fired e))
    \<and> tables (eWorld (fold (raise_alert sv rule) fired e)) = tables (eWorld e)
    \<and> (\<forall>t. mRaised (eMetrics (fold (raise_alert sv rule) fired e)) t
        = mRaised (eMetrics e) t + length (filter (\<lambda>a. alTenantID a = t) fired))
    \<and> ((\<forall>w. svCtxErr sv w = None) \<longrightarrow> deliveries (fold (raise_alert sv rule) fired e)
        = deliveries e + (if ruWebhookURL rule = None then 0 else length fired))
    \<and> (\<exists>entries. eLog (fold (raise_alert sv rule) fired e) = eLog e @ entries)"
  using assms
proof (induction fired arbitrary: e)
  case (Cons a fired)
  from raise_alert_effect [OF Cons.prems, of rule a] Cons.IH [of "raise_alert sv rule a e"]
  show ?case by (auto simp del: fold_simps simp: fold_simps(2))
qed simp

lemma evaluate_rule_settles:
  fixes stop :: gotime
  assumes ok: "good (eWorld e)" and rule: "rule \<in> set (dbRules (tables (eWorld e)))"
  defines "e' \<equiv> evaluate_rule sv stop rule e"
  shows "good (eWorld e') \<and> settles tables sv stop e e'
    \<and> (svCtxErr sv (eWorld e') = None \<longrightarrow> covered host stop (tables (eWorld e')) rule e')"
proof (cases "svEvaluate sv rule stop (eWorld e)")
  case (Pair r w)
  note ev = evaluates [OF ok rule Pair]
  show ?thesis
  proof (cases r)
    case (Inl err)
    have eq: "e' = (if svCtxErr sv w = None
        then logFailure ''cannot evaluate an alert rule'' err
               [int_attr ''rule_id'' (ruID rule), text_attr ''tenant'' (ruTenantID rule)]
               (count_evaluation ''failed'' (e\<lparr>eWorld := w\<rparr>))
        else e\<lparr>eWorld := w\<rparr>)"
      by (auto simp: e'_def evaluate_rule_def Pair Inl Let_def)
    have "settles tables sv stop e (count_evaluation ''failed'' (e\<lparr>eWorld := w\<rparr>))" "settles tables sv stop e (e\<lparr>eWorld := w\<rparr>)"
      using ev Inl by (simp_all add: settles_def same_tables_def count_evaluation_def deliveries_def)
    with ev Inl show ?thesis
      by (auto simp: eq covered_def settles_logFailure count_evaluation_def)
  next
    case (Inr fired)
    define e1 where "e1 = count_evaluation ''ok'' (e\<lparr>eWorld := w\<rparr>)"
    have e1: "eWorld e1 = w" "mRaised (eMetrics e1) = mRaised (eMetrics e)" "deliveries e1 = deliveries e" "eLog e1 = eLog e"
      by (simp_all add: e1_def count_evaluation_def deliveries_def)
    have e': "e' = fold (raise_alert sv rule) fired e1"
      by (simp add: e'_def evaluate_rule_def Pair Inr e1_def)
    have added: "alerts_added (tables (eWorld e)) fired (tables w)"
      and firing: "\<forall>a \<in> set fired. firing_of host rule stop (tables (eWorld e)) a"
      and all: "\<forall>key. fires host rule stop (tables (eWorld e)) key \<longrightarrow> key \<in> alGroupKey ` set fired"
      and okw: "good w" using ev Inr by simp_all
    note eff = raise_all_effect [of e1 rule fired, folded e', unfolded e1, OF okw]
    have web: "has_webhook (tables (eWorld e)) (stored_alert.truncate a) \<longleftrightarrow> ruWebhookURL rule \<noteq> None" if "a \<in> set fired" for a
    proof -
      have "alRuleID a = ruID rule" using firing that by (simp add: firing_of_def)
      then show ?thesis
        using rules_distinct [OF ok] rule
        by (auto simp: has_webhook_def stored_alert.defs distinct_map inj_on_def)
    qed
    have "length (filter (has_webhook (tables (eWorld e))) (map stored_alert.truncate fired))
        = (if ruWebhookURL rule = None then 0 else length fired)"
      using web by (auto simp: filter_map o_def filter_empty_conv intro!: arg_cong [of _ _ length] filter_True)
    moreover have "filter (\<lambda>a. alTenantID a = t) (map stored_alert.truncate fired)
        = map stored_alert.truncate (filter (\<lambda>a. alTenantID a = t) fired)" for t
      by (simp add: filter_map o_def stored_alert.defs)
    moreover have "\<forall>a \<in> set (map stored_alert.truncate fired). alWindowEnd a = stop"
      using firing by (auto simp: firing_of_def stored_alert.defs)
    ultimately have "settles tables sv stop e e'"
      using added eff unfolding settles_def
      by (intro conjI exI [of _ "map stored_alert.truncate fired"]) (auto simp: alerts_added_def same_tables_def)
    moreover have "\<not> fires host rule stop (tables w) key" for key
    proof
      assume now: "fires host rule stop (tables w) key"
      then have "fires host rule stop (tables (eWorld e)) key"
        using added by (auto simp: fires_def alerts_added_def)
      with all obtain a where "a \<in> set fired" "alGroupKey a = key" by auto
      moreover from this firing have "alRuleID a = ruID rule" "alWindowStart a = stop - rule_window rule"
        by (simp_all add: firing_of_def)
      moreover have "stored_alert.truncate a \<in> set (dbAlerts (tables w))"
        using added \<open>a \<in> set fired\<close> by (simp add: alerts_added_def)
      ultimately show False
        using now unfolding fires_def by (metis stored_alert.defs(4) stored_alert.select_convs(2,4,5))
    qed
    ultimately show ?thesis using eff by (simp add: covered_def)
  qed
qed

lemma run_rules_settles:
  assumes "good (eWorld e)" and "set rules \<subseteq> set (dbRules (tables (eWorld e)))"
    and "run_rules sv stop rules e = (r, e')"
  shows "good (eWorld e') \<and> settles tables sv stop e e'
    \<and> (r = None \<longrightarrow> (\<forall>rule \<in> set rules. covered host stop (tables (eWorld e')) rule e'))"
  using assms
proof (induction rules arbitrary: e)
  case Nil
  then show ?case by (simp add: settles_refl)
next
  case (Cons rule rules)
  define e1 where "e1 = evaluate_rule sv stop rule e"
  have 1: "good (eWorld e1)" "settles tables sv stop e e1"
    "svCtxErr sv (eWorld e1) = None \<Longrightarrow> covered host stop (tables (eWorld e1)) rule e1"
    using evaluate_rule_settles [OF Cons.prems(1), of rule stop] Cons.prems(2) by (simp_all add: e1_def)
  show ?case
  proof (cases "svCtxErr sv (eWorld e1)")
    case None
    then have run: "run_rules sv stop rules e1 = (r, e')"
      using Cons.prems(3) by (simp add: e1_def [symmetric] Let_def)
    have "set rules \<subseteq> set (dbRules (tables (eWorld e1)))"
      using Cons.prems(2) 1(2) by (auto simp: settles_def same_tables_def)
    note rest = Cons.IH [OF 1(1) this run]
    then have both: "settles tables sv stop e1 e'" by simp
    show ?thesis
      using rest settles_trans [OF 1(2) both] covered_settles [OF both 1(3) [OF None]] by simp
  next
    case (Some err)
    then show ?thesis
      using Cons.prems(3) 1 by (auto simp: e1_def [symmetric] Let_def)
  qed
qed

lemma run_tenants_settles:
  assumes "good (eWorld e)" and "run_tenants sv stop tenants e = (r, e')"
  shows "good (eWorld e') \<and> settles tables sv stop e e'
    \<and> (r = None \<longrightarrow> (\<forall>rule \<in> set (dbRules (tables (eWorld e))). ruTenantID rule \<in> set tenants \<longrightarrow>
          covered host stop (tables (eWorld e')) rule e'))"
  using assms
proof (induction tenants arbitrary: e)
  case Nil
  then show ?case by (simp add: settles_refl)
next
  case (Cons t tenants)
  obtain l w where list: "svListRules sv \<lparr>scope_TenantID = t, scope_Admin = False\<rparr> t (eWorld e) = (l, w)"
    by fastforce
  note ls = lists_rules [OF Cons.prems(1) list]
  define e1 where "e1 = e\<lparr>eWorld := w\<rparr>"
  have e1: "good (eWorld e1)" "settles tables sv stop e e1" "tables (eWorld e1) = tables (eWorld e)"
    using ls by (simp_all add: e1_def settles_def same_tables_def deliveries_def)
  show ?case
  proof (cases l)
    case (Inl err)
    show ?thesis
    proof (cases "svCtxErr sv w")
      case None
      define e2 where "e2 = logFailure ''cannot list a tenant's alert rules'' err [text_attr ''tenant'' t] e1"
      have e2: "good (eWorld e2)" "settles tables sv stop e e2" "tables (eWorld e2) = tables (eWorld e)"
        using e1 by (simp_all add: e2_def settles_logFailure)
      have run: "run_tenants sv stop tenants e2 = (r, e')"
        using Cons.prems(2) by (simp add: list Inl None e1_def e2_def)
      have "covered host stop (tables (eWorld e2)) rule e2" if "ruTenantID rule = t" for rule
        using that by (simp add: covered_def e2_def)
      note here = this
      note rest = Cons.IH [OF e2(1) run]
      then have both: "settles tables sv stop e2 e'" by simp
      show ?thesis
        using rest settles_trans [OF e2(2) both] covered_settles [OF both here] e2(3) by auto
    next
      case (Some cerr)
      then show ?thesis using Cons.prems(2) e1 by (auto simp: list Inl e1_def)
    qed
  next
    case (Inr rules)
    obtain r1 e2 where rr: "run_rules sv stop rules e1 = (r1, e2)" by fastforce
    have rules: "set rules = {rule \<in> set (dbRules (tables (eWorld e1))). ruTenantID rule = t}"
      using ls Inr e1(3) by simp
    then have run: "good (eWorld e2) \<and> settles tables sv stop e1 e2
        \<and> (r1 = None \<longrightarrow> (\<forall>rule \<in> set rules. covered host stop (tables (eWorld e2)) rule e2))"
      by (intro run_rules_settles [OF e1(1) _ rr]) auto
    then have e2: "settles tables sv stop e e2" using e1(2) settles_trans by blast
    show ?thesis
    proof (cases r1)
      case None
      then have rest: "run_tenants sv stop tenants e2 = (r, e')"
        using Cons.prems(2) rr by (simp add: list Inr e1_def)
      have same: "dbRules (tables (eWorld e2)) = dbRules (tables (eWorld e))"
        using e2 by (simp add: settles_def same_tables_def)
      from run have "good (eWorld e2)" by simp
      note later = Cons.IH [OF this rest]
      then have both: "settles tables sv stop e2 e'" by simp
      have "covered host stop (tables (eWorld e')) rule e'"
        if "rule \<in> set (dbRules (tables (eWorld e)))" "ruTenantID rule = t" for rule
      proof -
        have "covered host stop (tables (eWorld e2)) rule e2"
          using run None that rules e1(3) by simp
        then show ?thesis by (rule covered_settles [OF both])
      qed
      then show ?thesis
        using later settles_trans [OF e2 both] same by auto
    next
      case (Some err)
      then show ?thesis using Cons.prems(2) rr run e2 by (auto simp: list Inr e1_def)
    qed
  qed
qed

lemma Run_settles:
  assumes "good (eWorld e)" and "Run sv now e = (r, e')"
    and tenants: "\<And>rule. rule \<in> set (dbRules (tables (eWorld e))) \<Longrightarrow>
      ruTenantID rule \<in> set (adTenants (tables (eWorld e)))"
  shows "settles tables sv (WindowEnd now) e e'
    \<and> (r = None \<longrightarrow> (\<forall>rule \<in> set (dbRules (tables (eWorld e))).
          covered host (WindowEnd now) (tables (eWorld e')) rule e'))"
proof -
  obtain l w where list: "svListIDs sv (eWorld e) = (l, w)" by fastforce
  note ls = lists_tenants [OF assms(1) list]
  define e1 where "e1 = e\<lparr>eWorld := w\<rparr>"
  have e1: "good (eWorld e1)" "settles tables sv (WindowEnd now) e e1" "tables (eWorld e1) = tables (eWorld e)"
    using ls by (simp_all add: e1_def settles_def same_tables_def deliveries_def)
  show ?thesis
  proof (cases l)
    case (Inl err)
    then show ?thesis using assms(2) e1(2) by (auto simp: Run_def list e1_def)
  next
    case (Inr ts)
    then have run: "run_tenants sv (WindowEnd now) ts e1 = (r, e')"
      using assms(2) by (simp add: Run_def list e1_def)
    have "set ts = set (adTenants (tables (eWorld e)))" using ls Inr by simp
    moreover note all = run_tenants_settles [OF e1(1) run]
    moreover from all have "settles tables sv (WindowEnd now) e1 e'" by simp
    ultimately show ?thesis
      using settles_trans [OF e1(2)] tenants e1(3) by auto
  qed
qed

end

text \<open>
  The window of an evaluation ends on a whole minute, at least \<open>Lag\<close> and less than a
  minute more behind the clock; and these two bounds leave no other choice, so every
  evaluation within the same minute asks about the same window.
\<close>

theorem WindowEnd_unique:
  "WindowEnd now = t \<longleftrightarrow> minute dvd t \<and> t \<le> now - Lag \<and> now - Lag < t + minute"
proof -
  have m: "minute dvd day" "0 < minute" by (simp_all add: duration_defs)
  have trunc: "WindowEnd now = (now - Lag) - (now - Lag) mod minute"
    unfolding WindowEnd_def by (rule time_truncate_epoch [OF m(2,1)])
  have mod: "0 \<le> (now - Lag) mod minute" "(now - Lag) mod minute < minute"
    using m(2) by simp_all
  have "minute dvd (now - Lag) - (now - Lag) mod minute"
    by (rule dvd_minus_mod)
  moreover have "t = (now - Lag) - (now - Lag) mod minute"
    if "minute dvd t" "t \<le> now - Lag" "now - Lag < t + minute"
  proof -
    have "(now - Lag) mod minute = (now - Lag - t) mod minute"
      using that(1) by (simp add: mod_eq_dvd_iff)
    also have "\<dots> = now - Lag - t"
      using that by simp
    finally show ?thesis by simp
  qed
  ultimately show ?thesis using trunc mod by auto
qed

subsection \<open>The evaluator on the store\<close>

text \<open>
  The services \<open>cmd\<close> wires up: the repositories on one session, the webhook, and a context
  that may end at any interaction. \<open>post\<close> is the receiver's answer.
\<close>

definition store_services ::
  "(bytes \<Rightarrow> bytes) \<Rightarrow> (int \<Rightarrow> int) \<Rightarrow> (addr \<Rightarrow> bytes) \<Rightarrow> failures \<Rightarrow> failures \<Rightarrow> (bytes \<Rightarrow> bytes) \<Rightarrow> (bytes \<Rightarrow> bool)
   \<Rightarrow> (bytes \<Rightarrow> api_alert \<Rightarrow> nat \<Rightarrow> http_answer) \<Rightarrow> alerts_db session services" where
  "store_services quoted lw host fails ended urlHost valid post =
     \<lparr>svListIDs = ListIDs fails, svListRules = ListRules fails, svEvaluate = Evaluate quoted lw host fails,
      svSend = Webhook_Send valid (\<lambda>target a s. (post target a (sStep s), s\<lparr>sStep := sStep s + 1\<rparr>)),
      svCtxErr = (\<lambda>s. ended (sStep s)), svURLHost = urlHost\<rparr>"

lemma statement_read:
  assumes "statement fails (\<lambda>s. Inr (f s, sData s)) s = (r, s')"
  shows "sData s' = sData s \<and> (\<forall>x. r = Inr x \<longrightarrow> x = f (s\<lparr>sStep := sStep s + 1\<rparr>))"
  using assms by (auto simp: statement_def interact_def split: option.splits)

lemma ListRules_reads:
  assumes "ListRules fails sc t s = (r, s')"
  shows "sData s' = sData s \<and> (\<forall>rs. r = Inr rs \<longrightarrow>
     set rs = {rule \<in> set (dbRules (sData s)). visible sc (ruTenantID rule) \<and> (t = [] \<or> ruTenantID rule = t)})"
proof (cases r)
  case (Inl e)
  with assms InScope_Inl show ?thesis by (auto simp: ListRules_def)
next
  case (Inr rs)
  define f where "f = (if t = [] then (\<lambda>s :: alerts_db session. ListAlertRules (sScope s) (sData s))
     else (\<lambda>s. ListTenantAlertRules t (sScope s) (sData s)))"
  have eq: "(if t = [] then statement fails (\<lambda>s. Inr (ListAlertRules (sScope s) (sData s), sData s))
      else statement fails (\<lambda>s. Inr (ListTenantAlertRules t (sScope s) (sData s), sData s)))
      = statement fails (\<lambda>s. Inr (f s, sData s))"
    by (simp add: f_def)
  from InScope_Inr [OF assms [unfolded ListRules_def Inr eq]] obtain s1 s2
    where "statement fails (\<lambda>s. Inr (f s, sData s)) s1 = (Inr rs, s2)"
      "sData s1 = sData s" "sScope s1 = sc" "sData s' = sData s2"
    by auto
  with Inr statement_read [of fails f s1 "Inr rs" s2] show ?thesis
    by (simp add: f_def ListAlertRules_def ListTenantAlertRules_def split: if_splits)
qed

interpretation store: alert_store
  "store_services quoted lw host fails ended urlHost valid post"
  sData "\<lambda>s. alerts_wf (sData s) \<and> inj host" host
  for quoted lw host fails ended urlHost valid post
proof unfold_locales
  fix w w' :: "alerts_db session" and r :: "go_error + bytes list" and r' :: "go_error + alert_rule list"
    and r'' :: "go_error + alert list" and r3 t rule stop url a
  assume good: "alerts_wf (sData w) \<and> inj host"
  show "distinct (map ruID (dbRules (sData w)))"
    using good by (simp add: alerts_wf_def)
  show "(alerts_wf (sData w') \<and> inj host) \<and> sData w' = sData w
      \<and> (\<forall>ts. r = Inr ts \<longrightarrow> set ts = set (adTenants (sData w)))"
    if "svListIDs (store_services quoted lw host fails ended urlHost valid post) w = (r, w')"
  proof -
    have "statement fails (\<lambda>s. Inr (sort_key (dbCollate (sData s)) (adTenants (sData s)), sData s)) w = (r, w')"
      using that by (simp add: store_services_def ListIDs_def)
    note read = statement_read [of fails "\<lambda>s. sort_key (dbCollate (sData s)) (adTenants (sData s))" w r w', OF this]
    with good show ?thesis by (cases r) simp_all
  qed
  show "(alerts_wf (sData w') \<and> inj host) \<and> sData w' = sData w
      \<and> (\<forall>rs. r' = Inr rs \<longrightarrow> set rs = {rule \<in> set (dbRules (sData w)). ruTenantID rule = t})"
    if "svListRules (store_services quoted lw host fails ended urlHost valid post)
        \<lparr>scope_TenantID = t, scope_Admin = False\<rparr> t w = (r', w')"
    using that good by (auto simp: store_services_def visible_def dest!: ListRules_reads)
  show "(alerts_wf (sData w') \<and> inj host) \<and> sData w' = sData w"
    if "svSend (store_services quoted lw host fails ended urlHost valid post) url a w = (r3, w')"
    using that good by (auto simp: store_services_def Webhook_Send_def split: if_splits http_answer.splits)
  assume rule: "rule \<in> set (dbRules (sData w))"
    and run: "svEvaluate (store_services quoted lw host fails ended urlHost valid post) rule stop w = (r'', w')"
  from good have "inj host" "alerts_wf (sData w)" by simp_all
  from Evaluate_wf [OF this rule, where quoted = quoted and lw = lw and fails = fails and stop = stop] run
  show "(alerts_wf (sData w') \<and> inj host) \<and> (case r'' of
          Inl _ \<Rightarrow> sData w' = sData w
        | Inr fired \<Rightarrow> alerts_added (sData w) fired (sData w')
            \<and> (\<forall>a \<in> set fired. firing_of host rule stop (sData w) a)
            \<and> (\<forall>key. fires host rule stop (sData w) key \<longrightarrow> key \<in> alGroupKey ` set fired))"
    using good by (auto simp: store_services_def split: sum.splits)
qed

lemma alerts_wf_tenants: "alerts_wf db \<Longrightarrow> rule \<in> set (dbRules db) \<Longrightarrow> ruTenantID rule \<in> set (adTenants db)"
  by (simp add: alerts_wf_def)

text \<open>A run over the sample tables, half a minute after its window.\<close>

definition sample_evaluator :: "alerts_db session evaluator" where
  "sample_evaluator = \<lparr>eWorld = sample_created, eMetrics = newMetrics, eLog = []\<rparr>"

definition sample_run :: "(addr \<Rightarrow> bytes) \<Rightarrow> go_error option \<times> alerts_db session evaluator" where
  "sample_run host = Run (store_services (\<lambda>s. s) (\<lambda>c. c) host (\<lambda>_. None) (\<lambda>_. None) (\<lambda>u. u) (\<lambda>_. True)
     (\<lambda>_ _ _. Answered 200 ''200 OK'')) (minute + Lag) sample_evaluator"

lemma sample_run_result:
  "fst (sample_run host) = None"
  "map lgMessage (eLog (snd (sample_run host))) = [''alert raised'']"
  "WindowEnd (minute + Lag) = minute"
  by code_simp+

text \<open>
  C10. A run that ends without an error has dealt with every rule of every tenant, whatever
  failed on the way: no group of the rule is left to fire in this window, or the log names
  the rule whose evaluation failed or the tenant whose rules could not be listed. One bad
  tenant or rule never holds up the others.
\<close>

theorem Run_covers:
  assumes "inj host" and "alerts_reach quoted lw host (sData (eWorld e))"
    and "Run (store_services quoted lw host fails ended urlHost valid post) now e = (None, e')"
    and "rule \<in> set (dbRules (sData (eWorld e)))"
  shows "(\<forall>key. \<not> fires host rule (WindowEnd now) (sData (eWorld e')) key)
    \<or> logged ''cannot evaluate an alert rule'' (int_attr ''rule_id'' (ruID rule)) e'
    \<or> logged ''cannot list a tenant's alert rules'' (text_attr ''tenant'' (ruTenantID rule)) e'"
proof -
  have wf: "alerts_wf (sData (eWorld e))" using assms(1,2) by (rule alerts_reach_wf)
  have "alerts_wf (sData (eWorld e)) \<and> inj host" using wf assms(1) by simp
  from store.Run_settles [OF this assms(3) alerts_wf_tenants [OF wf]] assms(4)
  show ?thesis unfolding covered_def by blast
qed

theorem Run_covers_witness:
  "\<forall>key. \<not> fires sample_host (hd (dbRules (sData sample_created))) minute
     (sData (eWorld (snd (sample_run sample_host)))) key"
proof -
  obtain e' where e': "sample_run sample_host = (None, e')"
    using sample_run_result(1) [of sample_host] by (cases "sample_run sample_host") auto
  have rule: "hd (dbRules (sData sample_created)) \<in> set (dbRules (sData (eWorld sample_evaluator)))"
    using sample_rules(1) by (simp add: sample_evaluator_def)
  have reach: "alerts_reach (\<lambda>s. s) (\<lambda>c. c) sample_host (sData (eWorld sample_evaluator))"
    using sample_reach(1) by (simp add: sample_evaluator_def)
  have "map lgMessage (eLog e') = [''alert raised'']"
    using sample_run_result(2) [of sample_host] e' by simp
  then have "\<not> logged ''cannot evaluate an alert rule'' x e'" "\<not> logged ''cannot list a tenant's alert rules'' x e'" for x
    by (auto simp: logged_def map_eq_Cons_conv)
  with Run_covers [OF inj_sample_host reach e' [unfolded sample_run_def] rule] e' sample_run_result(3)
  show ?thesis by simp
qed

text \<open>
  Every firing a run records, and no other, is counted under its tenant; all of them are
  for the run's window; and unless the run is being stopped, each one whose rule has a
  webhook is sent exactly once, delivered or not.
\<close>

theorem Run_counts:
  assumes "inj host" and "alerts_reach quoted lw host (sData (eWorld e))"
    and "Run (store_services quoted lw host fails ended urlHost valid post) now e = (r, e')"
  shows "\<exists>new. dbAlerts (sData (eWorld e')) = dbAlerts (sData (eWorld e)) @ new
    \<and> list_all (\<lambda>a. alWindowEnd a = WindowEnd now) new
    \<and> (\<forall>t. mRaised (eMetrics e') t = mRaised (eMetrics e) t + length (filter (\<lambda>a. alTenantID a = t) new))
    \<and> ((\<forall>n. ended n = None) \<longrightarrow>
        deliveries e' = deliveries e + length (filter (has_webhook (sData (eWorld e))) new))"
proof -
  have wf: "alerts_wf (sData (eWorld e))" using assms(1,2) by (rule alerts_reach_wf)
  have ended: "(\<forall>w. svCtxErr (store_services quoted lw host fails ended urlHost valid post) w = None)
      \<longleftrightarrow> (\<forall>w :: alerts_db session. ended (sStep w) = None)"
    by (simp add: store_services_def)
  have "alerts_wf (sData (eWorld e)) \<and> inj host" using wf assms(1) by simp
  from store.Run_settles [OF this assms(3) alerts_wf_tenants [OF wf]]
  have "settles sData (store_services quoted lw host fails ended urlHost valid post) (WindowEnd now) e e'"
    by (rule conjunct1)
  then obtain new where "dbAlerts (sData (eWorld e')) = dbAlerts (sData (eWorld e)) @ new"
    "\<forall>a \<in> set new. alWindowEnd a = WindowEnd now"
    "\<forall>t. mRaised (eMetrics e') t = mRaised (eMetrics e) t + length (filter (\<lambda>a. alTenantID a = t) new)"
    "(\<forall>w :: alerts_db session. ended (sStep w) = None) \<longrightarrow>
        deliveries e' = deliveries e + length (filter (has_webhook (sData (eWorld e))) new)"
    unfolding settles_def ended by (elim conjE exE) (rule that)
  then show ?thesis
    unfolding list_all_iff by blast
qed

theorem Run_counts_witness:
  "\<exists>new. dbAlerts (sData (eWorld (snd (sample_run sample_host)))) = dbAlerts (sData sample_created) @ new
    \<and> mRaised (eMetrics (snd (sample_run sample_host))) ''a'' = length (filter (\<lambda>a. alTenantID a = ''a'') new)"
proof -
  obtain r e' where e': "sample_run sample_host = (r, e')" by fastforce
  have reach: "alerts_reach (\<lambda>s. s) (\<lambda>c. c) sample_host (sData (eWorld sample_evaluator))"
    using sample_reach(1) by (simp add: sample_evaluator_def)
  show ?thesis
    using Run_counts [OF inj_sample_host reach e' [unfolded sample_run_def]] e'
    by (auto simp: sample_evaluator_def newMetrics_def)
qed

end
