(* ===== verification/Jobs.thy ===== *)
theory Jobs
  imports Go_Log Go_Time
begin

text \<open>
  \<open>internal/jobs\<close>: background work inside the serve process. A run acts on a world \<open>'w\<close> and
  may panic; the clock is \<open>'w \<Rightarrow> gotime\<close>. \<open>loop\<close> is a machine whose states are between a run
  and the ticker's next answer; Go's ticker keeps one tick that nobody has taken and drops
  the others.
\<close>

record job_metrics =
  jmRuns :: "bytes \<times> bytes \<Rightarrow> nat option"
  jmDurations :: "bytes \<Rightarrow> duration list"
  jmLastSuccess :: "bytes \<Rightarrow> gotime option"

definition outcomeOK :: bytes where "outcomeOK = ''ok''"
definition outcomeFailed :: bytes where "outcomeFailed = ''failed''"
definition outcomePanicked :: bytes where "outcomePanicked = ''panicked''"

lemmas outcome_defs = outcomeOK_def outcomeFailed_def outcomePanicked_def

text \<open>A series of the counter is there once its labels have been asked for.\<close>

definition jobs_newMetrics :: "bytes list \<Rightarrow> job_metrics" where
  "jobs_newMetrics names =
     \<lparr>jmRuns = (\<lambda>(name, outcome).
        if name \<in> set names \<and> outcome \<in> set [outcomeOK, outcomeFailed, outcomePanicked] then Some 0 else None),
      jmDurations = (\<lambda>_. []), jmLastSuccess = (\<lambda>_. None)\<rparr>"

definition incremented :: "nat option \<Rightarrow> nat option" where
  "incremented n = Some (case n of None \<Rightarrow> 1 | Some n \<Rightarrow> n + 1)"

definition finished :: "bytes \<Rightarrow> bytes \<Rightarrow> duration \<Rightarrow> gotime \<Rightarrow> job_metrics \<Rightarrow> job_metrics" where
  "finished job outcome took now m =
     m\<lparr>jmRuns := (jmRuns m)((job, outcome) := incremented (jmRuns m (job, outcome))),
       jmDurations := (jmDurations m)(job := jmDurations m job @ [took]),
       jmLastSuccess := (if outcome = outcomeOK then (jmLastSuccess m)(job := Some now) else jmLastSuccess m)\<rparr>"

text \<open>A run returns an error, or none, or panics with a value; here its text and its stack.\<close>

datatype run_result = Returned "go_error option" | Panicked bytes bytes

record 'w job =
  jName :: bytes
  jEvery :: duration
  jRun :: "'w \<Rightarrow> run_result \<times> 'w"

record 'w runner =
  rnWorld :: 'w
  rnMetrics :: job_metrics
  rnLog :: "log_entry list"

text \<open>
  What \<open>runOnce\<close> does when the run has returned or panicked: \<open>stopping\<close> is whether the context
  is done by then; \<open>ms\<close> prints a duration in milliseconds.
\<close>

definition run_done ::
  "(duration \<Rightarrow> bytes) \<Rightarrow> bytes \<Rightarrow> gotime \<Rightarrow> gotime \<Rightarrow> bool \<Rightarrow> run_result
     \<Rightarrow> job_metrics \<times> log_entry list \<Rightarrow> job_metrics \<times> log_entry list" where
  "run_done ms name start now stopping r s =
     (case s of (m, es) \<Rightarrow>
      case r of
        Panicked p stack \<Rightarrow>
          (finished name outcomePanicked (time_sub now start) now m,
           es @ [\<lparr>lgLevel = LevelError, lgMessage = ''job panicked'',
              lgAttrs = [text_attr ''job'' name, text_attr ''panic'' p, text_attr ''stack'' stack]\<rparr>])
      | Returned err \<Rightarrow>
          (let took = time_sub now start;
               attrs = [text_attr ''job'' name, (''duration_ms'', LogOther (ms took))] in
           case err of
             None \<Rightarrow>
               (finished name outcomeOK took now m,
                es @ [\<lparr>lgLevel = LevelDebug, lgMessage = ''job finished'', lgAttrs = attrs\<rparr>])
           | Some e \<Rightarrow>
               if stopping
               then (m, es @ [\<lparr>lgLevel = LevelDebug, lgMessage = ''job stopped'', lgAttrs = attrs\<rparr>])
               else (finished name outcomeFailed took now m,
                     es @ [\<lparr>lgLevel = failure_level e, lgMessage = ''job failed'',
                        lgAttrs = attrs @ error_attrs e\<rparr>])))"

definition runOnce ::
  "('w \<Rightarrow> gotime) \<Rightarrow> ('w \<Rightarrow> bool) \<Rightarrow> (duration \<Rightarrow> bytes) \<Rightarrow> 'w job \<Rightarrow> 'w runner \<Rightarrow> 'w runner" where
  "runOnce clock ctxDone ms job s =
     (let start = clock (rnWorld s) in
      case jRun job (rnWorld s) of
        (r, w) \<Rightarrow>
          (case run_done ms (jName job) start (clock w) (ctxDone w) r (rnMetrics s, rnLog s) of
             (m, es) \<Rightarrow> s\<lparr>rnWorld := w, rnMetrics := m, rnLog := es\<rparr>))"

text \<open>
  Every run is accounted for once: it adds one entry to the log, and it counts one
  outcome, for this job only, unless it failed because the job is being stopped. A panic is
  an outcome like the others, and goes no further.
\<close>

definition outcome_of :: "bool \<Rightarrow> run_result \<Rightarrow> bytes option" where
  "outcome_of stopping r =
     (case r of
        Panicked _ _ \<Rightarrow> Some ''panicked''
      | Returned None \<Rightarrow> Some ''ok''
      | Returned (Some e) \<Rightarrow> if stopping then None else Some ''failed'')"

lemma run_done_counts:
  assumes "run_done ms name start now stopping r (m, es) = (m', es')"
  shows "jmRuns m' = (case outcome_of stopping r of
             None \<Rightarrow> jmRuns m
           | Some outcome \<Rightarrow> (jmRuns m)((name, outcome) := incremented (jmRuns m (name, outcome))))
    \<and> (\<exists>entry. es' = es @ [entry])
    \<and> jmLastSuccess m' = (if r = Returned None then (jmLastSuccess m)(name \<mapsto> now) else jmLastSuccess m)"
  using assms
  by (cases r) (auto simp: run_done_def Let_def finished_def outcome_defs outcome_of_def
      split: option.splits if_splits)

theorem runOnce_accounts:
  "case jRun job (rnWorld s) of (r, w) \<Rightarrow>
     rnWorld (runOnce clock ctxDone ms job s) = w
     \<and> (\<exists>entry. rnLog (runOnce clock ctxDone ms job s) = rnLog s @ [entry])
     \<and> jmRuns (rnMetrics (runOnce clock ctxDone ms job s)) =
         (case outcome_of (ctxDone w) r of
            None \<Rightarrow> jmRuns (rnMetrics s)
          | Some outcome \<Rightarrow> (jmRuns (rnMetrics s))((jName job, outcome) :=
              incremented (jmRuns (rnMetrics s) (jName job, outcome))))"
proof (cases "jRun job (rnWorld s)")
  case (Pair r w)
  obtain m es where "run_done ms (jName job) (clock (rnWorld s)) (clock w) (ctxDone w) r
      (rnMetrics s, rnLog s) = (m, es)" by fastforce
  with run_done_counts [OF this] show ?thesis by (simp add: runOnce_def Let_def Pair)
qed

subsection \<open>The loop\<close>

text \<open>
  The ticker: when its next tick comes, and whether one is waiting to be taken.
\<close>

record ticker =
  tkNext :: gotime
  tkWaiting :: bool

definition ticker_at :: "duration \<Rightarrow> gotime \<Rightarrow> ticker \<Rightarrow> ticker" where
  "ticker_at every now tk =
     (if now < tkNext tk then tk
      else \<lparr>tkNext = tkNext tk + ((now - tkNext tk) div every + 1) * every, tkWaiting = True\<rparr>)"

text \<open>
  When \<open>loop\<close> starts its runs, given how long each takes: at once, and then when the ticker
  has a tick for it. \<open>took\<close> ends where the context does.
\<close>

fun run_starts :: "duration \<Rightarrow> gotime \<Rightarrow> ticker \<Rightarrow> duration list \<Rightarrow> gotime list" where
  "run_starts every now tk [] = [now]"
| "run_starts every now tk (d # took) =
     (let tk = ticker_at every (now + d) tk in
      now # (if tkWaiting tk then run_starts every (now + d) (tk\<lparr>tkWaiting := False\<rparr>) took
             else run_starts every (tkNext tk) (tk\<lparr>tkNext := tkNext tk + every\<rparr>) took))"

definition loop_starts :: "duration \<Rightarrow> gotime \<Rightarrow> duration list \<Rightarrow> gotime list" where
  "loop_starts every start took = run_starts every start \<lparr>tkNext = start + every, tkWaiting = False\<rparr> took"

text \<open>The reference: a run waits for the first tick after its predecessor began, or for its end.\<close>

definition tick_after :: "duration \<Rightarrow> gotime \<Rightarrow> gotime \<Rightarrow> gotime" where
  "tick_after every start t = start + ((t - start) div every + 1) * every"

fun schedule :: "duration \<Rightarrow> gotime \<Rightarrow> gotime \<Rightarrow> duration list \<Rightarrow> gotime list" where
  "schedule every start t [] = [t]"
| "schedule every start t (d # took) = t # schedule every start (max (t + d) (tick_after every start t)) took"

lemma tick_after_shift:
  assumes "0 < every" and "tick_after every start t \<le> u"
  shows "tick_after every start t + ((u - tick_after every start t) div every + 1) * every = tick_after every start u"
proof -
  define k where "k = (t - start) div every + 1"
  define T where "T = tick_after every start t"
  have T: "T = start + k * every"
    by (simp add: T_def tick_after_def k_def)
  then have "u - start = (u - T) + k * every" by simp
  then have "(u - start) div every = (u - T) div every + k"
    using assms(1) by (metis div_mult_self1 less_irrefl add.commute)
  then have "T + ((u - T) div every + 1) * every = start + ((u - start) div every + 1) * every"
    using T by algebra
  then show ?thesis by (simp only: T_def [symmetric] tick_after_def [of every start u])
qed

lemma tick_after_tick:
  "0 < every \<Longrightarrow> tick_after every start (tick_after every start t) = tick_after every start t + every"
  by (simp add: tick_after_def distrib_right)

lemma run_starts_schedule:
  assumes "0 < every"
  shows "run_starts every t \<lparr>tkNext = tick_after every start t, tkWaiting = False\<rparr> took = schedule every start t took"
proof (induction took arbitrary: t)
  case (Cons d took)
  show ?case
  proof (cases "t + d < tick_after every start t")
    case True
    with Cons [of "tick_after every start t"] tick_after_tick [OF assms, of start t] show ?thesis
      by (simp add: ticker_at_def max_def)
  next
    case False
    with Cons [of "t + d"] tick_after_shift [OF assms, of start t "t + d"] show ?thesis
      by (simp add: ticker_at_def max_def)
  qed
qed simp

text \<open>
  A job runs once at start and then on the ticks of its interval, without drifting: each
  next run begins at the first tick after the one before it began or, if that one overran the
  tick, as soon as it ends. So runs never overlap, and the ticks missed meanwhile are
  skipped.
\<close>

theorem loop_schedule:
  assumes "0 < every"
  shows "loop_starts every start took = schedule every start start took"
proof -
  have "start + every = tick_after every start start"
    by (simp add: tick_after_def)
  with run_starts_schedule [OF assms, of start start took] show ?thesis
    by (simp add: loop_starts_def)
qed

theorem loop_schedule_witness:
  "loop_starts 60 0 [5, 150, 20, 1] = [0, 60, 210, 240, 300]"
  using loop_schedule [of 60 0 "[5, 150, 20, 1]"] by (simp add: tick_after_def)

end
