(* ===== verification/Auth.thy ===== *)
theory Auth
  imports Authz Go_Time Go_Utf8
begin

text \<open>
  \<open>internal/auth\<close>: the tokens people sign in for (\<open>token.go\<close>), who sent a request
  (\<open>middleware.go\<close>) and passwords (\<open>password.go\<close>). The packages that sign, hash and compare
  are outside the repository: \<open>sign\<close> and \<open>verify\<close> are the JWT library's, with its options
  already set (HS256 only, expiry required, issued-at checked, strict decoding), \<open>sha256\<close> is
  the digest, and bcrypt is the pair of its functions.
\<close>

subsection \<open>Tokens\<close>

definition MinSecretBytes :: nat where "MinSecretBytes = 32"
definition TokenTTL :: duration where "TokenTTL = 12 * hour"

text \<open>A token's payload; its times are whole seconds.\<close>

record claims =
  clRole :: bytes
  clTenant :: bytes
  clSubject :: bytes
  clIssuedAt :: gotime
  clExpiresAt :: gotime

record tokens_lib =
  lbSign :: "bytes \<Rightarrow> claims \<Rightarrow> go_error + bytes"
  lbVerify :: "bytes \<Rightarrow> gotime \<Rightarrow> bytes \<Rightarrow> go_error + claims"

definition NewTokens :: "bytes \<Rightarrow> go_error + bytes" where
  "NewTokens secret =
     (if length secret < MinSecretBytes
      then Inl (Foreign (''the token secret must be at least 32 bytes, got '' @ itoa (int (length secret))) [])
      else Inr secret)"

definition checkUser :: "(bytes \<Rightarrow> bytes) \<Rightarrow> caller \<Rightarrow> go_error option" where
  "checkUser quoted c =
     (if Role c \<noteq> Admin \<and> Role c \<noteq> Viewer
      then Some (Foreign (role_String (Role c) @ '' is not a user role'') [])
      else if Role c = Admin \<and> Tenant c \<noteq> []
      then Some (Foreign (''an admin has no tenant, got '' @ quoted (Tenant c)) [])
      else if Role c = Viewer \<and> Tenant c = []
      then Some (Foreign ''a viewer needs a tenant'' [])
      else if UserID c \<le> 0
      then Some (Foreign (''user id '' @ FormatInt (UserID c) @ '' is not positive'') [])
      else None)"

definition invalidToken :: "go_error \<Rightarrow> go_error" where
  "invalidToken err =
     Wrapping (Unauthenticated ''invalid_token'' ''the token is invalid or has expired; sign in again'') err"

definition Issue ::
  "(bytes \<Rightarrow> bytes) \<Rightarrow> tokens_lib \<Rightarrow> bytes \<Rightarrow> gotime \<Rightarrow> caller \<Rightarrow> go_error + bytes \<times> gotime" where
  "Issue quoted lib secret clock c =
     (case checkUser quoted c of
        Some err \<Rightarrow> Inl (Internalf err ''cannot issue a token'')
      | None \<Rightarrow>
          (let now = time_truncate clock second; expires = now + TokenTTL in
           case lbSign lib secret \<lparr>clRole = role_String (Role c), clTenant = Tenant c,
                  clSubject = FormatInt (UserID c), clIssuedAt = now, clExpiresAt = expires\<rparr> of
             Inl err \<Rightarrow> Inl (Internalf err ''cannot sign a token'')
           | Inr token \<Rightarrow> Inr (token, expires)))"

definition Parse :: "(bytes \<Rightarrow> bytes) \<Rightarrow> tokens_lib \<Rightarrow> bytes \<Rightarrow> gotime \<Rightarrow> bytes \<Rightarrow> go_error + caller" where
  "Parse quoted lib secret clock token =
     (case lbVerify lib secret clock token of
        Inl err \<Rightarrow> Inl (invalidToken err)
      | Inr cl \<Rightarrow>
     (case UserRole (clRole cl) of
        None \<Rightarrow> Inl (invalidToken (Foreign (''role '' @ quoted (clRole cl) @ '' is not a user role'') []))
      | Some r \<Rightarrow>
     (case ParseInt64 (clSubject cl) of
        None \<Rightarrow> Inl (invalidToken (Foreign (''subject '' @ quoted (clSubject cl) @ '' is not a user id'') []))
      | Some n \<Rightarrow>
     (let c = \<lparr>Role = r, Tenant = clTenant cl, UserID = n\<rparr> in
      case checkUser quoted c of
        Some err \<Rightarrow> Inl (invalidToken err)
      | None \<Rightarrow> Inr c))))"

subsection \<open>Requests\<close>

text \<open>
  \<open>strings.EqualFold(s, "Bearer")\<close>: none of its letters has another letter outside ASCII that
  folds to it.
\<close>

definition is_bearer :: "bytes \<Rightarrow> bool" where
  "is_bearer s \<longleftrightarrow> map ascii_lower_byte s = ''bearer''"

record authenticator =
  auSecret :: bytes
  auIngestKey :: bytes

definition NewAuthenticator :: "(bytes \<Rightarrow> bytes) \<Rightarrow> bytes \<Rightarrow> bytes \<Rightarrow> go_error + authenticator" where
  "NewAuthenticator sha256 secret ingestKey =
     (if length ingestKey < MinSecretBytes
      then Inl (Foreign (''the ingest key must be at least 32 bytes, got '' @ itoa (int (length ingestKey))) [])
      else Inr \<lparr>auSecret = secret, auIngestKey = sha256 ingestKey\<rparr>)"

definition anonymous_caller :: caller where
  "anonymous_caller = \<lparr>Role = Anonymous, Tenant = [], UserID = 0\<rparr>"

definition collector_caller :: caller where
  "collector_caller = \<lparr>Role = Collector, Tenant = [], UserID = 0\<rparr>"

text \<open>The values of the request's \<open>Authorization\<close> headers are the argument.\<close>

definition Authenticate ::
  "(bytes \<Rightarrow> bytes) \<Rightarrow> tokens_lib \<Rightarrow> (bytes \<Rightarrow> bytes) \<Rightarrow> authenticator \<Rightarrow> gotime \<Rightarrow> bytes list \<Rightarrow> go_error + caller" where
  "Authenticate quoted lib sha256 a clock vals =
     (case vals of
        [] \<Rightarrow> Inr anonymous_caller
      | [v] \<Rightarrow>
          (let (scheme, rest, _) = cut_byte (trim_space v) SP; credential = trim_space rest in
           if \<not> is_bearer scheme \<or> credential = []
           then Inl (invalidToken (Foreign ''not a bearer credential'' []))
           else if sha256 credential = auIngestKey a then Inr collector_caller
           else Parse quoted lib (auSecret a) clock credential)
      | _ \<Rightarrow> Inl (invalidToken (Foreign (itoa (int (length vals)) @ '' Authorization headers'') [])))"

text \<open>\<open>Middleware\<close>: the next handler gets the caller, or \<open>fail\<close> answers.\<close>

definition Middleware ::
  "('r \<Rightarrow> bytes list) \<Rightarrow> (bytes list \<Rightarrow> go_error + caller) \<Rightarrow> ('r \<Rightarrow> go_error \<Rightarrow> 'o) \<Rightarrow> ('r \<Rightarrow> caller \<Rightarrow> 'o) \<Rightarrow> 'r \<Rightarrow> 'o" where
  "Middleware headers auth fail next_handler r =
     (case auth (headers r) of Inl err \<Rightarrow> fail r err | Inr c \<Rightarrow> next_handler r c)"

subsection \<open>Passwords\<close>

definition maxPasswordBytes :: nat where "maxPasswordBytes = 72"

record bcrypt_lib =
  bcGenerate :: "bytes \<Rightarrow> bytes option"
  bcCompare :: "bytes \<Rightarrow> bytes \<Rightarrow> bool"

text \<open>
  \<open>GenerateFromPassword\<close> refuses more than 72 bytes; \<open>bcGenerate\<close> is what it does with the
  others, \<open>None\<close> when it cannot.
\<close>

definition HashPassword :: "bcrypt_lib \<Rightarrow> bytes \<Rightarrow> go_error + bytes" where
  "HashPassword lib password =
     (if maxPasswordBytes < length password
      then Inl (Wrapping (Invalid ''password_too_long'' ''password must be at most 72 bytes'')
             (Foreign ''bcrypt: password length exceeds 72 bytes'' []))
      else (case bcGenerate lib password of
          None \<Rightarrow> Inl (Internalf (Foreign ''bcrypt'' []) ''cannot hash password'')
        | Some h \<Rightarrow> Inr h))"

definition unknownUserHash :: bytes where
  "unknownUserHash = ''$2a$10$KfxAu1zE2xpTdKx1kXTs8ONLzCJp2C0nnGKXJj56TL11udkRMCWz2''"

definition CheckPassword :: "bcrypt_lib \<Rightarrow> bytes \<Rightarrow> bytes \<Rightarrow> bool" where
  "CheckPassword lib hash password =
     (let known = hash \<noteq> [];
          same = bcCompare lib (if known then hash else unknownUserHash) password in
      known \<and> length password \<le> maxPasswordBytes \<and> same)"

subsection \<open>Who may be a caller\<close>

lemma UserRole_String: "r = Admin \<or> r = Viewer \<Longrightarrow> UserRole (role_String r) = Some r"
  by (auto simp: UserRole_def role_String_def enum_name_def role_defs)

text \<open>What \<open>checkUser\<close> lets through: what the users table allows.\<close>

definition signed_in :: "caller \<Rightarrow> bool" where
  "signed_in c \<longleftrightarrow> (Role c = Admin \<and> Tenant c = [] \<or> Role c = Viewer \<and> Tenant c \<noteq> []) \<and> 0 < UserID c"

lemma checkUser_None: "checkUser quoted c = None \<longleftrightarrow> signed_in c"
  by (auto simp: checkUser_def signed_in_def role_defs)

lemma invalidToken_view [result_simps]:
  "KindOf (invalidToken err) = KindUnauthenticated" "CodeOf (invalidToken err) = ''invalid_token''"
  by (simp_all add: invalidToken_def Unauthenticated_def result_simps)

lemma Parse_cases:
  "case Parse quoted lib secret clock token of
     Inl err \<Rightarrow> KindOf err = KindUnauthenticated \<and> CodeOf err = ''invalid_token''
   | Inr c \<Rightarrow> signed_in c \<and> (\<exists>cl. lbVerify lib secret clock token = Inr cl
        \<and> UserRole (clRole cl) = Some (Role c) \<and> Tenant c = clTenant cl \<and> ParseInt64 (clSubject cl) = Some (UserID c))"
  by (auto simp: Parse_def Let_def result_simps checkUser_None split: sum.splits option.splits)

text \<open>The caller behind a credential.\<close>

definition bearer_caller :: "tokens_lib \<Rightarrow> (bytes \<Rightarrow> bytes) \<Rightarrow> authenticator \<Rightarrow> gotime \<Rightarrow> bytes \<Rightarrow> caller \<Rightarrow> bool" where
  "bearer_caller lib sha256 a clock credential c \<longleftrightarrow>
     credential \<noteq> [] \<and>
     (if sha256 credential = auIngestKey a then c = collector_caller
      else signed_in c \<and> (\<exists>cl. lbVerify lib (auSecret a) clock credential = Inr cl
        \<and> UserRole (clRole cl) = Some (Role c) \<and> Tenant c = clTenant cl))"

text \<open>
  C18. Who a request comes from, whatever the libraries answer: anonymous exactly when it has
  no credential; the collector only with the ingest key; and otherwise a user whose token
  verified, an admin without a tenant or a viewer with one. Anything else is refused as an
  invalid token, never let through as anonymous.
\<close>

theorem Authenticate_callers:
  "case Authenticate quoted lib sha256 a clock vals of
     Inl err \<Rightarrow> vals \<noteq> [] \<and> KindOf err = KindUnauthenticated \<and> CodeOf err = ''invalid_token''
   | Inr c \<Rightarrow>
       (if vals = [] then c = anonymous_caller
        else (\<exists>v. vals = [v] \<and> is_bearer (fst (cut_byte (trim_space v) SP))
          \<and> bearer_caller lib sha256 a clock (trim_space (fst (snd (cut_byte (trim_space v) SP)))) c))"
proof (cases vals)
  case Nil
  then show ?thesis by (simp add: Authenticate_def)
next
  case (Cons v vs)
  show ?thesis
  proof (cases vs)
    case Nil
    obtain scheme rest found where cut: "cut_byte (trim_space v) SP = (scheme, rest, found)"
      by (cases "cut_byte (trim_space v) SP")
    with Cons Nil Parse_cases [where quoted = quoted and lib = lib and secret = "auSecret a" and clock = clock and token = "trim_space rest"] show ?thesis
      by (auto simp: Authenticate_def Let_def result_simps bearer_caller_def split: sum.splits)
  next
    case (Cons w ws)
    with \<open>vals = v # vs\<close> show ?thesis by (simp add: Authenticate_def result_simps)
  qed
qed

text \<open>
  What the JWT library documents of the tokens it signs: they verify under the same secret
  from when they were issued until they expire, and not after that. It writes times as whole
  seconds, and the texts of the claims as JSON.
\<close>

definition whole_second :: "gotime \<Rightarrow> bool" where
  "whole_second t \<longleftrightarrow> second dvd t"

definition claims_exact :: "claims \<Rightarrow> bool" where
  "claims_exact c \<longleftrightarrow>
     whole_second (clIssuedAt c) \<and> whole_second (clExpiresAt c)
     \<and> utf8_valid (clRole c) \<and> utf8_valid (clTenant c) \<and> utf8_valid (clSubject c)"

definition tokens_lib_ok :: "tokens_lib \<Rightarrow> bool" where
  "tokens_lib_ok lib \<longleftrightarrow>
     (\<forall>secret c token now. lbSign lib secret c = Inr token \<longrightarrow> claims_exact c \<longrightarrow>
        (clIssuedAt c \<le> now \<and> now < clExpiresAt c \<longrightarrow> lbVerify lib secret now token = Inr c)
        \<and> (clExpiresAt c \<le> now \<longrightarrow> (\<exists>err. lbVerify lib secret now token = Inl err)))"

lemma ParseInt64_FormatInt: "0 < n \<Longrightarrow> n < 2 ^ 63 \<Longrightarrow> ParseInt64 (FormatInt n) = Some n"
  by (simp add: ParseInt64_def FormatInt_def atoi_itoa)

text \<open>What \<open>Issue\<close> signs is written exactly, provided that the tenant is text.\<close>

lemma digits_utf8: "all_digits s \<Longrightarrow> utf8_valid s"
proof -
  have "list_all ascii_digit s \<Longrightarrow> utf8_valid s"
    by (induction s) (auto simp: utf8_valid_ascii ascii_digit_def char_le_byte byte_def)
  then show "all_digits s \<Longrightarrow> utf8_valid s" by (simp add: all_digits_def list_all_iff)
qed

lemma issued_exact:
  assumes "signed_in c" and "utf8_valid (Tenant c)"
  shows "claims_exact \<lparr>clRole = role_String (Role c), clTenant = Tenant c, clSubject = FormatInt (UserID c),
      clIssuedAt = time_truncate clock second, clExpiresAt = time_truncate clock second + TokenTTL\<rparr>"
proof -
  have "0 < second" "second dvd zero_time" "second dvd TokenTTL"
    by (simp_all add: duration_defs zero_time_def TokenTTL_def)
  moreover from this have "second dvd time_truncate clock second"
    by (simp add: time_truncate_def) (metis add.commute diff_add_cancel diff_diff_eq2 dvd_add dvd_minus_mod)
  moreover have "utf8_valid (role_String (Role c))"
    using assms(1) by (auto simp: signed_in_def role_String_def enum_name_def role_defs utf8_valid_ascii byte_def)
  moreover have "utf8_valid (FormatInt (UserID c))"
    using assms(1) itoa_digits [of "UserID c"] by (simp add: signed_in_def FormatInt_def digits_utf8)
  ultimately show ?thesis
    using assms(2) by (simp add: claims_exact_def whole_second_def)
qed

lemma Issue_Parse_accepts:
  assumes "tokens_lib_ok lib" and "Issue quoted lib secret clock c = Inr (token, expires)"
    and "utf8_valid (Tenant c)" and "UserID c < 2 ^ 63" and "clock \<le> now"
  shows "if now < expires then Parse quoted lib secret now token = Inr c
    else \<exists>err. Parse quoted lib secret now token = Inl (invalidToken err)"
proof -
  define issued where "issued = time_truncate clock second"
  define cl where "cl = \<lparr>clRole = role_String (Role c), clTenant = Tenant c,
     clSubject = FormatInt (UserID c), clIssuedAt = issued, clExpiresAt = issued + TokenTTL\<rparr>"
  have user: "checkUser quoted c = None" and sign: "lbSign lib secret cl = Inr token"
    and exp: "expires = issued + TokenTTL"
    using assms(2) by (auto simp: Issue_def cl_def issued_def Let_def split: option.splits sum.splits)
  have "issued \<le> now"
    using assms(5) pos_mod_sign [of second "clock - zero_time"]
    by (simp add: issued_def time_truncate_def second_def)
  moreover have signed: "signed_in c" using user by (simp add: checkUser_None)
  then have "claims_exact cl"
    unfolding cl_def issued_def using assms(3) by (rule issued_exact)
  ultimately have "if now < expires then lbVerify lib secret now token = Inr cl
      else \<exists>err. lbVerify lib secret now token = Inl err"
    using assms(1) sign exp by (auto simp: tokens_lib_ok_def cl_def)
  moreover from signed have role: "UserRole (role_String (Role c)) = Some (Role c)"
    and num: "ParseInt64 (FormatInt (UserID c)) = Some (UserID c)"
    using assms(4) by (auto simp: signed_in_def intro: UserRole_String ParseInt64_FormatInt)
  have "Parse quoted lib secret now token = Inr c" if "lbVerify lib secret now token = Inr cl"
    using that user role num by (cases c) (simp add: Parse_def cl_def Let_def)
  ultimately show ?thesis
    by (auto simp: Parse_def split: if_splits)
qed

text \<open>
  C38. A token that \<open>Issue\<close> gave a user is accepted as that user, exactly, for the twelve
  hours it says, and refused as invalid from then on.
\<close>

theorem Issue_Parse:
  assumes "tokens_lib_ok lib" and "Issue quoted lib secret clock c = Inr (token, expires)"
    and "utf8_valid (Tenant c)" and "UserID c < 2 ^ 63" and "clock \<le> now"
  shows "if now < expires then Parse quoted lib secret now token = Inr c
    else \<exists>err. Parse quoted lib secret now token = Inl (invalidToken err)"
  using assms by (rule Issue_Parse_accepts)

text \<open>A library that signs nothing but writes the claims down shows that the laws can hold.\<close>

definition plain_lib :: tokens_lib where
  "plain_lib = \<lparr>
     lbSign = (\<lambda>secret c. if clRole c = ''admin'' \<and> clTenant c = [] \<and> clSubject c = ''1'' \<and> clIssuedAt c = 0
         \<and> clExpiresAt c = TokenTTL then Inr ''t'' else Inl (Foreign ''cannot sign'' [])),
     lbVerify = (\<lambda>secret now token. if token = ''t'' \<and> 0 \<le> now \<and> now < TokenTTL
         then Inr \<lparr>clRole = ''admin'', clTenant = [], clSubject = ''1'', clIssuedAt = 0, clExpiresAt = TokenTTL\<rparr>
         else Inl (Foreign ''cannot verify'' []))\<rparr>"

theorem Issue_Parse_witness:
  "Issue (\<lambda>s. s) plain_lib [] 0 \<lparr>Role = Admin, Tenant = [], UserID = 1\<rparr> = Inr (''t'', TokenTTL)
    \<and> Parse (\<lambda>s. s) plain_lib [] hour ''t'' = Inr \<lparr>Role = Admin, Tenant = [], UserID = 1\<rparr>"
proof -
  have lib: "tokens_lib_ok plain_lib"
    by (auto simp: tokens_lib_ok_def plain_lib_def split: if_splits)
  have issue: "Issue (\<lambda>s. s) plain_lib [] 0 \<lparr>Role = Admin, Tenant = [], UserID = 1\<rparr> = Inr (''t'', TokenTTL)"
    by code_simp
  have "hour < TokenTTL" "0 \<le> hour" by (simp_all add: TokenTTL_def duration_defs)
  with Issue_Parse [OF lib issue, of hour] issue show ?thesis
    by (simp add: utf8_valid_def)
qed

end
