(* ===== verification/Respond.thy ===== *)
theory Respond
  imports Auth Go_Log
begin

text \<open>
  \<open>internal/api/respond.go\<close> and \<open>metrics.go\<close>: request IDs, the envelope every error shares,
  and the wrapper that logs and counts each request and answers for a handler that panicked.
\<close>

subsection \<open>Request IDs\<close>

text \<open>\<open>base32\<close> with Crockford's alphabet, without padding: five bytes are eight digits.\<close>

definition idAlphabet :: bytes where
  "idAlphabet = ''0123456789ABCDEFGHJKMNPQRSTVWXYZ''"

definition be_value :: "bytes \<Rightarrow> int" where
  "be_value bs = foldl (\<lambda>v b. v * 256 + byte b) 0 bs"

fun be_bytes :: "nat \<Rightarrow> int \<Rightarrow> bytes" where
  "be_bytes 0 v = []"
| "be_bytes (Suc n) v = char_of (v div 256 ^ n mod 256) # be_bytes n v"

definition b32_block :: "bytes \<Rightarrow> bytes" where
  "b32_block bs =
     (let v = be_value bs in map (\<lambda>i. idAlphabet ! nat (v div 32 ^ (7 - i) mod 32)) [0..<8])"

text \<open>The clock in milliseconds, and the four random bytes that follow it.\<close>

definition newRequestID :: "int \<Rightarrow> bytes \<Rightarrow> bytes" where
  "newRequestID ms rnd =
     (let b = take 6 (be_bytes 8 (ms * 2 ^ 16 mod 2 ^ 64)) @ rnd in
      b32_block (take 5 b) @ b32_block (drop 5 b))"

subsection \<open>Errors\<close>

definition internalMessage :: bytes where
  "internalMessage = ''an unexpected error occurred''"

fun statusOf :: "kind \<Rightarrow> int" where
  "statusOf KindMalformed = 400"
| "statusOf KindInvalid = 422"
| "statusOf KindUnauthenticated = 401"
| "statusOf KindForbidden = 403"
| "statusOf KindNotFound = 404"
| "statusOf KindConflict = 409"
| "statusOf KindRateLimited = 429"
| "statusOf KindUnavailable = 503"
| "statusOf _ = 500"

record error_response =
  erCode :: bytes
  erMessage :: bytes
  erRequestID :: bytes
  erErrors :: "FieldError list option"

text \<open>An answer: its status, the headers it sets, its body, and the lines it logs.\<close>

record 'a reply =
  rpStatus :: int
  rpHeaders :: "(bytes \<times> bytes) list"
  rpBody :: 'a
  rpLog :: "log_entry list"

text \<open>
  \<open>failWith\<close>; \<open>gone\<close> is whether the request's context is done.
\<close>

definition failWith :: "bytes \<Rightarrow> bool \<Rightarrow> int \<Rightarrow> go_error \<Rightarrow> error_response reply" where
  "failWith rid gone status err =
     (let kind = KindOf err; fields = FieldsOf err;
          body = \<lparr>erCode = CodeOf err,
             erMessage = (if kind = KindInternal then internalMessage else MessageOf err),
             erRequestID = rid,
             erErrors = (if status = 422 \<and> fields \<noteq> [] then Some fields else None)\<rparr>;
          headers = (if status = 401
             then [(''WWW-Authenticate'', if erCode body = ''invalid_token'' then ''Bearer error='' @ [QUOTE] @ ''invalid_token'' @ [QUOTE]
                                          else ''Bearer'')]
             else []);
          (level, message) =
            (if status < 500 then (LevelDebug, ''request failed'')
             else if gone then (LevelWarn, ''request cancelled by the client'')
             else if kind = KindUnavailable then (LevelWarn, ''request failed'')
             else (LevelError, ''request failed'')) in
      \<lparr>rpStatus = status, rpHeaders = headers @ [(''Content-Type'', ''application/json'')], rpBody = body,
       rpLog = [\<lparr>lgLevel = level, lgMessage = message,
          lgAttrs = [text_attr ''request_id'' rid, text_attr ''code'' (erCode body), text_attr ''error'' (error_text err)]
            @ AttrsOf err\<rparr>]\<rparr>)"

definition fail :: "bytes \<Rightarrow> bool \<Rightarrow> go_error \<Rightarrow> error_response reply" where
  "fail rid gone err = failWith rid gone (statusOf (KindOf err)) err"

text \<open>\<open>respond\<close>: the bodies are values of the API's own types, which always encode.\<close>

definition respond :: "int \<Rightarrow> 'a \<Rightarrow> 'a reply" where
  "respond status body =
     \<lparr>rpStatus = status, rpHeaders = [(''Content-Type'', ''application/json'')], rpBody = body, rpLog = []\<rparr>"

subsection \<open>What the API counts\<close>

text \<open>
  A Prometheus vector is a partial map from label values to what is counted under them; a
  histogram keeps what it observed.
\<close>

record metrics =
  mxRequests :: "bytes list \<rightharpoonup> nat"
  mxDuration :: "bytes list \<rightharpoonup> duration list"
  mxIngested :: "bytes list \<rightharpoonup> nat"
  mxRejected :: "bytes list \<rightharpoonup> nat"
  mxSignIns :: "bytes list \<rightharpoonup> nat"

definition series :: "(bytes list \<rightharpoonup> nat) \<Rightarrow> bytes list \<Rightarrow> nat" where
  "series v labels = (case v labels of None \<Rightarrow> 0 | Some n \<Rightarrow> n)"

definition Inc :: "bytes list \<Rightarrow> (bytes list \<rightharpoonup> nat) \<Rightarrow> (bytes list \<rightharpoonup> nat)" where
  "Inc labels v = v(labels \<mapsto> series v labels + 1)"

definition signInOK :: bytes where "signInOK = ''signed_in''"
definition signInRefused :: bytes where "signInRefused = ''invalid_credentials''"
definition signInLimited :: bytes where "signInLimited = ''too_many_attempts''"

definition api_newMetrics :: metrics where
  "api_newMetrics =
     \<lparr>mxRequests = Map.empty, mxDuration = Map.empty, mxIngested = Map.empty, mxRejected = Map.empty,
      mxSignIns = fold (\<lambda>outcome v. v([outcome] \<mapsto> 0)) [signInOK, signInRefused, signInLimited] Map.empty\<rparr>"

text \<open>
  \<open>requestLabels\<close>: a pattern is a path, with a method before it or not.
\<close>

definition standard_methods :: "bytes list" where
  "standard_methods = [''GET'', ''HEAD'', ''POST'', ''PUT'', ''PATCH'', ''DELETE'', ''OPTIONS'']"

definition requestLabels :: "bytes \<Rightarrow> bytes \<Rightarrow> bytes \<times> bytes" where
  "requestLabels http_method pattern =
     (case cut_byte pattern SP of (_, path, found) \<Rightarrow>
        if found then (http_method, path)
        else (if http_method \<in> set standard_methods then http_method else ''other'',
              if pattern = [] then ''unmatched'' else pattern))"

definition count_request :: "bytes \<Rightarrow> bytes \<Rightarrow> int \<Rightarrow> duration \<Rightarrow> metrics \<Rightarrow> metrics" where
  "count_request http_method pattern status took m =
     (let (verb, path) = requestLabels http_method pattern in
      m\<lparr>mxRequests := Inc [verb, path, FormatInt status] (mxRequests m),
        mxDuration := (mxDuration m)([verb, path] \<mapsto>
          (case mxDuration m [verb, path] of None \<Rightarrow> [] | Some ds \<Rightarrow> ds) @ [took])\<rparr>)"

lemma series_Inc [simp]: "series (Inc l v) k = series v k + (if k = l then 1 else 0)"
  by (simp add: series_def Inc_def)

subsection \<open>The wrapper of every request\<close>

text \<open>
  What a handler does to its \<open>ResponseWriter\<close>, and how it ends: it returns, it panics with
  \<open>http.ErrAbortHandler\<close>, or it panics with another value, here its text and its stack.
\<close>

datatype resp_write = WriteHeader int | Write bytes
datatype ending = Returns | Aborts | Panics bytes bytes

record statusRecorder =
  srWrites :: "resp_write list"
  srStatus :: int

definition new_recorder :: statusRecorder where
  "new_recorder = \<lparr>srWrites = [], srStatus = 0\<rparr>"

fun record_write :: "resp_write \<Rightarrow> statusRecorder \<Rightarrow> statusRecorder" where
  "record_write (WriteHeader status) r =
     \<lparr>srWrites = srWrites r @ [WriteHeader status], srStatus = (if srStatus r = 0 then status else srStatus r)\<rparr>"
| "record_write (Write b) r =
     \<lparr>srWrites = srWrites r @ [Write b], srStatus = (if srStatus r = 0 then 200 else srStatus r)\<rparr>"

definition statusOrOK :: "statusRecorder \<Rightarrow> int" where
  "statusOrOK r = (if srStatus r = 0 then 200 else srStatus r)"

text \<open>\<open>writeJSON\<close>, with \<open>encode\<close> the encoding of an error envelope.\<close>

definition writeJSON :: "(error_response \<Rightarrow> bytes) \<Rightarrow> int \<Rightarrow> error_response \<Rightarrow> resp_write list" where
  "writeJSON encode status body = [WriteHeader status, Write (encode body)]"

record http_request =
  rqMethod :: bytes
  rqPath :: bytes

record observed =
  obRecorder :: statusRecorder
  obLog :: "log_entry list"
  obMetrics :: metrics

text \<open>The line of a handler that panicked, and the line of every request.\<close>

definition panic_line :: "bytes \<Rightarrow> bytes \<Rightarrow> bytes \<Rightarrow> log_entry" where
  "panic_line rid p stack =
     \<lparr>lgLevel = LevelError, lgMessage = ''handler panicked'',
      lgAttrs = [text_attr ''request_id'' rid, text_attr ''panic'' p, text_attr ''stack'' stack]\<rparr>"

definition panic_envelope :: "bytes \<Rightarrow> error_response" where
  "panic_envelope rid =
     \<lparr>erCode = ''internal_error'', erMessage = internalMessage, erRequestID = rid, erErrors = None\<rparr>"

definition request_line ::
  "(duration \<Rightarrow> bytes) \<Rightarrow> bytes \<Rightarrow> http_request \<Rightarrow> caller \<Rightarrow> duration \<Rightarrow> statusRecorder \<Rightarrow> log_entry" where
  "request_line milliseconds rid req c took r =
     \<lparr>lgLevel = (if rqPath req = ''/api/healthz'' \<and> srStatus r = 200 then LevelDebug else LevelInfo),
      lgMessage = ''request'',
      lgAttrs = [text_attr ''request_id'' rid, text_attr ''method'' (rqMethod req), text_attr ''path'' (rqPath req),
                 int_attr ''status'' (statusOrOK r), (''duration_ms'', LogOther (milliseconds took)),
                 text_attr ''role'' (role_String (Role c))]
              @ (if UserID c \<noteq> 0 then [int_attr ''user_id'' (UserID c)] else [])\<rparr>"

text \<open>
  \<open>observe\<close>, from what the handler wrote and how it ended. \<open>route\<close> is the pattern the request
  matches, and \<open>milliseconds\<close> the text of a duration in the log. An aborted handler's panic goes
  on to the server, and nothing is logged or counted.
\<close>

definition observe ::
  "(error_response \<Rightarrow> bytes) \<Rightarrow> (duration \<Rightarrow> bytes) \<Rightarrow> bytes \<Rightarrow> bytes \<Rightarrow> http_request \<Rightarrow> caller \<Rightarrow> duration \<Rightarrow> metrics
   \<Rightarrow> resp_write list \<Rightarrow> ending \<Rightarrow> observed outcome" where
  "observe encode milliseconds route rid req c took m writes end_of =
     (let handled = fold record_write writes new_recorder;
          answer = (\<lambda>r lines. Ret
            \<lparr>obRecorder = r, obLog = lines @ [request_line milliseconds rid req c took r],
             obMetrics = count_request (rqMethod req) route (statusOrOK r) took m\<rparr>) in
      case end_of of
        Aborts \<Rightarrow> Panic
      | Returns \<Rightarrow> answer handled []
      | Panics p stack \<Rightarrow>
          answer (if srStatus handled = 0
                  then fold record_write (writeJSON encode 500 (panic_envelope rid)) handled
                  else handled)
                 [panic_line rid p stack])"

subsection \<open>Every request is answered, logged and counted once\<close>

fun status_written :: "resp_write \<Rightarrow> int" where
  "status_written (WriteHeader status) = status"
| "status_written (Write _) = 200"

text \<open>The status the client gets: the first one written, 200 when none is.\<close>

definition first_status :: "resp_write list \<Rightarrow> int" where
  "first_status ws = (case filter (\<lambda>s. s \<noteq> 0) (map status_written ws) of [] \<Rightarrow> 0 | s # _ \<Rightarrow> s)"

lemma record_writes:
  "fold record_write ws r =
     \<lparr>srWrites = srWrites r @ ws, srStatus = (if srStatus r = 0 then first_status ws else srStatus r)\<rparr>"
proof (induction ws arbitrary: r)
  case (Cons w ws)
  then show ?case by (cases w) (auto simp: first_status_def)
qed (simp add: first_status_def)

lemma first_status_append:
  "first_status (ws @ vs) = (if first_status ws = 0 then first_status vs else first_status ws)"
proof (induction ws)
  case (Cons w ws)
  then show ?case by (simp add: first_status_def)
qed (simp add: first_status_def)

lemma first_status_Nil [simp]: "first_status [] = 0"
  by (simp add: first_status_def)

lemma first_status_envelope [simp]: "first_status [WriteHeader 500, Write b] = 500"
  by (simp add: first_status_def)

text \<open>The series of a request that was answered with \<open>status\<close>.\<close>

definition request_series :: "bytes \<Rightarrow> bytes \<Rightarrow> int \<Rightarrow> bytes list" where
  "request_series verb route status = (case requestLabels verb route of (v, p) \<Rightarrow> [v, p, FormatInt status])"

text \<open>
  C30. Unless its handler aborts the connection, a request is answered, logged and counted: what
  the handler wrote reaches the client in order, a panic before any status is answered with the
  500 envelope and nothing else is added, the log gets the panic, if any, and one request line,
  last, and exactly one series of the request counter goes up, by one, with the first status
  written.
\<close>

theorem observe_answers:
  "case observe encode milliseconds route rid req c took m writes end_of of
     Panic \<Rightarrow> end_of = Aborts
   | Ret ob \<Rightarrow>
       (let panicked = (case end_of of Panics p stack \<Rightarrow> [panic_line rid p stack] | _ \<Rightarrow> []);
            sent = writes @ (if panicked \<noteq> [] \<and> first_status writes = 0
                             then [WriteHeader 500, Write (encode (panic_envelope rid))] else []);
            status = (if first_status sent = 0 then 200 else first_status sent) in
        end_of \<noteq> Aborts
        \<and> srWrites (obRecorder ob) = sent
        \<and> statusOrOK (obRecorder ob) = status
        \<and> obLog ob = panicked @ [request_line milliseconds rid req c took (obRecorder ob)]
        \<and> (\<forall>labels. series (mxRequests (obMetrics ob)) labels
             = series (mxRequests m) labels
               + (if labels = request_series (rqMethod req) route status then 1 else 0)))"
  by (cases end_of)
    (simp_all add: observe_def Let_def record_writes new_recorder_def writeJSON_def statusOrOK_def count_request_def
      request_series_def first_status_append split: prod.splits)

subsection \<open>Request IDs sort by time\<close>

fun b32_digits :: "nat \<Rightarrow> int \<Rightarrow> bytes" where
  "b32_digits 0 v = []"
| "b32_digits (Suc n) v = idAlphabet ! nat (v div 32 ^ n mod 32) # b32_digits n v"

lemma length_b32_digits [simp]: "length (b32_digits n v) = n"
  by (induction n) simp_all

lemma b32_block_digits: "b32_block bs = b32_digits 8 (be_value bs)"
  by (simp add: b32_block_def Let_def upt_rec numeral_eq_Suc)

lemma idAlphabet_mono:
  "0 \<le> i \<Longrightarrow> i < j \<Longrightarrow> j < 32 \<Longrightarrow> idAlphabet ! nat i < idAlphabet ! nat j"
proof -
  have "sorted_wrt (<) idAlphabet" and "length idAlphabet = 32" by code_simp+
  then show "0 \<le> i \<Longrightarrow> i < j \<Longrightarrow> j < 32 \<Longrightarrow> idAlphabet ! nat i < idAlphabet ! nat j"
    by (simp add: sorted_wrt_iff_nth_less)
qed

lemma b32_digits_less: "v mod 32 ^ n < w mod 32 ^ n \<Longrightarrow> b32_digits n v < b32_digits n w"
proof (induction n)
  case (Suc n)
  have split: "x mod 32 ^ Suc n = 32 ^ n * (x div 32 ^ n mod 32) + x mod 32 ^ n" for x :: int
    using zmod_zmult2_eq [of 32 x "32 ^ n"] by (simp add: mult.commute)
  define dv dw where "dv = v div 32 ^ n mod 32" and "dw = w div 32 ^ n mod 32"
  have d: "0 \<le> dv" "dv < 32" "0 \<le> dw" "dw < 32" by (simp_all add: dv_def dw_def)
  have m: "0 \<le> v mod 32 ^ n" "w mod 32 ^ n < 32 ^ n" by simp_all
  have lt: "32 ^ n * dv + v mod 32 ^ n < 32 ^ n * dw + w mod 32 ^ n"
    using Suc.prems unfolding split dv_def dw_def .
  show ?case
  proof (cases dv dw rule: linorder_cases)
    case less
    with idAlphabet_mono [of dv dw] d show ?thesis by (simp add: dv_def dw_def)
  next
    case equal
    with lt have "v mod 32 ^ n < w mod 32 ^ n" by simp
    from Suc.IH [OF this] equal show ?thesis by (simp add: dv_def dw_def)
  next
    case greater
    then have "32 ^ n * (dw + 1) \<le> 32 ^ n * dv" by (intro mult_left_mono) simp_all
    then have "32 ^ n * dw + 32 ^ n \<le> 32 ^ n * dv" by (simp add: distrib_left)
    with lt m have False by linarith
    then show ?thesis ..
  qed
qed simp

lemma be_value_append: "be_value (xs @ ys) = be_value xs * 256 ^ length ys + be_value ys"
proof (induction ys rule: rev_induct)
  case (snoc y ys)
  then show ?case by (simp add: be_value_def distrib_right)
qed (simp add: be_value_def)

lemma byte_range: "0 \<le> byte c \<and> byte c < 256"
proof -
  have "(of_char c :: int) = of_char c mod 256" by (rule of_char_mod_256 [symmetric])
  then show ?thesis using pos_mod_bound [of 256 "of_char c :: int"] pos_mod_sign [of 256 "of_char c :: int"] unfolding byte_def by linarith
qed

lemma byte_of_char_of: "byte (char_of (n::int)) = n mod 256"
  by (simp add: byte_def)

lemma be_value_cons: "be_value (c # r) = byte c * 256 ^ length r + be_value r"
  using be_value_append [of "[c]" r] by (simp add: be_value_def)

lemma be_value_range: "0 \<le> be_value bs \<and> be_value bs < 256 ^ length bs"
proof (induction bs rule: rev_induct)
  case (snoc y ys)
  have "be_value (ys @ [y]) = be_value ys * 256 + byte y"
    by (simp add: be_value_def)
  with snoc byte_range [of y] show ?case by simp
qed (simp add: be_value_def)

lemma length_be_bytes [simp]: "length (be_bytes n v) = n"
  by (induction n) simp_all

lemma be_value_bytes: "be_value (be_bytes n v) = v mod 256 ^ n"
proof (induction n)
  case (Suc n)
  have "be_value (be_bytes (Suc n) v) = (v div 256 ^ n mod 256) * 256 ^ n + v mod 256 ^ n"
    using Suc unfolding be_bytes.simps be_value_cons byte_of_char_of by simp
  also have "\<dots> = v mod 256 ^ Suc n"
    using zmod_zmult2_eq [of 256 v "256 ^ n"] by (simp add: mult.commute)
  finally show ?case .
qed (simp add: be_value_def)

lemma be_bytes_take: "take m (be_bytes (m + k) v) = be_bytes m (v div 256 ^ k)"
proof (induction m)
  case (Suc m)
  have "v div 256 ^ (m + k) = v div 256 ^ k div 256 ^ m"
    by (simp add: power_add mult.commute zdiv_zmult2_eq)
  with Suc show ?case by simp
qed simp

lemma be_bytes_drop: "drop m (be_bytes (m + k) v) = be_bytes k v"
  by (induction m) simp_all

text \<open>
  Request IDs are sixteen characters and sort by time: an ID made in an earlier
  millisecond comes before one made later, whatever their random bytes.
\<close>

theorem newRequestID_sorts:
  assumes "0 \<le> ms" and "ms < ms'" and "ms' < 2 ^ 48" and "length rnd = 4" and "length rnd' = 4"
  shows "newRequestID ms rnd < newRequestID ms' rnd' \<and> length (newRequestID ms rnd) = 16"
proof -
  have parts: "newRequestID t r = b32_digits 8 (t div 256) @ b32_digits 8 ((t mod 256) * 2 ^ 32 + be_value r)"
    if "0 \<le> t" "t < 2 ^ 48" "length r = 4" for t r
  proof -
    define b where "b = take 6 (be_bytes 8 (t * 2 ^ 16 mod 2 ^ 64))"
    have "t * 2 ^ 16 mod 2 ^ 64 = t * 2 ^ 16" using that by simp
    then have b: "b = be_bytes 6 t"
      using be_bytes_take [of 6 2 "t * 2 ^ 16"] by (simp add: b_def)
    then have "take 5 (b @ r) = be_bytes 5 (t div 256)" "drop 5 (b @ r) = be_bytes 1 t @ r"
      using be_bytes_take [of 5 1 t] be_bytes_drop [of 5 1 t] by simp_all
    then have "be_value (take 5 (b @ r)) = t div 256"
      "be_value (drop 5 (b @ r)) = (t mod 256) * 2 ^ 32 + be_value r"
      using that be_value_bytes [of 5 "t div 256"] be_value_bytes [of 1 t] by (simp_all add: be_value_cons byte_of_char_of)
    then show ?thesis
      unfolding newRequestID_def Let_def b_def [symmetric] b32_block_digits by simp
  qed
  have le: "ms div 256 \<le> ms' div 256" using assms(2) by (intro zdiv_mono1) simp_all
  have "b32_digits 8 (ms div 256) < b32_digits 8 (ms' div 256)
      \<or> ms div 256 = ms' div 256 \<and> b32_digits 8 ((ms mod 256) * 2 ^ 32 + be_value rnd)
          < b32_digits 8 ((ms' mod 256) * 2 ^ 32 + be_value rnd')"
  proof (cases "ms div 256 = ms' div 256")
    case True
    with assms(2) have "ms mod 256 + 1 \<le> ms' mod 256"
      using mult_div_mod_eq [of 256 ms] mult_div_mod_eq [of 256 ms'] by linarith
    then have "(ms mod 256) * 2 ^ 32 + be_value rnd < (ms' mod 256) * 2 ^ 32 + be_value rnd'"
      using be_value_range [of rnd] be_value_range [of rnd'] assms(4,5) by simp
    moreover have "(ms' mod 256) * 2 ^ 32 + be_value rnd' < 32 ^ 8"
    proof -
      have "ms' mod 256 \<le> 255" using pos_mod_bound [of 256 ms'] by simp
      then show ?thesis using be_value_range [of rnd'] assms(5) by simp
    qed
    moreover have "0 \<le> (ms mod 256) * 2 ^ 32 + be_value rnd"
      using be_value_range [of rnd] by simp
    ultimately show ?thesis
      using True b32_digits_less [of "(ms mod 256) * 2 ^ 32 + be_value rnd" 8 "(ms' mod 256) * 2 ^ 32 + be_value rnd'"]
      by simp
  next
    case False
    then have "ms div 256 < ms' div 256" using le by simp
    moreover have "ms' div 256 < 32 ^ 8" using assms(3) by simp
    moreover have "0 \<le> ms div 256" using assms(1) by simp
    ultimately show ?thesis
      using b32_digits_less [of "ms div 256" 8 "ms' div 256"] by simp
  qed
  moreover have app: "xs < xs' \<Longrightarrow> length xs = length xs' \<Longrightarrow> xs @ ys < xs' @ ys'" for xs xs' ys ys' :: bytes
    by (induction xs xs' rule: list_induct2') auto
  moreover have "ys < ys' \<Longrightarrow> xs @ ys < xs @ ys'" for xs ys ys' :: bytes
    by (induction xs) auto
  ultimately show ?thesis
    using parts [of ms rnd] parts [of ms' rnd'] assms by auto
qed

theorem newRequestID_sorts_witness:
  "newRequestID 1758153600000 [NUL, NUL, NUL, CHR ''z''] < newRequestID 1758153600001 [NUL, NUL, NUL, NUL]"
  using newRequestID_sorts [of 1758153600000 1758153600001 "[NUL, NUL, NUL, CHR ''z'']" "[NUL, NUL, NUL, NUL]"]
  by simp

end
