(* ===== verification/Go_Json.thy ===== *)
theory Go_Json
  imports Go_Net "HOL-Library.AList"
begin

text \<open>
  What the source uses of Go's package \<open>encoding/json\<close>, on bytes. The scanner decides what
  is JSON and where a value ends; decoding works on text the scanner accepted. A
  \<open>json.RawMessage\<close> is the text of a value, and a \<open>map[string]T\<close> an association list
  with distinct keys. Nothing here translates a file of the repository.
\<close>

subsection \<open>The scanner\<close>

abbreviation COMMA :: char where "COMMA \<equiv> CHR '',''"
abbreviation COLON :: char where "COLON \<equiv> CHR '':''"
abbreviation LBRACE :: char where "LBRACE \<equiv> CHR ''{''"
abbreviation RBRACE :: char where "RBRACE \<equiv> CHR ''}''"
abbreviation LBRACK :: char where "LBRACK \<equiv> CHR ''[''"
abbreviation RBRACK :: char where "RBRACK \<equiv> CHR '']''"

definition json_space :: "char \<Rightarrow> bool" where
  "json_space c \<longleftrightarrow> c = SP \<or> c = TAB \<or> c = LF \<or> c = CR"

definition skip_ws :: "bytes \<Rightarrow> bytes" where
  "skip_ws s = dropWhile json_space s"

text \<open>The escapes of one character, with what they stand for.\<close>

definition json_escapes :: "(char \<times> char) list" where
  "json_escapes =
     [(QUOTE, QUOTE), (BACKSLASH, BACKSLASH), (CHR ''/'', CHR ''/''), (CHR ''b'', CHR 0x08),
      (CHR ''f'', CHR 0x0C), (CHR ''n'', LF), (CHR ''r'', CR), (CHR ''t'', TAB)]"

text \<open>From after the opening quote: what follows the closing quote.\<close>

fun scan_string :: "bytes \<Rightarrow> bytes option" where
  "scan_string [] = None"
| "scan_string (c # cs) =
     (if c = QUOTE then Some cs
      else if c = BACKSLASH then
        (case cs of
           [] \<Rightarrow> None
         | e # r \<Rightarrow>
             if e = CHR ''u'' then
               (if 4 \<le> length r \<and> (\<forall>x \<in> set (take 4 r). hex_digit x) then scan_string (drop 4 r) else None)
             else if e \<in> fst ` set json_escapes then scan_string r
             else None)
      else if byte c < 0x20 then None
      else scan_string cs)"

text \<open>A number: its integer part, and then perhaps a fraction and an exponent.\<close>

definition scan_digits :: "bytes \<Rightarrow> bytes option" where
  "scan_digits s = (if s \<noteq> [] \<and> ascii_digit (hd s) then Some (dropWhile ascii_digit s) else None)"

definition scan_exponent :: "bytes \<Rightarrow> bytes option" where
  "scan_exponent s =
     (if s \<noteq> [] \<and> (hd s = CHR ''e'' \<or> hd s = CHR ''E'')
      then (let r = tl s in scan_digits (if r \<noteq> [] \<and> (hd r = CHR ''+'' \<or> hd r = CHR ''-'') then tl r else r))
      else Some s)"

definition scan_fraction :: "bytes \<Rightarrow> bytes option" where
  "scan_fraction s = (if s \<noteq> [] \<and> hd s = CHR ''.'' then scan_digits (tl s) else Some s)"

definition scan_number :: "bytes \<Rightarrow> bytes option" where
  "scan_number s =
     (let r = trim_prefix s ''-'' in
      Option.bind (if has_prefix r ''0'' then Some (tl r) else scan_digits r) (\<lambda>r.
      Option.bind (scan_fraction r) scan_exponent))"

definition maxNestingDepth :: nat where "maxNestingDepth = 10000"

text \<open>
  One value after white space: what follows it. \<open>d\<close> is how many arrays and objects are open,
  and the first argument is fuel: two for each byte are enough, as \<open>scan_fuel\<close> shows.
\<close>

fun scan_value :: "nat \<Rightarrow> nat \<Rightarrow> bytes \<Rightarrow> bytes option"
  and scan_elems :: "nat \<Rightarrow> nat \<Rightarrow> bytes \<Rightarrow> bytes option"
  and scan_members :: "nat \<Rightarrow> nat \<Rightarrow> bytes \<Rightarrow> bytes option" where
  "scan_value 0 d s = None"
| "scan_value (Suc n) d s =
     (case skip_ws s of
        [] \<Rightarrow> None
      | c # cs \<Rightarrow>
          if c = LBRACE then
            (if maxNestingDepth \<le> d then None
             else if has_prefix (skip_ws cs) [RBRACE] then Some (tl (skip_ws cs))
             else scan_members n (d + 1) cs)
          else if c = LBRACK then
            (if maxNestingDepth \<le> d then None
             else if has_prefix (skip_ws cs) [RBRACK] then Some (tl (skip_ws cs))
             else scan_elems n (d + 1) cs)
          else if c = QUOTE then scan_string cs
          else if c = CHR ''t'' then cut_prefix (c # cs) ''true''
          else if c = CHR ''f'' then cut_prefix (c # cs) ''false''
          else if c = CHR ''n'' then cut_prefix (c # cs) ''null''
          else scan_number (c # cs))"
| "scan_elems 0 d s = None"
| "scan_elems (Suc n) d s =
     (case scan_value n d s of
        None \<Rightarrow> None
      | Some r \<Rightarrow>
          (case skip_ws r of
             [] \<Rightarrow> None
           | c # cs \<Rightarrow> if c = COMMA then scan_elems n d cs else if c = RBRACK then Some cs else None))"
| "scan_members 0 d s = None"
| "scan_members (Suc n) d s =
     (case skip_ws s of
        [] \<Rightarrow> None
      | q # cs \<Rightarrow>
          if q \<noteq> QUOTE then None
          else (case scan_string cs of
            None \<Rightarrow> None
          | Some r \<Rightarrow>
              if \<not> has_prefix (skip_ws r) [COLON] then None
              else (case scan_value n d (tl (skip_ws r)) of
                None \<Rightarrow> None
              | Some r \<Rightarrow>
                  (case skip_ws r of
                     [] \<Rightarrow> None
                   | c # cs \<Rightarrow> if c = COMMA then scan_members n d cs else if c = RBRACE then Some cs else None))))"

definition scan :: "bytes \<Rightarrow> bytes option" where
  "scan s = scan_value (2 * length s + 2) 0 s"

definition json_valid :: "bytes \<Rightarrow> bool" where
  "json_valid s \<longleftrightarrow> (case scan s of None \<Rightarrow> False | Some r \<Rightarrow> skip_ws r = [])"

subsection \<open>Strings\<close>

text \<open>\<open>getu4\<close>: the code unit of an escape \<open>\u\<close>, from after the \<open>u\<close>.\<close>

definition surrogate :: "int \<Rightarrow> bool" where
  "surrogate u \<longleftrightarrow> 0xD800 \<le> u \<and> u < 0xE000"

definition low_surrogate :: "bytes \<Rightarrow> int option" where
  "low_surrogate r =
     (if has_prefix r [BACKSLASH, CHR ''u''] \<and> 6 \<le> length r \<and> (\<forall>x \<in> set (take 4 (drop 2 r)). hex_digit x)
      then (let u = hex_number (take 4 (drop 2 r)) in if 0xDC00 \<le> u \<and> u < 0xE000 then Some u else None)
      else None)"

text \<open>\<open>unquote\<close>, of the text between the quotes.\<close>

function unquote_json :: "bytes \<Rightarrow> bytes" where
  "unquote_json s =
     (case s of
        [] \<Rightarrow> []
      | c # cs \<Rightarrow>
          if c = BACKSLASH then
            (if has_prefix cs ''u'' then
               (let u = hex_number (take 4 (tl cs)); r = drop 4 (tl cs) in
                if \<not> surrogate u then encode_rune u @ unquote_json r
                else (case (if u < 0xDC00 then low_surrogate r else None) of
                    Some v \<Rightarrow> encode_rune ((u - 0xD800) * 1024 + (v - 0xDC00) + 0x10000) @ unquote_json (drop 6 r)
                  | None \<Rightarrow> rune_error @ unquote_json r))
             else (case map_of json_escapes (hd cs) of
                 Some x \<Rightarrow> x # unquote_json (tl cs)
               | None \<Rightarrow> unquote_json (tl cs)))
          else if rune_width s = 0 then rune_error @ unquote_json cs
          else take (rune_width s) s @ unquote_json (drop (rune_width s) s))"
  by pat_completeness auto
termination
  by (relation "measure length") auto

declare unquote_json.simps [simp del]

text \<open>The text of one rune in a JSON string; \<open>html\<close> is \<open>SetEscapeHTML\<close>.\<close>

definition hex_char :: "int \<Rightarrow> char" where
  "hex_char n = ''0123456789abcdef'' ! nat n"

definition u_escape :: "int \<Rightarrow> bytes" where
  "u_escape n = [BACKSLASH, CHR ''u''] @ map (\<lambda>i. hex_char (n div 16 ^ i mod 16)) [3, 2, 1, 0]"

definition quote_rune :: "bool \<Rightarrow> bytes \<times> bool \<Rightarrow> bytes" where
  "quote_rune html r =
     (case r of (w, ok) \<Rightarrow>
        if \<not> ok then u_escape 0xFFFD
        else if length w = 1 then
          (let c = hd w in
           if c = QUOTE \<or> c = BACKSLASH then [BACKSLASH, c]
           else if c = CHR 0x08 then [BACKSLASH, CHR ''b''] else if c = CHR 0x0C then [BACKSLASH, CHR ''f'']
           else if c = LF then [BACKSLASH, CHR ''n''] else if c = CR then [BACKSLASH, CHR ''r''] else if c = TAB then [BACKSLASH, CHR ''t'']
           else if byte c < 0x20 \<or> html \<and> c \<in> set ''<>&'' then u_escape (byte c)
           else w)
        else if rune_value w = 0x2028 \<or> rune_value w = 0x2029 then u_escape (rune_value w)
        else w)"

definition quote_json :: "bool \<Rightarrow> bytes \<Rightarrow> bytes" where
  "quote_json html s = QUOTE # concat (map (quote_rune html) (runes s)) @ [QUOTE]"

text \<open>Decoding a value into a \<open>string\<close>, where it is not \<open>null\<close>.\<close>

definition json_string :: "bytes \<Rightarrow> bytes option" where
  "json_string raw =
     (if has_prefix raw [QUOTE] then Some (unquote_json (butlast (tl raw))) else None)"

subsection \<open>Objects and arrays\<close>

text \<open>The text of the value at the start of \<open>s\<close>, and what follows it.\<close>

definition raw_value :: "bytes \<Rightarrow> (bytes \<times> bytes) option" where
  "raw_value s =
     (let s' = skip_ws s in map_option (\<lambda>r. (take (length s' - length r) s', r)) (scan s'))"

text \<open>The members of an object and the elements of an array, in their order; \<open>n\<close> is fuel.\<close>

fun members_loop :: "nat \<Rightarrow> bytes \<Rightarrow> (bytes \<times> bytes) list" where
  "members_loop 0 s = []"
| "members_loop (Suc n) s =
     (case Option.bind (raw_value s) (\<lambda>(k, r). map_option (\<lambda>v. (k, v)) (raw_value (tl (skip_ws r)))) of
        None \<Rightarrow> []
      | Some (k, v, r) \<Rightarrow>
          (unquote_json (butlast (tl k)), v)
          # (if has_prefix (skip_ws r) [COMMA] then members_loop n (tl (skip_ws r)) else []))"

fun elems_loop :: "nat \<Rightarrow> bytes \<Rightarrow> bytes list" where
  "elems_loop 0 s = []"
| "elems_loop (Suc n) s =
     (case raw_value s of
        None \<Rightarrow> []
      | Some (v, r) \<Rightarrow> v # (if has_prefix (skip_ws r) [COMMA] then elems_loop n (tl (skip_ws r)) else []))"

definition json_members :: "bytes \<Rightarrow> (bytes \<times> bytes) list" where
  "json_members raw =
     (if has_prefix (skip_ws (tl raw)) [RBRACE] then [] else members_loop (length raw) (tl raw))"

definition json_elems :: "bytes \<Rightarrow> bytes list" where
  "json_elems raw =
     (if has_prefix (skip_ws (tl raw)) [RBRACK] then [] else elems_loop (length raw) (tl raw))"

text \<open>A map read from pairs: the last value of a key wins.\<close>

definition map_from :: "(bytes \<times> 'a) list \<Rightarrow> (bytes \<times> 'a) list" where
  "map_from kvs = fold (\<lambda>(k, v). AList.update k v) kvs []"

text \<open>
  \<open>json.Unmarshal\<close> of a whole text into a \<open>map[string]json.RawMessage\<close>: \<open>None\<close> for an error,
  and for a nil map, which \<open>null\<close> leaves.
\<close>

definition json_object :: "bytes \<Rightarrow> (bytes \<times> bytes) list option" where
  "json_object s =
     (if json_valid s \<and> has_prefix (skip_ws s) [LBRACE]
      then Some (map_from (json_members (skip_ws s))) else None)"

text \<open>
  Into a \<open>[]string\<close>: \<open>null\<close> elements are empty strings, and an element of another kind is
  an error. \<open>raw\<close> is the text of a value other than \<open>null\<close>.
\<close>

definition json_strings :: "bytes \<Rightarrow> bytes list option" where
  "json_strings raw =
     (if \<not> has_prefix raw [LBRACK] then None
      else those (map (\<lambda>v. if v = ''null'' then Some [] else json_string v) (json_elems raw)))"

subsection \<open>Structs\<close>

text \<open>
  The field a key names: the one with exactly that name, or else the first whose name is
  equal under simple case folding. The names here are ASCII, so the only other runes that
  fold into one are U+017F, with \<open>s\<close>, and U+212A, with \<open>k\<close>.
\<close>

definition fold_byte_runes :: "bytes \<Rightarrow> bytes" where
  "fold_byte_runes s = concat (map (\<lambda>(w, ok).
     if w = [CHR 0xC5, CHR 0xBF] then ''s'' else if w = [CHR 0xE2, CHR 0x84, CHR 0xAA] then ''k''
     else map ascii_lower_byte w) (runes s))"

definition struct_field :: "bytes list \<Rightarrow> bytes \<Rightarrow> bytes option" where
  "struct_field names key =
     (if key \<in> set names then Some key
      else find (\<lambda>n. map ascii_lower_byte n = fold_byte_runes key) names)"

subsection \<open>Values of any type\<close>

text \<open>What decoding with \<open>UseNumber\<close> into an \<open>any\<close> gives, and its encoding.\<close>

datatype json = JNull | JBool bool | JNumber bytes | JString bytes | JArray "json list"
  | JObject "(bytes \<times> json) list"

fun decode_any :: "nat \<Rightarrow> bytes \<Rightarrow> json" where
  "decode_any 0 raw = JNull"
| "decode_any (Suc n) raw =
     (if has_prefix raw [LBRACE] then JObject (map_from (map (\<lambda>(k, v). (k, decode_any n v)) (json_members raw)))
      else if has_prefix raw [LBRACK] then JArray (map (decode_any n) (json_elems raw))
      else if has_prefix raw [QUOTE] then JString (unquote_json (butlast (tl raw)))
      else if raw = ''true'' then JBool True
      else if raw = ''false'' then JBool False
      else if raw = ''null'' then JNull
      else JNumber raw)"

fun encode_any :: "bool \<Rightarrow> json \<Rightarrow> bytes" where
  "encode_any html JNull = ''null''"
| "encode_any html (JBool b) = (if b then ''true'' else ''false'')"
| "encode_any html (JNumber n) = n"
| "encode_any html (JString s) = quote_json html s"
| "encode_any html (JArray vs) = ''['' @ join_bytes '','' (map (encode_any html) vs) @ '']''"
| "encode_any html (JObject kvs) =
     ''{'' @ join_bytes '','' (map (\<lambda>(k, t). quote_json html k @ '':'' @ t)
        (sort_key fst (map (\<lambda>(k, v). (k, encode_any html v)) kvs))) @ ''}''"

subsection \<open>Raw text in an encoding\<close>

text \<open>\<open>compact\<close> with HTML escaping; the first argument is whether a string is open.\<close>

fun compact :: "bool \<Rightarrow> bytes \<Rightarrow> bytes" where
  "compact q [] = []"
| "compact False (c # cs) =
     (if json_space c then compact False cs else c # compact (c = QUOTE) cs)"
| "compact True (c # cs) =
     (if c = BACKSLASH then (case cs of [] \<Rightarrow> [c] | e # r \<Rightarrow> c # e # compact True r)
      else if c \<in> set ''<>&'' then u_escape (byte c) @ compact True cs
      else if c = CHR 0xE2 \<and> (has_prefix cs [CHR 0x80, CHR 0xA8] \<or> has_prefix cs [CHR 0x80, CHR 0xA9])
        then u_escape (0x2000 + byte (cs ! 1) - 0x80) @ compact True (drop 2 cs)
      else c # compact (c \<noteq> QUOTE) cs)"

text \<open>\<open>json.Marshal\<close> of a \<open>map[string]json.RawMessage\<close>: its keys sorted.\<close>

definition marshal_raw :: "(bytes \<times> bytes) list \<Rightarrow> bytes" where
  "marshal_raw fields =
     ''{'' @ join_bytes '','' (map (\<lambda>(k, v). quote_json True k @ '':'' @ compact False v) (sort_key fst fields)) @ ''}''"

subsection \<open>Enough fuel\<close>

lemma length_skip_ws: "length (skip_ws s) \<le> length s"
  by (simp add: skip_ws_def length_dropWhile_le)

lemma skip_ws_Cons: "skip_ws s = c # cs \<Longrightarrow> length cs < length s"
  using length_skip_ws [of s] by simp

lemma scan_string_less: "scan_string s = Some r \<Longrightarrow> length r < length s"
proof (induction s rule: scan_string.induct)
  case (2 c cs)
  note prems = "2.prems" and IH = "2.IH"
  show ?case
  proof (cases "c = QUOTE")
    case True
    with prems show ?thesis by simp
  next
    case quote: False
    show ?thesis
    proof (cases "c = BACKSLASH")
      case True
      with prems quote obtain e r' where cs: "cs = e # r'" by (cases cs) auto
      have "length r < length (drop 4 r') \<or> length r < length r'"
        using prems quote True IH(1) [OF quote True cs] IH(2) [OF quote True cs] unfolding cs
        by (simp split: if_splits)
      with cs show ?thesis by auto
    next
      case False
      with prems quote have "\<not> byte c < 0x20" and "scan_string cs = Some r" by (simp_all split: if_splits)
      from IH(3) [OF quote False this] show ?thesis by simp
    qed
  qed
qed simp

lemma scan_digits_le: "scan_digits s = Some r \<Longrightarrow> length r \<le> length s"
  by (auto simp: scan_digits_def length_dropWhile_le split: if_splits)

lemma scan_number_le: "scan_number s = Some r \<Longrightarrow> length r \<le> length s"
proof -
  assume a: "scan_number s = Some r"
  define u where "u = trim_prefix s ''-''"
  have u: "length u \<le> length s" by (simp add: u_def trim_prefix_def)
  from a obtain v w where v: "v = tl u \<or> scan_digits u = Some v" and w: "scan_fraction v = Some w"
    and r: "scan_exponent w = Some r"
    by (auto simp: scan_number_def Let_def u_def bind_eq_Some_conv split: if_splits)
  have "length v \<le> length u" using v scan_digits_le by auto
  moreover have "length w \<le> length v"
    using w scan_digits_le [of "tl v" w] by (auto simp: scan_fraction_def split: if_splits)
  moreover have "length r \<le> length w"
    using r scan_digits_le by (fastforce simp: scan_exponent_def Let_def split: if_splits dest: scan_digits_le)
  ultimately show ?thesis using u by linarith
qed

lemma cut_prefix_le: "cut_prefix s p = Some r \<Longrightarrow> length r \<le> length s"
  by (auto simp: cut_prefix_def split: if_splits)

lemma scan_le:
  "(\<forall>d s r. scan_value n d s = Some r \<longrightarrow> length r \<le> length s)
   \<and> (\<forall>d s r. scan_elems n d s = Some r \<longrightarrow> length r \<le> length s)
   \<and> (\<forall>d s r. scan_members n d s = Some r \<longrightarrow> length r \<le> length s)"
proof (induction n)
  case (Suc n)
  then have vals: "scan_value n d s = Some r \<Longrightarrow> length r \<le> length s"
    and elems: "scan_elems n d s = Some r \<Longrightarrow> length r \<le> length s"
    and members: "scan_members n d s = Some r \<Longrightarrow> length r \<le> length s" for d s r
    by blast+
  have close: "length (tl (skip_ws cs)) \<le> length cs" for cs
    using length_skip_ws [of cs] by simp
  have "length r \<le> length s" if "scan_value (Suc n) d s = Some r" for d s r
  proof (cases "skip_ws s")
    case (Cons c cs)
    have "length r \<le> length (c # cs)"
      using that unfolding scan_value.simps Cons list.case
      by (auto split: if_splits dest!: elems members scan_string_less scan_number_le cut_prefix_le
          intro: le_SucI le_trans [OF close])
    with skip_ws_Cons [OF Cons] show ?thesis by simp
  qed (use that in simp)
  moreover have "length r \<le> length s" if "scan_elems (Suc n) d s = Some r" for d s r
  proof -
    from that obtain r1 where r1: "scan_value n d s = Some r1" by (auto split: option.splits)
    with that obtain c cs where c: "skip_ws r1 = c # cs" by (auto split: list.splits)
    from that r1 c have "scan_elems n d cs = Some r \<or> r = cs" by (auto split: if_splits)
    then have "length r \<le> length cs" using elems by auto
    with skip_ws_Cons [OF c] vals [OF r1] show ?thesis by simp
  qed
  moreover have "length r \<le> length s" if "scan_members (Suc n) d s = Some r" for d s r
  proof -
    from that obtain q cs where q: "skip_ws s = q # cs" by (auto split: list.splits)
    from that q obtain r1 where r1: "scan_string cs = Some r1" by (auto split: option.splits if_splits)
    from that q r1 obtain r2 where r2: "scan_value n d (tl (skip_ws r1)) = Some r2"
      by (auto split: option.splits if_splits)
    from that q r1 r2 obtain c ds where c: "skip_ws r2 = c # ds" by (auto split: list.splits if_splits)
    from that q r1 r2 c have "scan_members n d ds = Some r \<or> r = ds" by (auto split: if_splits)
    then have "length r \<le> length ds" using members by auto
    with skip_ws_Cons [OF q] skip_ws_Cons [OF c] vals [OF r2] scan_string_less [OF r1] close [of r1]
    show ?thesis by simp
  qed
  ultimately show ?case by blast
qed simp

text \<open>More fuel than two for each byte changes nothing.\<close>

lemma scan_fuel_step:
  "(\<forall>d s. 2 * length s < n \<longrightarrow> scan_value (n + k) d s = scan_value n d s)
   \<and> (\<forall>d s. 2 * length s + 1 < n \<longrightarrow> scan_elems (n + k) d s = scan_elems n d s)
   \<and> (\<forall>d s. 2 * length s < n \<longrightarrow> scan_members (n + k) d s = scan_members n d s)"
proof (induction n)
  case (Suc n)
  then have vals: "2 * length s < n \<Longrightarrow> scan_value (n + k) d s = scan_value n d s"
    and elems: "2 * length s + 1 < n \<Longrightarrow> scan_elems (n + k) d s = scan_elems n d s"
    and members: "2 * length s < n \<Longrightarrow> scan_members (n + k) d s = scan_members n d s" for d s
    by blast+
  have "scan_value (Suc n + k) d s = scan_value (Suc n) d s" if "2 * length s < Suc n" for d s
  proof (cases "skip_ws s")
    case (Cons c cs)
    from skip_ws_Cons [OF this] that Cons show ?thesis by (simp add: elems members)
  qed simp
  moreover have "scan_elems (Suc n + k) d s = scan_elems (Suc n) d s" if fuel: "2 * length s + 1 < Suc n" for d s
  proof (cases "scan_value n d s")
    case (Some r)
    show ?thesis
    proof (cases "skip_ws r")
      case (Cons c cs)
      have "length r \<le> length s" using Some scan_le by blast
      with skip_ws_Cons [OF Cons] fuel Cons Some show ?thesis by (simp add: vals elems)
    qed (use Some fuel vals in simp)
  qed (use fuel vals in simp)
  moreover have "scan_members (Suc n + k) d s = scan_members (Suc n) d s" if fuel: "2 * length s < Suc n" for d s
  proof (cases "skip_ws s")
    case (Cons q cs)
    note q = this skip_ws_Cons [OF this]
    show ?thesis
    proof (cases "scan_string cs")
      case (Some r)
      note r = this scan_string_less [OF this]
      have v: "scan_value (n + k) d (tl (skip_ws r)) = scan_value n d (tl (skip_ws r))"
        using q r fuel length_skip_ws [of r] by (intro vals) simp
      show ?thesis
      proof (cases "scan_value n d (tl (skip_ws r))")
        case (Some t)
        then have t: "length t \<le> length r" using scan_le [of n] length_skip_ws [of r] by fastforce
        show ?thesis
        proof (cases "skip_ws t")
          case (Cons c ds)
          from skip_ws_Cons [OF this] q r t fuel this Some v show ?thesis by (simp add: members)
        qed (use q r Some v in simp)
      qed (use q r v in simp)
    qed (use q in simp)
  qed simp
  ultimately show ?case by blast
qed simp

lemma scan_fuel:
  assumes "2 * length s + 2 \<le> n"
  shows "scan_value n 0 s = scan s"
proof -
  define m where "m = 2 * length s + 2"
  have "2 * length s < m" by (simp add: m_def)
  then have "scan_value (m + (n - m)) 0 s = scan_value m 0 s"
    using scan_fuel_step [of m "n - m"] by blast
  moreover have "m + (n - m) = n" using assms by (simp add: m_def)
  ultimately show ?thesis unfolding scan_def m_def [symmetric] by metis
qed

end
