(* ===== verification/Go_Number.thy ===== *)
theory Go_Number
  imports Go_Float Go_Net
begin

text \<open>
  \<open>strconv.ParseFloat(s, 64)\<close>: Go's floating-point literals, decimal or hexadecimal, with
  underscores between digits. The result is the nearest \<open>float64\<close>, subnormal numbers included.
  \<open>None\<close> stands for an error, and for infinities and NaN, which the source's only caller
  refuses just the same. Nothing here translates a file of the repository.
\<close>

definition lower_is :: "char \<Rightarrow> char \<Rightarrow> bool" where
  "lower_is c x \<longleftrightarrow> ascii_lower_byte c = x"

text \<open>
  The mantissa: its digits as an integer, how many of them stand after the point, whether there
  was one at all, and what follows. A second point ends it.
\<close>

fun mantissa :: "bool \<Rightarrow> bool \<Rightarrow> int \<times> nat \<times> bool \<Rightarrow> bytes \<Rightarrow> (int \<times> nat \<times> bool) \<times> bytes" where
  "mantissa hex dot acc [] = (acc, [])"
| "mantissa hex dot (v, k, seen) (c # cs) =
     (if c = CHR ''_'' then mantissa hex dot (v, k, seen) cs
      else if c = CHR ''.'' \<and> \<not> dot then mantissa hex True (v, k, seen) cs
      else if ascii_digit c \<or> hex \<and> hex_digit c
        then mantissa hex dot (v * (if hex then 16 else 10) + hex_number [c], if dot then k + 1 else k, True) cs
      else ((v, k, seen), c # cs))"

text \<open>The exponent: it stops growing at 10000. \<open>None\<close> where its digits are missing.\<close>

definition exponent :: "bytes \<Rightarrow> (int \<times> bytes) option" where
  "exponent s =
     (let neg = has_prefix s ''-''; r = (if neg \<or> has_prefix s ''+'' then tl s else s);
          is_exp = (\<lambda>c. ascii_digit c \<or> c = CHR ''_'') in
      if r = [] \<or> \<not> ascii_digit (hd r) then None
      else (let e = foldl (\<lambda>e c. if e < 10000 then e * 10 + digit_value c else e) 0
                  (filter ascii_digit (takeWhile is_exp r)) in
            Some (if neg then - e else e, dropWhile is_exp r)))"

text \<open>\<open>underscoreOK\<close>: each underscore is between digits, or after the base prefix.\<close>

datatype seen_kind = SeenStart | SeenDigit | SeenUnderscore | SeenOther

fun underscores :: "bool \<Rightarrow> seen_kind \<Rightarrow> bytes \<Rightarrow> bool" where
  "underscores hex k [] \<longleftrightarrow> k \<noteq> SeenUnderscore"
| "underscores hex k (c # cs) \<longleftrightarrow>
     (if ascii_digit c \<or> hex \<and> hex_digit c then underscores hex SeenDigit cs
      else if c = CHR ''_'' then k = SeenDigit \<and> underscores hex SeenUnderscore cs
      else k \<noteq> SeenUnderscore \<and> underscores hex SeenOther cs)"

definition unsigned :: "bytes \<Rightarrow> bytes" where
  "unsigned s = (if has_prefix s ''-'' \<or> has_prefix s ''+'' then tl s else s)"

definition base_prefix :: "bytes \<Rightarrow> char list \<Rightarrow> bool" where
  "base_prefix s letters \<longleftrightarrow> 2 \<le> length s \<and> hd s = CHR ''0'' \<and> ascii_lower_byte (s ! 1) \<in> set letters"

definition underscoreOK :: "bytes \<Rightarrow> bool" where
  "underscoreOK s =
     (let r = unsigned s in
      if base_prefix r ''box'' then underscores (lower_is (r ! 1) (CHR ''x'')) SeenDigit (drop 2 r)
      else underscores False SeenStart r)"

text \<open>The number a literal stands for, before it is rounded.\<close>

definition literal_value :: "bytes \<Rightarrow> rat option" where
  "literal_value s =
     (let neg = has_prefix s ''-''; r = unsigned s;
          hex = 2 < length r \<and> base_prefix r ''x'';
          ((v, k, seen), rest) = mantissa hex False (0, 0, False) (if hex then drop 2 r else r) in
      case (if rest \<noteq> [] \<and> lower_is (hd rest) (if hex then CHR ''p'' else CHR ''e'') then exponent (tl rest)
            else if hex then None else Some (0, rest)) of
        None \<Rightarrow> None
      | Some (e, rest) \<Rightarrow>
          if \<not> seen \<or> rest \<noteq> [] \<or> \<not> (CHR ''_'' \<in> set s \<longrightarrow> underscoreOK s) then None
          else (let q = (if hex then of_int v * pow2 (e - 4 * int k)
                         else of_int v * (if int k \<le> e then 10 ^ nat (e - int k) else inverse (10 ^ nat (int k - e)))) in
                Some (if neg then - q else q)))"

text \<open>The nearest \<open>float64\<close>; numbers below \<open>2 ^ -1022\<close> are multiples of \<open>2 ^ -1074\<close>.\<close>

definition float64 :: "rat \<Rightarrow> rat" where
  "float64 q =
     (if pow2 (- 1022) \<le> \<bar>q\<bar> then fl q
      else (let m = of_int (round_even (\<bar>q\<bar> / pow2 (- 1074))) * pow2 (- 1074) in if q < 0 then - m else m))"

definition ParseFloat :: "bytes \<Rightarrow> rat option" where
  "ParseFloat s =
     (case literal_value s of
        None \<Rightarrow> None
      | Some q \<Rightarrow> (let f = float64 q in if pow2 1024 \<le> \<bar>f\<bar> then None else Some f))"

end
