(* ===== verification/Normalize.thy ===== *)
theory Normalize
  imports Kv Syslog Event_Data Errors Store Go_Json Go_Number Go_Utf8
begin

text \<open>
  \<open>internal/ingest/normalize.go\<close> and \<open>sources.go\<close>: from one vendor record, a JSON object, to
  an event of the common schema. The builder's state is a record passed along; Go's maps of
  functions are association lists. Three things stay open: \<open>ul\<close> is \<open>unicode.ToLower\<close> beyond
  ASCII, \<open>q\<close> is \<open>%q\<close>, and \<open>order\<close> is the order in which Go happens to iterate over a map.
\<close>

subsection \<open>Text, addresses and integers\<close>

definition DefaultRetention :: duration where "DefaultRetention = 7 * day"
definition futureSkew :: duration where "futureSkew = hour"

definition TagAuthSuccess :: bytes where "TagAuthSuccess = ''auth_success''"
definition TagAuthFailure :: bytes where "TagAuthFailure = ''auth_failure''"
definition TagRebasedTime :: bytes where "TagRebasedTime = ''rebased:timestamp''"

definition maxText :: nat where "maxText = 2048"

definition cleanNUL :: "bytes \<Rightarrow> bytes" where
  "cleanNUL v = replace_byte NUL rune_error v"

definition cleanText :: "bytes \<Rightarrow> bytes" where
  "cleanText v = cleanNUL (to_valid_utf8 (trim_space v) rune_error)"

text \<open>The setters: whether the value could be taken, and the field afterwards.\<close>

definition setText :: "bytes option \<Rightarrow> bytes \<Rightarrow> bool \<times> bytes option" where
  "setText dst v =
     (let v = cleanText v in
      if dst \<noteq> None \<or> v = [] then (True, dst)
      else if maxText < length v then (False, dst)
      else (True, Some v))"

definition setAddr :: "addr option \<Rightarrow> bytes \<Rightarrow> bool \<times> addr option" where
  "setAddr dst v =
     (let v = trim_space v in
      if dst \<noteq> None \<or> v = [] then (True, dst)
      else (case parse_addr v of
          None \<Rightarrow> (False, dst)
        | Some a \<Rightarrow> (True, Some (without_zone (unmap a)))))"

definition parseInt :: "bytes \<Rightarrow> int option" where
  "parseInt v =
     (case ParseInt64 v of
        Some n \<Rightarrow> Some n
      | None \<Rightarrow>
          (case ParseFloat v of
             None \<Rightarrow> None
           | Some f \<Rightarrow> if f \<noteq> of_int \<lfloor>f\<rfloor> \<or> 2 ^ 53 < \<bar>f\<bar> then None else Some \<lfloor>f\<rfloor>))"

definition setInt :: "int option \<Rightarrow> bytes \<Rightarrow> int \<Rightarrow> int \<Rightarrow> bool \<times> int option" where
  "setInt dst v lo hi =
     (let v = trim_space v in
      if dst \<noteq> None \<or> v = [] then (True, dst)
      else (case parseInt v of
          None \<Rightarrow> (False, dst)
        | Some n \<Rightarrow> if n < lo \<or> hi < n then (False, dst) else (True, Some n)))"

text \<open>A field of the event, set through one of the three.\<close>

type_synonym setter = "new_event \<Rightarrow> bytes \<Rightarrow> bool \<times> new_event"

definition on_field ::
  "(new_event \<Rightarrow> 'x) \<Rightarrow> (('x \<Rightarrow> 'x) \<Rightarrow> new_event \<Rightarrow> new_event) \<Rightarrow> ('x \<Rightarrow> bytes \<Rightarrow> bool \<times> 'x) \<Rightarrow> setter" where
  "on_field get upd put e v = (case put (get e) v of (ok, x) \<Rightarrow> (ok, upd (\<lambda>_. x) e))"

definition setters :: "(int \<Rightarrow> int) \<Rightarrow> (bytes \<times> setter) list" where
  "setters ul =
     [(''vendor'', on_field evVendor evVendor_update setText),
      (''product'', on_field evProduct evProduct_update setText),
      (''event_type'', on_field evEventType evEventType_update setText),
      (''event_subtype'', on_field evEventSubtype evEventSubtype_update setText),
      (''action'', on_field evAction evAction_update setText),
      (''protocol'', on_field evProtocol evProtocol_update (\<lambda>dst v. setText dst (to_lower ul v))),
      (''user'', on_field evUserName evUserName_update setText),
      (''host'', on_field evHost evHost_update setText),
      (''process'', on_field evProcess evProcess_update setText),
      (''url'', on_field evURL evURL_update setText),
      (''http_method'', on_field evHTTPMethod evHTTPMethod_update setText),
      (''rule_name'', on_field evRuleName evRuleName_update setText),
      (''rule_id'', on_field evRuleID evRuleID_update setText),
      (''src_ip'', on_field evSrcIP evSrcIP_update setAddr),
      (''dst_ip'', on_field evDstIP evDstIP_update setAddr),
      (''severity'', on_field evSeverity evSeverity_update (\<lambda>dst v. setInt dst v 0 10)),
      (''src_port'', on_field evSrcPort evSrcPort_update (\<lambda>dst v. setInt dst v 0 65535)),
      (''dst_port'', on_field evDstPort evDstPort_update (\<lambda>dst v. setInt dst v 0 65535)),
      (''status_code'', on_field evStatusCode evStatusCode_update (\<lambda>dst v. setInt dst v 0 999))]"

text \<open>A string or a number as text.\<close>

definition scalar :: "bytes \<Rightarrow> bytes option" where
  "scalar raw =
     (case raw of
        [] \<Rightarrow> None
      | c # _ \<Rightarrow>
          if c = QUOTE then json_string raw
          else if c = CHR ''-'' \<or> isDigit c then Some raw
          else None)"

text \<open>\<open>clip\<close>: \<open>[]rune\<close> makes U+FFFD of a stray byte.\<close>

definition clip :: "bytes \<Rightarrow> bytes" where
  "clip s =
     (if length (runes s) \<le> 32 then s
      else concat (map (\<lambda>(w, ok). if ok then w else rune_error) (take 32 (runes s)))
        @ [CHR 0xE2, CHR 0x80, CHR 0xA6])"

subsection \<open>Sources\<close>

definition known_sources :: "bytes list" where
  "known_sources = [''ad'', ''api'', ''aws'', ''crowdstrike'', ''firewall'', ''m365'', ''network'']"

definition Source_Valid :: "bytes \<Rightarrow> bool" where
  "Source_Valid s \<longleftrightarrow> s \<in> set known_sources"

record defaults =
  dfTenant :: bytes
  dfSource :: bytes

definition unknown_source :: "(bytes \<Rightarrow> bytes) \<Rightarrow> bytes \<Rightarrow> bytes" where
  "unknown_source q source = ''source '' @ q (clip source) @ '' is not a known source category''"

definition Defaults_Validate :: "(int \<Rightarrow> int) \<Rightarrow> (bytes \<Rightarrow> bytes) \<Rightarrow> defaults \<Rightarrow> go_error option" where
  "Defaults_Validate ul q d =
     (if dfTenant d \<noteq> [] \<and> \<not> ValidTenantID (dfTenant d)
      then Some (Malformed ''invalid_parameter'' InvalidTenantID)
      else if dfSource d \<noteq> [] \<and> \<not> Source_Valid (to_lower ul (dfSource d))
      then Some (Malformed ''invalid_parameter'' (unknown_source q (dfSource d)))
      else None)"

subsection \<open>The builder\<close>

record builder =
  bFields :: "(bytes \<times> bytes) list"
  bEv :: new_event
  bSenderTags :: "bytes list"
  bDerived :: "bytes list"

definition tag :: "bytes \<Rightarrow> builder \<Rightarrow> builder" where
  "tag t b = b\<lparr>bDerived := bDerived b @ [t]\<rparr>"

definition invalid :: "bytes \<Rightarrow> builder \<Rightarrow> builder" where
  "invalid key b = tag (''invalid:'' @ key) b"

definition value_of :: "builder \<Rightarrow> bytes \<Rightarrow> bytes option" where
  "value_of b key =
     (case map_of (bFields b) key of
        None \<Rightarrow> None
      | Some raw \<Rightarrow> if raw = ''null'' then None else Some raw)"

definition extra :: "builder \<Rightarrow> bytes \<Rightarrow> bytes" where
  "extra b key =
     (case value_of b key of
        None \<Rightarrow> []
      | Some raw \<Rightarrow> trim_space (case scalar raw of Some s \<Rightarrow> s | None \<Rightarrow> []))"

text \<open>\<open>None\<close> for \<open>ok == false\<close>.\<close>

definition identity :: "builder \<Rightarrow> bytes \<Rightarrow> bytes \<Rightarrow> bytes option" where
  "identity b key fallback =
     (case value_of b key of
        None \<Rightarrow> Some fallback
      | Some raw \<Rightarrow>
          (case json_string raw of
             None \<Rightarrow> None
           | Some s \<Rightarrow> (let s = trim_space s in Some (if s = [] then fallback else s))))"

definition syslogLine :: "builder \<Rightarrow> bytes \<Rightarrow> bytes option" where
  "syslogLine b source =
     (if source \<notin> {[], ''firewall'', ''network''} then None
      else (case value_of b ''message'' of
          None \<Rightarrow> None
        | Some raw \<Rightarrow> json_string raw))"

definition set_ev :: "setter \<Rightarrow> bytes \<Rightarrow> builder \<Rightarrow> bool \<times> builder" where
  "set_ev put v b = (case put (bEv b) v of (ok, e) \<Rightarrow> (ok, b\<lparr>bEv := e\<rparr>))"

text \<open>Setting a field, with the answer dropped; and with the tag \<open>invalid\<close> when it is false.\<close>

definition fill :: "setter \<Rightarrow> bytes \<Rightarrow> builder \<Rightarrow> builder" where
  "fill put v b = snd (set_ev put v b)"

definition set_or_tag :: "setter \<Rightarrow> bytes \<Rightarrow> bytes option \<Rightarrow> builder \<Rightarrow> builder" where
  "set_or_tag put key v b =
     (case v of
        None \<Rightarrow> invalid key b
      | Some s \<Rightarrow> (case set_ev put s b of (ok, b') \<Rightarrow> if ok then b' else invalid key b'))"

subsection \<open>JSON records\<close>

definition jsonKeys :: "bytes list" where
  "jsonKeys =
     [''vendor'', ''product'', ''event_type'', ''event_subtype'', ''severity'', ''action'',
      ''src_ip'', ''ip'', ''src_port'', ''dst_ip'', ''dst_port'', ''protocol'',
      ''user'', ''host'', ''process'', ''url'', ''http_method'', ''status_code'',
      ''rule_name'', ''rule_id'']"

definition jsonAliases :: "(bytes \<times> bytes) list" where
  "jsonAliases = [(''ip'', ''src_ip'')]"

definition alias_of :: "(bytes \<times> bytes) list \<Rightarrow> bytes \<Rightarrow> bytes" where
  "alias_of aliases key = (case map_of aliases key of Some f \<Rightarrow> f | None \<Rightarrow> key)"

text \<open>One step of the loop. Every field \<open>jsonKeys\<close> leads to has a setter (\<open>jsonKeys_setters\<close>).\<close>

definition json_key :: "(int \<Rightarrow> int) \<Rightarrow> bytes \<Rightarrow> builder \<Rightarrow> builder" where
  "json_key ul key b =
     (case value_of b key of
        None \<Rightarrow> b
      | Some raw \<Rightarrow>
          (case map_of (setters ul) (alias_of jsonAliases key) of
             None \<Rightarrow> b
           | Some put \<Rightarrow> set_or_tag put key (scalar raw) b))"

definition cloud_fields :: "(bytes \<times> setter) list" where
  "cloud_fields =
     [(''account_id'', on_field evCloudAccountID evCloudAccountID_update setText),
      (''region'', on_field evCloudRegion evCloudRegion_update setText),
      (''service'', on_field evCloudService evCloudService_update setText)]"

definition cloud_key :: "(bytes \<times> bytes) list \<Rightarrow> bytes \<times> setter \<Rightarrow> builder \<Rightarrow> builder" where
  "cloud_key cloud ks b =
     (case map_of cloud (fst ks) of
        None \<Rightarrow> b
      | Some raw \<Rightarrow> if raw = ''null'' then b else set_or_tag (snd ks) (''cloud.'' @ fst ks) (scalar raw) b)"

definition read_cloud :: "((bytes \<times> setter) list \<Rightarrow> (bytes \<times> setter) list) \<Rightarrow> builder \<Rightarrow> builder" where
  "read_cloud order b =
     (case value_of b ''cloud'' of
        None \<Rightarrow> b
      | Some raw \<Rightarrow>
          (case json_object raw of
             None \<Rightarrow> invalid ''cloud'' b
           | Some cloud \<Rightarrow> fold (cloud_key cloud) (order cloud_fields) b))"

definition readSenderTags :: "builder \<Rightarrow> builder" where
  "readSenderTags b =
     (case value_of b ''_tags'' of
        None \<Rightarrow> b
      | Some raw \<Rightarrow>
          (case json_strings raw of
             None \<Rightarrow> invalid ''_tags'' (b\<lparr>bSenderTags := []\<rparr>)
           | Some ts \<Rightarrow> b\<lparr>bSenderTags := ts\<rparr>))"

definition collectorKeys :: "bytes list" where
  "collectorKeys = [''received_at'', ''peer_ip'', ''input'']"

definition wholeRecord :: "builder \<Rightarrow> bytes \<Rightarrow> bytes" where
  "wholeRecord b record =
     (if \<exists>key \<in> set collectorKeys. map_of (bFields b) key \<noteq> None
      then marshal_raw (filter (\<lambda>(k, _). k \<notin> set collectorKeys) (bFields b))
      else record)"

definition set_raw :: "bytes \<Rightarrow> builder \<Rightarrow> builder" where
  "set_raw raw b = b\<lparr>bEv := (bEv b)\<lparr>evRaw := raw\<rparr>\<rparr>"

definition fromJSON ::
  "(int \<Rightarrow> int) \<Rightarrow> ((bytes \<times> setter) list \<Rightarrow> (bytes \<times> setter) list) \<Rightarrow> bytes \<Rightarrow> builder \<Rightarrow> builder" where
  "fromJSON ul order record b =
     (let b = readSenderTags (read_cloud order (fold (json_key ul) jsonKeys b));
          b = (case value_of b ''raw'' of
                 None \<Rightarrow> b
               | Some raw \<Rightarrow> if hd raw = LBRACE then set_raw raw b else invalid ''raw'' b) in
      if evRaw (bEv b) = [] then set_raw (wholeRecord b record) b else b)"

subsection \<open>Syslog lines\<close>

definition kvAliases :: "(bytes \<times> bytes) list" where
  "kvAliases =
     [(''src'', ''src_ip''), (''dst'', ''dst_ip''), (''spt'', ''src_port''), (''sport'', ''src_port''),
      (''dpt'', ''dst_port''), (''dport'', ''dst_port''), (''proto'', ''protocol''),
      (''policy'', ''rule_name''), (''event'', ''event_type''), (''reason'', ''event_subtype'')]"

definition firewallKeys :: "bytes list" where
  "firewallKeys =
     [''action'', ''src'', ''dst'', ''spt'', ''dpt'', ''proto'', ''policy'', ''src_ip'', ''dst_ip'']"

definition syslogSeverity :: "int list" where
  "syslogSeverity = [10, 9, 8, 7, 5, 3, 2, 0]"

definition kv_field :: "(int \<Rightarrow> int) \<Rightarrow> kv_pair \<Rightarrow> builder \<Rightarrow> builder" where
  "kv_field ul p b =
     (case map_of (setters ul) (alias_of kvAliases (to_lower ul (Key p))) of
        None \<Rightarrow> b
      | Some put \<Rightarrow> set_or_tag put (Key p) (Some (Value p)) b)"

definition syslog_source :: "(int \<Rightarrow> int) \<Rightarrow> kv_pair list \<Rightarrow> bytes \<Rightarrow> bytes" where
  "syslog_source ul pairs source =
     (if source \<noteq> [] then source
      else if \<exists>p \<in> set pairs. to_lower ul (Key p) \<in> set firewallKeys then ''firewall''
      else ''network'')"

text \<open>The severity of the header, when the body has set none; the index is checked.\<close>

definition header_severity :: "int option \<Rightarrow> builder \<Rightarrow> builder outcome" where
  "header_severity sev b =
     (case sev of
        None \<Rightarrow> Ret b
      | Some n \<Rightarrow>
          if evSeverity (bEv b) \<noteq> None then Ret b
          else if 0 \<le> n \<and> nat n < length syslogSeverity
          then Ret (b\<lparr>bEv := (bEv b)\<lparr>evSeverity := Some (syslogSeverity ! nat n)\<rparr>\<rparr>)
          else Panic)"

abbreviation set_host :: setter where "set_host \<equiv> on_field evHost evHost_update setText"
abbreviation set_process :: setter where "set_process \<equiv> on_field evProcess evProcess_update setText"

definition fromSyslog :: "(int \<Rightarrow> int) \<Rightarrow> bytes \<Rightarrow> bytes \<Rightarrow> builder \<Rightarrow> (gotime option \<times> builder) outcome" where
  "fromSyslog ul line source b =
     outcome_bind (parseSyslog line) (\<lambda>m.
       (let pairs = parseKV (msgBody m);
            b = b\<lparr>bEv := (bEv b)\<lparr>evSource := syslog_source ul pairs source\<rparr>\<rparr>;
            b = fold (kv_field ul) pairs b;
            b = fill set_process (msgApp m) (fill set_host (extra b ''peer_ip'') (fill set_host (msgHost m) b)) in
        outcome_bind (header_severity (msgSeverity m) b) (\<lambda>b.
          Ret (msgTime m,
               set_raw (''{'' @ quote_json True ''message'' @ '':'' @ quote_json True line @ ''}'') (readSenderTags b)))))"

subsection \<open>Time and tags\<close>

definition timestamp :: "gotime \<Rightarrow> duration \<Rightarrow> gotime option \<Rightarrow> builder \<Rightarrow> gotime \<times> builder" where
  "timestamp now retention header b =
     (let ts = (case parse_rfc3339 (extra b ''received_at'') of Some t \<Rightarrow> t | None \<Rightarrow> now);
          ts = (case header of Some t \<Rightarrow> t | None \<Rightarrow> ts);
          (ts, b) = (case value_of b ''@timestamp'' of
              None \<Rightarrow> (ts, b)
            | Some raw \<Rightarrow>
                (case parse_rfc3339 (trim_space (case scalar raw of Some s \<Rightarrow> s | None \<Rightarrow> [])) of
                   Some t \<Rightarrow> (t, b)
                 | None \<Rightarrow> (ts, invalid ''timestamp'' b))) in
      if ts < now - retention \<or> now + futureSkew < ts then (now, tag TagRebasedTime b) else (ts, b))"

definition add_tag :: "bytes \<Rightarrow> bytes list \<Rightarrow> bytes list" where
  "add_tag t tags =
     (let t = cleanText t in
      if t \<noteq> [] \<and> length t \<le> maxText \<and> t \<notin> set tags then tags @ [t] else tags)"

definition assembleTags :: "builder \<Rightarrow> bytes list" where
  "assembleTags b =
     (let b = (if \<exists>t \<in> set (bSenderTags b). maxText < length (cleanText t) then invalid ''_tags'' b else b) in
      fold add_tag (bSenderTags b @ bDerived b) [])"

subsection \<open>JSON that Postgres stores\<close>

text \<open>The expression \<open>(?i)\\u(0000|d[89a-f])\<close>, anywhere in the text.\<close>

definition risky_at :: "bytes \<Rightarrow> bool" where
  "risky_at s \<longleftrightarrow>
     (let r = map ascii_lower_byte (take 6 s) in
      has_prefix r ([BACKSLASH] @ ''u0000'')
      \<or> has_prefix r ([BACKSLASH] @ ''ud'') \<and> 4 \<le> length r \<and> r ! 3 \<in> set ''89abcdef'')"

fun riskyEscape :: "bytes \<Rightarrow> bool" where
  "riskyEscape [] \<longleftrightarrow> False"
| "riskyEscape (c # cs) \<longleftrightarrow> risky_at (c # cs) \<or> riskyEscape cs"

text \<open>
  Where two keys of an object become equal, the value of the one iterated over last stays.
\<close>

fun cleanJSON :: "((bytes \<times> json) list \<Rightarrow> (bytes \<times> json) list) \<Rightarrow> json \<Rightarrow> json" where
  "cleanJSON iter (JString s) = JString (cleanNUL s)"
| "cleanJSON iter (JArray vs) = JArray (map (cleanJSON iter) vs)"
| "cleanJSON iter (JObject kvs) = JObject (map_from (iter (map (\<lambda>(k, v). (cleanNUL k, cleanJSON iter v)) kvs)))"
| "cleanJSON iter v = v"

text \<open>\<open>Decode\<close> fails on text the scanner does not accept; the encoder does not.\<close>

definition storableJSON :: "((bytes \<times> json) list \<Rightarrow> (bytes \<times> json) list) \<Rightarrow> bytes \<Rightarrow> bytes" where
  "storableJSON iter raw =
     (if utf8_valid raw \<and> \<not> riskyEscape raw then raw
      else (case raw_value raw of
          None \<Rightarrow> raw
        | Some (text, _) \<Rightarrow> encode_any False (cleanJSON iter (decode_any (length text) text))))"

subsection \<open>What a source implies\<close>

datatype authKind = authNone | authLoginSuccess | authLoginFailure | authLogout

definition logonTypes :: "(bytes \<times> bytes) list" where
  "logonTypes =
     [(''2'', ''interactive''), (''3'', ''network''), (''4'', ''batch''), (''5'', ''service''), (''7'', ''unlock''),
      (''8'', ''network_cleartext''), (''9'', ''new_credentials''), (''10'', ''remote_interactive''),
      (''11'', ''cached_interactive'')]"

text \<open>
  \<open>cloudTrail\<close>: the event name and the outcome of a console login. A later member wins over an
  earlier one, and a value of another type leaves the field as it is.
\<close>

definition string_member :: "bytes \<Rightarrow> bytes \<Rightarrow> bytes \<Rightarrow> bytes \<Rightarrow> bytes" where
  "string_member field key raw old =
     (if struct_field [field] key = Some field then (case json_string raw of Some s \<Rightarrow> s | None \<Rightarrow> old) else old)"

definition response_elements :: "bytes \<Rightarrow> bytes \<Rightarrow> bytes" where
  "response_elements raw old =
     (if has_prefix raw [LBRACE]
      then fold (\<lambda>(key, v). string_member ''ConsoleLogin'' key v) (json_members raw) old else old)"

definition cloudTrail :: "builder \<Rightarrow> bytes \<times> bytes" where
  "cloudTrail b =
     (case value_of b ''raw'' of
        None \<Rightarrow> ([], [])
      | Some raw \<Rightarrow>
          if has_prefix raw [LBRACE]
          then fold (\<lambda>(key, v) (name, login).
              (case struct_field [''eventName'', ''responseElements''] key of
                 Some f \<Rightarrow> if f = ''eventName'' then (string_member ''eventName'' key v name, login)
                   else (name, response_elements v login)
               | None \<Rightarrow> (name, login))) (json_members raw) ([], [])
          else ([], []))"

text \<open>
  The patterns of \<open>guessAuth\<close> as the words they match, case folded: besides its own two cases
  only U+017F folds into one of their letters, \<open>s\<close>.
\<close>

definition word_fold :: "bytes \<Rightarrow> bytes" where
  "word_fold s = concat (map (\<lambda>(w, ok). if w = [CHR 0xC5, CHR 0xBF] then ''s'' else map ascii_lower_byte w) (runes s))"

definition mentions :: "bytes list \<Rightarrow> bytes \<Rightarrow> bool" where
  "mentions words s \<longleftrightarrow>
     (\<exists>i \<in> set [0..<length (word_fold s)]. \<exists>w \<in> set words. has_prefix (drop i (word_fold s)) w)"

definition logoutName :: "bytes list" where
  "logoutName = [''logout'', ''logoff'', ''log_out'', ''log_off'', ''loggedout'', ''logged_out'', ''signout'', ''sign_out'']"

definition loginName :: "bytes list" where
  "loginName = [''login'', ''logon'', ''log_in'', ''log_on'', ''loggedin'', ''logged_in'', ''signin'', ''sign_in'']"

definition failureName :: "bytes list" where "failureName = [''fail'']"

definition guessAuth :: "bytes \<Rightarrow> authKind" where
  "guessAuth eventType =
     (if mentions logoutName eventType then authLogout
      else if \<not> mentions loginName eventType then authNone
      else if mentions failureName eventType then authLoginFailure
      else authLoginSuccess)"

text \<open>The loop over the statuses, for a login.\<close>

fun login_outcome :: "(int \<Rightarrow> int) \<Rightarrow> authKind \<Rightarrow> bytes list \<Rightarrow> authKind" where
  "login_outcome ul auth [] = auth"
| "login_outcome ul auth (s # statuses) =
     (if to_lower ul s \<in> {''success'', ''succeeded''} then authLoginSuccess
      else if to_lower ul s \<in> {''failed'', ''failure''} then authLoginFailure
      else login_outcome ul auth statuses)"

definition withOutcome :: "(int \<Rightarrow> int) \<Rightarrow> authKind \<Rightarrow> bytes list \<Rightarrow> authKind" where
  "withOutcome ul auth statuses =
     (if auth \<noteq> authLoginSuccess \<and> auth \<noteq> authLoginFailure then auth else login_outcome ul auth statuses)"

definition deref :: "bytes option \<Rightarrow> bytes" where
  "deref s = (case s of None \<Rightarrow> [] | Some v \<Rightarrow> v)"

abbreviation fill_vendor :: "bytes \<Rightarrow> builder \<Rightarrow> builder" where
  "fill_vendor \<equiv> fill (on_field evVendor evVendor_update setText)"
abbreviation fill_product :: "bytes \<Rightarrow> builder \<Rightarrow> builder" where
  "fill_product \<equiv> fill (on_field evProduct evProduct_update setText)"
abbreviation fill_event_type :: "bytes \<Rightarrow> builder \<Rightarrow> builder" where
  "fill_event_type \<equiv> fill (on_field evEventType evEventType_update setText)"
abbreviation fill_event_subtype :: "bytes \<Rightarrow> builder \<Rightarrow> builder" where
  "fill_event_subtype \<equiv> fill (on_field evEventSubtype evEventSubtype_update setText)"
abbreviation fill_action :: "bytes \<Rightarrow> builder \<Rightarrow> builder" where
  "fill_action \<equiv> fill (on_field evAction evAction_update setText)"

text \<open>The switch over the sources, one case each.\<close>

definition enrich_aws :: "builder \<Rightarrow> authKind \<times> builder" where
  "enrich_aws b =
     (let b = fill_product ''cloudtrail'' (fill_vendor ''aws'' b);
          (name, login) = cloudTrail b;
          b = fill_event_type name b;
          event = deref (evEventType (bEv b)) in
      if event = ''ConsoleLogin'' then (if login = ''Failure'' then authLoginFailure else authLoginSuccess, b)
      else if has_prefix event ''Create'' then (authNone, fill_action ''create'' b)
      else if has_prefix event ''Delete'' then (authNone, fill_action ''delete'' b)
      else (authNone, b))"

definition enrich_m365 :: "(int \<Rightarrow> int) \<Rightarrow> builder \<Rightarrow> authKind \<times> builder" where
  "enrich_m365 ul b =
     (let b = fill_product ''m365'' (fill_vendor ''microsoft'' b);
          event = deref (evEventType (bEv b));
          auth = (if event = ''UserLoggedIn'' then authLoginSuccess
                  else if event = ''UserLoginFailed'' then authLoginFailure else authNone) in
      (withOutcome ul auth [extra b ''status''], b))"

definition enrich_ad :: "builder \<Rightarrow> authKind \<times> builder" where
  "enrich_ad b =
     (let b = fill_product ''windows'' (fill_vendor ''microsoft'' b);
          event = extra b ''event_id'';
          auth = (if event = ''4624'' then authLoginSuccess else if event = ''4625'' then authLoginFailure
                  else if event \<in> {''4634'', ''4647''} then authLogout else authNone) in
      (auth, fill_event_subtype (deref (map_of logonTypes (extra b ''logon_type''))) b))"

definition enrich_source :: "(int \<Rightarrow> int) \<Rightarrow> builder \<Rightarrow> authKind \<times> builder" where
  "enrich_source ul b =
     (let source = evSource (bEv b) in
      if source = ''crowdstrike'' then (authNone, fill_product ''falcon'' (fill_vendor ''crowdstrike'' b))
      else if source = ''aws'' then enrich_aws b
      else if source = ''m365'' then enrich_m365 ul b
      else if source = ''ad'' then enrich_ad b
      else if source = ''api'' then
        (withOutcome ul (guessAuth (deref (evEventType (bEv b)))) [extra b ''status'', extra b ''outcome''], b)
      else if source = ''firewall'' then (authNone, fill_event_type ''traffic'' b)
      else if source = ''network'' then (authNone, fill_event_type ''syslog'' b)
      else (authNone, b))"

definition enrich :: "(int \<Rightarrow> int) \<Rightarrow> builder \<Rightarrow> builder" where
  "enrich ul b =
     (case enrich_source ul b of
        (authNone, b) \<Rightarrow> b
      | (authLoginSuccess, b) \<Rightarrow> tag TagAuthSuccess (fill_action ''login'' b)
      | (authLoginFailure, b) \<Rightarrow> tag TagAuthFailure (fill_action ''login'' b)
      | (authLogout, b) \<Rightarrow> fill_action ''logout'' b)"

definition actionSynonyms :: "(bytes \<times> bytes) list" where
  "actionSynonyms =
     [(''drop'', ''deny''), (''dropped'', ''deny''), (''block'', ''deny''), (''blocked'', ''deny''),
      (''reject'', ''deny''), (''rejected'', ''deny''), (''denied'', ''deny''),
      (''accept'', ''allow''), (''accepted'', ''allow''), (''permit'', ''allow''),
      (''permitted'', ''allow''), (''pass'', ''allow''), (''allowed'', ''allow''),
      (''logon'', ''login''), (''logoff'', ''logout'')]"

definition normalizeAction :: "(int \<Rightarrow> int) \<Rightarrow> bytes option \<Rightarrow> bytes option" where
  "normalizeAction ul action = map_option (\<lambda>a. alias_of actionSynonyms (to_lower ul a)) action"

subsection \<open>Normalize\<close>

text \<open>\<open>nRetention\<close> is zero for the default, and \<open>nOrder\<close> and \<open>nIter\<close> are Go's iteration orders.\<close>

record normalizer =
  nRetention :: duration
  nLower :: "int \<Rightarrow> int"
  nQuote :: "bytes \<Rightarrow> bytes"
  nOrder :: "(bytes \<times> setter) list \<Rightarrow> (bytes \<times> setter) list"
  nIter :: "(bytes \<times> json) list \<Rightarrow> (bytes \<times> json) list"

text \<open>What is left once the tenant, the source and the shape are known.\<close>

definition finish :: "normalizer \<Rightarrow> gotime \<Rightarrow> gotime option \<times> builder \<Rightarrow> new_event" where
  "finish n now hb =
     (let retention = (if nRetention n \<le> 0 then DefaultRetention else nRetention n);
          (ts, b) = timestamp now retention (fst hb) (snd hb);
          b = enrich (nLower n) (b\<lparr>bEv := (bEv b)\<lparr>evTs := ts\<rparr>\<rparr>);
          ev = (bEv b)\<lparr>evAction := normalizeAction (nLower n) (evAction (bEv b))\<rparr> in
      ev\<lparr>evTags := assembleTags b, evRaw := storableJSON (nIter n) (evRaw ev)\<rparr>)"

definition tenant_error :: "bytes option \<Rightarrow> go_error option" where
  "tenant_error tenant =
     (case tenant of
        None \<Rightarrow> Some (Invalid ''invalid_tenant'' ''tenant must be a string'')
      | Some t \<Rightarrow>
          if t = [] then Some (Invalid ''missing_tenant'' ''tenant is required'')
          else if \<not> ValidTenantID t then Some (Invalid ''invalid_tenant'' InvalidTenantID)
          else None)"

definition source_error :: "(bytes \<Rightarrow> bytes) \<Rightarrow> bytes option \<Rightarrow> go_error option" where
  "source_error q source =
     (case source of
        None \<Rightarrow> Some (Invalid ''unknown_source'' ''source must be a string'')
      | Some s \<Rightarrow>
          if s \<noteq> [] \<and> \<not> Source_Valid s then Some (Invalid ''unknown_source'' (unknown_source q s)) else None)"

definition Normalize :: "normalizer \<Rightarrow> gotime \<Rightarrow> bytes \<Rightarrow> defaults \<Rightarrow> (go_error + new_event) outcome" where
  "Normalize n now record_text d =
     (case json_object record_text of
        None \<Rightarrow> Ret (Inl (Malformed ''invalid_json'' ''record is not a JSON object''))
      | Some flds \<Rightarrow>
          (let b = \<lparr>bFields = flds, bEv = zero_event, bSenderTags = [], bDerived = []\<rparr>;
               tenant = identity b ''tenant'' (dfTenant d);
               source = map_option (to_lower (nLower n)) (identity b ''source'' (dfSource d)) in
           case tenant_error tenant of
             Some err \<Rightarrow> Ret (Inl err)
           | None \<Rightarrow>
          (case source_error (nQuote n) source of
             Some err \<Rightarrow> Ret (Inl err)
           | None \<Rightarrow>
          (let source = deref source; line = syslogLine b source;
               b = b\<lparr>bEv := (bEv b)\<lparr>evTenantID := deref tenant\<rparr>\<rparr> in
           case line of
             None \<Rightarrow>
               if source = [] then Ret (Inl (Invalid ''missing_source''
                   ''source is required unless message holds a syslog line''))
               else Ret (Inr (finish n now (None, fromJSON (nLower n) (nOrder n) record_text
                   (b\<lparr>bEv := (bEv b)\<lparr>evSource := source\<rparr>\<rparr>))))
           | Some l \<Rightarrow>
               outcome_bind (fromSyslog (nLower n) l source b) (\<lambda>hb. Ret (Inr (finish n now hb)))))))"

end
