(* ===== verification/Normalize_Facts.thy ===== *)
theory Normalize_Facts
  imports Normalize
begin

text \<open>
  What the normalizer promises: whatever a record holds, an event it returns can be stored; a
  record is refused only for its tenant, its source or its shape; and the values a record gives
  are kept or tagged, never overwritten.
\<close>

subsection \<open>Values that can be stored\<close>

definition clean :: "bytes \<Rightarrow> bool" where
  "clean s \<longleftrightarrow> s \<noteq> [] \<and> utf8_valid s \<and> NUL \<notin> set s"

definition text_ok :: "bytes option \<Rightarrow> bool" where
  "text_ok v \<longleftrightarrow> (case v of None \<Rightarrow> True | Some s \<Rightarrow> clean s \<and> length s \<le> maxText)"

definition int_ok :: "int \<Rightarrow> int \<Rightarrow> int option \<Rightarrow> bool" where
  "int_ok lo hi v \<longleftrightarrow> (case v of None \<Rightarrow> True | Some n \<Rightarrow> lo \<le> n \<and> n \<le> hi)"

definition addr_ok :: "addr option \<Rightarrow> bool" where
  "addr_ok v \<longleftrightarrow> (case v of None \<Rightarrow> True | Some a \<Rightarrow> plain_addr a)"

lemma cleanText_ok: "cleanText v \<noteq> [] \<Longrightarrow> clean (cleanText v)"
proof -
  have "utf8_valid (cleanText v)"
    unfolding cleanText_def cleanNUL_def
    by (intro replace_byte_valid to_valid_utf8_valid rune_error_valid) (simp add: byte_def)
  moreover have "NUL \<notin> set (cleanText v)"
    unfolding cleanText_def cleanNUL_def by (intro replace_byte_gone) (simp add: rune_error_def)
  ultimately show "cleanText v \<noteq> [] \<Longrightarrow> clean (cleanText v)" by (simp add: clean_def)
qed

text \<open>A field that is set stays as it is.\<close>

definition kept :: "'a option \<Rightarrow> 'a option \<Rightarrow> bool" where
  "kept x y \<longleftrightarrow> (x = None \<or> y = x)"

text \<open>
  What a setter does to its field: it keeps a value that is there, and what it stores can be
  stored.
\<close>

definition good_set :: "('a option \<Rightarrow> bool) \<Rightarrow> ('a option \<Rightarrow> bytes \<Rightarrow> bool \<times> 'a option) \<Rightarrow> bool" where
  "good_set P put \<longleftrightarrow> (\<forall>dst v. kept dst (snd (put dst v)) \<and> (P dst \<longrightarrow> P (snd (put dst v))))"

lemma good_setText: "good_set text_ok (\<lambda>dst v. setText dst (f v))"
  using cleanText_ok by (auto simp: good_set_def kept_def setText_def Let_def text_ok_def)

lemma good_setAddr: "good_set addr_ok setAddr"
  by (auto simp: good_set_def kept_def setAddr_def Let_def addr_ok_def split: option.splits)

lemma good_setInt: "good_set (int_ok lo hi) (\<lambda>dst v. setInt dst v lo hi)"
  by (auto simp: good_set_def kept_def setInt_def Let_def int_ok_def split: option.splits)

lemmas good_sets = good_setText [where f = "\<lambda>v. v"] good_setText good_setAddr good_setInt

subsection \<open>Steps of the normalizer\<close>

text \<open>What an event's fields satisfy, and what no step of the builder changes.\<close>

definition event_ok :: "new_event \<Rightarrow> bool" where
  "event_ok e \<longleftrightarrow>
     text_ok (evVendor e) \<and> text_ok (evProduct e) \<and> text_ok (evEventType e) \<and> text_ok (evEventSubtype e)
     \<and> text_ok (evAction e) \<and> text_ok (evProtocol e) \<and> text_ok (evUserName e) \<and> text_ok (evHost e)
     \<and> text_ok (evProcess e) \<and> text_ok (evURL e) \<and> text_ok (evHTTPMethod e) \<and> text_ok (evRuleName e)
     \<and> text_ok (evRuleID e) \<and> text_ok (evCloudAccountID e) \<and> text_ok (evCloudRegion e)
     \<and> text_ok (evCloudService e)
     \<and> addr_ok (evSrcIP e) \<and> addr_ok (evDstIP e)
     \<and> int_ok 0 10 (evSeverity e) \<and> int_ok 0 65535 (evSrcPort e) \<and> int_ok 0 65535 (evDstPort e)
     \<and> int_ok 0 999 (evStatusCode e)"

definition event_kept :: "new_event \<Rightarrow> new_event \<Rightarrow> bool" where
  "event_kept e e' \<longleftrightarrow>
     kept (evVendor e) (evVendor e') \<and> kept (evProduct e) (evProduct e')
     \<and> kept (evEventType e) (evEventType e') \<and> kept (evEventSubtype e) (evEventSubtype e')
     \<and> kept (evAction e) (evAction e') \<and> kept (evProtocol e) (evProtocol e')
     \<and> kept (evUserName e) (evUserName e') \<and> kept (evHost e) (evHost e')
     \<and> kept (evProcess e) (evProcess e') \<and> kept (evURL e) (evURL e')
     \<and> kept (evHTTPMethod e) (evHTTPMethod e') \<and> kept (evRuleName e) (evRuleName e')
     \<and> kept (evRuleID e) (evRuleID e') \<and> kept (evCloudAccountID e) (evCloudAccountID e')
     \<and> kept (evCloudRegion e) (evCloudRegion e') \<and> kept (evCloudService e) (evCloudService e')
     \<and> kept (evSrcIP e) (evSrcIP e') \<and> kept (evDstIP e) (evDstIP e')
     \<and> kept (evSeverity e) (evSeverity e') \<and> kept (evSrcPort e) (evSrcPort e')
     \<and> kept (evDstPort e) (evDstPort e') \<and> kept (evStatusCode e) (evStatusCode e')
     \<and> evTenantID e' = evTenantID e \<and> evSource e' = evSource e \<and> evTs e' = evTs e"

definition step :: "builder \<Rightarrow> builder \<Rightarrow> bool" where
  "step b b' \<longleftrightarrow> bFields b' = bFields b \<and> event_kept (bEv b) (bEv b') \<and> (event_ok (bEv b) \<longrightarrow> event_ok (bEv b'))
     \<and> (\<exists>ts. bDerived b' = bDerived b @ ts)"

lemma kept_refl [simp]: "kept x x"
  by (simp add: kept_def)

lemma kept_trans: "kept x y \<Longrightarrow> kept y z \<Longrightarrow> kept x z"
  by (auto simp: kept_def)

lemma event_kept_refl [simp]: "event_kept e e"
  by (simp add: event_kept_def)

lemma event_kept_trans: "event_kept e e' \<Longrightarrow> event_kept e' e'' \<Longrightarrow> event_kept e e''"
  unfolding event_kept_def by (intro conjI; elim conjE; (rule kept_trans, assumption, assumption | simp))

lemma step_refl [simp, intro]: "step b b"
  by (simp add: step_def)

lemma step_trans [trans]: "step b b' \<Longrightarrow> step b' b'' \<Longrightarrow> step b b''"
  using event_kept_trans by (fastforce simp: step_def)

lemma step_fold: "(\<And>x b. step b (f x b)) \<Longrightarrow> step b (fold f xs b)"
  by (induction xs arbitrary: b) (auto intro: step_trans)

text \<open>A setter of an event.\<close>

definition good_setter :: "setter \<Rightarrow> bool" where
  "good_setter put \<longleftrightarrow> (\<forall>e v. event_kept e (snd (put e v)) \<and> (event_ok e \<longrightarrow> event_ok (snd (put e v))))"

lemma good_on_field:
  assumes "good_set P put"
    and "\<And>e x. kept (get e) x \<Longrightarrow> event_kept e (upd (\<lambda>_. x) e)"
    and "\<And>e. event_ok e \<Longrightarrow> P (get e)"
    and "\<And>e x. event_ok e \<Longrightarrow> P x \<Longrightarrow> event_ok (upd (\<lambda>_. x) e)"
  shows "good_setter (on_field get upd put)"
  using assms unfolding good_setter_def good_set_def on_field_def by (auto split: prod.splits) (metis snd_conv)+

lemma good_fields:
  "good_setter (on_field evVendor evVendor_update setText)"
  "good_setter (on_field evProduct evProduct_update setText)"
  "good_setter (on_field evEventType evEventType_update setText)"
  "good_setter (on_field evEventSubtype evEventSubtype_update setText)"
  "good_setter (on_field evAction evAction_update setText)"
  "good_setter (on_field evProtocol evProtocol_update (\<lambda>dst v. setText dst (f v)))"
  "good_setter (on_field evUserName evUserName_update setText)"
  "good_setter (on_field evHost evHost_update setText)"
  "good_setter (on_field evProcess evProcess_update setText)"
  "good_setter (on_field evURL evURL_update setText)"
  "good_setter (on_field evHTTPMethod evHTTPMethod_update setText)"
  "good_setter (on_field evRuleName evRuleName_update setText)"
  "good_setter (on_field evRuleID evRuleID_update setText)"
  "good_setter (on_field evSrcIP evSrcIP_update setAddr)"
  "good_setter (on_field evDstIP evDstIP_update setAddr)"
  "good_setter (on_field evSeverity evSeverity_update (\<lambda>dst v. setInt dst v 0 10))"
  "good_setter (on_field evSrcPort evSrcPort_update (\<lambda>dst v. setInt dst v 0 65535))"
  "good_setter (on_field evDstPort evDstPort_update (\<lambda>dst v. setInt dst v 0 65535))"
  "good_setter (on_field evStatusCode evStatusCode_update (\<lambda>dst v. setInt dst v 0 999))"
  "good_setter (on_field evCloudAccountID evCloudAccountID_update setText)"
  "good_setter (on_field evCloudRegion evCloudRegion_update setText)"
  "good_setter (on_field evCloudService evCloudService_update setText)"
  by (rule good_on_field, rule good_sets, simp add: event_kept_def, simp add: event_ok_def, simp add: event_ok_def)+

lemma good_setters: "map_of (setters ul) key = Some put \<Longrightarrow> good_setter put"
  by (drule map_of_SomeD) (auto simp: setters_def good_fields)

lemma good_cloud: "ks \<in> set cloud_fields \<Longrightarrow> good_setter (snd ks)"
  by (auto simp: cloud_fields_def good_fields)

subsection \<open>The builder's operations are steps\<close>

lemma step_tag [simp]: "step b (tag t b)"
  by (simp add: step_def tag_def)

lemma step_invalid [simp]: "step b (invalid t b)"
  by (simp add: invalid_def)

lemma step_set_ev: "good_setter put \<Longrightarrow> step b (snd (set_ev put v b))"
  by (auto simp: step_def set_ev_def good_setter_def split: prod.splits) (metis snd_conv)+

lemma step_fill: "good_setter put \<Longrightarrow> step b (fill put v b)"
  unfolding fill_def by (rule step_set_ev)

lemma step_set_or_tag: "good_setter put \<Longrightarrow> step b (set_or_tag put key v b)"
  using step_set_ev [of put b] step_trans [OF _ step_invalid]
  by (auto simp: set_or_tag_def split: option.splits prod.splits) (metis snd_conv)+

lemma step_json_key: "step b (json_key ul key b)"
  by (auto simp: json_key_def intro: step_set_or_tag good_setters split: option.splits)

lemma step_kv_field: "step b (kv_field ul p b)"
  by (auto simp: kv_field_def intro: step_set_or_tag good_setters split: option.splits)

lemma step_senderTags: "step b (b\<lparr>bSenderTags := ts\<rparr>)"
  by (simp add: step_def)

lemma step_readSenderTags: "step b (readSenderTags b)"
  by (auto simp: readSenderTags_def step_senderTags step_trans [OF step_senderTags step_invalid] split: option.splits)

lemma step_set_raw [simp]: "step b (set_raw raw b)"
  by (simp add: step_def set_raw_def event_kept_def event_ok_def)

lemma step_read_cloud:
  assumes "set (order cloud_fields) \<subseteq> set cloud_fields"
  shows "step b (read_cloud order b)"
proof -
  have "step b (fold (cloud_key cloud) kss b)" if "set kss \<subseteq> set cloud_fields" for cloud kss b
    using that
  proof (induction kss arbitrary: b)
    case (Cons ks kss)
    then have "step b (cloud_key cloud ks b)"
      by (auto simp: cloud_key_def intro!: step_set_or_tag good_cloud split: option.splits)
    with Cons show ?case by (auto intro: step_trans)
  qed simp
  with assms show ?thesis by (auto simp: read_cloud_def split: option.splits)
qed

lemma step_fromJSON:
  assumes "set (order cloud_fields) \<subseteq> set cloud_fields"
  shows "step b (fromJSON ul order rec b)"
proof -
  define b1 where "b1 = readSenderTags (read_cloud order (fold (json_key ul) jsonKeys b))"
  have "step b (fold (json_key ul) jsonKeys b)" by (intro step_fold step_json_key)
  also have "step \<dots> (read_cloud order (fold (json_key ul) jsonKeys b))" using assms by (rule step_read_cloud)
  also have "step \<dots> b1" unfolding b1_def by (rule step_readSenderTags)
  finally have b1: "step b b1" .
  define b2 where "b2 = (case value_of b1 ''raw'' of
                 None \<Rightarrow> b1
               | Some raw \<Rightarrow> if hd raw = LBRACE then set_raw raw b1 else invalid ''raw'' b1)"
  have "step b1 b2" by (auto simp: b2_def split: option.splits)
  with b1 have "step b b2" by (rule step_trans)
  then show ?thesis
    unfolding fromJSON_def Let_def b1_def [symmetric] b2_def [symmetric]
    by (auto intro: step_trans)
qed

lemma step_fills:
  "step b (fill_vendor v b)" "step b (fill_product v b)" "step b (fill_event_type v b)"
  "step b (fill_event_subtype v b)" "step b (fill_action v b)" "step b (fill set_host v b)" "step b (fill set_process v b)"
  by (intro step_fill good_fields)+

lemma step_enrich_aws: "step b (snd (enrich_aws b))"
  by (auto simp: enrich_aws_def Let_def step_fills intro!: step_trans [OF _ step_fills(5)] step_trans [OF _ step_fills(3)]
      step_trans [OF _ step_fills(2)] split: prod.splits)

lemma step_enrich_source: "step b (snd (enrich_source ul b))"
proof -
  have "step b (fill_product p (fill_vendor v b))" for p v by (rule step_trans [OF step_fills(1) step_fills(2)])
  moreover have "step b (fill_event_subtype l (fill_product p (fill_vendor v b)))" for p v l
    using calculation by (rule step_trans [OF _ step_fills(4)])
  ultimately show ?thesis
    by (simp add: enrich_source_def enrich_m365_def enrich_ad_def Let_def step_fills step_enrich_aws)
qed

lemma step_enrich: "step b (enrich ul b)"
proof -
  obtain auth b1 where e: "enrich_source ul b = (auth, b1)" by fastforce
  then have "step b b1" using step_enrich_source [of b ul] by simp
  also have "step b1 (enrich ul b)"
    by (cases auth) (simp_all add: enrich_def e step_fills step_trans [OF step_fills(5) step_tag])
  finally show ?thesis .
qed

lemma step_timestamp: "step b (snd (timestamp now retention header b))"
  by (auto simp: timestamp_def Let_def step_trans [OF step_invalid step_tag] split: option.splits prod.splits)

lemma timestamp_range:
  assumes "0 \<le> retention"
  shows "now - retention \<le> fst (timestamp now retention header b) \<and> fst (timestamp now retention header b) \<le> now + futureSkew"
proof -
  have "0 \<le> futureSkew" by (simp add: futureSkew_def duration_defs)
  with assms show ?thesis by (auto simp: timestamp_def Let_def split: prod.splits)
qed

subsection \<open>Syslog records\<close>

lemma parseSyslog_severity:
  assumes "parseSyslog line = Ret m" and "msgSeverity m = Some n"
  shows "0 \<le> n \<and> n < 8"
  using assms
  by (auto simp: parseSyslog_def Let_def parse_older_def empty_msg_def result_simps
      split: option.splits if_splits)

lemma header_severity_Ret:
  assumes "parseSyslog line = Ret m"
  obtains b' where "header_severity (msgSeverity m) b = Ret b'" and "step b b'"
proof (cases "msgSeverity m")
  case None
  with that show thesis by (auto simp: header_severity_def)
next
  case (Some n)
  with assms have n: "0 \<le> n" "nat n < 8" using parseSyslog_severity [of line m n] by auto
  define b' where "b' = b\<lparr>bEv := (bEv b)\<lparr>evSeverity := Some (syslogSeverity ! nat n)\<rparr>\<rparr>"
  have "nat n \<in> {0, 1, 2, 3, 4, 5, 6, 7}" using n(2) by auto
  then have "int_ok 0 10 (Some (syslogSeverity ! nat n))"
    by (auto simp: int_ok_def syslogSeverity_def)
  then have "step b b'" if "evSeverity (bEv b) = None"
    using that by (auto simp: step_def b'_def event_kept_def event_ok_def kept_def)
  moreover have "header_severity (msgSeverity m) b = Ret (if evSeverity (bEv b) = None then b' else b)"
    using n by (simp add: header_severity_def Some b'_def syslogSeverity_def)
  ultimately show thesis using that by (cases "evSeverity (bEv b) = None") auto
qed

lemma fromSyslog_step:
  assumes "parseSyslog line = Ret m"
  obtains b' where "fromSyslog ul line source b = Ret (msgTime m, b')"
    and "step (b\<lparr>bEv := (bEv b)\<lparr>evSource := syslog_source ul (parseKV (msgBody m)) source\<rparr>\<rparr>) b'"
proof -
  define b0 where "b0 = b\<lparr>bEv := (bEv b)\<lparr>evSource := syslog_source ul (parseKV (msgBody m)) source\<rparr>\<rparr>"
  define b1 where "b1 = fold (kv_field ul) (parseKV (msgBody m)) b0"
  define b2 where "b2 = fill set_process (msgApp m) (fill set_host (extra b1 ''peer_ip'') (fill set_host (msgHost m) b1))"
  have "step b0 b1" unfolding b1_def by (intro step_fold step_kv_field)
  also have "step b1 (fill set_host (msgHost m) b1)" by (rule step_fills)
  also have "step \<dots> (fill set_host (extra b1 ''peer_ip'') (fill set_host (msgHost m) b1))" by (rule step_fills)
  also have "step \<dots> b2" unfolding b2_def by (rule step_fills)
  finally have "step b0 b2" .
  moreover obtain b3 where b3: "header_severity (msgSeverity m) b2 = Ret b3" "step b2 b3"
    using header_severity_Ret [OF assms] .
  moreover have "step b3 (readSenderTags b3)" by (rule step_readSenderTags)
  ultimately have all: "step b0 (set_raw raw (readSenderTags b3))" for raw
    by (meson step_trans step_set_raw)
  have peer: "extra (fill set_host (msgHost m) b1) ''peer_ip'' = extra b1 ''peer_ip''"
    using step_fills(6) [of b1 "msgHost m"] by (simp add: extra_def value_of_def step_def)
  show thesis
    using that [OF _ all [unfolded b0_def]] b3(1) peer
    unfolding fromSyslog_def assms outcome_bind.simps Let_def b0_def [symmetric] b1_def [symmetric]
    by (simp add: b2_def)
qed

lemma syslog_source_valid:
  "source \<in> {[], ''firewall'', ''network''} \<Longrightarrow> Source_Valid (syslog_source ul pairs source)"
  by (auto simp: syslog_source_def Source_Valid_def known_sources_def)

subsection \<open>Tags\<close>

definition tags_ok :: "bytes list \<Rightarrow> bool" where
  "tags_ok ts \<longleftrightarrow> distinct ts \<and> list_all (\<lambda>t. clean t \<and> length t \<le> maxText) ts"

lemma tags_ok_add: "tags_ok ts \<Longrightarrow> tags_ok (add_tag t ts)"
  using cleanText_ok by (auto simp: tags_ok_def add_tag_def Let_def)

lemma assembleTags_ok: "tags_ok (assembleTags b)"
proof -
  have "tags_ok (fold add_tag us ts)" if "tags_ok ts" for us ts
    using that by (induction us arbitrary: ts) (auto intro: tags_ok_add)
  then show ?thesis by (simp add: assembleTags_def Let_def) (simp add: tags_ok_def)
qed

subsection \<open>What is returned can be stored\<close>

lemma encode_rune_nonempty: "encode_rune r \<noteq> []"
  by (simp add: encode_rune_def rune_error_def)

lemma lower_rune_nonempty: "r \<in> set (runes s) \<Longrightarrow> lower_rune ul r \<noteq> []"
  using encode_rune_nonempty by (cases r) (auto simp: lower_rune_def rune_error_def)

lemma to_lower_clean: "lowers_to_text ul \<Longrightarrow> clean s \<Longrightarrow> clean (to_lower ul s)"
proof -
  assume ul: "lowers_to_text ul" and s: "clean s"
  have "to_lower ul s \<noteq> []"
  proof (cases "is_ascii s")
    case True
    with s show ?thesis by (simp add: to_lower_def clean_def)
  next
    case False
    from s obtain r rs where "runes s = r # rs"
      by (cases "runes s") (use runes_concat [of s] in \<open>auto simp: clean_def\<close>)
    with False lower_rune_nonempty [of r s ul] show ?thesis by (simp add: to_lower_def)
  qed
  with ul s show ?thesis using to_lower_valid to_lower_NUL by (simp add: clean_def)
qed

lemma normalizeAction_clean:
  assumes "lowers_to_text ul" and "clean a"
  shows "clean (alias_of actionSynonyms (to_lower ul a))"
proof (cases "map_of actionSynonyms (to_lower ul a)")
  case None
  with assms show ?thesis by (simp add: alias_of_def to_lower_clean)
next
  case (Some v)
  then have "v \<in> set (map snd actionSynonyms)" by (force dest: map_of_SomeD)
  moreover have "list_all clean (map snd actionSynonyms)" by code_simp
  ultimately have "clean v" by (auto simp: list_all_iff)
  with Some show ?thesis by (simp add: alias_of_def)
qed

text \<open>
  What the table asks of a row: an event's identity, its fields (the action has been lowered
  since its length was checked), its time and its tags.
\<close>

definition storable :: "gotime \<Rightarrow> duration \<Rightarrow> new_event \<Rightarrow> bool" where
  "storable now retention ev \<longleftrightarrow>
     ValidTenantID (evTenantID ev) \<and> Source_Valid (evSource ev)
     \<and> event_ok (ev\<lparr>evAction := None\<rparr>) \<and> (case evAction ev of None \<Rightarrow> True | Some a \<Rightarrow> clean a)
     \<and> now - retention \<le> evTs ev \<and> evTs ev \<le> now + futureSkew
     \<and> tags_ok (evTags ev)"

definition effective_retention :: "normalizer \<Rightarrow> duration" where
  "effective_retention n = (if nRetention n \<le> 0 then DefaultRetention else nRetention n)"

lemma finish_storable:
  assumes ul: "lowers_to_text (nLower n)" and ok: "event_ok (bEv b)"
    and tenant: "ValidTenantID (evTenantID (bEv b))" and source: "Source_Valid (evSource (bEv b))"
  shows "storable now (effective_retention n) (finish n now (header, b))"
proof -
  obtain ts b1 where t: "timestamp now (effective_retention n) header b = (ts, b1)" by fastforce
  define b2 where "b2 = enrich (nLower n) (b1\<lparr>bEv := (bEv b1)\<lparr>evTs := ts\<rparr>\<rparr>)"
  have b1: "step b b1" using step_timestamp [of b now "effective_retention n" header] t by simp
  have b2: "step (b1\<lparr>bEv := (bEv b1)\<lparr>evTs := ts\<rparr>\<rparr>) b2" unfolding b2_def by (rule step_enrich)
  have "event_ok (bEv b1)" using b1 ok by (simp add: step_def)
  then have ok2: "event_ok (bEv b2)" using b2 by (simp add: step_def event_ok_def)
  have ids: "evTenantID (bEv b2) = evTenantID (bEv b)" "evSource (bEv b2) = evSource (bEv b)" "evTs (bEv b2) = ts"
    using b1 b2 by (simp_all add: step_def event_kept_def)
  have "0 \<le> effective_retention n" by (simp add: effective_retention_def DefaultRetention_def duration_defs)
  from timestamp_range [OF this, of now header b] t
  have ts: "now - effective_retention n \<le> ts" "ts \<le> now + futureSkew" by simp_all
  have action: "clean a" if "normalizeAction (nLower n) (evAction (bEv b2)) = Some a" for a
    using that ok2 normalizeAction_clean [OF ul] by (auto simp: normalizeAction_def event_ok_def text_ok_def)
  have "finish n now (header, b) = (bEv b2)\<lparr>evAction := normalizeAction (nLower n) (evAction (bEv b2)),
      evTags := assembleTags b2, evRaw := storableJSON (nIter n) (evRaw (bEv b2))\<rparr>"
    unfolding finish_def Let_def effective_retention_def [symmetric] fst_conv snd_conv t prod.case
    by (simp add: b2_def)
  then show ?thesis
    using ok2 ids ts tenant source assembleTags_ok [of b2] action
    by (auto simp: storable_def event_ok_def text_ok_def split: option.splits)
qed

lemma Normalize_stored:
  assumes "lowers_to_text (nLower n)" and "set (nOrder n cloud_fields) \<subseteq> set cloud_fields"
    and "Normalize n now text d = Ret (Inr ev)"
  shows "storable now (effective_retention n) ev"
proof -
  from assms(3) obtain flds where f: "json_object text = Some flds"
    by (auto simp: Normalize_def split: option.splits)
  define b where "b = \<lparr>bFields = flds, bEv = zero_event, bSenderTags = [], bDerived = []\<rparr>"
  define tenant where "tenant = identity b ''tenant'' (dfTenant d)"
  define source where "source = map_option (to_lower (nLower n)) (identity b ''source'' (dfSource d))"
  define b1 where "b1 = b\<lparr>bEv := (bEv b)\<lparr>evTenantID := deref tenant\<rparr>\<rparr>"
  note run = assms(3) [unfolded Normalize_def f option.case Let_def b_def [symmetric] tenant_def [symmetric]
      source_def [symmetric] b1_def [symmetric]]
  from run have "tenant_error tenant = None" "source_error (nQuote n) source = None" by (auto split: option.splits)
  then have t: "ValidTenantID (deref tenant)" and s: "deref source = [] \<or> Source_Valid (deref source)"
    by (auto simp: tenant_error_def source_error_def deref_def split: option.splits if_splits)
  have z: "event_ok zero_event" by (simp add: event_ok_def zero_event_def text_ok_def addr_ok_def int_ok_def)
  have ok: "event_ok (bEv (b1\<lparr>bEv := (bEv b1)\<lparr>evSource := x\<rparr>\<rparr>))" for x
    using z by (simp add: b1_def b_def event_ok_def)
  show ?thesis
  proof (cases "syslogLine b (deref source)")
    case None
    define b2 where "b2 = fromJSON (nLower n) (nOrder n) text (b1\<lparr>bEv := (bEv b1)\<lparr>evSource := deref source\<rparr>\<rparr>)"
    have b2: "step (b1\<lparr>bEv := (bEv b1)\<lparr>evSource := deref source\<rparr>\<rparr>) b2"
      unfolding b2_def using assms(2) by (rule step_fromJSON)
    from run None have ev: "ev = finish n now (None, b2)" and "deref source \<noteq> []"
      by (auto simp: b2_def split: option.splits if_splits)
    with s b2 ok [of "deref source"] t show ?thesis unfolding ev
      by (intro finish_storable assms(1)) (simp_all add: step_def event_kept_def b1_def)
  next
    case (Some line)
    then have src: "deref source \<in> {[], ''firewall'', ''network''}" by (auto simp: syslogLine_def split: if_splits)
    from run Some obtain hb where hb: "fromSyslog (nLower n) line (deref source) b1 = Ret hb" and ev: "ev = finish n now hb"
      by (auto simp: result_simps split: option.splits)
    from hb obtain m where m: "parseSyslog line = Ret m"
      by (auto simp: fromSyslog_def result_simps)
    from fromSyslog_step [OF m] obtain b2 where b2: "fromSyslog (nLower n) line (deref source) b1 = Ret (msgTime m, b2)"
      "step (b1\<lparr>bEv := (bEv b1)\<lparr>evSource := syslog_source (nLower n) (parseKV (msgBody m)) (deref source)\<rparr>\<rparr>) b2" .
    then have ev: "ev = finish n now (msgTime m, b2)" using ev hb by simp
    from b2(2) ok t syslog_source_valid [OF src] show ?thesis unfolding ev
      by (intro finish_storable assms(1)) (simp_all add: step_def event_kept_def b1_def)
  qed
qed

text \<open>
  C3. Whatever bytes come in, an event the normalizer returns can be stored: its tenant and its
  source are valid, every text is well-formed UTF-8 without NUL, not blank and at most 2048
  bytes long (the action had that length before it was lowered), every number is in its
  column's range, every address is plain, its time lies in the retention window and less than
  an hour ahead, and its tags are distinct and clean.
\<close>

theorem Normalize_storable:
  assumes "lowers_to_text (nLower n)" and "set (nOrder n cloud_fields) \<subseteq> set cloud_fields"
    and "Normalize n now text d = Ret (Inr ev)"
  shows "storable now (effective_retention n) ev"
  using assms by (rule Normalize_stored)

text \<open>A case table that lowers ASCII letters only, and a record of each shape.\<close>

definition sample_normalizer :: normalizer where
  "sample_normalizer =
     \<lparr>nRetention = 0, nLower = (\<lambda>r. if 0 < r then r else 1), nQuote = (\<lambda>s. [QUOTE] @ s @ [QUOTE]),
      nOrder = (\<lambda>xs. xs), nIter = (\<lambda>xs. xs)\<rparr>"

definition json_text :: "bytes \<Rightarrow> bytes" where
  "json_text s = map (\<lambda>c. if c = CHR ''~'' then QUOTE else c) s"

definition sample_record :: bytes where
  "sample_record = json_text (''{~tenant~:~acme~,~source~:~firewall~,~action~:~DROP~,~src_ip~:~::ffff:10.0.0.1~,''
     @ ''~severity~:~7~,~dst_port~:70000,~cloud~:{~region~:~eu~},~received_at~:~2025-09-18T00:00:00Z~}'')"

definition no_defaults :: defaults where
  "no_defaults = \<lparr>dfTenant = [], dfSource = []\<rparr>"

lemma sample_normalizer_ok:
  "lowers_to_text (nLower sample_normalizer)" "set (nOrder sample_normalizer cloud_fields) \<subseteq> set cloud_fields"
  by (simp_all add: lowers_to_text_def sample_normalizer_def)

lemma sample_normalizer_run:
  "case Normalize sample_normalizer (1758153600 * second) sample_record no_defaults of
     Ret (Inr ev) \<Rightarrow> evAction ev = Some ''deny'' \<and> evSeverity ev = Some 7 \<and> evSrcIP ev = Some (V4 0x0A000001)
      \<and> evDstPort ev = None \<and> evTags ev = [''invalid:dst_port'']
   | _ \<Rightarrow> False"
  by code_simp

theorem Normalize_storable_witness:
  "case Normalize sample_normalizer (1758153600 * second) sample_record no_defaults of
     Ret (Inr ev) \<Rightarrow> storable (1758153600 * second) (effective_retention sample_normalizer) ev
       \<and> evAction ev = Some ''deny'' \<and> evSeverity ev = Some 7 \<and> evSrcIP ev = Some (V4 0x0A000001)
       \<and> evDstPort ev = None \<and> evTags ev = [''invalid:dst_port'']
   | _ \<Rightarrow> False"
proof -
  from sample_normalizer_run obtain ev
    where ev: "Normalize sample_normalizer (1758153600 * second) sample_record no_defaults = Ret (Inr ev)"
    by (auto split: outcome.splits sum.splits)
  with Normalize_storable [OF sample_normalizer_ok ev] sample_normalizer_run show ?thesis by simp
qed

subsection \<open>What is refused\<close>

text \<open>Whether a record was refused, and why.\<close>

fun verdict :: "(go_error + 'a) outcome \<Rightarrow> go_error option outcome" where
  "verdict Panic = Panic"
| "verdict (Ret (Inl err)) = Ret (Some err)"
| "verdict (Ret (Inr _)) = Ret None"

lemma fromSyslog_outcome:
  "fromSyslog ul line source b = Panic \<longleftrightarrow> parseSyslog line = Panic"
proof (cases "parseSyslog line")
  case Panic
  then show ?thesis by (simp add: fromSyslog_def)
next
  case (Ret m)
  from fromSyslog_step [OF this] show ?thesis using Ret by (metis outcome.distinct(1))
qed

lemma verdict_finish:
  "verdict (outcome_bind (fromSyslog ul line source b) (\<lambda>hb. Ret (Inr (g hb))))
   = (if parseSyslog line = Panic then Panic else Ret None)"
  using fromSyslog_outcome [of ul line source b] by (cases "fromSyslog ul line source b") auto

lemma verdict_Normalize:
  assumes "json_object text = Some flds" and "b = \<lparr>bFields = flds, bEv = zero_event, bSenderTags = [], bDerived = []\<rparr>"
  shows "verdict (Normalize n now text d) =
    (let tenant = identity b ''tenant'' (dfTenant d);
         source = map_option (to_lower (nLower n)) (identity b ''source'' (dfSource d)) in
     case tenant_error tenant of
       Some err \<Rightarrow> Ret (Some err)
     | None \<Rightarrow>
         (case source_error (nQuote n) source of
            Some err \<Rightarrow> Ret (Some err)
          | None \<Rightarrow>
              (case syslogLine b (deref source) of
                 None \<Rightarrow> if deref source = [] then Ret (Some (Invalid ''missing_source''
                     ''source is required unless message holds a syslog line'')) else Ret None
               | Some line \<Rightarrow> if parseSyslog line = Panic then Panic else Ret None)))"
  unfolding Normalize_def assms option.case Let_def
  by (auto simp: verdict_finish split: option.splits)

text \<open>
  C28. Whether a record is refused, and why, depends on its tenant, its source and its message
  alone: no other field, however malformed, can have a record rejected.
\<close>

theorem Normalize_verdict:
  assumes "json_object text = Some flds" and "json_object text' = Some flds'"
    and "\<And>key. key \<in> {''tenant'', ''source'', ''message''} \<Longrightarrow> map_of flds' key = map_of flds key"
  shows "verdict (Normalize n now' text' d) = verdict (Normalize n now text d)"
proof -
  define b where "b = \<lparr>bFields = flds, bEv = zero_event, bSenderTags = [], bDerived = []\<rparr>"
  define b' where "b' = \<lparr>bFields = flds', bEv = zero_event, bSenderTags = [], bDerived = []\<rparr>"
  have same: "value_of b' key = value_of b key" if "key \<in> {''tenant'', ''source'', ''message''}" for key
    using assms(3) [OF that] by (simp add: value_of_def b_def b'_def)
  have eqs: "identity b' ''tenant'' fb = identity b ''tenant'' fb" "identity b' ''source'' fb = identity b ''source'' fb"
    "syslogLine b' src = syslogLine b src" for fb src
    using same by (simp_all add: identity_def syslogLine_def)
  show ?thesis
    unfolding verdict_Normalize [OF assms(1) b_def] verdict_Normalize [OF assms(2) b'_def] eqs by (rule refl)
qed

theorem Normalize_verdict_witness:
  "verdict (Normalize sample_normalizer 0 (json_text ''{~tenant~:~acme~,~source~:~api~,~severity~:{},~ip~:[]}'') no_defaults)
   = verdict (Normalize sample_normalizer 9 (json_text ''{~source~:~api~, ~tenant~:~acme~}'') no_defaults)
   \<and> verdict (Normalize sample_normalizer 9 (json_text ''{~source~:~api~, ~tenant~:~acme~}'') no_defaults) = Ret None"
proof -
  define t u where "t = json_text ''{~tenant~:~acme~,~source~:~api~,~severity~:{},~ip~:[]}''"
    and "u = json_text ''{~source~:~api~, ~tenant~:~acme~}''"
  define f g where "f = [(''tenant'', json_text ''~acme~''), (''source'', json_text ''~api~''), (''severity'', ''{}''), (''ip'', ''[]'')]"
    and "g = [(''source'', json_text ''~api~''), (''tenant'', json_text ''~acme~'')]"
  have "json_object t = Some f" unfolding t_def f_def by code_simp
  moreover have "json_object u = Some g" unfolding u_def g_def by code_simp
  moreover have "map_of f key = map_of g key" if "key \<in> {''tenant'', ''source'', ''message''}" for key
    using that by (auto simp: f_def g_def)
  ultimately have "verdict (Normalize sample_normalizer 0 t no_defaults) = verdict (Normalize sample_normalizer 9 u no_defaults)"
    using Normalize_verdict [of u g t f] by blast
  moreover have "verdict (Normalize sample_normalizer 9 u no_defaults) = Ret None"
    unfolding u_def by code_simp
  ultimately show ?thesis unfolding t_def u_def by blast
qed


end
