(* ===== verification/Ndjson.thy ===== *)
theory Ndjson
  imports Kv Errors
begin

text \<open>
  \<open>eachRecord\<close> of \<open>internal/api/ingest.go\<close>: a body is what can be read of it and how reading
  ends; \<open>bufio.Reader\<close> cuts it into slices, and \<open>eachRecord\<close> puts lines together again.
\<close>

subsection \<open>Reading a body\<close>

definition maxRecordBytes :: nat where "maxRecordBytes = 1048576"
definition maxNDJSONBytes :: nat where "maxNDJSONBytes = 33554432"
definition maxReported :: nat where "maxReported = 100"

datatype stream_end = EOF | TooLarge | ReadError go_error

type_synonym stream = "bytes \<times> stream_end"

text \<open>\<open>http.MaxBytesReader\<close>.\<close>

definition MaxBytesReader :: "nat \<Rightarrow> stream \<Rightarrow> stream" where
  "MaxBytesReader limit body =
     (if limit < length (fst body) then (take limit (fst body), TooLarge) else body)"

text \<open>
  \<open>bufio.Reader.ReadSlice\<close> of a line feed, with a buffer of \<open>buf\<close> bytes: the line with its line
  feed; a full buffer without one; or what is left before the end.
\<close>

datatype read_err = NoErr | BufferFull | Ended stream_end

definition ReadSlice :: "nat \<Rightarrow> stream \<Rightarrow> bytes \<times> read_err \<times> stream" where
  "ReadSlice buf st =
     (case st of (s, e) \<Rightarrow>
      (let line = takeWhile (\<lambda>c. c \<noteq> LF) s in
       if length line < length s \<and> length line < buf
       then (line @ [LF], NoErr, (drop (length line + 1) s, e))
       else if buf \<le> length s then (take buf s, BufferFull, (drop buf s, e))
       else (s, Ended e, ([], e))))"

text \<open>The inner loop: on from a buffer that is full, to the end of the line.\<close>

function read_rest :: "nat \<Rightarrow> stream \<Rightarrow> read_err \<times> stream" where
  "read_rest buf st =
     (case ReadSlice buf st of (_, err, st') \<Rightarrow>
        if err = BufferFull \<and> 0 < buf then read_rest buf st' else (err, st'))"
  by pat_completeness auto
termination
  by (relation "measure (length \<circ> fst \<circ> snd)")
    (auto simp: ReadSlice_def Let_def split: prod.splits if_splits)

declare read_rest.simps [simp del]

text \<open>One line: the bytes of its last slice, whether it was too long, and how reading it ended.\<close>

definition read_line :: "nat \<Rightarrow> stream \<Rightarrow> bytes \<times> bool \<times> read_err \<times> stream" where
  "read_line buf st =
     (case ReadSlice buf st of (line, err, st') \<Rightarrow>
        if err = BufferFull then (case read_rest buf st' of (err, st'') \<Rightarrow> (line, True, err, st''))
        else (line, False, err, st'))"

text \<open>The calls of \<open>fn\<close> for one line: its index, and the record, \<open>None\<close> for nil.\<close>

definition line_calls :: "nat \<Rightarrow> nat \<Rightarrow> bytes \<Rightarrow> bool \<Rightarrow> (nat \<times> bytes option) list" where
  "line_calls limit index piece tooLong =
     (let line = trim_suffix (trim_suffix piece [LF]) [CR]; rec = trim_space line in
      if tooLong \<or> limit < length line then [(index, None)]
      else if rec \<noteq> [] then [(index, Some rec)]
      else [])"

lemma ReadSlice_less:
  "ReadSlice buf st = (line, NoErr, st') \<Longrightarrow> length (fst st') < length (fst st)"
  by (auto simp: ReadSlice_def Let_def split: prod.splits if_splits)

lemma ReadSlice_full:
  "ReadSlice buf st = (line, BufferFull, st') \<Longrightarrow> st' = (drop buf (fst st), snd st) \<and> buf \<le> length (fst st)"
  by (auto simp: ReadSlice_def Let_def split: prod.splits if_splits)

lemma read_rest_NoErr: "read_rest buf st = (NoErr, st') \<Longrightarrow> length (fst st') < length (fst st)"
proof (induction buf st rule: read_rest.induct)
  case (1 buf st)
  obtain line err st1 where r: "ReadSlice buf st = (line, err, st1)" by (cases "ReadSlice buf st") auto
  show ?case
  proof (cases "err = BufferFull \<and> 0 < buf")
    case True
    then have "read_rest buf st1 = (NoErr, st')" using "1.prems" r by (subst (asm) read_rest.simps) simp
    from "1.IH" [OF r [symmetric] refl True this] show ?thesis
      using ReadSlice_full [of buf st line st1] r True by auto
  next
    case False
    then have "err = NoErr" "st1 = st'" using "1.prems" r by (subst (asm) read_rest.simps, auto)+
    then show ?thesis using ReadSlice_less r by blast
  qed
qed

lemma read_line_less:
  assumes "read_line buf st = (line, tooLong, NoErr, st')"
  shows "length (fst st') < length (fst st)"
proof -
  obtain l err st1 where r: "ReadSlice buf st = (l, err, st1)" by (cases "ReadSlice buf st") auto
  show ?thesis
  proof (cases "err = BufferFull")
    case True
    with assms r have "length (fst st') < length (fst st1)"
      by (auto simp: read_line_def intro: read_rest_NoErr split: prod.splits)
    with ReadSlice_full [of buf st l st1] r True show ?thesis by auto
  next
    case False
    with assms r show ?thesis by (auto simp: read_line_def intro: ReadSlice_less)
  qed
qed

text \<open>
  The loop of \<open>eachRecord\<close>: the calls of \<open>fn\<close>, and the error. Room for the longest line and a
  CRLF is \<open>limit + 2\<close>.
\<close>

function each_line :: "nat \<Rightarrow> nat \<Rightarrow> stream \<Rightarrow> (nat \<times> bytes option) list \<times> stream_end option" where
  "each_line limit index st =
     (case read_line (limit + 2) st of
        (line, tooLong, NoErr, st') \<Rightarrow>
          (case each_line limit (index + 1) st' of
             (calls, err) \<Rightarrow> (line_calls limit index line tooLong @ calls, err))
      | (line, tooLong, Ended EOF, st') \<Rightarrow> (line_calls limit index line tooLong, None)
      | (line, tooLong, Ended e, st') \<Rightarrow> ([], Some e)
      | (line, tooLong, BufferFull, st') \<Rightarrow> ([], None))"
  by pat_completeness auto
termination
  by (relation "measure (\<lambda>(_, _, st). length (fst st))") (auto dest: read_line_less [OF sym])

declare each_line.simps [simp del]

definition eachRecord :: "stream \<Rightarrow> (nat \<times> bytes option) list \<times> stream_end option" where
  "eachRecord body = each_line maxRecordBytes 0 body"

subsection \<open>A body is its lines\<close>

text \<open>The reference: one line of the body, without its line feed.\<close>

definition record_of :: "nat \<Rightarrow> nat \<times> bytes \<Rightarrow> (nat \<times> bytes option) list" where
  "record_of limit il =
     (let line = trim_suffix (snd il) [CR] in
      if limit < length line then [(fst il, None)]
      else if trim_space line \<noteq> [] then [(fst il, Some (trim_space line))]
      else [])"

lemma trim_suffix_LF [simp]:
  "trim_suffix (line @ [LF]) [LF] = line" "LF \<notin> set line \<Longrightarrow> trim_suffix line [LF] = line"
  by (simp add: trim_suffix_def has_suffix_def has_prefix_def)
    (cases line rule: rev_cases; auto simp: trim_suffix_def has_suffix_def has_prefix_def)

lemma split_byte_first: "c \<notin> set w \<Longrightarrow> split_byte c (w @ c # s) = w # split_byte c s"
  by (induction w) auto

lemma length_trim_CR: "length line \<le> length (trim_suffix line [CR]) + 1"
  by (auto simp: trim_suffix_def)

lemma ReadSlice_line:
  assumes "LF \<notin> set line"
  shows "ReadSlice buf (line @ LF # rest, e) =
      (if length line < buf then (line @ [LF], NoErr, (rest, e))
       else (take buf line, BufferFull, (drop buf line @ LF # rest, e)))"
    and "ReadSlice buf (line, e) =
      (if buf \<le> length line then (take buf line, BufferFull, (drop buf line, e)) else (line, Ended e, ([], e)))"
proof -
  have tw: "takeWhile (\<lambda>c. c \<noteq> LF) (line @ LF # rest) = line" "takeWhile (\<lambda>c. c \<noteq> LF) line = line"
    using assms by (auto simp: takeWhile_append takeWhile_eq_all_conv)
  show "ReadSlice buf (line @ LF # rest, e) =
      (if length line < buf then (line @ [LF], NoErr, (rest, e))
       else (take buf line, BufferFull, (drop buf line @ LF # rest, e)))"
    and "ReadSlice buf (line, e) =
      (if buf \<le> length line then (take buf line, BufferFull, (drop buf line, e)) else (line, Ended e, ([], e)))"
    unfolding ReadSlice_def Let_def prod.case tw by simp_all
qed

lemma read_rest_line:
  assumes "LF \<notin> set line" and "0 < buf"
  shows "read_rest buf (line @ LF # rest, e) = (NoErr, (rest, e)) \<and> read_rest buf (line, e) = (Ended e, ([], e))"
  using assms(1)
proof (induction line rule: length_induct)
  case (1 line)
  show ?case
  proof (cases "buf \<le> length line")
    case True
    with "1.prems" assms(2) have "length (drop buf line) < length line" "LF \<notin> set (drop buf line)"
      by (auto dest: in_set_dropD)
    with "1.IH" have IH: "read_rest buf (drop buf line @ LF # rest, e) = (NoErr, (rest, e))"
      "read_rest buf (drop buf line, e) = (Ended e, ([], e))" by blast+
    with True "1.prems" assms(2) show ?thesis
      by (subst (1 2) read_rest.simps) (simp add: ReadSlice_line)
  next
    case False
    with "1.prems" show ?thesis
      by (subst (1 2) read_rest.simps) (simp add: ReadSlice_line)
  qed
qed

lemma read_line_line:
  assumes "LF \<notin> set line"
  obtains piece tooLong where "read_line (limit + 2) (line @ LF # rest, e) = (piece, tooLong, NoErr, (rest, e))"
    and "\<And>i. line_calls limit i piece tooLong = record_of limit (i, line)"
proof (cases "length line < limit + 2")
  case True
  with that [of "line @ [LF]" False] assms show thesis
    by (simp add: read_line_def ReadSlice_line line_calls_def record_of_def Let_def)
next
  case False
  define l where "l = drop (limit + 2) line"
  have "LF \<notin> set l" using assms by (auto simp: l_def dest: in_set_dropD)
  then have "read_rest (limit + 2) (l @ LF # rest, e) = (NoErr, (rest, e))"
    using read_rest_line [of l "limit + 2"] by simp
  with False that [of "take (limit + 2) line" True] assms length_trim_CR [of line] show thesis
    by (simp add: read_line_def ReadSlice_line line_calls_def record_of_def l_def)
qed

lemma read_line_last:
  assumes "LF \<notin> set line"
  obtains piece tooLong where "read_line (limit + 2) (line, e) = (piece, tooLong, Ended e, ([], e))"
    and "\<And>i. line_calls limit i piece tooLong = record_of limit (i, line)"
proof (cases "length line < limit + 2")
  case True
  with that [of line False] assms show thesis
    by (simp add: read_line_def ReadSlice_line line_calls_def record_of_def Let_def)
next
  case False
  define l where "l = drop (limit + 2) line"
  have "LF \<notin> set l" using assms by (auto simp: l_def dest: in_set_dropD)
  then have "read_rest (limit + 2) (l, e) = (Ended e, ([], e))"
    using read_rest_line [of l "limit + 2"] by simp
  with False that [of "take (limit + 2) line" True] assms length_trim_CR [of line] show thesis
    by (simp add: read_line_def ReadSlice_line line_calls_def record_of_def l_def)
qed

text \<open>The calls a body makes, and the error it ends with.\<close>

definition calls_of :: "nat \<Rightarrow> nat \<Rightarrow> stream \<Rightarrow> (nat \<times> bytes option) list \<times> stream_end option" where
  "calls_of limit index body =
     (let lines = split_byte LF (fst body) in
      if snd body = EOF then (concat (map (record_of limit) (List.enumerate index lines)), None)
      else (concat (map (record_of limit) (List.enumerate index (butlast lines))), Some (snd body)))"

lemma each_line_calls: "each_line limit index (s, e) = calls_of limit index (s, e)"
proof (induction s arbitrary: index rule: length_induct)
  case (1 s)
  show ?case
  proof (cases "LF \<in> set s")
    case True
    then obtain line rest where s: "s = line @ LF # rest" "LF \<notin> set line"
      by (meson split_list_first)
    obtain piece tooLong where r: "read_line (limit + 2) (s, e) = (piece, tooLong, NoErr, (rest, e))"
      "line_calls limit index piece tooLong = record_of limit (index, line)"
      using read_line_line [OF s(2), of limit rest e] unfolding s(1) by metis
    have IH: "each_line limit (index + 1) (rest, e) = calls_of limit (index + 1) (rest, e)"
      using 1 s(1) by simp
    have sp: "split_byte LF s = line # split_byte LF rest"
      using s by (simp add: split_byte_first)
    have "split_byte LF rest \<noteq> []" by (rule split_byte_nonempty)
    moreover have "each_line limit index (s, e) =
        (case calls_of limit (index + 1) (rest, e) of (calls, err) \<Rightarrow> (record_of limit (index, line) @ calls, err))"
      by (subst each_line.simps) (simp only: r IH prod.case read_err.case)
    ultimately show ?thesis
      by (simp add: calls_of_def sp Let_def)
  next
    case False
    obtain piece tooLong where r: "read_line (limit + 2) (s, e) = (piece, tooLong, Ended e, ([], e))"
      "line_calls limit index piece tooLong = record_of limit (index, s)"
      using read_line_last [OF False, of limit e] by metis
    have "split_byte LF s = [s]" using False by (simp add: split_byte_single)
    moreover have "each_line limit index (s, e) =
        (case e of EOF \<Rightarrow> (record_of limit (index, s), None) | _ \<Rightarrow> ([], Some e))"
      by (subst each_line.simps) (simp only: r prod.case read_err.case, cases e, simp_all)
    ultimately show ?thesis
      by (cases e) (simp_all add: calls_of_def)
  qed
qed

text \<open>
  C31. However the reader's buffer cuts a body up, \<open>eachRecord\<close> calls back for its lines: each
  line, less its line ending and surrounding space, with its number, \<open>nil\<close> for one longer than
  the limit, and not at all for a blank one; if reading fails, for the lines before the one
  that failed, and that error is returned.
\<close>

theorem eachRecord_lines: "eachRecord body = calls_of maxRecordBytes 0 body"
  using each_line_calls [of maxRecordBytes 0 "fst body" "snd body"] by (simp add: eachRecord_def)


end
