(* ===== verification/Go_Mime.thy ===== *)
theory Go_Mime
  imports Go_Strings
begin

text \<open>
  What the source uses of Go's package \<open>mime\<close>: \<open>ParseMediaType\<close>, of which it reads the media
  type and whether there was an error. Nothing here translates a file of the repository.
\<close>

definition tspecial :: "char \<Rightarrow> bool" where
  "tspecial c \<longleftrightarrow> c \<in> set ([QUOTE, BACKSLASH] @ ''()<>@,;:/[]?='')"

definition token_char :: "char \<Rightarrow> bool" where
  "token_char c \<longleftrightarrow> 0x20 < byte c \<and> byte c < 0x7F \<and> \<not> tspecial c"

definition trim_left_space :: "bytes \<Rightarrow> bytes" where
  "trim_left_space s = trim_any space_runes s"

text \<open>The value of a quoted string from after its quote, and what follows; \<open>None\<close> without an end.\<close>

fun quoted_value :: "bytes \<Rightarrow> (bytes \<times> bytes) option" where
  "quoted_value [] = None"
| "quoted_value (c # cs) =
     (if c = QUOTE then Some ([], cs)
      else if c = BACKSLASH \<and> cs \<noteq> [] \<and> tspecial (hd cs)
        then map_option (\<lambda>(v, r). (hd cs # v, r)) (quoted_value (tl cs))
      else if c = CR \<or> c = LF then None
      else map_option (\<lambda>(v, r). (c # v, r)) (quoted_value cs))"

definition consume_value :: "bytes \<Rightarrow> (bytes \<times> bytes) option" where
  "consume_value s =
     (if s = [] then None
      else if hd s = QUOTE then quoted_value (tl s)
      else if token_char (hd s) then Some (takeWhile token_char s, dropWhile token_char s)
      else None)"

text \<open>One parameter: its name in lower case, its value, and what follows.\<close>

definition media_param :: "bytes \<Rightarrow> (bytes \<times> bytes \<times> bytes) option" where
  "media_param s =
     (let r = trim_left_space s in
      if \<not> has_prefix r '';'' then None
      else (let r = trim_left_space (tl r); key = takeWhile token_char r;
                t = trim_left_space (dropWhile token_char r) in
        if key = [] \<or> \<not> has_prefix t ''='' then None
        else map_option (\<lambda>(v, rest). (map ascii_lower_byte key, v, rest)) (consume_value (trim_left_space (tl t)))))"

text \<open>Whether the parameters parse: a name may come twice only with the same value.\<close>

fun params_ok :: "nat \<Rightarrow> (bytes \<times> bytes) list \<Rightarrow> bytes \<Rightarrow> bool" where
  "params_ok 0 seen s \<longleftrightarrow> False"
| "params_ok (Suc n) seen s \<longleftrightarrow>
     (if trim_left_space s = [] then True
      else (case media_param s of
          None \<Rightarrow> trim_space s = '';''
        | Some (k, v, rest) \<Rightarrow>
            (case map_of seen k of
               Some w \<Rightarrow> w = v \<and> params_ok n seen rest
             | None \<Rightarrow> params_ok n ((k, v) # seen) rest)))"

definition media_type_ok :: "bytes \<Rightarrow> bool" where
  "media_type_ok s \<longleftrightarrow>
     (let t = takeWhile token_char s; r = dropWhile token_char s in
      t \<noteq> [] \<and> (r = [] \<or> has_prefix r ''/'' \<and> tl r \<noteq> [] \<and> list_all token_char (tl r)))"

text \<open>\<open>None\<close> for an error. A parameter takes a byte at least, so the fuel is enough.\<close>

definition ParseMediaType :: "(int \<Rightarrow> int) \<Rightarrow> bytes \<Rightarrow> bytes option" where
  "ParseMediaType ul v =
     (let base = takeWhile (\<lambda>c. c \<noteq> CHR '';'') v; mt = trim_space (to_lower ul base) in
      if media_type_ok mt \<and> params_ok (length v + 1) [] (drop (length base) v) then Some mt else None)"

end
