(* ===== verification/Api_Ingest.thy ===== *)
theory Api_Ingest
  imports Respond Normalize Events Ndjson Go_Mime
begin

text \<open>
  \<open>internal/api/ingest.go\<close>: the three ingest endpoints. A batch collects the outcome of each
  record, and one insert stores the events. The insert acts on a world \<open>'w\<close>; in the program it
  is the event repository's (\<open>Events\<close>).
\<close>

subsection \<open>The batch\<close>

record ingest_rejection =
  irIndex :: nat
  irCode :: bytes
  irMessage :: bytes

record ingest_result =
  rsAccepted :: int
  rsRejected :: int
  rsErrors :: "ingest_rejection list option"

text \<open>An index is below \<open>2 ^ 25\<close>, the bytes of a body, so \<open>int32\<close> holds it.\<close>

definition rejection :: "nat \<Rightarrow> go_error \<Rightarrow> ingest_rejection" where
  "rejection index err = \<lparr>irIndex = index, irCode = CodeOf err, irMessage = MessageOf err\<rparr>"

record batch =
  baMay :: "bytes \<Rightarrow> bool"
  baEvents :: "new_event list"
  baLines :: "nat list"
  baRejected :: nat
  baRefused :: nat
  baCodes :: "bytes \<rightharpoonup> nat"
  baReported :: "ingest_rejection list"

definition new_batch :: "(bytes \<Rightarrow> bool) \<Rightarrow> batch" where
  "new_batch may = \<lparr>baMay = may, baEvents = [], baLines = [], baRejected = 0, baRefused = 0,
     baCodes = Map.empty, baReported = []\<rparr>"

definition batch_count :: "nat \<Rightarrow> go_error \<Rightarrow> batch \<Rightarrow> ingest_rejection \<times> batch" where
  "batch_count index err b =
     (let r = rejection index err in
      (r, b\<lparr>baRejected := baRejected b + 1,
            baCodes := (baCodes b)(irCode r \<mapsto> (case baCodes b (irCode r) of None \<Rightarrow> 0 | Some n \<Rightarrow> n) + 1)\<rparr>))"

definition batch_reject :: "nat \<Rightarrow> go_error \<Rightarrow> batch \<Rightarrow> batch" where
  "batch_reject index err b =
     (case batch_count index err b of (r, b) \<Rightarrow>
        if length (baReported b) < maxReported then b\<lparr>baReported := baReported b @ [r]\<rparr> else b)"

definition batch_add :: "(bytes \<Rightarrow> bytes) \<Rightarrow> nat \<Rightarrow> new_event \<Rightarrow> batch \<Rightarrow> batch" where
  "batch_add q index ev b =
     (if \<not> baMay b (evTenantID ev) then batch_reject index (TenantNotPermitted q (evTenantID ev)) b
      else b\<lparr>baEvents := baEvents b @ [ev], baLines := baLines b @ [index]\<rparr>)"

text \<open>
  \<open>merge\<close>: the insert's rejections, with the lines they are for. The indexes of a batch are
  distinct, so any sort by index gives one result.
\<close>

fun merge_loop :: "rejections \<Rightarrow> nat list \<Rightarrow> ingest_rejection list \<Rightarrow> batch \<Rightarrow> ingest_rejection list \<times> batch" where
  "merge_loop (None # refused) (line # lines) late b = merge_loop refused lines late b"
| "merge_loop (Some err # refused) (line # lines) late b =
     (case batch_count line err (b\<lparr>baRefused := baRefused b + 1\<rparr>) of (r, b) \<Rightarrow>
        merge_loop refused lines (if length late < maxReported then late @ [r] else late) b)"
| "merge_loop _ _ late b = (late, b)"

definition merge :: "rejections \<Rightarrow> batch \<Rightarrow> batch" where
  "merge refused b =
     (case merge_loop refused (baLines b) [] b of (late, b) \<Rightarrow>
        if late = [] then b
        else b\<lparr>baReported := take maxReported (sort_key irIndex (baReported b @ late))\<rparr>)"

definition batch_result :: "batch \<Rightarrow> ingest_result" where
  "batch_result b =
     \<lparr>rsAccepted = int (length (baEvents b)) - int (baRefused b), rsRejected = int (baRejected b),
      rsErrors = (if baReported b \<noteq> [] then Some (baReported b) else None)\<rparr>"

subsection \<open>Answers\<close>

text \<open>The body of an answer is an error's envelope or a result.\<close>

type_synonym 'a answer = "(error_response + 'a) reply"

definition map_body :: "('a \<Rightarrow> 'b) \<Rightarrow> 'a reply \<Rightarrow> 'b reply" where
  "map_body f r = \<lparr>rpStatus = rpStatus r, rpHeaders = rpHeaders r, rpBody = f (rpBody r), rpLog = rpLog r\<rparr>"

text \<open>What a handler needs of its request: its ID, its path, whether its client is gone.\<close>

record request_info =
  riID :: bytes
  riPath :: bytes
  riGone :: bool

definition fail_answer :: "request_info \<Rightarrow> go_error \<Rightarrow> 'a answer" where
  "fail_answer ri err = map_body Inl (fail (riID ri) (riGone ri) err)"

definition fail_status :: "request_info \<Rightarrow> int \<Rightarrow> go_error \<Rightarrow> 'a answer" where
  "fail_status ri status err = map_body Inl (failWith (riID ri) (riGone ri) status err)"

definition ok_answer :: "int \<Rightarrow> 'a \<Rightarrow> 'a answer" where
  "ok_answer status body = map_body Inr (respond status body)"

definition byteSize :: "int \<Rightarrow> bytes" where
  "byteSize n = (if n < 2 ^ 20 then FormatInt (n div 2 ^ 10) @ '' KiB'' else FormatInt (n div 2 ^ 20) @ '' MiB'')"

definition requireMediaType :: "(int \<Rightarrow> int) \<Rightarrow> bytes \<Rightarrow> bytes \<Rightarrow> go_error option" where
  "requireMediaType ul content_type want =
     (if ParseMediaType ul content_type = Some want then None
      else Some (Malformed ''unsupported_media_type'' (''expected '' @ want)))"

definition failRead :: "request_info \<Rightarrow> stream_end \<Rightarrow> nat \<Rightarrow> 'a answer" where
  "failRead ri e limit =
     (case e of
        ReadError err \<Rightarrow> fail_answer ri (Wrapping (Malformed ''unreadable_body'' ''cannot read the request body'') err)
      | _ \<Rightarrow> fail_status ri 413 (Malformed ''body_too_large'' (''request body exceeds '' @ byteSize (int limit))))"

subsection \<open>Storing a batch\<close>

record 'w ingest_env =
  ieInsert :: "new_event list \<Rightarrow> 'w \<Rightarrow> (go_error + rejections) \<times> 'w"
  ieNormalizer :: normalizer
  ieClock :: "nat \<Rightarrow> gotime"
  ieEnforcer :: enforcer
  ieCodesText :: "(bytes \<rightharpoonup> nat) \<Rightarrow> bytes"

definition add_codes :: "(bytes \<rightharpoonup> nat) \<Rightarrow> (bytes list \<rightharpoonup> nat) \<Rightarrow> (bytes list \<rightharpoonup> nat)" where
  "add_codes codes v =
     (\<lambda>l. case l of
        [c] \<Rightarrow> (case codes c of None \<Rightarrow> v l | Some n \<Rightarrow> Some (series v l + n))
      | _ \<Rightarrow> v l)"

definition countBatch :: "batch \<Rightarrow> rejections \<Rightarrow> metrics \<Rightarrow> metrics" where
  "countBatch b refused m =
     m\<lparr>mxIngested := fold (\<lambda>(i, ev) v.
          if i < length refused \<and> refused ! i \<noteq> None then v else Inc [evTenantID ev, evSource ev] v)
          (List.enumerate 0 (baEvents b)) (mxIngested m),
       mxRejected := add_codes (baCodes b) (mxRejected m)\<rparr>"

text \<open>The members of the group \<open>first\<close> are written with its name before theirs.\<close>

definition rejected_line :: "'w ingest_env \<Rightarrow> request_info \<Rightarrow> batch \<Rightarrow> log_entry" where
  "rejected_line env ri b =
     (let first = hd (baReported b) in
      \<lparr>lgLevel = LevelWarn, lgMessage = ''records rejected'',
       lgAttrs = [text_attr ''request_id'' (riID ri), text_attr ''path'' (riPath ri),
         int_attr ''accepted'' (rsAccepted (batch_result b)), int_attr ''rejected'' (int (baRejected b)),
         (''codes'', LogOther (ieCodesText env (baCodes b))),
         int_attr ''first.index'' (int (irIndex first)), text_attr ''first.code'' (irCode first),
         text_attr ''first.message'' (irMessage first)]\<rparr>)"

definition store_batch ::
  "'w ingest_env \<Rightarrow> request_info \<Rightarrow> batch \<Rightarrow> metrics \<Rightarrow> 'w \<Rightarrow> ingest_result answer \<times> metrics \<times> 'w" where
  "store_batch env ri b m w =
     (case (if baEvents b = [] then (Inr [], w) else ieInsert env (baEvents b) w) of
        (Inl err, w) \<Rightarrow> (fail_answer ri err, m, w)
      | (Inr refused, w) \<Rightarrow>
          (let b = (if baEvents b = [] then b else merge refused b);
               a = ok_answer 200 (batch_result b) in
           (if 0 < baRejected b then a\<lparr>rpLog := rejected_line env ri b # rpLog a\<rparr> else a, countBatch b refused m, w)))"

subsection \<open>The endpoints\<close>

text \<open>\<open>Inl\<close> is the error of a caller that may not create events for any tenant.\<close>

definition startBatch :: "enforcer \<Rightarrow> caller \<Rightarrow> go_error + batch" where
  "startBatch e c =
     (if tenants_Empty (Scopes e c Events Create) then Inl (Deny c)
      else Inr (new_batch (Can e c Events Create)))"

text \<open>The function \<open>ingestNDJSON\<close> gives to \<open>eachRecord\<close>, for one record and for all of them.\<close>

definition ingest_record :: "'w ingest_env \<Rightarrow> defaults \<Rightarrow> nat \<times> bytes option \<Rightarrow> batch \<Rightarrow> batch outcome" where
  "ingest_record env d call b =
     (case call of
        (index, None) \<Rightarrow>
          Ret (batch_reject index (Invalid ''record_too_large'' (''record exceeds '' @ byteSize (int maxRecordBytes))) b)
      | (index, Some rec) \<Rightarrow>
          outcome_bind (Normalize (ieNormalizer env) (ieClock env index) rec d) (\<lambda>r.
            case r of
              Inl err \<Rightarrow> Ret (batch_reject index err b)
            | Inr ev \<Rightarrow> Ret (batch_add (nQuote (ieNormalizer env)) index ev b)))"

fun ingest_records :: "'w ingest_env \<Rightarrow> defaults \<Rightarrow> (nat \<times> bytes option) list \<Rightarrow> batch \<Rightarrow> batch outcome" where
  "ingest_records env d [] b = Ret b"
| "ingest_records env d (call # calls) b = outcome_bind (ingest_record env d call b) (ingest_records env d calls)"

record ingest_request =
  irInfo :: request_info
  irCaller :: caller
  irContentType :: bytes
  irBody :: stream

definition ingestNDJSON ::
  "'w ingest_env \<Rightarrow> ingest_request \<Rightarrow> batch \<Rightarrow> defaults \<Rightarrow> metrics \<Rightarrow> 'w \<Rightarrow> (ingest_result answer \<times> metrics \<times> 'w) outcome" where
  "ingestNDJSON env r b d m w =
     (case requireMediaType (nLower (ieNormalizer env)) (irContentType r) ''application/x-ndjson'' of
        Some err \<Rightarrow> Ret (fail_status (irInfo r) 415 err, m, w)
      | None \<Rightarrow>
          (case eachRecord (MaxBytesReader maxNDJSONBytes (irBody r)) of
             (calls, e) \<Rightarrow>
               outcome_bind (ingest_records env d calls b) (\<lambda>b.
                 case e of
                   Some err \<Rightarrow> Ret (failRead (irInfo r) err maxNDJSONBytes, m, w)
                 | None \<Rightarrow> Ret (store_batch env (irInfo r) b m w))))"

definition IngestBatch ::
  "'w ingest_env \<Rightarrow> ingest_request \<Rightarrow> metrics \<Rightarrow> 'w \<Rightarrow> (ingest_result answer \<times> metrics \<times> 'w) outcome" where
  "IngestBatch env r m w =
     (case startBatch (ieEnforcer env) (irCaller r) of
        Inl err \<Rightarrow> Ret (fail_answer (irInfo r) err, m, w)
      | Inr b \<Rightarrow> ingestNDJSON env r b \<lparr>dfTenant = [], dfSource = []\<rparr> m w)"

text \<open>\<open>IngestFile\<close>, with its parameters \<open>tenant\<close> and \<open>source\<close>.\<close>

definition IngestFile ::
  "'w ingest_env \<Rightarrow> ingest_request \<Rightarrow> bytes option \<Rightarrow> bytes option \<Rightarrow> metrics \<Rightarrow> 'w
   \<Rightarrow> (ingest_result answer \<times> metrics \<times> 'w) outcome" where
  "IngestFile env r tenant source m w =
     (case startBatch (ieEnforcer env) (irCaller r) of
        Inl err \<Rightarrow> Ret (fail_answer (irInfo r) err, m, w)
      | Inr b \<Rightarrow>
          (let d = \<lparr>dfTenant = trim_space (deref tenant), dfSource = trim_space (deref source)\<rparr> in
           case Defaults_Validate (nLower (ieNormalizer env)) (nQuote (ieNormalizer env)) d of
             Some err \<Rightarrow> Ret (fail_answer (irInfo r) err, m, w)
           | None \<Rightarrow> ingestNDJSON env r b d m w))"

definition ReadAll :: "stream \<Rightarrow> stream_end + bytes" where
  "ReadAll body = (if snd body = EOF then Inr (fst body) else Inl (snd body))"

definition IngestEvent ::
  "'w ingest_env \<Rightarrow> ingest_request \<Rightarrow> metrics \<Rightarrow> 'w \<Rightarrow> (ingest_result answer \<times> metrics \<times> 'w) outcome" where
  "IngestEvent env r m w =
     (case startBatch (ieEnforcer env) (irCaller r) of
        Inl err \<Rightarrow> Ret (fail_answer (irInfo r) err, m, w)
      | Inr b \<Rightarrow>
     (case requireMediaType (nLower (ieNormalizer env)) (irContentType r) ''application/json'' of
        Some err \<Rightarrow> Ret (fail_status (irInfo r) 415 err, m, w)
      | None \<Rightarrow>
     (case ReadAll (MaxBytesReader maxRecordBytes (irBody r)) of
        Inl e \<Rightarrow> Ret (failRead (irInfo r) e maxRecordBytes, m, w)
      | Inr body \<Rightarrow>
          outcome_bind (Normalize (ieNormalizer env) (ieClock env 0) body \<lparr>dfTenant = [], dfSource = []\<rparr>) (\<lambda>res.
            case res of
              Inl err \<Rightarrow>
                if KindOf err = KindMalformed
                then Ret (fail_answer (irInfo r)
                  (Wrapping (Malformed ''invalid_json'' ''request body is not a JSON object'') err), m, w)
                else Ret (store_batch env (irInfo r) (batch_reject 0 err b) m w)
            | Inr ev \<Rightarrow>
                Ret (store_batch env (irInfo r) (batch_add (nQuote (ieNormalizer env)) 0 ev b) m w)))))"

subsection \<open>What an answer holds\<close>

lemma answer_view [result_simps]:
  "rpBody (ok_answer status x) = Inr x" "rpStatus (ok_answer status x) = status"
  "rpBody (fail_answer ri err) = Inl (rpBody (fail (riID ri) (riGone ri) err))"
  "rpStatus (fail_answer ri err) = statusOf (KindOf err)"
  "rpBody (fail_status ri status err) = Inl (rpBody (failWith (riID ri) (riGone ri) status err))"
  "rpStatus (fail_status ri status err) = status"
  by (simp_all add: ok_answer_def fail_answer_def fail_status_def map_body_def respond_def fail_def failWith_def Let_def
      split: prod.splits)

end
