(* ===== verification/Ingest_Facts.thy ===== *)
theory Ingest_Facts
  imports Api_Ingest Normalize_Facts
begin

text \<open>
  What the ingest endpoints answer: every record of a request is accounted for, the report is
  the first rejections in request order, and only tenants the caller may write to are stored.
\<close>

subsection \<open>What is decided about each record\<close>

type_synonym decision_list = "(nat \<times> (go_error + new_event)) list"

text \<open>Before the insert: a rejection, or an event for the insert.\<close>

definition decide :: "'w ingest_env \<Rightarrow> defaults \<Rightarrow> (bytes \<Rightarrow> bool) \<Rightarrow> nat \<times> bytes option \<Rightarrow> (nat \<times> (go_error + new_event)) outcome" where
  "decide env d may call =
     (case call of
        (i, None) \<Rightarrow> Ret (i, Inl (Invalid ''record_too_large'' (''record exceeds '' @ byteSize (int maxRecordBytes))))
      | (i, Some rec) \<Rightarrow>
          outcome_bind (Normalize (ieNormalizer env) (ieClock env i) rec d) (\<lambda>r.
            Ret (i, case r of
                Inl err \<Rightarrow> Inl err
              | Inr ev \<Rightarrow> if may (evTenantID ev) then Inr ev
                  else Inl (TenantNotPermitted (nQuote (ieNormalizer env)) (evTenantID ev)))))"

fun early :: "decision_list \<Rightarrow> ingest_rejection list" where
  "early [] = []"
| "early ((i, Inl err) # ds) = rejection i err # early ds"
| "early ((i, Inr ev) # ds) = early ds"

fun queued :: "decision_list \<Rightarrow> (nat \<times> new_event) list" where
  "queued [] = []"
| "queued ((i, Inl err) # ds) = queued ds"
| "queued ((i, Inr ev) # ds) = (i, ev) # queued ds"

fun late :: "nat list \<Rightarrow> rejections \<Rightarrow> ingest_rejection list" where
  "late (i # lines) (None # refused) = late lines refused"
| "late (i # lines) (Some err # refused) = rejection i err # late lines refused"
| "late _ _ = []"

text \<open>All the rejections of a request, in its order: those before the insert, and the insert's.\<close>

fun rejections_of :: "decision_list \<Rightarrow> rejections \<Rightarrow> ingest_rejection list" where
  "rejections_of [] refused = []"
| "rejections_of ((i, Inl err) # ds) refused = rejection i err # rejections_of ds refused"
| "rejections_of ((i, Inr ev) # ds) (None # refused) = rejections_of ds refused"
| "rejections_of ((i, Inr ev) # ds) (Some err # refused) = rejection i err # rejections_of ds refused"
| "rejections_of ((i, Inr ev) # ds) [] = rejections_of ds []"

text \<open>One decision and the batch.\<close>

fun apply_decision :: "nat \<times> (go_error + new_event) \<Rightarrow> batch \<Rightarrow> batch" where
  "apply_decision (i, Inl err) b = batch_reject i err b"
| "apply_decision (i, Inr ev) b = b\<lparr>baEvents := baEvents b @ [ev], baLines := baLines b @ [i]\<rparr>"

lemma batch_reject_may [simp]: "baMay (batch_reject i err b) = baMay b"
  by (simp add: batch_reject_def batch_count_def Let_def)

lemma apply_decision_may [simp]: "baMay (apply_decision dc b) = baMay b"
  by (cases dc; cases "snd dc") auto

lemma ingest_record_decide:
  "ingest_record env d call b = outcome_bind (decide env d (baMay b) call) (\<lambda>dc. Ret (apply_decision dc b))"
proof (cases call)
  case (Pair i r)
  show ?thesis
  proof (cases r)
    case (Some rec)
    show ?thesis
      by (cases "Normalize (ieNormalizer env) (ieClock env i) rec d")
        (auto simp: Pair Some ingest_record_def decide_def batch_add_def split: sum.splits)
  qed (simp add: Pair ingest_record_def decide_def)
qed

lemma ingest_records_decide:
  assumes "ingest_records env d calls b = Ret b'"
  obtains ds where "list_all2 (\<lambda>call dc. decide env d (baMay b) call = Ret dc) calls ds"
    and "b' = fold apply_decision ds b"
  using assms
proof (induction calls arbitrary: b thesis)
  case (Cons call calls)
  from Cons.prems(2) obtain dc where dc: "decide env d (baMay b) call = Ret dc"
    and run: "ingest_records env d calls (apply_decision dc b) = Ret b'"
    by (auto simp: ingest_record_decide result_simps)
  obtain ds where "list_all2 (\<lambda>call dc. decide env d (baMay (apply_decision dc b)) call = Ret dc) calls ds"
    "b' = fold apply_decision ds (apply_decision dc b)"
    using Cons.IH [OF _ run] by (metis (mono_tags, lifting) apply_decision_may list.rel_mono_strong)
  with dc Cons.prems(1) [of "dc # ds"] show ?case by simp
qed auto

lemma decide_index: "decide env d may call = Ret dc \<Longrightarrow> fst dc = fst call"
  by (auto simp: decide_def result_simps split: prod.splits option.splits)

subsection \<open>The batch after the records\<close>

text \<open>How often a code occurs, as the map of counts has it.\<close>

definition codes_of :: "ingest_rejection list \<Rightarrow> bytes \<rightharpoonup> nat" where
  "codes_of rs c = (if c \<in> irCode ` set rs then Some (length (filter (\<lambda>r. irCode r = c) rs)) else None)"

definition batch_of :: "(bytes \<Rightarrow> bool) \<Rightarrow> decision_list \<Rightarrow> batch" where
  "batch_of may ds =
     \<lparr>baMay = may, baEvents = map snd (queued ds), baLines = map fst (queued ds), baRejected = length (early ds),
      baRefused = 0, baCodes = codes_of (early ds), baReported = take maxReported (early ds)\<rparr>"

lemma early_append [simp]: "early (xs @ ys) = early xs @ early ys"
  by (induction xs rule: early.induct) auto

lemma queued_append [simp]: "queued (xs @ ys) = queued xs @ queued ys"
  by (induction xs rule: queued.induct) auto

lemma codes_of_snoc:
  "codes_of (rs @ [r]) = (codes_of rs)(irCode r \<mapsto> (case codes_of rs (irCode r) of None \<Rightarrow> 0 | Some n \<Rightarrow> n) + 1)"
proof
  fix c
  show "codes_of (rs @ [r]) c =
      ((codes_of rs)(irCode r \<mapsto> (case codes_of rs (irCode r) of None \<Rightarrow> 0 | Some n \<Rightarrow> n) + 1)) c"
    by (auto simp: codes_of_def filter_empty_conv image_iff)
qed

lemma take_snoc: "take n (xs @ [x]) = (if length (take n xs) < n then take n xs @ [x] else take n xs)"
  by auto

lemma apply_decisions: "fold apply_decision ds (new_batch may) = batch_of may ds"
proof (induction ds rule: rev_induct)
  case (snoc dc ds)
  obtain i r where dc: "dc = (i, r)" by fastforce
  show ?case
  proof (cases r)
    case (Inl err)
    from snoc show ?thesis
      by (simp add: dc Inl batch_reject_def batch_count_def batch_of_def codes_of_snoc take_snoc Let_def
          del: take_append)
  qed (use snoc in \<open>simp add: dc batch_of_def\<close>)
qed (simp add: new_batch_def batch_of_def codes_of_def fun_eq_iff)

subsection \<open>Merging the insert's rejections\<close>

lemma merge_loop_result:
  assumes "length refused = length lines" and "length lt \<le> maxReported"
  shows "merge_loop refused lines lt b =
    (take maxReported (lt @ late lines refused),
     b\<lparr>baRefused := baRefused b + length (late lines refused), baRejected := baRejected b + length (late lines refused),
       baCodes := baCodes (snd (merge_loop refused lines lt b))\<rparr>)"
  using assms
proof (induction refused lines lt b rule: merge_loop.induct)
  case (2 err refused line lines lt b)
  obtain r b' where c: "batch_count line err (b\<lparr>baRefused := baRefused b + 1\<rparr>) = (r, b')" by fastforce
  then have r: "r = rejection line err" and b': "baRefused b' = baRefused b + 1" "baRejected b' = baRejected b + 1"
    "b'\<lparr>baRefused := x, baRejected := y, baCodes := z\<rparr> = b\<lparr>baRefused := x, baRejected := y, baCodes := z\<rparr>" for x y z
    by (auto simp: batch_count_def Let_def)
  define lt' where "lt' = (if length lt < maxReported then lt @ [r] else lt)"
  have IH: "merge_loop refused lines lt' b' =
    (take maxReported (lt' @ late lines refused),
     b'\<lparr>baRefused := baRefused b' + length (late lines refused), baRejected := baRejected b' + length (late lines refused),
       baCodes := baCodes (snd (merge_loop refused lines lt' b'))\<rparr>)"
    using "2.IH" [OF c [symmetric]] "2.prems" by (simp add: lt'_def)
  have "take maxReported (lt' @ late lines refused) = take maxReported (lt @ r # late lines refused)"
    using "2.prems" by (simp add: lt'_def take_Cons')
  moreover have "merge_loop (Some err # refused) (line # lines) lt b = merge_loop refused lines lt' b'"
    by (simp only: merge_loop.simps c prod.case lt'_def)
  ultimately show ?case
    using IH by (simp add: r b')
qed auto

lemma merge_loop_codes:
  "baCodes b = codes_of rs \<Longrightarrow> length refused = length lines \<Longrightarrow>
   baCodes (snd (merge_loop refused lines lt b)) = codes_of (rs @ late lines refused)"
proof (induction refused lines lt b arbitrary: rs rule: merge_loop.induct)
  case (2 err refused line lines lt b)
  obtain r b' where c: "batch_count line err (b\<lparr>baRefused := baRefused b + 1\<rparr>) = (r, b')" by fastforce
  then have r: "r = rejection line err" and "baCodes b' = codes_of (rs @ [r])"
    using "2.prems"(1) by (auto simp: batch_count_def Let_def codes_of_snoc)
  with "2.IH" [OF c [symmetric], of "rs @ [r]"] "2.prems"(2) show ?case
    by (simp only: merge_loop.simps c prod.case) (simp add: r)
qed auto

text \<open>Sorting by distinct keys: an element below all others comes first.\<close>

lemma sort_key_least:
  assumes "\<forall>x \<in> set (xs @ ys). f a < f x"
  shows "sort_key f (xs @ a # ys) = a # sort_key f (xs @ ys)"
  using assms
proof (induction xs)
  case Nil
  then show ?case by (auto simp: insort_is_Cons less_imp_le)
next
  case (Cons x xs)
  then show ?case by auto
qed

lemma early_late_index:
  "r \<in> set (early ds) \<Longrightarrow> irIndex r \<in> fst ` set ds"
  "r \<in> set (late (map fst (queued ds)) refused) \<Longrightarrow> irIndex r \<in> fst ` set ds"
proof -
  show "r \<in> set (early ds) \<Longrightarrow> irIndex r \<in> fst ` set ds"
    by (induction ds rule: early.induct) (auto simp: rejection_def)
  have "r \<in> set (late lines refused) \<Longrightarrow> irIndex r \<in> set lines" for lines
    by (induction lines refused rule: late.induct) (auto simp: rejection_def)
  moreover have "set (map fst (queued ds)) \<subseteq> fst ` set ds"
    by (induction ds rule: queued.induct) auto
  ultimately show "r \<in> set (late (map fst (queued ds)) refused) \<Longrightarrow> irIndex r \<in> fst ` set ds" by blast
qed

text \<open>The first rejections of both lists are enough to find the first of all.\<close>

lemma merged_reports:
  assumes "sorted_wrt (<) (map fst ds)" and "length refused = length (queued ds)" and "n \<le> p" and "n \<le> q"
  shows "take n (sort_key irIndex (take p (early ds) @ take q (late (map fst (queued ds)) refused)))
    = take n (rejections_of ds refused)"
  using assms
proof (induction ds refused arbitrary: n p q rule: rejections_of.induct)
  case (2 i err ds refused)
  define E where "E = take (p - 1) (early ds)"
  define L where "L = take q (late (map fst (queued ds)) refused)"
  have "\<forall>x \<in> set (E @ L). i < irIndex x"
    using "2.prems"(1) early_late_index by (fastforce simp: E_def L_def dest: in_set_takeD)
  then have "sort_key irIndex (rejection i err # E @ L) = rejection i err # sort_key irIndex (E @ L)"
    using sort_key_least [of "[]" "E @ L" irIndex "rejection i err"] by (simp add: rejection_def)
  moreover have "take (n - 1) (sort_key irIndex (E @ L)) = take (n - 1) (rejections_of ds refused)"
    using "2.IH" [of "n - 1" "p - 1" q] "2.prems" by (simp add: E_def L_def)
  ultimately show ?case
    using "2.prems"(3) by (cases n) (simp_all add: take_Cons' E_def L_def)
next
  case (4 i ev ds err refused)
  define E where "E = take p (early ds)"
  define L where "L = take (q - 1) (late (map fst (queued ds)) refused)"
  have "\<forall>x \<in> set (E @ L). irIndex (rejection i err) < irIndex x"
    using "4.prems"(1) early_late_index by (fastforce simp: E_def L_def rejection_def dest: in_set_takeD)
  then have "sort_key irIndex (E @ rejection i err # L) = rejection i err # sort_key irIndex (E @ L)"
    by (rule sort_key_least)
  moreover have "take (n - 1) (sort_key irIndex (E @ L)) = take (n - 1) (rejections_of ds refused)"
    using "4.IH" [of "n - 1" p "q - 1"] "4.prems" by (simp add: E_def L_def)
  ultimately show ?case
    using "4.prems"(4) by (cases n) (simp_all add: take_Cons' E_def L_def)
qed auto

subsection \<open>A batch that was stored\<close>

lemma length_early_queued: "length (early ds) + length (queued ds) = length ds"
  by (induction ds rule: early.induct) auto

lemma length_rejections:
  "length refused = length (queued ds) \<Longrightarrow>
   length (rejections_of ds refused) = length (early ds) + length (late (map fst (queued ds)) refused)"
  by (induction ds refused rule: rejections_of.induct) auto

lemma rejections_without_late:
  "late (map fst (queued ds)) refused = [] \<Longrightarrow> length refused = length (queued ds) \<Longrightarrow>
   rejections_of ds refused = early ds"
  by (induction ds refused rule: rejections_of.induct) auto

definition result_of :: "decision_list \<Rightarrow> rejections \<Rightarrow> ingest_result" where
  "result_of ds refused =
     (let rs = rejections_of ds refused in
      \<lparr>rsAccepted = int (length ds) - int (length rs), rsRejected = int (length rs),
       rsErrors = (if rs = [] then None else Some (take maxReported rs))\<rparr>)"

lemma merge_batch:
  assumes "sorted_wrt (<) (map fst ds)" and "length refused = length (queued ds)"
  shows "batch_result (merge refused (batch_of may ds)) = result_of ds refused
    \<and> baCodes (merge refused (batch_of may ds)) = codes_of (early ds @ late (map fst (queued ds)) refused)"
proof -
  define b where "b = batch_of may ds"
  define L where "L = late (map fst (queued ds)) refused"
  have lines: "length refused = length (baLines b)" using assms(2) by (simp add: b_def batch_of_def)
  obtain lt b' where m: "merge_loop refused (baLines b) [] b = (lt, b')" by fastforce
  have lt: "lt = take maxReported L" and b': "b' = b\<lparr>baRefused := length L, baRejected := length (early ds) + length L, baCodes := baCodes b'\<rparr>"
    using merge_loop_result [OF lines, of "[]" b] m by (simp_all add: L_def b_def batch_of_def)
  have codes: "baCodes b' = codes_of (early ds @ L)"
    using merge_loop_codes [of b "early ds" refused "baLines b" "[]"] lines m by (simp add: L_def b_def batch_of_def)
  have total: "length (rejections_of ds refused) = length (early ds) + length L"
    using length_rejections [OF assms(2)] by (simp add: L_def)
  have reports: "take maxReported (sort_key irIndex (take maxReported (early ds) @ take maxReported L))
      = take maxReported (rejections_of ds refused)"
    unfolding L_def by (rule merged_reports [OF assms order_refl order_refl])
  define b2 where "b2 = merge refused b"
  have merged: "b2 = b'\<lparr>baReported := take maxReported (rejections_of ds refused)\<rparr>"
  proof (cases "lt = []")
    case True
    then have "L = []" using lt by (simp add: maxReported_def)
    then have "rejections_of ds refused = early ds"
      using rejections_without_late [of ds refused] assms(2) by (simp add: L_def)
    moreover have "baReported b' = take maxReported (early ds)" by (subst b') (simp add: b_def batch_of_def)
    ultimately show ?thesis using True m by (simp add: b2_def merge_def)
  next
    case False
    have "baReported b' = take maxReported (early ds)" by (subst b') (simp add: b_def batch_of_def)
    with False m reports show ?thesis by (simp add: b2_def merge_def lt)
  qed
  have "baEvents b' = map snd (queued ds)" "baRefused b' = length L" "baRejected b' = length (early ds) + length L"
    by (subst b', simp add: b_def batch_of_def)+
  then have "batch_result b2 = result_of ds refused"
    using total length_early_queued [of ds]
    by (auto simp: merged batch_result_def result_of_def Let_def maxReported_def)
  with codes show ?thesis by (simp add: merged b2_def [symmetric] b_def [symmetric] L_def)
qed


subsection \<open>The endpoint with its repository\<close>

lemma record_of_index: "c \<in> set (record_of limit il) \<Longrightarrow> fst c = fst il"
  by (auto simp: record_of_def Let_def split: if_splits)

lemma record_of_single: "sorted_wrt (<) (map fst (record_of limit il))"
  by (simp add: record_of_def Let_def)

lemma records_sorted:
  "sorted_wrt (<) (map fst (concat (map (record_of limit) (List.enumerate i lines))))
   \<and> (\<forall>c \<in> set (concat (map (record_of limit) (List.enumerate i lines))). i \<le> fst c)"
proof (induction lines arbitrary: i)
  case (Cons line lines)
  from Cons [of "Suc i"] record_of_single [of limit "(i, line)"] show ?case
    by (fastforce simp: sorted_wrt_append in_set_enumerate_eq dest!: record_of_index)
qed simp

lemma eachRecord_sorted: "sorted_wrt (<) (map fst (fst (eachRecord body)))"
  using each_line_calls [of maxRecordBytes 0 "fst body" "snd body"] records_sorted
  by (simp add: eachRecord_def calls_of_def Let_def)

text \<open>
  What the endpoints rely on: the insert answers for each event, and \<open>effect\<close> is what it did.
\<close>

locale event_sink =
  fixes insert_events :: "new_event list \<Rightarrow> 'w \<Rightarrow> (go_error + rejections) \<times> 'w"
    and effect :: "new_event list \<Rightarrow> rejections \<Rightarrow> 'w \<Rightarrow> 'w \<Rightarrow> bool"
  assumes insert_answers: "insert_events evs w = (Inr refused, w') \<Longrightarrow> length refused = length evs \<and> effect evs refused w w'"
    and effect_none: "effect [] [] w w"
begin

lemma store_batch_stored:
  assumes "ieInsert env = insert_events" and "sorted_wrt (<) (map fst ds)"
    and "store_batch env ri (batch_of may ds) m w = (a, m', w')" and "rpStatus a = 200"
  obtains refused where "length refused = length (queued ds)" and "effect (map snd (queued ds)) refused w w'"
    and "rpBody a = Inr (result_of ds refused)"
proof (cases "queued ds = []")
  case True
  have "result_of ds [] = batch_result (batch_of may ds)"
    using True length_early_queued [of ds] rejections_without_late [of ds "[]"]
    by (auto simp: result_of_def batch_result_def batch_of_def Let_def maxReported_def)
  with True assms(3) that [of "[]"] effect_none show thesis
    by (auto simp: store_batch_def batch_of_def ok_answer_def map_body_def respond_def Let_def split: if_splits)
next
  case False
  obtain res w1 where ins: "insert_events (map snd (queued ds)) w = (res, w1)" by fastforce
  show thesis
  proof (cases res)
    case (Inl err)
    have "statusOf (KindOf err) \<noteq> 200" by (cases "KindOf err") simp_all
    with assms False ins Inl show thesis
      by (auto simp: store_batch_def batch_of_def fail_answer_def map_body_def fail_def failWith_def Let_def split: prod.splits)
  next
    case (Inr refused)
    with insert_answers ins have r: "length refused = length (queued ds)" "effect (map snd (queued ds)) refused w w1"
      by auto
    from assms(1,3) False ins Inr have "w' = w1"
      and "rpBody a = Inr (batch_result (merge refused (batch_of may ds)))"
      by (auto simp: store_batch_def batch_of_def ok_answer_def map_body_def respond_def Let_def split: if_splits)
    with r merge_batch [OF assms(2) r(1)] that show thesis by simp
  qed
qed

lemma ingestNDJSON_stored:
  assumes "ieInsert env = insert_events" and "ingestNDJSON env r (new_batch may) d m w = Ret (a, m', w')"
    and "rpStatus a = 200"
  obtains calls ds refused where "eachRecord (MaxBytesReader maxNDJSONBytes (irBody r)) = (calls, None)"
    and "list_all2 (\<lambda>call dc. decide env d may call = Ret dc) calls ds"
    and "effect (map snd (queued ds)) refused w w'" and "rpBody a = Inr (result_of ds refused)"
proof -
  obtain calls e where c: "eachRecord (MaxBytesReader maxNDJSONBytes (irBody r)) = (calls, e)" by fastforce
  have "rpStatus (failRead ri x n :: ingest_result answer) \<noteq> 200" for ri x n
    by (cases x) (simp_all add: failRead_def fail_status_def fail_answer_def map_body_def fail_def failWith_def Let_def
        Malformed_def result_simps)
  with assms(2,3) c obtain b where b: "ingest_records env d calls (new_batch may) = Ret b"
    and e: "e = None" and st: "store_batch env (irInfo r) b m w = (a, m', w')"
    by (cases e) (auto simp: ingestNDJSON_def fail_status_def map_body_def failWith_def Let_def result_simps
        split: option.splits)
  from ingest_records_decide [OF b] obtain ds where
    ds: "list_all2 (\<lambda>call dc. decide env d may call = Ret dc) calls ds" and "b = fold apply_decision ds (new_batch may)"
    by (auto simp: new_batch_def)
  then have "b = batch_of may ds" by (simp add: apply_decisions)
  moreover have "map fst ds = map fst calls"
    using ds by (induction rule: list_all2_induct) (auto dest: decide_index)
  then have "sorted_wrt (<) (map fst ds)"
    using eachRecord_sorted [of "MaxBytesReader maxNDJSONBytes (irBody r)"] c by simp
  ultimately show thesis
    using store_batch_stored [OF assms(1) _ _ assms(3)] st that [OF c [unfolded e] ds] by blast
qed

end

text \<open>The event repository is such a sink.\<close>

interpretation repository: event_sink "Insert q fails refuse" "inserted q" for q fails refuse
  by unfold_locales (use Insert_inserted in \<open>fastforce simp: inserted_def\<close>,
    rule Insert_inserted [of _ fails refuse "[]"], simp add: Insert_def)

text \<open>
  C5. A batch that is answered with 200 has been accounted for record by record: each record of
  the body was refused on the way or given to the insert, for a tenant the caller may write to;
  what the insert did not refuse is stored; the accepted and the rejected are all of them, and
  the report holds the first hundred rejections in request order, early and late ones together.
\<close>

theorem IngestBatch_accounts:
  assumes "IngestBatch env r m w = Ret (a, m', w')" and "rpStatus a = 200"
    and "ieInsert env = Insert q fails refuse"
  shows "\<exists>calls ds refused. eachRecord (MaxBytesReader maxNDJSONBytes (irBody r)) = (calls, None)
     \<and> list_all2 (\<lambda>call dc. decide env \<lparr>dfTenant = [], dfSource = []\<rparr>
         (Can (ieEnforcer env) (irCaller r) Events Create) call = Ret dc) calls ds
     \<and> inserted q (map snd (queued ds)) refused w w'
     \<and> rpBody a = Inr (result_of ds refused)"
proof -
  have "statusOf (KindOf err) \<noteq> 200" for err by (cases "KindOf err") simp_all
  with assms(1,2) have
    "ingestNDJSON env r (new_batch (Can (ieEnforcer env) (irCaller r) Events Create)) \<lparr>dfTenant = [], dfSource = []\<rparr> m w
      = Ret (a, m', w')"
    by (auto simp: IngestBatch_def startBatch_def fail_answer_def map_body_def fail_def failWith_def Let_def
        split: if_splits)
  from repository.ingestNDJSON_stored [OF assms(3) this assms(2)] show ?thesis by metis
qed


text \<open>A collector of one tenant sends a record of its own, and one for another tenant.\<close>

definition sample_env :: "events_db session ingest_env" where
  "sample_env =
     \<lparr>ieInsert = Insert (nQuote sample_normalizer) (\<lambda>_. None) (\<lambda>_. None), ieNormalizer = sample_normalizer,
      ieClock = (\<lambda>_. 0),
      ieEnforcer = {\<lparr>g_role = Collector, g_resource = Authz.Events, g_scope = Authz.OwnTenant, g_action = Create\<rparr>},
      ieCodesText = (\<lambda>_. [])\<rparr>"

definition sample_lines :: "bytes list" where
  "sample_lines = [json_text ''{~tenant~:~acme~,~source~:~api~}'', json_text ''{~tenant~:~umbrella~,~source~:~api~}'']"

definition sample_request :: ingest_request where
  "sample_request =
     \<lparr>irInfo = \<lparr>riID = ''1'', riPath = ''/ingest'', riGone = False\<rparr>,
      irCaller = \<lparr>Role = Collector, Tenant = ''acme'', UserID = 0\<rparr>,
      irContentType = ''application/x-ndjson'', irBody = (sample_lines ! 0 @ LF # sample_lines ! 1, EOF)\<rparr>"

definition sample_store :: "events_db session" where
  "sample_store = \<lparr>sData = \<lparr>dbTenants = {''acme'', ''umbrella''}, dbEvents = []\<rparr>, sScope = NoScope, sBase = NoScope, sDepth = 0, sStep = 0\<rparr>"

lemma sample_calls: "eachRecord (MaxBytesReader maxNDJSONBytes (irBody sample_request)) = ([(0, Some (sample_lines ! 0)), (1, Some (sample_lines ! 1))], None)"
proof -
  have 1: "MaxBytesReader maxNDJSONBytes (irBody sample_request) = irBody sample_request"
    by (simp add: MaxBytesReader_def maxNDJSONBytes_def sample_request_def sample_lines_def json_text_def)
  have "split_byte LF (fst (irBody sample_request)) = sample_lines" by code_simp
  moreover have "List.enumerate 0 sample_lines = [(0, sample_lines ! 0), (1, sample_lines ! 1)]"
    by (simp add: sample_lines_def)
  moreover have "trim_suffix (sample_lines ! 0) [CR] = sample_lines ! 0" "trim_suffix (sample_lines ! 1) [CR] = sample_lines ! 1"
    "trim_space (sample_lines ! 0) = sample_lines ! 0" "trim_space (sample_lines ! 1) = sample_lines ! 1"
    "sample_lines ! 0 \<noteq> []" "sample_lines ! 1 \<noteq> []"
    by code_simp+
  moreover have "length (sample_lines ! 0) \<le> maxRecordBytes" "length (sample_lines ! 1) \<le> maxRecordBytes"
    by (simp_all add: maxRecordBytes_def sample_lines_def json_text_def)
  moreover have "snd (irBody sample_request) = EOF" by (simp add: sample_request_def)
  moreover have "eachRecord (irBody sample_request) = calls_of maxRecordBytes 0 (irBody sample_request)"
    using each_line_calls [of maxRecordBytes 0 "fst (irBody sample_request)" "snd (irBody sample_request)"]
    by (simp add: eachRecord_def)
  ultimately show ?thesis unfolding 1 by (simp add: calls_of_def record_of_def)
qed

lemma sample_events: "case Normalize sample_normalizer 0 (sample_lines ! 0) no_defaults of Ret (Inr ev) \<Rightarrow> evTenantID ev = ''acme'' \<and> evSource ev = ''api'' | _ \<Rightarrow> False"
  "case Normalize sample_normalizer 0 (sample_lines ! 1) no_defaults of Ret (Inr ev) \<Rightarrow> evTenantID ev = ''umbrella''  \<and> evSource ev = ''api''| _ \<Rightarrow> False"
  by code_simp+

lemma sample_access: "Can (ieEnforcer sample_env) (irCaller sample_request) Authz.Events Create ''acme''"
  "\<not> Can (ieEnforcer sample_env) (irCaller sample_request) Authz.Events Create ''umbrella''"
  "startBatch (ieEnforcer sample_env) (irCaller sample_request)
    = Inr (new_batch (Can (ieEnforcer sample_env) (irCaller sample_request) Authz.Events Create))"
  by (simp_all add: sample_env_def sample_request_def Can_def allows_def Authenticated_def startBatch_def Scopes_def tenants_Empty_def Let_def
     role_defs resource_defs action_defs scope_defs word_less_nat_alt word_le_nat_alt)

lemma sample_media_type: "requireMediaType (nLower sample_normalizer) (irContentType sample_request) ''application/x-ndjson'' = None"
  by code_simp

lemma sample_insert: "evTenantID ev = ''acme'' \<Longrightarrow> \<exists>w'. Insert q (\<lambda>_. None) (\<lambda>_. None) [ev] sample_store = (Inr [None], w')"
  by (simp add: Insert_def sample_store_def knownTenants_def interact_def group_events_def group_event_def Let_def InTx_def
    setScope_def set_context_def chunks.simps insertChunk_def insertEvents_def execBatch_def insert_row_def visible_def)

theorem IngestBatch_accounts_witness:
  "\<exists>a m' w'. IngestBatch sample_env sample_request api_newMetrics sample_store = Ret (a, m', w')
     \<and> rpStatus a = 200
     \<and> (\<exists>calls ds refused. eachRecord (MaxBytesReader maxNDJSONBytes (irBody sample_request)) = (calls, None)
         \<and> inserted (nQuote sample_normalizer) (map snd (queued ds)) refused sample_store w'
         \<and> rpBody a = Inr (result_of ds refused) \<and> length calls = 2)
     \<and> (\<exists>res. rpBody a = Inr res \<and> rsAccepted res = 1 \<and> rsRejected res = 1)"
proof -
  define may where "may = Can (ieEnforcer sample_env) (irCaller sample_request) Authz.Events Create"
  obtain e0 e1 where e: "Normalize sample_normalizer 0 (sample_lines ! 0) no_defaults = Ret (Inr e0)" "evTenantID e0 = ''acme''"
    "Normalize sample_normalizer 0 (sample_lines ! 1) no_defaults = Ret (Inr e1)" "evTenantID e1 = ''umbrella''"
    using sample_events by (auto split: outcome.splits sum.splits)
  have may: "may ''acme''" "\<not> may ''umbrella''" using sample_access by (simp_all add: may_def)
  obtain b where b: "ingest_records sample_env no_defaults [(0, Some (sample_lines ! 0)), (1, Some (sample_lines ! 1))] (new_batch may) = Ret b"
    and bs: "baEvents b = [e0]" "baLines b = [0]" "baRejected b = 1" "baRefused b = 0"
    using e may by (simp add: ingest_record_def sample_env_def batch_add_def new_batch_def batch_reject_def batch_count_def Let_def)
  obtain w' where ins: "ieInsert sample_env [e0] sample_store = (Inr [None], w')"
    using sample_insert e(2) by (fastforce simp: sample_env_def)
  have mb: "merge [None] b = b" using bs by (simp add: merge_def)
  obtain a m' where st: "store_batch sample_env (irInfo sample_request) b api_newMetrics sample_store = (a, m', w')"
    and a: "rpStatus a = 200" "rpBody a = Inr (batch_result b)"
    using bs ins mb by (simp add: store_batch_def ok_answer_def map_body_def respond_def Let_def)
  have run: "IngestBatch sample_env sample_request api_newMetrics sample_store = Ret (a, m', w')"
    using sample_access(3) sample_media_type b st sample_calls
    by (simp add: IngestBatch_def ingestNDJSON_def may_def [symmetric] no_defaults_def [symmetric])
       (simp add: sample_env_def)
  have "ieInsert sample_env = Insert (nQuote sample_normalizer) (\<lambda>_. None) (\<lambda>_. None)" by (simp add: sample_env_def)
  from IngestBatch_accounts [OF run a(1) this] sample_calls
  have "\<exists>calls ds refused. eachRecord (MaxBytesReader maxNDJSONBytes (irBody sample_request)) = (calls, None)
         \<and> inserted (nQuote sample_normalizer) (map snd (queued ds)) refused sample_store w'
         \<and> rpBody a = Inr (result_of ds refused) \<and> length calls = 2" by fastforce
  with run a show ?thesis by (auto simp: batch_result_def bs)
qed

end
