(* ===== verification/Api_Params.thy ===== *)
theory Api_Params
  imports Api_Ingest Search Counts
begin

text \<open>
  \<open>internal/api/gen/server.gen.go\<close>, the code generated from the OpenAPI description: the
  routes and the query parameters, bound one after the other until one cannot be; and
  \<open>paramError\<close> of \<open>internal/api/server.go\<close>, which answers for that one. The library that
  reads a parameter's value from a query \<open>'q\<close> is an argument.
\<close>

subsection \<open>Binding one parameter\<close>

text \<open>\<open>runtime.RequiredParameterError\<close>, or another error of the library.\<close>

datatype bind_error = RequiredParameter | BindFailed go_error

record 'q binding_lib =
  blText :: "bytes \<Rightarrow> 'q \<Rightarrow> bind_error + bytes option"
  blRequired :: "bytes \<Rightarrow> 'q \<Rightarrow> bind_error + bytes"
  blTexts :: "bytes \<Rightarrow> 'q \<Rightarrow> bind_error + bytes list option"
  blTime :: "bytes \<Rightarrow> 'q \<Rightarrow> bind_error + zoned option"
  blInt :: "bytes \<Rightarrow> 'q \<Rightarrow> bind_error + int option"
  blInt32 :: "bytes \<Rightarrow> 'q \<Rightarrow> bind_error + int option"

datatype param_error = RequiredParamError bytes | InvalidParamFormatError bytes go_error

definition param_error_value :: "param_error \<Rightarrow> go_error" where
  "param_error_value e =
     (case e of
        RequiredParamError name \<Rightarrow> Foreign (''Query argument '' @ name @ '' is required, but not found'') []
      | InvalidParamFormatError name err \<Rightarrow>
          Foreign (''Invalid format for parameter '' @ name @ '': '' @ error_text err) [err])"

definition bind_param :: "bytes \<Rightarrow> (bytes \<Rightarrow> 'q \<Rightarrow> bind_error + 'a) \<Rightarrow> 'q \<Rightarrow> param_error + 'a" where
  "bind_param name bind query =
     (case bind name query of
        Inl RequiredParameter \<Rightarrow> Inl (RequiredParamError name)
      | Inl (BindFailed err) \<Rightarrow> Inl (InvalidParamFormatError name err)
      | Inr v \<Rightarrow> Inr v)"

subsection \<open>The parameters of the endpoints\<close>

text \<open>The filters that searches, counts and timelines share, in the order they are bound.\<close>

record filter_params =
  pmTenant :: "bytes option"
  pmFrom :: "zoned option"
  pmTo :: "zoned option"
  pmSource :: "bytes list option"
  pmEventType :: "bytes option"
  pmAction :: "bytes option"
  pmSeverityMin :: "int option"
  pmSeverityMax :: "int option"
  pmSrcIP :: "bytes option"
  pmUser :: "bytes option"
  pmHost :: "bytes option"
  pmTag :: "bytes list option"
  pmQ :: "bytes option"

record SearchEventsParams = filter_params +
  pmLimit :: "int option"
  pmCursor :: "bytes option"
  pmOrder :: "bytes option"

record TimelineParams = filter_params +
  pmInterval :: "bytes option"

record TopValuesParams = filter_params +
  pmField :: bytes
  pmTopLimit :: "int option"

record ListAlertsParams =
  laTenant :: "bytes option"
  laLimit :: "int option"

definition bind_filters :: "'q binding_lib \<Rightarrow> 'q \<Rightarrow> param_error + filter_params" where
  "bind_filters b q =
     sum_bind (bind_param ''tenant'' (blText b) q) (\<lambda>tenant.
     sum_bind (bind_param ''from'' (blTime b) q) (\<lambda>from.
     sum_bind (bind_param ''to'' (blTime b) q) (\<lambda>to.
     sum_bind (bind_param ''source'' (blTexts b) q) (\<lambda>source.
     sum_bind (bind_param ''event_type'' (blText b) q) (\<lambda>event_type.
     sum_bind (bind_param ''action'' (blText b) q) (\<lambda>action.
     sum_bind (bind_param ''severity_min'' (blInt b) q) (\<lambda>severity_min.
     sum_bind (bind_param ''severity_max'' (blInt b) q) (\<lambda>severity_max.
     sum_bind (bind_param ''src_ip'' (blText b) q) (\<lambda>src_ip.
     sum_bind (bind_param ''user'' (blText b) q) (\<lambda>user.
     sum_bind (bind_param ''host'' (blText b) q) (\<lambda>host.
     sum_bind (bind_param ''tag'' (blTexts b) q) (\<lambda>tag.
     sum_bind (bind_param ''q'' (blText b) q) (\<lambda>query.
       Inr \<lparr>pmTenant = tenant, pmFrom = from, pmTo = to, pmSource = source, pmEventType = event_type,
            pmAction = action, pmSeverityMin = severity_min, pmSeverityMax = severity_max, pmSrcIP = src_ip,
            pmUser = user, pmHost = host, pmTag = tag, pmQ = query\<rparr>)))))))))))))"

definition bind_SearchEvents :: "'q binding_lib \<Rightarrow> 'q \<Rightarrow> param_error + SearchEventsParams" where
  "bind_SearchEvents b q =
     sum_bind (bind_filters b q) (\<lambda>f.
     sum_bind (bind_param ''limit'' (blInt32 b) q) (\<lambda>limit.
     sum_bind (bind_param ''cursor'' (blText b) q) (\<lambda>cursor.
     sum_bind (bind_param ''order'' (blText b) q) (\<lambda>order.
       Inr (filter_params.extend f \<lparr>pmLimit = limit, pmCursor = cursor, pmOrder = order\<rparr>)))))"

definition bind_Timeline :: "'q binding_lib \<Rightarrow> 'q \<Rightarrow> param_error + TimelineParams" where
  "bind_Timeline b q =
     sum_bind (bind_param ''interval'' (blText b) q) (\<lambda>interval.
     sum_bind (bind_filters b q) (\<lambda>f.
       Inr (filter_params.extend f \<lparr>pmInterval = interval\<rparr>)))"

definition bind_TopValues :: "'q binding_lib \<Rightarrow> 'q \<Rightarrow> param_error + TopValuesParams" where
  "bind_TopValues b q =
     sum_bind (bind_param ''field'' (blRequired b) q) (\<lambda>field.
     sum_bind (bind_param ''limit'' (blInt32 b) q) (\<lambda>limit.
     sum_bind (bind_filters b q) (\<lambda>f.
       Inr (filter_params.extend f \<lparr>pmField = field, pmTopLimit = limit\<rparr>))))"

definition bind_ListAlertRules :: "'q binding_lib \<Rightarrow> 'q \<Rightarrow> param_error + bytes option" where
  "bind_ListAlertRules b q = bind_param ''tenant'' (blText b) q"

definition bind_ListAlerts :: "'q binding_lib \<Rightarrow> 'q \<Rightarrow> param_error + ListAlertsParams" where
  "bind_ListAlerts b q =
     sum_bind (bind_param ''tenant'' (blText b) q) (\<lambda>tenant.
     sum_bind (bind_param ''limit'' (blInt32 b) q) (\<lambda>limit.
       Inr \<lparr>laTenant = tenant, laLimit = limit\<rparr>))"

definition bind_IngestFile :: "'q binding_lib \<Rightarrow> 'q \<Rightarrow> param_error + bytes option \<times> bytes option" where
  "bind_IngestFile b q =
     sum_bind (bind_param ''tenant'' (blText b) q) (\<lambda>tenant.
     sum_bind (bind_param ''source'' (blText b) q) (\<lambda>source.
       Inr (tenant, source)))"

subsection \<open>Routes\<close>

datatype endpoint =
    AtHealth | AtLogin | AtTenants | AtIngestEvent | AtIngestBatch | AtIngestFile | AtSearch
  | AtTop | AtTimeline | AtListRules | AtCreateRule | AtAlerts | AtOpenAPI | AtDocs

text \<open>
  \<open>HandlerWithOptions\<close>, and the two routes \<open>Handler\<close> adds. A pattern for \<open>GET\<close> also takes
  \<open>HEAD\<close>; no pattern has a wildcard, so a path matches one exactly.
\<close>

definition routes :: "(bytes \<times> bytes \<times> endpoint) list" where
  "routes =
     [(''GET'', ''/api/healthz'', AtHealth),
      (''POST'', ''/api/v1/auth/login'', AtLogin),
      (''GET'', ''/api/v1/tenants'', AtTenants),
      (''POST'', ''/api/v1/ingest'', AtIngestEvent),
      (''POST'', ''/api/v1/ingest/batch'', AtIngestBatch),
      (''POST'', ''/api/v1/ingest/file'', AtIngestFile),
      (''GET'', ''/api/v1/events'', AtSearch),
      (''GET'', ''/api/v1/events/top'', AtTop),
      (''GET'', ''/api/v1/events/timeline'', AtTimeline),
      (''GET'', ''/api/v1/alert-rules'', AtListRules),
      (''POST'', ''/api/v1/alert-rules'', AtCreateRule),
      (''GET'', ''/api/v1/alerts'', AtAlerts)]"

definition own_routes :: "(bytes \<times> bytes \<times> endpoint) list" where
  "own_routes = [(''GET'', ''/api/openapi.json'', AtOpenAPI), (''GET'', ''/api/docs'', AtDocs)]"

text \<open>The endpoint of a request; without one the mux answers 405 or 404 itself.\<close>

definition endpoint_of :: "bytes \<Rightarrow> bytes \<Rightarrow> int + endpoint" where
  "endpoint_of verb path =
     (let found = filter (\<lambda>(v, p, e). p = path) (routes @ own_routes) in
      case find (\<lambda>(v, p, e). v = verb \<or> v = ''GET'' \<and> verb = ''HEAD'') found of
        Some (v, p, e) \<Rightarrow> Inr e
      | None \<Rightarrow> Inl (if found = [] then 404 else 405))"

subsection \<open>A parameter that cannot be bound\<close>

definition topLimitFormat :: bytes where
  "topLimitFormat = ''an integer between 1 and 100''"

definition timestamp_format :: bytes where
  "timestamp_format = ''an RFC 3339 timestamp, with '' @ [CHR 0x27] @ ''+'' @ [CHR 0x27] @ '' in the offset escaped as %2B''"

definition paramFormats :: "bytes \<rightharpoonup> bytes" where
  "paramFormats = map_of
     [(''from'', timestamp_format), (''to'', timestamp_format), (''limit'', ''an integer between 1 and 1000''),
      (''severity_min'', ''an integer between 0 and 10''), (''severity_max'', ''an integer between 0 and 10'')]"

definition pathParamFormats :: "bytes \<Rightarrow> bytes \<rightharpoonup> bytes" where
  "pathParamFormats path =
     (if path = ''/api/v1/events/top'' then map_of [(''limit'', topLimitFormat)] else Map.empty)"

definition api_invalidParam :: "bytes \<Rightarrow> go_error" where
  "api_invalidParam message = Malformed ''invalid_parameter'' message"

definition param_message :: "bytes \<Rightarrow> param_error \<Rightarrow> bytes" where
  "param_message path e =
     (case e of
        InvalidParamFormatError name err \<Rightarrow>
          (case (case pathParamFormats path name of Some f \<Rightarrow> Some f | None \<Rightarrow> paramFormats name) of
             Some f \<Rightarrow> name @ '' must be '' @ f
           | None \<Rightarrow> name @ '' is not in the expected format'')
      | RequiredParamError name \<Rightarrow> name @ '' is required'')"

definition paramError :: "request_info \<Rightarrow> param_error \<Rightarrow> 'a answer" where
  "paramError ri e =
     fail_answer ri (Wrapping (api_invalidParam (param_message (riPath ri) e)) (param_error_value e))"

definition paramFormat :: "bytes \<Rightarrow> bytes" where
  "paramFormat name = (case paramFormats name of Some f \<Rightarrow> f | None \<Rightarrow> [])"

end
