(* ===== verification/Api_Reads.thy ===== *)
theory Api_Reads
  imports Api_Params Search_Paging Normalize Alerting
begin

text \<open>
  \<open>internal/api/search.go\<close>, \<open>counts.go\<close> and \<open>tenants.go\<close>, and the lists of \<open>alerts.go\<close>: what
  a caller may read, the filter that narrows it, and the handlers, each of which asks its
  repository under the caller's own row-level security context. The repositories are
  arguments; in the program they are those of \<open>Search_Query\<close>, \<open>Counts\<close>, \<open>Store\<close> and \<open>Alerts\<close>.
\<close>

subsection \<open>What a caller may read\<close>

definition scopeOf :: "caller \<Rightarrow> scope" where
  "scopeOf c = \<lparr>scope_TenantID = Tenant c, scope_Admin = (Role c = Admin)\<rparr>"

text \<open>
  \<open>eventFilter\<close>: \<open>ul\<close> lowers a rune and \<open>q\<close> is \<open>%q\<close>. The loop over the sources ends at the
  first that is not known.
\<close>

definition unknown_category :: "(int \<Rightarrow> int) \<Rightarrow> bytes \<Rightarrow> bool" where
  "unknown_category ul source =
     (let v = to_lower ul (trim_space source) in v \<noteq> [] \<and> \<not> Source_Valid v)"

definition eventFilter ::
  "(int \<Rightarrow> int) \<Rightarrow> (bytes \<Rightarrow> bytes) \<Rightarrow> enforcer \<Rightarrow> caller \<Rightarrow> bytes list option \<Rightarrow> event_filter \<Rightarrow> go_error + event_filter" where
  "eventFilter ul q e c sources f =
     (let readable = Scopes e c Authz.Events Read in
      if tenants_Empty readable then Inl (Deny c)
      else
        (case find (unknown_category ul) (case sources of None \<Rightarrow> [] | Some ss \<Rightarrow> ss) of
           Some source \<Rightarrow> Inl (api_invalidParam (''source '' @ q source @ '' is not a known source category''))
         | None \<Rightarrow>
             (let f = f\<lparr>fSources := fSources f @ (case sources of None \<Rightarrow> [] | Some ss \<Rightarrow> ss)\<rparr>;
                  tenant = trim_space (fTenant f) in
              if tenant \<noteq> [] \<and> \<not> tenants_Contains readable tenant then Inl (TenantNotPermitted q tenant)
              else if tenant = [] then
                (case tenants_Only readable of Some only \<Rightarrow> Inr (f\<lparr>fTenant := only\<rparr>) | None \<Rightarrow> Inr f)
              else Inr f)))"

text \<open>The filter that each of the three handlers makes of its parameters.\<close>

definition filter_of :: "'a filter_params_scheme \<Rightarrow> event_filter" where
  "filter_of p =
     \<lparr>fTenant = deref (pmTenant p), fFrom = pmFrom p, fTo = pmTo p, fSources = [],
      fEventType = deref (pmEventType p), fAction = deref (pmAction p), fSeverityMin = pmSeverityMin p,
      fSeverityMax = pmSeverityMax p, fSrcIP = deref (pmSrcIP p), fUser = deref (pmUser p),
      fHost = deref (pmHost p), fTags = (case pmTag p of None \<Rightarrow> [] | Some ts \<Rightarrow> ts), fQuery = deref (pmQ p)\<rparr>"

text \<open>\<open>listTenant\<close>, with the error it answers with.\<close>

definition listTenant ::
  "(bytes \<Rightarrow> bytes) \<Rightarrow> enforcer \<Rightarrow> caller \<Rightarrow> resource \<Rightarrow> bytes option \<Rightarrow> go_error + bytes" where
  "listTenant q e c r asked =
     (let readable = Scopes e c r Read; tenant = trim_space (deref asked) in
      if tenants_Empty readable then Inl (Deny c)
      else if tenant \<noteq> [] \<and> \<not> tenants_Contains readable tenant then Inl (TenantNotPermitted q tenant)
      else if tenant \<noteq> [] \<and> \<not> ValidTenantID tenant then Inl (api_invalidParam InvalidTenantID)
      else if tenant = [] then
        (case tenants_Only readable of Some only \<Rightarrow> Inr only | None \<Rightarrow> Inr tenant)
      else Inr tenant)"

subsection \<open>Events as the API shows them\<close>

text \<open>\<open>store.Event\<close>: what the conditions of a search look at, and the other columns.\<close>

record stored_event = row +
  seReceivedAt :: gotime
  seVendor :: "bytes option"
  seProduct :: "bytes option"
  seEventSubtype :: "bytes option"
  seSrcPort :: "int option"
  seDstIP :: "addr option"
  seDstPort :: "int option"
  seProtocol :: "bytes option"
  seProcess :: "bytes option"
  seURL :: "bytes option"
  seHTTPMethod :: "bytes option"
  seStatusCode :: "int option"
  seRuleName :: "bytes option"
  seRuleID :: "bytes option"
  seCloudAccountID :: "bytes option"
  seCloudRegion :: "bytes option"
  seCloudService :: "bytes option"
  seRaw :: bytes

record CloudContext =
  ccAccountID :: "bytes option"
  ccRegion :: "bytes option"
  ccService :: "bytes option"

text \<open>The times of a row are instants here, so \<open>UTC()\<close> changes nothing.\<close>

record api_event =
  aeID :: bytes
  aeTimestamp :: gotime
  aeReceivedAt :: gotime
  aeTenant :: bytes
  aeSource :: bytes
  aeVendor :: "bytes option"
  aeProduct :: "bytes option"
  aeEventType :: "bytes option"
  aeEventSubtype :: "bytes option"
  aeSeverity :: "int option"
  aeAction :: "bytes option"
  aeSrcIP :: "addr option"
  aeSrcPort :: "int option"
  aeDstIP :: "addr option"
  aeDstPort :: "int option"
  aeProtocol :: "bytes option"
  aeUserName :: "bytes option"
  aeHost :: "bytes option"
  aeProcess :: "bytes option"
  aeURL :: "bytes option"
  aeHTTPMethod :: "bytes option"
  aeStatusCode :: "int option"
  aeRuleName :: "bytes option"
  aeRuleID :: "bytes option"
  aeCloud :: "CloudContext option"
  aeRaw :: bytes
  aeTags :: "bytes list"

definition toEvent :: "stored_event \<Rightarrow> api_event" where
  "toEvent e =
     \<lparr>aeID = FormatInt (rID e), aeTimestamp = rTs e, aeReceivedAt = seReceivedAt e, aeTenant = rTenant e,
      aeSource = rSource e, aeVendor = seVendor e, aeProduct = seProduct e, aeEventType = rEventType e,
      aeEventSubtype = seEventSubtype e, aeSeverity = rSeverity e, aeAction = rAction e, aeSrcIP = rSrcIP e,
      aeSrcPort = seSrcPort e, aeDstIP = seDstIP e, aeDstPort = seDstPort e, aeProtocol = seProtocol e,
      aeUserName = rUser e, aeHost = rHost e, aeProcess = seProcess e, aeURL = seURL e,
      aeHTTPMethod = seHTTPMethod e, aeStatusCode = seStatusCode e, aeRuleName = seRuleName e,
      aeRuleID = seRuleID e,
      aeCloud = (if seCloudAccountID e \<noteq> None \<or> seCloudRegion e \<noteq> None \<or> seCloudService e \<noteq> None
         then Some \<lparr>ccAccountID = seCloudAccountID e, ccRegion = seCloudRegion e, ccService = seCloudService e\<rparr>
         else None),
      aeRaw = seRaw e, aeTags = rTags e\<rparr>"

record event_page =
  epItems :: "api_event list"
  epNextCursor :: "bytes option"

subsection \<open>Searches and counts\<close>

text \<open>What the handlers share of the server: the enforcer, and Unicode and \<open>%q\<close>.\<close>

record server =
  srvAuthz :: enforcer
  srvLower :: "int \<Rightarrow> int"
  srvQuote :: "bytes \<Rightarrow> bytes"

definition below_one :: "int option \<Rightarrow> bool" where
  "below_one limit = (case limit of None \<Rightarrow> False | Some n \<Rightarrow> n < 1)"

definition limit_value :: "int option \<Rightarrow> int" where
  "limit_value limit = (case limit of None \<Rightarrow> 0 | Some n \<Rightarrow> n)"

text \<open>\<open>s.events\<close>, as far as reading goes.\<close>

record events_reader =
  erSearch :: "scope \<Rightarrow> search_params \<Rightarrow> go_error + stored_event list \<times> bytes"
  erTop :: "scope \<Rightarrow> top_params \<Rightarrow> go_error + zoned \<times> zoned \<times> (bytes \<times> int) list"
  erTimeline :: "scope \<Rightarrow> timeline_params \<Rightarrow> go_error + timeline"

definition SearchEvents ::
  "server \<Rightarrow> events_reader \<Rightarrow> request_info \<Rightarrow> caller \<Rightarrow> SearchEventsParams \<Rightarrow> event_page answer" where
  "SearchEvents srv events ri c p =
     (case eventFilter (srvLower srv) (srvQuote srv) (srvAuthz srv) c (pmSource p) (filter_of p) of
        Inl err \<Rightarrow> fail_answer ri err
      | Inr f \<Rightarrow>
          if below_one (pmLimit p)
          then fail_answer ri (api_invalidParam (''limit must be '' @ paramFormat ''limit''))
          else
            (case erSearch events (scopeOf c) (event_filter.extend f
                    \<lparr>pOrder = deref (pmOrder p), pLimit = limit_value (pmLimit p), pCursor = deref (pmCursor p)\<rparr>) of
               Inl err \<Rightarrow> fail_answer ri err
             | Inr (found, next_cursor) \<Rightarrow>
                 ok_answer 200 \<lparr>epItems = map toEvent found,
                   epNextCursor = (if next_cursor \<noteq> [] then Some next_cursor else None)\<rparr>))"

record top_value_list =
  tvField :: bytes
  tvFrom :: gotime
  tvTo :: gotime
  tvItems :: "(bytes \<times> int) list"

definition TopValues ::
  "server \<Rightarrow> events_reader \<Rightarrow> request_info \<Rightarrow> caller \<Rightarrow> TopValuesParams \<Rightarrow> top_value_list answer" where
  "TopValues srv events ri c p =
     (case eventFilter (srvLower srv) (srvQuote srv) (srvAuthz srv) c (pmSource p) (filter_of p) of
        Inl err \<Rightarrow> fail_answer ri err
      | Inr f \<Rightarrow>
          if below_one (pmTopLimit p)
          then fail_answer ri (api_invalidParam (''limit must be '' @ topLimitFormat))
          else
            (case erTop events (scopeOf c)
                    (event_filter.extend f \<lparr>tField = pmField p, tLimit = limit_value (pmTopLimit p)\<rparr>) of
               Inl err \<Rightarrow> fail_answer ri err
             | Inr (from, to, vals) \<Rightarrow>
                 ok_answer 200 \<lparr>tvField = pmField p, tvFrom = tmInstant from, tvTo = tmInstant to, tvItems = vals\<rparr>))"

definition api_Timeline ::
  "server \<Rightarrow> events_reader \<Rightarrow> request_info \<Rightarrow> caller \<Rightarrow> TimelineParams \<Rightarrow> timeline answer" where
  "api_Timeline srv events ri c p =
     (case eventFilter (srvLower srv) (srvQuote srv) (srvAuthz srv) c (pmSource p) (filter_of p) of
        Inl err \<Rightarrow> fail_answer ri err
      | Inr f \<Rightarrow>
          (case erTimeline events (scopeOf c) (event_filter.extend f \<lparr>tlInterval = deref (pmInterval p)\<rparr>) of
             Inl err \<Rightarrow> fail_answer ri err
           | Inr found \<Rightarrow> ok_answer 200 (found\<lparr>tlFrom := utc (tmInstant (tlFrom found)),
               tlTo := utc (tmInstant (tlTo found))\<rparr>)))"

subsection \<open>Tenants\<close>

definition ListTenants ::
  "server \<Rightarrow> (bytes \<Rightarrow> go_error + (bytes \<times> bytes) list) \<Rightarrow> request_info \<Rightarrow> caller \<Rightarrow> (bytes \<times> bytes) list answer" where
  "ListTenants srv list_tenants ri c =
     (let readable = Scopes (srvAuthz srv) c TenantNames Read in
      if tenants_Empty readable then fail_answer ri (Deny c)
      else
        (case list_tenants (deref (tenants_Only readable)) of
           Inl err \<Rightarrow> fail_answer ri err
         | Inr ts \<Rightarrow> ok_answer 200 ts))"

subsection \<open>Alert rules and alerts\<close>

record api_alert_rule =
  arID :: bytes
  arTenant :: bytes
  arName :: bytes
  arSource :: "bytes option"
  arEventType :: "bytes option"
  arAction :: "bytes option"
  arSeverityMin :: "int option"
  arTags :: "bytes list"
  arGroupBy :: bytes
  arThreshold :: int
  arWindowMinutes :: int
  arCooldownMinutes :: int
  arWebhookURL :: "bytes option"
  arCreatedAt :: gotime

definition toAlertRule :: "alert_rule \<Rightarrow> api_alert_rule" where
  "toAlertRule r =
     \<lparr>arID = FormatInt (ruID r), arTenant = ruTenantID r, arName = ruName r, arSource = ruSource r,
      arEventType = ruEventType r, arAction = ruAction r, arSeverityMin = ruSeverityMin r, arTags = ruTags r,
      arGroupBy = ruGroupBy r, arThreshold = ruThreshold r, arWindowMinutes = ruWindowMinutes r,
      arCooldownMinutes = ruCooldownMinutes r, arWebhookURL = ruWebhookURL r, arCreatedAt = ruCreatedAt r\<rparr>"

definition shown_rule :: "enforcer \<Rightarrow> caller \<Rightarrow> alert_rule \<Rightarrow> api_alert_rule" where
  "shown_rule e c rule =
     (if \<not> Can e c AlertRules Create (ruTenantID rule) then (toAlertRule rule)\<lparr>arWebhookURL := None\<rparr>
      else toAlertRule rule)"

definition api_ListAlertRules ::
  "server \<Rightarrow> (scope \<Rightarrow> bytes \<Rightarrow> 'w \<Rightarrow> (go_error + alert_rule list) \<times> 'w) \<Rightarrow> request_info \<Rightarrow> caller
   \<Rightarrow> bytes option \<Rightarrow> 'w \<Rightarrow> api_alert_rule list answer \<times> 'w" where
  "api_ListAlertRules srv list_rules ri c asked w =
     (case listTenant (srvQuote srv) (srvAuthz srv) c AlertRules asked of
        Inl err \<Rightarrow> (fail_answer ri err, w)
      | Inr tenant \<Rightarrow>
          (case list_rules (scopeOf c) tenant w of
             (Inl err, w) \<Rightarrow> (fail_answer ri err, w)
           | (Inr rules, w) \<Rightarrow> (ok_answer 200 (map (shown_rule (srvAuthz srv) c) rules), w)))"

definition defaultAlertPage :: int where "defaultAlertPage = 50"
definition maxAlertPage :: int where "maxAlertPage = 1000"

definition api_ListAlerts ::
  "server \<Rightarrow> (scope \<Rightarrow> bytes \<Rightarrow> int \<Rightarrow> 'w \<Rightarrow> (go_error + alert list) \<times> 'w) \<Rightarrow> request_info \<Rightarrow> caller
   \<Rightarrow> ListAlertsParams \<Rightarrow> 'w \<Rightarrow> api_alert list answer \<times> 'w" where
  "api_ListAlerts srv list_alerts ri c p w =
     (case listTenant (srvQuote srv) (srvAuthz srv) c Authz.Alerts (laTenant p) of
        Inl err \<Rightarrow> (fail_answer ri err, w)
      | Inr tenant \<Rightarrow>
          if (case laLimit p of None \<Rightarrow> False | Some n \<Rightarrow> n < 1 \<or> maxAlertPage < n)
          then (fail_answer ri (api_invalidParam (''limit must be '' @ paramFormat ''limit'')), w)
          else
            (case list_alerts (scopeOf c) tenant (case laLimit p of None \<Rightarrow> defaultAlertPage | Some n \<Rightarrow> n) w of
               (Inl err, w) \<Rightarrow> (fail_answer ri err, w)
             | (Inr alerts, w) \<Rightarrow> (ok_answer 200 (map Body alerts), w)))"

end
