(* ===== verification/Read_Facts.thy ===== *)
theory Read_Facts
  imports Api_Reads
begin

text \<open>
  What the reading endpoints show: row-level security lets a handler's queries see the tenants
  of \<open>scopeOf\<close>, and the policies let the caller read them. That the two agree is the contract
  between them, since neither looks at the other.
\<close>

subsection \<open>The contract of policies and row-level security\<close>

locale readable =
  fixes e :: enforcer and r :: resource
  assumes admin_reads: "allows e c r AnyTenant Read \<longleftrightarrow> Role c = Admin"
begin

lemma readable_visible: "Can e c r Read t \<Longrightarrow> visible (scopeOf c) t"
  by (auto simp: Can_iff admin_reads visible_def scopeOf_def)

lemma visible_readable:
  assumes "\<not> tenants_Empty (Scopes e c r Read)" and "visible (scopeOf c) t"
  shows "Can e c r Read t"
proof (cases "allows e c r AnyTenant Read")
  case True
  then show ?thesis by (simp add: Can_iff)
next
  case False
  with admin_reads have "t = Tenant c"
    using assms(2) by (auto simp: visible_def scopeOf_def)
  with False assms(1) show ?thesis
    by (auto simp: Scopes_def tenants_Empty_def Can_iff split: if_splits)
qed

text \<open>A list narrowed by \<open>listTenant\<close> is of what the caller may read and asked for.\<close>

lemma listTenant_readable:
  assumes "listTenant q e c r asked = Inr tenant"
  shows "visible (scopeOf c) t \<and> (tenant = [] \<or> t = tenant) \<longleftrightarrow>
    Can e c r Read t \<and> (trim_space (deref asked) = [] \<or> t = trim_space (deref asked))"
proof -
  have "\<not> tenants_Empty (Scopes e c r Read)"
    using assms by (auto simp: listTenant_def Let_def split: if_splits)
  with visible_readable readable_visible have can: "visible (scopeOf c) t \<longleftrightarrow> Can e c r Read t" by blast
  show ?thesis
  proof (cases "trim_space (deref asked) = [] \<and> tenants_Only (Scopes e c r Read) \<noteq> None")
    case True
    then obtain only where only: "tenants_Only (Scopes e c r Read) = Some only" by blast
    then have "{u. Can e c r Read u} = {only}" by (simp add: enf.only_iff)
    with can True only assms show ?thesis
      by (auto simp: listTenant_def Let_def split: if_splits)
  next
    case False
    then have "tenant = trim_space (deref asked)"
      using assms by (auto simp: listTenant_def Let_def split: if_splits option.splits)
    with can show ?thesis by simp
  qed
qed

end

lemma program_admin_reads:
  assumes "r \<in> {Authz.Events, TenantNames, AlertRules, Authz.Alerts}"
  shows "allows program_enforcer c r AnyTenant Read \<longleftrightarrow> Role c = Admin"
proof -
  have "Can program_enforcer c r Read [] \<longleftrightarrow> Role c = Admin"
    unfolding policies_Can using assms by (auto simp: resource_defs action_defs)
  then show ?thesis by (simp add: Can_iff)
qed

interpretation events_read: readable program_enforcer Authz.Events
  by unfold_locales (simp add: program_admin_reads)

interpretation rules_read: readable program_enforcer AlertRules
  by unfold_locales (simp add: program_admin_reads)

interpretation alerts_read: readable program_enforcer Authz.Alerts
  by unfold_locales (simp add: program_admin_reads)

subsection \<open>Events\<close>

text \<open>
  A database with row-level security: whatever the table holds, an answer to a query has only
  rows the scope can see.
\<close>

definition secured ::
  "(scope \<Rightarrow> 'st \<Rightarrow> go_error + 'a row_scheme list) \<Rightarrow> scope \<Rightarrow> 'st \<Rightarrow> go_error + 'a row_scheme list" where
  "secured db sc st =
     (case db sc st of Inl err \<Rightarrow> Inl err | Inr rows \<Rightarrow> Inr (filter (\<lambda>r. visible sc (rTenant r)) rows))"

lemma page_of_rows: "set (fst (page_of enc local q events)) \<subseteq> set events"
  by (auto simp: page_of_def Let_def dest: in_set_takeD)

lemma secured_search:
  assumes "EventRepo_Search ul digest dec enc local (secured db) sc p now = Inr (found, next_cursor)" and "r \<in> set found"
  shows "visible sc (rTenant r)"
proof -
  from assms(1) obtain q events where "db sc (search_sql q) = Inr events"
    "page_of enc local q (filter (\<lambda>r. visible sc (rTenant r)) events) = (found, next_cursor)"
    by (auto simp: EventRepo_Search_def secured_def split: sum.splits)
  with assms(2) page_of_rows [of enc local q "filter (\<lambda>r. visible sc (rTenant r)) events"] show ?thesis by auto
qed

lemma eventFilter_allowed: "eventFilter ul q e c sources f = Inr f' \<Longrightarrow> \<not> tenants_Empty (Scopes e c Authz.Events Read)"
  by (auto simp: eventFilter_def Let_def split: if_splits)

text \<open>
  C6. A search shows a caller only events of tenants the policies let it read, and one that
  may read none is refused: whatever filter it asks for, whatever the table holds, the page is
  read under the caller's own row-level security context, and the program's policies cover
  that context.
\<close>

theorem SearchEvents_permitted:
  "case rpBody (SearchEvents (srv\<lparr>srvAuthz := program_enforcer\<rparr>)
        (events\<lparr>erSearch := \<lambda>sc q. EventRepo_Search ul digest dec enc local (secured db) sc q now\<rparr>) ri c p) of
     Inr page \<Rightarrow> list_all (\<lambda>ev. Can program_enforcer c Authz.Events Read (aeTenant ev)) (epItems page)
       \<and> \<not> tenants_Empty (Scopes program_enforcer c Authz.Events Read)
   | Inl resp \<Rightarrow>
       (if tenants_Empty (Scopes program_enforcer c Authz.Events Read)
        then erCode resp = (if Authenticated c then ''permission_denied'' else ''authentication_required'')
        else True)"
proof -
  define empty where "empty = tenants_Empty (Scopes program_enforcer c Authz.Events Read)"
  have denied: "eventFilter (srvLower srv) (srvQuote srv) program_enforcer c (pmSource p) (filter_of p) = Inl (Deny c)"
    if empty using that by (simp add: eventFilter_def empty_def)
  have code: "erCode (rpBody (fail (riID ri) (riGone ri) (Deny c)))
      = (if Authenticated c then ''permission_denied'' else ''authentication_required'')"
    by (simp add: fail_def failWith_def Let_def Deny_def result_simps Forbidden_def Unauthenticated_def split: prod.splits)
  show ?thesis
  proof (cases empty)
    case True
    with denied code show ?thesis
      by (simp add: SearchEvents_def result_simps empty_def)
  next
    case False
    have "Can program_enforcer c Authz.Events Read (rTenant r)"
      if "EventRepo_Search ul digest dec enc local (secured db) (scopeOf c) q now = Inr (found, next_cursor)" "r \<in> set found"
      for q found next_cursor and r :: stored_event
      using events_read.visible_readable secured_search [OF that] False by (simp add: empty_def)
    with False show ?thesis
      by (auto simp: SearchEvents_def result_simps Let_def list_all_iff toEvent_def
          empty_def [symmetric] split: sum.splits prod.splits)
  qed
qed

subsection \<open>Alert rules and alerts\<close>

lemma ListAlerts_reads:
  assumes "Alerts.ListAlerts fails sc t limit s = (Inr alerts, s')" and "a \<in> set alerts"
  shows "visible sc (alTenantID a) \<and> (t = [] \<or> alTenantID a = t)"
proof -
  define f where "f = (if t = [] then (\<lambda>s :: alerts_db session. q_ListAlerts limit (sScope s) (sData s))
     else (\<lambda>s. q_ListTenantAlerts t limit (sScope s) (sData s)))"
  have eq: "(if t = [] then statement fails (\<lambda>s. Inr (q_ListAlerts limit (sScope s) (sData s), sData s))
      else statement fails (\<lambda>s. Inr (q_ListTenantAlerts t limit (sScope s) (sData s), sData s)))
      = statement fails (\<lambda>s. Inr (f s, sData s))"
    by (simp add: f_def)
  from assms(1) obtain s1 s2 where "statement fails (\<lambda>s. Inr (f s, sData s)) s1 = (Inr alerts, s2)" "sScope s1 = sc"
    unfolding ListAlerts_def eq by (auto simp: map_error_Inr dest!: InScope_Inr)
  with statement_read [of fails f s1 "Inr alerts" s2] assms(2) show ?thesis
    by (auto simp: f_def q_ListAlerts_def q_ListTenantAlerts_def join_rule_def stored_alert.extend_def
        split: if_splits dest!: in_set_takeD)
qed

lemma shown_rule_webhook:
  "arWebhookURL (shown_rule e c rule) = None \<or> Can e c AlertRules Create (arTenant (shown_rule e c rule))"
  by (simp add: shown_rule_def toAlertRule_def)

text \<open>
  C22. The lists of alert rules and of alerts: a caller gets every rule of the tenants it may
  read, and of the tenant it asked for if it named one, no others, and sees a rule's webhook
  only where it could have set it; and it gets no alert of another tenant.
\<close>

theorem alert_lists_permitted:
  "(case rpBody (fst (api_ListAlertRules (srv\<lparr>srvAuthz := program_enforcer\<rparr>) (ListRules fails) ri c asked s)) of
      Inl _ \<Rightarrow> True
    | Inr rules \<Rightarrow>
        set rules = shown_rule program_enforcer c ` {rule \<in> set (dbRules (sData s)).
          Can program_enforcer c AlertRules Read (ruTenantID rule)
          \<and> (trim_space (deref asked) = [] \<or> ruTenantID rule = trim_space (deref asked))}
        \<and> list_all (\<lambda>r. arWebhookURL r = None \<or> Can program_enforcer c AlertRules Create (arTenant r)) rules)
   \<and> (case rpBody (fst (api_ListAlerts (srv\<lparr>srvAuthz := program_enforcer\<rparr>) (Alerts.ListAlerts fails) ri c p s)) of
      Inl _ \<Rightarrow> True
    | Inr alerts \<Rightarrow> list_all (\<lambda>a. Can program_enforcer c Authz.Alerts Read (gaTenant a)
        \<and> (trim_space (deref (laTenant p)) = [] \<or> gaTenant a = trim_space (deref (laTenant p)))) alerts)"
proof (rule conjI)
  define chosen where "chosen = {rule \<in> set (dbRules (sData s)). Can program_enforcer c AlertRules Read (ruTenantID rule)
          \<and> (trim_space (deref asked) = [] \<or> ruTenantID rule = trim_space (deref asked))}"
  have "set rules = chosen"
    if "listTenant (srvQuote srv) program_enforcer c AlertRules asked = Inr tenant"
      "ListRules fails (scopeOf c) tenant s = (Inr rules, s')" for tenant rules s'
    using ListRules_reads [OF that(2)] rules_read.listTenant_readable [OF that(1)] by (auto simp: chosen_def)
  then have "case rpBody (fst (api_ListAlertRules (srv\<lparr>srvAuthz := program_enforcer\<rparr>) (ListRules fails) ri c asked s)) of
      Inl _ \<Rightarrow> True
    | Inr rules \<Rightarrow> set rules = shown_rule program_enforcer c ` chosen
        \<and> list_all (\<lambda>r. arWebhookURL r = None \<or> Can program_enforcer c AlertRules Create (arTenant r)) rules"
    using shown_rule_webhook [of program_enforcer c]
    by (simp add: api_ListAlertRules_def result_simps list_all_iff split: sum.split prod.split)
  then show "case rpBody (fst (api_ListAlertRules (srv\<lparr>srvAuthz := program_enforcer\<rparr>) (ListRules fails) ri c asked s)) of
      Inl _ \<Rightarrow> True
    | Inr rules \<Rightarrow>
        set rules = shown_rule program_enforcer c ` {rule \<in> set (dbRules (sData s)).
          Can program_enforcer c AlertRules Read (ruTenantID rule)
          \<and> (trim_space (deref asked) = [] \<or> ruTenantID rule = trim_space (deref asked))}
        \<and> list_all (\<lambda>r. arWebhookURL r = None \<or> Can program_enforcer c AlertRules Create (arTenant r)) rules"
    unfolding chosen_def .
next
  have "Can program_enforcer c Authz.Alerts Read (alTenantID a)
        \<and> (trim_space (deref (laTenant p)) = [] \<or> alTenantID a = trim_space (deref (laTenant p)))"
    if "listTenant (srvQuote srv) program_enforcer c Authz.Alerts (laTenant p) = Inr tenant"
      "Alerts.ListAlerts fails (scopeOf c) tenant limit s = (Inr alerts, s')" "a \<in> set alerts" for tenant limit alerts s' a
    using ListAlerts_reads [OF that(2,3)] alerts_read.listTenant_readable [OF that(1)] by blast
  then show "case rpBody (fst (api_ListAlerts (srv\<lparr>srvAuthz := program_enforcer\<rparr>) (Alerts.ListAlerts fails) ri c p s)) of
      Inl _ \<Rightarrow> True
    | Inr alerts \<Rightarrow> list_all (\<lambda>a. Can program_enforcer c Authz.Alerts Read (gaTenant a)
        \<and> (trim_space (deref (laTenant p)) = [] \<or> gaTenant a = trim_space (deref (laTenant p)))) alerts"
    by (simp add: api_ListAlerts_def result_simps list_all_iff Body_def split: sum.split prod.split)
qed

end
