(* ===== verification/Api_Login.thy ===== *)
theory Api_Login
  imports Api_Params Limiter Store
begin

text \<open>
  \<open>internal/api/auth.go\<close>: signing in, with the address a request came from, the limit on the
  attempts of that address and the headers that tell of it.
\<close>

subsection \<open>The client's address\<close>

text \<open>
  \<open>netip.ParseAddrPort\<close>, as far as its address; \<open>None\<close> is an error, and the zero address.
\<close>

definition port_ok :: "bytes \<Rightarrow> bool" where
  "port_ok s \<longleftrightarrow> s \<noteq> [] \<and> all_digits s \<and> digits_value s < 65536"

definition split_last :: "char \<Rightarrow> bytes \<Rightarrow> (bytes \<times> bytes) option" where
  "split_last c s =
     (let tail = takeWhile (\<lambda>x. x \<noteq> c) (rev s) in
      if length tail = length s then None
      else Some (take (length s - length tail - 1) s, rev tail))"

definition addr_of_port :: "bytes \<Rightarrow> addr option" where
  "addr_of_port s =
     (case split_last (CHR '':'') s of
        None \<Rightarrow> None
      | Some (ip, port) \<Rightarrow>
          if ip = [] \<or> \<not> port_ok port then None
          else if hd ip = LBRACK then
            (if length ip < 2 \<or> last ip \<noteq> RBRACK then None
             else (case parse_addr (butlast (tl ip)) of Some (V6 a z) \<Rightarrow> Some (V6 a z) | _ \<Rightarrow> None))
          else (case parse_addr ip of Some (V4 a) \<Rightarrow> Some (V4 a) | _ \<Rightarrow> None))"

text \<open>\<open>forwarded\<close> are the values of the \<open>X-Forwarded-For\<close> headers.\<close>

definition clientAddr :: "bytes list \<Rightarrow> bytes \<Rightarrow> addr option" where
  "clientAddr forwarded remote =
     (case (if forwarded = [] then None
            else (let v = last forwarded in
                  parse_addr (trim_space (case split_last COMMA v of Some (_, rest) \<Rightarrow> rest | None \<Rightarrow> v)))) of
        Some a \<Rightarrow> Some (without_zone (unmap a))
      | None \<Rightarrow> map_option (\<lambda>a. without_zone (unmap a)) (addr_of_port remote))"

text \<open>\<open>Addr.String\<close>, for an address without a zone that is not IPv4 in IPv6.\<close>

definition v4_text :: "int \<Rightarrow> bytes" where
  "v4_text a = join_bytes ''.'' (map (\<lambda>i. itoa (a div 256 ^ i mod 256)) [3, 2, 1, 0])"

definition v6_group :: "int \<Rightarrow> nat \<Rightarrow> int" where
  "v6_group a i = a div 65536 ^ (7 - i) mod 65536"

fun hex_text :: "nat \<Rightarrow> int \<Rightarrow> bytes" where
  "hex_text 0 n = []"
| "hex_text (Suc k) n = (if n < 16 then [Go_Json.hex_char n] else hex_text k (n div 16) @ [Go_Json.hex_char (n mod 16)])"

text \<open>The first of the longest runs of two or more zero groups, from where to where.\<close>

definition zero_run :: "int \<Rightarrow> nat \<Rightarrow> nat" where
  "zero_run a i = length (takeWhile (\<lambda>j. v6_group a j = 0) [i..<8])"

definition zero_range :: "int \<Rightarrow> (nat \<times> nat) option" where
  "zero_range a =
     fold (\<lambda>i best. let l = zero_run a i in
        if 2 \<le> l \<and> (case best of None \<Rightarrow> True | Some (s, t) \<Rightarrow> t - s < l) then Some (i, i + l) else best)
       [0..<8] None"

definition groups_text :: "int \<Rightarrow> nat list \<Rightarrow> bytes" where
  "groups_text a is = join_bytes '':'' (map (\<lambda>i. hex_text 4 (v6_group a i)) is)"

definition v6_text :: "int \<Rightarrow> bytes" where
  "v6_text a =
     (case zero_range a of
        None \<Rightarrow> groups_text a [0..<8]
      | Some (s, t) \<Rightarrow> groups_text a [0..<s] @ ''::'' @ groups_text a [t..<8])"

definition addr_text :: "addr option \<Rightarrow> bytes" where
  "addr_text a =
     (case a of None \<Rightarrow> ''invalid IP'' | Some (V4 n) \<Rightarrow> v4_text n | Some (V6 n _) \<Rightarrow> v6_text n)"

text \<open>\<open>Prefix(64)\<close> clears the last 64 bits.\<close>

definition limitKey :: "addr option \<Rightarrow> bytes" where
  "limitKey a =
     (case a of
        Some (V6 n _) \<Rightarrow> v6_text (n div 2 ^ 64 * 2 ^ 64) @ ''/64''
      | _ \<Rightarrow> addr_text a)"

subsection \<open>What a client is told of its limit\<close>

text \<open>\<open>math.Ceil(d.Seconds())\<close>: \<open>Seconds\<close> adds whole seconds and a fraction, in floating point.\<close>

definition seconds_float :: "duration \<Rightarrow> rat" where
  "seconds_float d =
     fl (fl (of_int (d sdiv second)) + fl (fl (of_int (d - d sdiv second * second)) / 1000000000))"

definition wholeSeconds :: "duration \<Rightarrow> int" where
  "wholeSeconds d = \<lceil>seconds_float d\<rceil>"

definition setRateLimitHeaders :: "decision \<Rightarrow> (bytes \<times> bytes) list" where
  "setRateLimitHeaders d =
     [(''RateLimit-Limit'', itoa (dLimit d)), (''RateLimit-Remaining'', itoa (dRemaining d)),
      (''RateLimit-Reset'', itoa (wholeSeconds (dResetAfter d)))]
     @ (if \<not> dAllowed d then [(''Retry-After'', itoa (wholeSeconds (dRetryAfter d)))] else [])"

definition tooManyAttempts :: "duration \<Rightarrow> go_error" where
  "tooManyAttempts retryAfter =
     (let n = wholeSeconds retryAfter; unit = (if n = 1 then ''second'' else ''seconds'') in
      RateLimited ''too_many_attempts''
        (''too many sign-in attempts from this address; try again in '' @ itoa n @ '' '' @ unit))"

subsection \<open>The body\<close>

definition invalidRequest :: "FieldError list \<Rightarrow> go_error" where
  "invalidRequest fs = WithFields (Invalid ''invalid_request'' ''the request contains invalid fields'') fs"

text \<open>
  Decoding into the two fields of a \<open>LoginRequest\<close>: the email, the password and the field of
  the first value of another type; \<open>null\<close> leaves a field as it is.
\<close>

record login_request =
  loEmail :: bytes
  loPassword :: bytes

definition login_member :: "bytes \<times> bytes \<Rightarrow> login_request \<times> bytes option \<Rightarrow> login_request \<times> bytes option" where
  "login_member kv st =
     (case (kv, st) of ((key, raw), (req, wrong)) \<Rightarrow>
        (case struct_field [''email'', ''password''] key of
           None \<Rightarrow> (req, wrong)
         | Some f \<Rightarrow>
             if raw = ''null'' then (req, wrong)
             else (case json_string raw of
                 None \<Rightarrow> (req, if wrong = None then Some f else wrong)
               | Some v \<Rightarrow> (if f = ''email'' then req\<lparr>loEmail := v\<rparr> else req\<lparr>loPassword := v\<rparr>, wrong))))"

text \<open>\<open>jsonErr\<close> is the error of a body that is not an object.\<close>

definition decodeLogin :: "(bytes \<Rightarrow> go_error) \<Rightarrow> bytes \<Rightarrow> go_error + login_request" where
  "decodeLogin jsonErr body =
     (let notObject = Malformed ''invalid_json'' ''request body is not a JSON object'' in
      if \<not> json_valid body then Inl (Wrapping notObject (jsonErr body))
      else if has_prefix (skip_ws body) ''null'' then Inl notObject
      else if \<not> has_prefix (skip_ws body) [LBRACE] then Inl (Wrapping notObject (jsonErr body))
      else
        (case fold login_member (json_members (skip_ws body)) (\<lparr>loEmail = [], loPassword = []\<rparr>, None) of
           (req, Some f) \<Rightarrow>
             Inl (invalidRequest [\<lparr>fieldName = f, fieldCode = ''invalid_type'', fieldMessage = f @ '' must be a string''\<rparr>])
         | (req, None) \<Rightarrow>
             (let missing =
                (if trim_space (loEmail req) = []
                 then [\<lparr>fieldName = ''email'', fieldCode = ''required'', fieldMessage = ''email is required''\<rparr>] else [])
              @ (if loPassword req = []
                 then [\<lparr>fieldName = ''password'', fieldCode = ''required'', fieldMessage = ''password is required''\<rparr>] else []) in
              if missing \<noteq> [] then Inl (invalidRequest missing) else Inr req)))"

subsection \<open>Signing in\<close>

definition maxLoginBytes :: nat where "maxLoginBytes = 65536"
definition signInsPerMinute :: int where "signInsPerMinute = 10"

definition invalidCredentials :: go_error where
  "invalidCredentials = Unauthenticated ''invalid_credentials'' ''email or password is incorrect''"

record session_body =
  ssToken :: bytes
  ssExpiresAt :: gotime
  ssRole :: bytes
  ssTenant :: "bytes option"

record login_call = ingest_request +
  lcForwarded :: "bytes list"
  lcRemote :: bytes

text \<open>
  The server's parts that \<open>Login\<close> uses: the limiter (\<open>Limiter.Memory_Allow\<close> in the program), the
  users, the passwords and the tokens (\<open>Auth.Issue\<close>).
\<close>

record 'l login_env =
  lnEnforcer :: enforcer
  lnLower :: "int \<Rightarrow> int"
  lnJsonErr :: "bytes \<Rightarrow> go_error"
  lnAllow :: "bytes \<Rightarrow> 'l \<Rightarrow> decision \<times> 'l"
  lnFind :: "bytes \<Rightarrow> go_error + user"
  lnBcrypt :: bcrypt_lib
  lnIssue :: "caller \<Rightarrow> go_error + bytes \<times> gotime"

definition count_signin :: "bytes \<Rightarrow> metrics \<Rightarrow> metrics" where
  "count_signin outcome m = m\<lparr>mxSignIns := Inc [outcome] (mxSignIns m)\<rparr>"

definition signin_line :: "bytes \<Rightarrow> request_info \<Rightarrow> bytes \<Rightarrow> addr option \<Rightarrow> log_entry" where
  "signin_line message ri email client =
     \<lparr>lgLevel = LevelInfo, lgMessage = message,
      lgAttrs = [text_attr ''request_id'' (riID ri), text_attr ''email'' email, text_attr ''client'' (addr_text client)]\<rparr>"

text \<open>An answer after what was set and logged before it.\<close>

definition after :: "(bytes \<times> bytes) list \<Rightarrow> log_entry list \<Rightarrow> 'a reply \<Rightarrow> 'a reply" where
  "after headers lines a = a\<lparr>rpHeaders := headers @ rpHeaders a, rpLog := lines @ rpLog a\<rparr>"

text \<open>
  The user with the email; for one that nobody has, the zero \<open>User\<close>, which has no hash.
\<close>

definition zero_user :: user where
  "zero_user = \<lparr>user_ID = 0, user_PasswordHash = [], user_Role = [], user_TenantID = None\<rparr>"

definition login_user :: "'l login_env \<Rightarrow> bytes \<Rightarrow> go_error + user" where
  "login_user env email =
     (case lnFind env email of
        Inr u \<Rightarrow> Inr u
      | Inl err \<Rightarrow> if KindOf err \<noteq> KindNotFound then Inl err else Inr zero_user)"

text \<open>From there on.\<close>

definition check_login ::
  "'l login_env \<Rightarrow> request_info \<Rightarrow> addr option \<Rightarrow> bytes \<Rightarrow> bytes \<Rightarrow> metrics \<Rightarrow> session_body answer \<times> metrics" where
  "check_login env ri client email password m =
     (case login_user env email of
        Inl err \<Rightarrow> (fail_answer ri err, m)
      | Inr u \<Rightarrow>
          if \<not> CheckPassword (lnBcrypt env) (user_PasswordHash u) password
          then (after [] [signin_line ''sign-in refused'' ri email client] (fail_answer ri invalidCredentials),
                count_signin signInRefused m)
          else
            (case UserRole (user_Role u) of
               None \<Rightarrow> (fail_answer ri (With (Internal ''user has an unknown role'')
                   [LogString ''user_id'', LogOther (FormatInt (user_ID u)), LogString ''role'', LogString (user_Role u)]), m)
             | Some role \<Rightarrow>
                 (case lnIssue env \<lparr>Role = role, Tenant = deref (user_TenantID u), UserID = user_ID u\<rparr> of
                    Inl err \<Rightarrow> (fail_answer ri err, m)
                  | Inr (token, expires) \<Rightarrow>
                      (after [(''Cache-Control'', ''no-store'')]
                        [\<lparr>lgLevel = LevelInfo, lgMessage = ''signed in'',
                          lgAttrs = [text_attr ''request_id'' (riID ri), int_attr ''user_id'' (user_ID u),
                            text_attr ''role'' (role_String role)]\<rparr>]
                        (ok_answer 200 \<lparr>ssToken = token, ssExpiresAt = expires, ssRole = role_String role,
                          ssTenant = user_TenantID u\<rparr>),
                       count_signin signInOK m))))"

definition Login ::
  "'l login_env \<Rightarrow> login_call \<Rightarrow> metrics \<Rightarrow> 'l \<Rightarrow> session_body answer \<times> metrics \<times> 'l" where
  "Login env r m l =
     (let ri = irInfo r in
      case Authorize (lnEnforcer env) (irCaller r) Sessions Create [] of
        Some err \<Rightarrow> (fail_answer ri err, m, l)
      | None \<Rightarrow>
     (case requireMediaType (lnLower env) (irContentType r) ''application/json'' of
        Some err \<Rightarrow> (fail_status ri 415 err, m, l)
      | None \<Rightarrow>
     (case ReadAll (MaxBytesReader maxLoginBytes (irBody r)) of
        Inl e \<Rightarrow> (failRead ri e maxLoginBytes, m, l)
      | Inr body \<Rightarrow>
     (case decodeLogin (lnJsonErr env) body of
        Inl err \<Rightarrow> (fail_answer ri err, m, l)
      | Inr req \<Rightarrow>
     (let email = trim_space (loEmail req); client = clientAddr (lcForwarded r) (lcRemote r) in
      case lnAllow env (limitKey client) l of
        (d, l) \<Rightarrow>
          if \<not> dAllowed d
          then (after (setRateLimitHeaders d) [signin_line ''sign-in limited'' ri email client]
                  (fail_answer ri (tooManyAttempts (dRetryAfter d))), count_signin signInLimited m, l)
          else
            (case check_login env ri client email (loPassword req) m of
               (a, m) \<Rightarrow> (after (setRateLimitHeaders d) [] a, m, l)))))))"

subsection \<open>Who gets a session\<close>

lemma failRead_view: "rpBody (failRead ri e n) \<noteq> Inr s" "rpStatus (failRead ri e n) \<noteq> 200"
  by (cases e; simp add: failRead_def result_simps Malformed_def)+

lemma after_view [result_simps]:
  "rpBody (after hs ls a) = rpBody a" "rpStatus (after hs ls a) = rpStatus a"
  by (simp_all add: after_def)

lemma no_hash_refused: "\<not> CheckPassword lib [] password"
  by (simp add: CheckPassword_def Let_def)

text \<open>A password that was right for the user, and the token that was issued for it.\<close>

definition session_for :: "'l login_env \<Rightarrow> bytes \<Rightarrow> bytes \<Rightarrow> session_body \<Rightarrow> bool" where
  "session_for env email password s \<longleftrightarrow>
     (\<exists>u role. lnFind env email = Inr u \<and> CheckPassword (lnBcrypt env) (user_PasswordHash u) password
        \<and> UserRole (user_Role u) = Some role
        \<and> lnIssue env \<lparr>Role = role, Tenant = deref (user_TenantID u), UserID = user_ID u\<rparr> = Inr (ssToken s, ssExpiresAt s)
        \<and> ssRole s = role_String role \<and> ssTenant s = user_TenantID u)"

lemma check_login_session:
  assumes "check_login env ri client email password m = (a, m')"
  shows "case rpBody a of
      Inr s \<Rightarrow> session_for env email password s \<and> m' = count_signin signInOK m
    | Inl _ \<Rightarrow> m' = m \<or> m' = count_signin signInRefused m"
proof (cases "login_user env email")
  case (Inr u)
  show ?thesis
  proof (cases "CheckPassword (lnBcrypt env) (user_PasswordHash u) password")
    case True
    then have "lnFind env email = Inr u"
      using Inr no_hash_refused by (auto simp: login_user_def zero_user_def split: sum.splits if_splits)
    with True Inr assms show ?thesis
      by (auto simp: check_login_def result_simps session_for_def split: option.splits sum.splits)
  qed (use Inr assms in \<open>auto simp: check_login_def result_simps\<close>)
qed (use assms in \<open>auto simp: check_login_def result_simps\<close>)

text \<open>
  C16. A session is given only for the password of the user with the email of the request, to
  that user's role and tenant, after the limiter allowed an attempt of the client's address,
  and it is then counted once as a sign-in; no other answer counts as one. And the answer does
  not tell whether an email is anybody's: with a wrong password, everything is the same as for
  an email nobody has - the answer, its headers, the log, the counts and the limit.
\<close>

theorem Login_sessions:
  "(case Login env r m l of (a, m', l') \<Rightarrow>
     (case rpBody a of
        Inr s \<Rightarrow> (\<exists>body req d. ReadAll (MaxBytesReader maxLoginBytes (irBody r)) = Inr body
            \<and> decodeLogin (lnJsonErr env) body = Inr req
            \<and> lnAllow env (limitKey (clientAddr (lcForwarded r) (lcRemote r))) l = (d, l') \<and> dAllowed d
            \<and> session_for env (trim_space (loEmail req)) (loPassword req) s)
          \<and> m' = count_signin signInOK m
      | Inl _ \<Rightarrow> m' = m \<or> m' = count_signin signInRefused m \<or> m' = count_signin signInLimited m))
   \<and> (if (case ReadAll (MaxBytesReader maxLoginBytes (irBody r)) of
            Inr body \<Rightarrow> (case decodeLogin (lnJsonErr env) body of
                Inr req \<Rightarrow> CheckPassword (lnBcrypt env) (user_PasswordHash u) (loPassword req)
              | Inl _ \<Rightarrow> False)
          | Inl _ \<Rightarrow> False)
      then True
      else Login (env\<lparr>lnFind := \<lambda>_. Inr u\<rparr>) r m l = Login (env\<lparr>lnFind := \<lambda>_. Inl (NotFound code message)\<rparr>) r m l)"
proof (rule conjI)
  obtain a m' l' where run: "Login env r m l = (a, m', l')" by (cases "Login env r m l") auto
  show "case Login env r m l of (a, m', l') \<Rightarrow>
     (case rpBody a of
        Inr s \<Rightarrow> (\<exists>body req d. ReadAll (MaxBytesReader maxLoginBytes (irBody r)) = Inr body
            \<and> decodeLogin (lnJsonErr env) body = Inr req
            \<and> lnAllow env (limitKey (clientAddr (lcForwarded r) (lcRemote r))) l = (d, l') \<and> dAllowed d
            \<and> session_for env (trim_space (loEmail req)) (loPassword req) s)
          \<and> m' = count_signin signInOK m
      | Inl _ \<Rightarrow> m' = m \<or> m' = count_signin signInRefused m \<or> m' = count_signin signInLimited m)"
    unfolding run prod.case using run
    by (auto simp: Login_def Let_def result_simps failRead_view dest!: check_login_session
        split: option.splits sum.splits prod.splits if_splits)
next
  have same: "check_login (env\<lparr>lnFind := \<lambda>_. Inr u\<rparr>) ri client email password m
      = check_login (env\<lparr>lnFind := \<lambda>_. Inl (NotFound code message)\<rparr>) ri client email password m"
    if "\<not> CheckPassword (lnBcrypt env) (user_PasswordHash u) password" for ri client email password
    using that no_hash_refused [of "lnBcrypt env" password]
    by (simp add: check_login_def login_user_def zero_user_def result_simps NotFound_def)
  show "if (case ReadAll (MaxBytesReader maxLoginBytes (irBody r)) of
            Inr body \<Rightarrow> (case decodeLogin (lnJsonErr env) body of
                Inr req \<Rightarrow> CheckPassword (lnBcrypt env) (user_PasswordHash u) (loPassword req)
              | Inl _ \<Rightarrow> False)
          | Inl _ \<Rightarrow> False)
      then True
      else Login (env\<lparr>lnFind := \<lambda>_. Inr u\<rparr>) r m l = Login (env\<lparr>lnFind := \<lambda>_. Inl (NotFound code message)\<rparr>) r m l"
    by (auto simp: Login_def Let_def same split: option.splits sum.splits prod.splits)
qed

end
