(* ===== verification/Api_Rules.thy ===== *)
theory Api_Rules
  imports Api_Reads Api_Login
begin

text \<open>
  \<open>internal/api/alerts.go\<close>: reading a new alert rule from a request's body, with every field
  that cannot be used reported, and creating the rule.
\<close>

subsection \<open>Fields and their formats\<close>

definition maxRuleBytes :: nat where "maxRuleBytes = 65536"
definition maxRuleName :: nat where "maxRuleName = 200"
definition maxRuleText :: nat where "maxRuleText = 2048"
definition maxWebhookURL :: nat where "maxWebhookURL = 2048"

definition ruleFormats :: "bytes \<rightharpoonup> bytes" where
  "ruleFormats = map_of
     [(''tenant'', ''a tenant ID: 1 to 64 letters, digits, '' @ [CHR 0x27] @ ''-'' @ [CHR 0x27] @ '' or ''
         @ [CHR 0x27] @ ''_'' @ [CHR 0x27]),
      (''name'', ''text of 1 to '' @ itoa (int maxRuleName) @ '' bytes''),
      (''source'', ''one of '' @ join_bytes '', ''
         [''firewall'', ''network'', ''crowdstrike'', ''aws'', ''m365'', ''ad'', ''api'']),
      (''event_type'', ''text of at most '' @ itoa (int maxRuleText) @ '' bytes''),
      (''action'', ''text of at most '' @ itoa (int maxRuleText) @ '' bytes''),
      (''severity_min'', ''an integer between 0 and 10''),
      (''tags'', ''an array of texts of at most '' @ itoa (int maxRuleText) @ '' bytes each''),
      (''group_by'', ''one of '' @ join_bytes '', '' GroupBy),
      (''threshold'', ''an integer of at least 1''),
      (''window_minutes'', ''an integer between 1 and 1440''),
      (''cooldown_minutes'', ''an integer between 0 and 10080''),
      (''webhook_url'', ''an http or https URL of at most '' @ itoa (int maxWebhookURL) @ '' bytes'')]"

definition requiredRuleFields :: "bytes list" where
  "requiredRuleFields = [''tenant'', ''name'', ''group_by'', ''threshold'', ''window_minutes'']"

definition ruleFieldError :: "bytes \<Rightarrow> bytes \<Rightarrow> FieldError" where
  "ruleFieldError field code =
     \<lparr>fieldName = field, fieldCode = code,
      fieldMessage = field @ '' must be '' @ (case ruleFormats field of Some f \<Rightarrow> f | None \<Rightarrow> [])\<rparr>"

text \<open>\<open>ruleText\<close>: the text trimmed and mapped, and whether it can be stored and matched.\<close>

definition ruleText :: "(bytes \<Rightarrow> bytes) \<Rightarrow> bytes \<Rightarrow> bytes \<times> bool" where
  "ruleText mapping s = (let s = mapping (trim_space s) in (s, length s \<le> maxRuleText \<and> NUL \<notin> set s))"

text \<open>\<open>urlParse\<close> is \<open>url.Parse\<close>: the scheme and the host, \<open>None\<close> for an error.\<close>

definition validWebhookURL :: "(bytes \<Rightarrow> (bytes \<times> bytes) option) \<Rightarrow> bytes \<Rightarrow> bool" where
  "validWebhookURL urlParse s =
     (if maxWebhookURL < length s then False
      else (case urlParse s of
          None \<Rightarrow> False
        | Some (scheme, host) \<Rightarrow> (scheme = ''http'' \<or> scheme = ''https'') \<and> host \<noteq> []))"

definition AlertGroupBy_Valid :: "bytes \<Rightarrow> bool" where
  "AlertGroupBy_Valid s \<longleftrightarrow> s \<in> {''dst_ip'', ''host'', ''src_ip'', ''user''}"

subsection \<open>Decoding the body\<close>

text \<open>\<open>gen.NewAlertRule\<close>, its fields in the order of the struct.\<close>

record rule_body =
  rbAction :: "bytes option"
  rbCooldownMinutes :: "int option"
  rbEventType :: "bytes option"
  rbGroupBy :: bytes
  rbName :: bytes
  rbSeverityMin :: "int option"
  rbSource :: "bytes option"
  rbTags :: "bytes list option"
  rbTenant :: bytes
  rbThreshold :: int
  rbWebhookURL :: "bytes option"
  rbWindowMinutes :: int

definition zero_rule :: rule_body where
  "zero_rule = \<lparr>rbAction = None, rbCooldownMinutes = None, rbEventType = None, rbGroupBy = [], rbName = [],
     rbSeverityMin = None, rbSource = None, rbTags = None, rbTenant = [], rbThreshold = 0, rbWebhookURL = None,
     rbWindowMinutes = 0\<rparr>"

definition rule_fields :: "bytes list" where
  "rule_fields = [''action'', ''cooldown_minutes'', ''event_type'', ''group_by'', ''name'', ''severity_min'',
     ''source'', ''tags'', ''tenant'', ''threshold'', ''webhook_url'', ''window_minutes'']"

text \<open>
  A JSON number into an integer of so many bits: a fraction, an exponent or an overflow is an
  error of the type.
\<close>

definition json_int :: "nat \<Rightarrow> bytes \<Rightarrow> int option" where
  "json_int bits raw =
     (if raw \<noteq> [] \<and> (hd raw = CHR ''-'' \<or> ascii_digit (hd raw))
      then (case ParseInt64 raw of
          None \<Rightarrow> None
        | Some n \<Rightarrow> if - (2 ^ (bits - 1)) \<le> n \<and> n < 2 ^ (bits - 1) then Some n else None)
      else None)"

text \<open>
  A slice read into again keeps its memory: a null element leaves what was at its place, the
  empty text in memory that is new. \<open>mem\<close> is the memory, and an empty array starts afresh.
\<close>

definition tag_elems :: "bytes list \<Rightarrow> bytes list \<Rightarrow> bytes list option" where
  "tag_elems mem raws =
     those (map (\<lambda>(i, v). if v = ''null'' then Some (if i < length mem then mem ! i else []) else json_string v)
       (List.enumerate 0 raws))"

definition decode_tags :: "bytes list \<Rightarrow> bytes \<Rightarrow> (bytes list \<times> bytes list) option" where
  "decode_tags mem raw =
     (if \<not> has_prefix raw [LBRACK] then None
      else
        (let raws = json_elems raw in
         map_option (\<lambda>ts. (ts, if raws = [] then [] else ts @ drop (length raws) mem)) (tag_elems mem raws)))"

text \<open>
  One member into the struct; \<open>None\<close> is a value of another type. \<open>null\<close> clears a pointer and
  leaves any other field as it is.
\<close>

type_synonym rule_state = "rule_body \<times> bytes list"

definition set_rule_text :: "bytes \<Rightarrow> (bytes \<Rightarrow> rule_body \<Rightarrow> rule_body) \<Rightarrow> rule_state \<Rightarrow> rule_state option" where
  "set_rule_text raw put st = map_option (\<lambda>v. (put v (fst st), snd st)) (json_string raw)"

definition set_rule_int :: "nat \<Rightarrow> bytes \<Rightarrow> (int \<Rightarrow> rule_body \<Rightarrow> rule_body) \<Rightarrow> rule_state \<Rightarrow> rule_state option" where
  "set_rule_int bits raw put st = map_option (\<lambda>v. (put v (fst st), snd st)) (json_int bits raw)"

definition clear_rule_field :: "bytes \<Rightarrow> rule_state \<Rightarrow> rule_state" where
  "clear_rule_field f st =
     (case st of (rb, mem) \<Rightarrow>
        if f = ''action'' then (rb\<lparr>rbAction := None\<rparr>, mem)
        else if f = ''cooldown_minutes'' then (rb\<lparr>rbCooldownMinutes := None\<rparr>, mem)
        else if f = ''event_type'' then (rb\<lparr>rbEventType := None\<rparr>, mem)
        else if f = ''severity_min'' then (rb\<lparr>rbSeverityMin := None\<rparr>, mem)
        else if f = ''source'' then (rb\<lparr>rbSource := None\<rparr>, mem)
        else if f = ''tags'' then (rb\<lparr>rbTags := None\<rparr>, [])
        else if f = ''webhook_url'' then (rb\<lparr>rbWebhookURL := None\<rparr>, mem)
        else (rb, mem))"

definition set_rule_field :: "bytes \<Rightarrow> bytes \<Rightarrow> rule_state \<Rightarrow> rule_state option" where
  "set_rule_field f raw st =
     (if raw = ''null'' then Some (clear_rule_field f st)
      else if f = ''action'' then set_rule_text raw (\<lambda>v. rbAction_update (\<lambda>_. Some v)) st
      else if f = ''cooldown_minutes'' then set_rule_int 32 raw (\<lambda>v. rbCooldownMinutes_update (\<lambda>_. Some v)) st
      else if f = ''event_type'' then set_rule_text raw (\<lambda>v. rbEventType_update (\<lambda>_. Some v)) st
      else if f = ''group_by'' then set_rule_text raw (\<lambda>v. rbGroupBy_update (\<lambda>_. v)) st
      else if f = ''name'' then set_rule_text raw (\<lambda>v. rbName_update (\<lambda>_. v)) st
      else if f = ''severity_min'' then set_rule_int 64 raw (\<lambda>v. rbSeverityMin_update (\<lambda>_. Some v)) st
      else if f = ''source'' then set_rule_text raw (\<lambda>v. rbSource_update (\<lambda>_. Some v)) st
      else if f = ''tags'' then map_option (\<lambda>(ts, mem). ((fst st)\<lparr>rbTags := Some ts\<rparr>, mem)) (decode_tags (snd st) raw)
      else if f = ''tenant'' then set_rule_text raw (\<lambda>v. rbTenant_update (\<lambda>_. v)) st
      else if f = ''threshold'' then set_rule_int 32 raw (\<lambda>v. rbThreshold_update (\<lambda>_. v)) st
      else if f = ''webhook_url'' then set_rule_text raw (\<lambda>v. rbWebhookURL_update (\<lambda>_. Some v)) st
      else set_rule_int 32 raw (\<lambda>v. rbWindowMinutes_update (\<lambda>_. v)) st)"

text \<open>The members in order: the decoder goes on after an error, and reports the first.\<close>

datatype decode_error = WrongType bytes | UnknownField bytes

definition rule_member :: "bytes \<times> bytes \<Rightarrow> rule_state \<times> decode_error option \<Rightarrow> rule_state \<times> decode_error option" where
  "rule_member kv acc =
     (case (kv, acc) of ((key, raw), (st, err)) \<Rightarrow>
        (case struct_field rule_fields key of
           None \<Rightarrow> (st, if err = None then Some (UnknownField key) else err)
         | Some f \<Rightarrow>
             (case set_rule_field f raw st of
                None \<Rightarrow> (st, if err = None then Some (WrongType f) else err)
              | Some st' \<Rightarrow> (st', err))))"

definition decode_rule :: "(bytes \<times> bytes) list \<Rightarrow> decode_error + rule_body" where
  "decode_rule members =
     (case fold rule_member members ((zero_rule, []), None) of
        (_, Some err) \<Rightarrow> Inl err
      | ((rb, _), None) \<Rightarrow> Inr rb)"

subsection \<open>The checks\<close>

text \<open>The values of a text filter and of the tags; a tag that cannot be used ends the loop.\<close>

definition text_filter :: "(bytes \<Rightarrow> bytes) \<Rightarrow> bytes option \<Rightarrow> bytes option \<times> bool" where
  "text_filter mapping v =
     (case ruleText mapping (deref v) of (s, ok) \<Rightarrow> (if ok \<and> s \<noteq> [] then Some s else None, ok))"

fun rule_tags :: "bytes list \<Rightarrow> bytes list \<Rightarrow> bytes list \<times> bool" where
  "rule_tags acc [] = (acc, True)"
| "rule_tags acc (t # ts) =
     (case ruleText (\<lambda>s. s) t of (v, ok) \<Rightarrow>
        if \<not> ok then (acc, False)
        else rule_tags (if v \<noteq> [] \<and> v \<notin> set acc then acc @ [v] else acc) ts)"

definition missing_fields :: "(bytes \<times> bytes) list \<Rightarrow> bytes list" where
  "missing_fields present =
     filter (\<lambda>f. case map_of present f of None \<Rightarrow> True | Some raw \<Rightarrow> raw = ''null'') requiredRuleFields"

definition problem_if :: "bool \<Rightarrow> bytes \<Rightarrow> bytes \<Rightarrow> FieldError list" where
  "problem_if b field code = (if b then [ruleFieldError field code] else [])"

definition outside :: "int \<Rightarrow> int \<Rightarrow> int \<Rightarrow> bool" where
  "outside lo hi n \<longleftrightarrow> n < lo \<or> hi < n"

text \<open>
  The rule and the problems with it, in the order of the code: \<open>missing\<close> are the fields
  reported as required. A field's own checks are the only others that name it.
\<close>

definition rule_of :: "(int \<Rightarrow> int) \<Rightarrow> (bytes \<Rightarrow> (bytes \<times> bytes) option) \<Rightarrow> rule_body \<Rightarrow> new_alert_rule" where
  "rule_of ul urlParse rb =
     (let u = trim_space (deref (rbWebhookURL rb)) in
      \<lparr>ruTenantID = trim_space (rbTenant rb), ruName = trim_space (rbName rb),
       ruSource = map_option (\<lambda>s. to_lower ul (trim_space s)) (rbSource rb),
       ruEventType = fst (text_filter (\<lambda>s. s) (rbEventType rb)),
       ruAction = fst (text_filter (to_lower ul) (rbAction rb)),
       ruSeverityMin = rbSeverityMin rb,
       ruTags = sort (fst (rule_tags [] (case rbTags rb of None \<Rightarrow> [] | Some ts \<Rightarrow> ts))),
       ruGroupBy = rbGroupBy rb, ruThreshold = rbThreshold rb, ruWindowMinutes = rbWindowMinutes rb,
       ruCooldownMinutes = (case rbCooldownMinutes rb of None \<Rightarrow> rbWindowMinutes rb | Some n \<Rightarrow> n),
       ruWebhookURL = (if u \<noteq> [] \<and> validWebhookURL urlParse u then Some u else None)\<rparr>)"

definition rule_problems ::
  "(int \<Rightarrow> int) \<Rightarrow> (bytes \<Rightarrow> (bytes \<times> bytes) option) \<Rightarrow> bytes list \<Rightarrow> rule_body \<Rightarrow> FieldError list" where
  "rule_problems ul urlParse missing rb =
     (let p = rule_of ul urlParse rb; u = trim_space (deref (rbWebhookURL rb)) in
      map (\<lambda>f. \<lparr>fieldName = f, fieldCode = ''required'', fieldMessage = f @ '' is required''\<rparr>) missing
      @ problem_if (''tenant'' \<notin> set missing \<and> \<not> ValidTenantID (ruTenantID p)) ''tenant'' ''invalid_format''
      @ problem_if (''name'' \<notin> set missing
          \<and> (ruName p = [] \<or> maxRuleName < length (ruName p) \<or> NUL \<in> set (ruName p))) ''name'' ''invalid_format''
      @ problem_if (case ruSource p of None \<Rightarrow> False | Some s \<Rightarrow> \<not> Source_Valid s) ''source'' ''unknown_value''
      @ problem_if (\<not> snd (text_filter (\<lambda>s. s) (rbEventType rb))) ''event_type'' ''invalid_format''
      @ problem_if (\<not> snd (text_filter (to_lower ul) (rbAction rb))) ''action'' ''invalid_format''
      @ problem_if (\<not> snd (rule_tags [] (case rbTags rb of None \<Rightarrow> [] | Some ts \<Rightarrow> ts))) ''tags'' ''invalid_format''
      @ problem_if (case rbSeverityMin rb of None \<Rightarrow> False | Some n \<Rightarrow> outside 0 10 n) ''severity_min'' ''out_of_range''
      @ problem_if (''group_by'' \<notin> set missing \<and> \<not> AlertGroupBy_Valid (rbGroupBy rb)) ''group_by'' ''unknown_value''
      @ problem_if (''threshold'' \<notin> set missing \<and> ruThreshold p < 1) ''threshold'' ''out_of_range''
      @ problem_if (''window_minutes'' \<notin> set missing \<and> outside 1 1440 (ruWindowMinutes p)) ''window_minutes'' ''out_of_range''
      @ problem_if (case rbCooldownMinutes rb of None \<Rightarrow> False | Some n \<Rightarrow> outside 0 10080 n)
          ''cooldown_minutes'' ''out_of_range''
      @ problem_if (u \<noteq> [] \<and> \<not> validWebhookURL urlParse u) ''webhook_url'' ''invalid_format'')"

record rule_env =
  reLower :: "int \<Rightarrow> int"
  reQuote :: "bytes \<Rightarrow> bytes"
  reUrlParse :: "bytes \<Rightarrow> (bytes \<times> bytes) option"
  reJsonErr :: "bytes \<Rightarrow> go_error"

definition decodeAlertRule :: "rule_env \<Rightarrow> bytes \<Rightarrow> go_error + new_alert_rule" where
  "decodeAlertRule env body =
     (let notObject = Malformed ''invalid_json'' ''request body is not a JSON object'' in
      case json_object body of
        None \<Rightarrow>
          Inl (if json_valid body \<and> has_prefix (skip_ws body) ''null'' then notObject
               else Wrapping notObject (reJsonErr env body))
      | Some present \<Rightarrow>
     (case decode_rule (json_members (skip_ws body)) of
        Inl (WrongType f) \<Rightarrow> Inl (invalidRequest [ruleFieldError f ''invalid_type''])
      | Inl (UnknownField f) \<Rightarrow>
          Inl (invalidRequest [\<lparr>fieldName = f, fieldCode = ''unknown_field'',
             fieldMessage = reQuote env f @ '' is not a field of an alert rule''\<rparr>])
      | Inr rb \<Rightarrow>
          (let problems = rule_problems (reLower env) (reUrlParse env) (missing_fields present) rb in
           if problems \<noteq> [] then Inl (invalidRequest problems) else Inr (rule_of (reLower env) (reUrlParse env) rb))))"

subsection \<open>Creating a rule\<close>

definition CreateAlertRule ::
  "enforcer \<Rightarrow> rule_env \<Rightarrow> (scope \<Rightarrow> new_alert_rule \<Rightarrow> 'w \<Rightarrow> (go_error + alert_rule) \<times> 'w)
   \<Rightarrow> ingest_request \<Rightarrow> 'w \<Rightarrow> api_alert_rule answer \<times> 'w" where
  "CreateAlertRule e env create r w =
     (let ri = irInfo r; c = irCaller r in
      if tenants_Empty (Scopes e c AlertRules Create) then (fail_answer ri (Deny c), w)
      else
     (case requireMediaType (reLower env) (irContentType r) ''application/json'' of
        Some err \<Rightarrow> (fail_status ri 415 err, w)
      | None \<Rightarrow>
     (case ReadAll (MaxBytesReader maxRuleBytes (irBody r)) of
        Inl end_of \<Rightarrow> (failRead ri end_of maxRuleBytes, w)
      | Inr body \<Rightarrow>
     (case decodeAlertRule env body of
        Inl err \<Rightarrow> (fail_answer ri err, w)
      | Inr p \<Rightarrow>
          if \<not> Can e c AlertRules Create (ruTenantID p)
          then (fail_answer ri (TenantNotPermitted (reQuote env) (ruTenantID p)), w)
          else
            (case create (scopeOf c) p w of
               (Inl err, w) \<Rightarrow>
                 (if CodeOf err = ''unknown_tenant''
                  then (fail_answer ri (invalidRequest [\<lparr>fieldName = ''tenant'', fieldCode = ''unknown_tenant'',
                     fieldMessage = MessageOf err\<rparr>]), w)
                  else (fail_answer ri err, w))
             | (Inr rule, w) \<Rightarrow>
                 (after [] [\<lparr>lgLevel = LevelInfo, lgMessage = ''alert rule created'',
                     lgAttrs = [text_attr ''request_id'' (riID ri), int_attr ''rule_id'' (ruID rule),
                       text_attr ''tenant'' (ruTenantID rule)]\<rparr>]
                    (ok_answer 201 (toAlertRule rule)), w))))))"

end
