(* ===== verification/Rule_Facts.thy ===== *)
theory Rule_Facts
  imports Api_Rules
begin

text \<open>
  What is decoded into a rule can be stored: the table's own checks have nothing left to refuse.
\<close>

subsection \<open>A rule that decodes is usable\<close>

definition usable_text :: "bytes \<Rightarrow> bool" where
  "usable_text s \<longleftrightarrow> s \<noteq> [] \<and> length s \<le> maxRuleText \<and> NUL \<notin> set s"

definition usable_rule :: "new_alert_rule \<Rightarrow> bool" where
  "usable_rule p \<longleftrightarrow> rule_check p \<and> ValidTenantID (ruTenantID p)
     \<and> length (ruName p) \<le> maxRuleName \<and> NUL \<notin> set (ruName p)
     \<and> list_all (case_option True usable_text) [ruEventType p, ruAction p]
     \<and> list_all usable_text (ruTags p) \<and> sorted (ruTags p) \<and> distinct (ruTags p)"

lemma text_filter_usable: "snd (text_filter f v) \<Longrightarrow> case_option True usable_text (fst (text_filter f v))"
  by (auto simp: text_filter_def ruleText_def usable_text_def Let_def split: prod.splits)

lemma rule_tags_usable:
  "snd (rule_tags acc tags) \<Longrightarrow> list_all usable_text acc \<Longrightarrow> distinct acc \<Longrightarrow>
   list_all usable_text (fst (rule_tags acc tags)) \<and> distinct (fst (rule_tags acc tags))"
proof (induction acc tags rule: rule_tags.induct)
  case (2 acc t ts)
  obtain v ok where v: "ruleText (\<lambda>s. s) t = (v, ok)" by fastforce
  then have "ok" using "2.prems"(1) by (auto split: if_splits)
  with v have "v \<noteq> [] \<Longrightarrow> usable_text v" by (auto simp: ruleText_def usable_text_def Let_def)
  with 2 v \<open>ok\<close> show ?case by simp
qed auto

lemma problem_if_Nil: "problem_if b f c = [] \<longleftrightarrow> \<not> b"
  by (simp add: problem_if_def)

lemma no_problems_usable:
  assumes "rule_problems ul urlParse missing rb = []"
  shows "usable_rule (rule_of ul urlParse rb)"
proof -
  define p where "p = rule_of ul urlParse rb"
  define tags where "tags = (case rbTags rb of None \<Rightarrow> [] | Some ts \<Rightarrow> ts)"
  have p: "ruSeverityMin p = rbSeverityMin rb" "ruGroupBy p = rbGroupBy rb"
    "ruTags p = sort (fst (rule_tags [] tags))" "ruCooldownMinutes p = (case rbCooldownMinutes rb of None \<Rightarrow> ruWindowMinutes p | Some n \<Rightarrow> n)"
    "ruEventType p = fst (text_filter (\<lambda>s. s) (rbEventType rb))" "ruAction p = fst (text_filter (to_lower ul) (rbAction rb))"
    by (simp_all add: p_def rule_of_def Let_def tags_def split: option.splits)
  note none = assms [unfolded rule_problems_def Let_def append_is_Nil_conv problem_if_Nil p_def [symmetric] tags_def [symmetric]]
  then have missing: "missing = []" by simp
  have "snd (rule_tags [] tags)" using none by simp
  from rule_tags_usable [OF this] have tags: "list_all usable_text (ruTags p)" "distinct (ruTags p)" "sorted (ruTags p)"
    by (simp_all add: p list_all_iff)
  have "snd (text_filter (\<lambda>s. s) (rbEventType rb))" "snd (text_filter (to_lower ul) (rbAction rb))"
    using none by blast+
  then have texts: "list_all (case_option True usable_text) [ruEventType p, ruAction p]"
    unfolding p list.pred_inject by (simp add: text_filter_usable)
  have window: "\<not> outside 1 1440 (ruWindowMinutes p)" and threshold: "1 \<le> ruThreshold p"
    and name: "ruName p \<noteq> []" "length (ruName p) \<le> maxRuleName" "NUL \<notin> set (ruName p)"
    and tenant: "ValidTenantID (ruTenantID p)" and grp: "AlertGroupBy_Valid (ruGroupBy p)"
    using none unfolding p by (simp_all add: missing)
  have source: "case ruSource p of None \<Rightarrow> True | Some s \<Rightarrow> Source_Valid s"
    and severity: "case ruSeverityMin p of None \<Rightarrow> True | Some n \<Rightarrow> \<not> outside 0 10 n"
    and cooldown: "case rbCooldownMinutes rb of None \<Rightarrow> True | Some n \<Rightarrow> \<not> outside 0 10080 n"
    using none unfolding p by (auto split: option.splits)
  have "rule_check p"
    unfolding rule_check_def
  proof (intro conjI)
    show "case ruSource p of None \<Rightarrow> True | Some s \<Rightarrow> s \<in> {''firewall'', ''network'', ''crowdstrike'', ''aws'', ''m365'', ''ad'', ''api''}"
      using source by (auto simp: Source_Valid_def known_sources_def split: option.splits)
    show "case ruSeverityMin p of None \<Rightarrow> True | Some n \<Rightarrow> 0 \<le> n \<and> n \<le> 10"
      using severity by (auto simp: outside_def split: option.splits)
    show "ruGroupBy p \<in> {''src_ip'', ''dst_ip'', ''user'', ''host''}"
      using grp by (auto simp: AlertGroupBy_Valid_def)
  qed (use name threshold window cooldown p(4) in \<open>auto simp: outside_def split: option.splits\<close>)
  with tags texts name tenant show ?thesis
    by (simp add: usable_rule_def p_def [symmetric])
qed

lemma invalidRequest_view [result_simps]:
  "KindOf (invalidRequest fs) = KindInvalid" "FieldsOf (invalidRequest fs) = fs" "CodeOf (invalidRequest fs) = ''invalid_request''"
  by (simp_all add: invalidRequest_def Invalid_def newError_def error_views)

lemma decodeAlertRule_usable:
  "case decodeAlertRule env body of
     Inr p \<Rightarrow> usable_rule p
   | Inl err \<Rightarrow> KindOf err = KindMalformed \<or> KindOf err = KindInvalid \<and> FieldsOf err \<noteq> []"
  using no_problems_usable
  by (auto simp: decodeAlertRule_def Let_def result_simps Malformed_def split: option.splits sum.splits decode_error.splits)

subsection \<open>Creating a rule, down to the table\<close>

lemma CreateRule_inserts:
  assumes "CreateRule q fails refuse sc p s = (r, s')"
  shows "case r of
      Inl _ \<Rightarrow> sData s' = sData s
    | Inr rule \<Rightarrow> new_alert_rule.truncate rule = p \<and> ruTenantID rule = ruTenantID p
        \<and> visible sc (ruTenantID p) \<and> ruTenantID p \<in> set (adTenants (sData s))
        \<and> dbRules (sData s') = dbRules (sData s) @ [rule]"
proof (cases r)
  case (Inl e)
  from InScope_Inl [OF assms [unfolded CreateRule_def Inl]] Inl show ?thesis by simp
next
  case (Inr rule)
  from InScope_Inr [OF assms [unfolded CreateRule_def Inr]]
  have ins: "insert_rule refuse p sc (sData s) = Inr (rule, sData s')"
    by (auto dest!: statement_Inr)
  then have "rule = new_alert_rule.extend p \<lparr>ruID = dbNextRule (sData s), ruCreatedAt = dbNow (sData s)\<rparr>"
    and "sData s' = (sData s)\<lparr>dbRules := dbRules (sData s) @ [rule], dbNextRule := dbNextRule (sData s) + 1\<rparr>"
    by (auto simp: insert_rule_def Let_def split: option.splits if_splits)
  with ins Inr show ?thesis
    by (auto simp: insert_rule_def Let_def new_alert_rule.defs split: option.splits if_splits)
qed

text \<open>
  C9. What a request to create a rule does: either it is refused and nothing changes, or the
  caller may create rules for the tenant it names, the body was decoded, every check on it
  passed, and exactly that rule is in the table afterwards, after those that were there, for a
  tenant that exists; and a rule that was decoded passes the checks of the table, so that only
  an unknown tenant or a failure of the database can be left to refuse it.
\<close>

theorem CreateAlertRule_creates:
  "(case CreateAlertRule e env (CreateRule q fails refuse) r s of (a, s') \<Rightarrow>
     (case rpBody a of
        Inl _ \<Rightarrow> sData s' = sData s
      | Inr out \<Rightarrow> (\<exists>body rule. ReadAll (MaxBytesReader maxRuleBytes (irBody r)) = Inr body
          \<and> decodeAlertRule env body = Inr (new_alert_rule.truncate rule)
          \<and> Can e (irCaller r) AlertRules Create (ruTenantID rule)
          \<and> ruTenantID rule \<in> set (adTenants (sData s))
          \<and> dbRules (sData s') = dbRules (sData s) @ [rule] \<and> out = toAlertRule rule \<and> rpStatus a = 201)))
   \<and> (case decodeAlertRule env body of
        Inr p \<Rightarrow> usable_rule p
      | Inl err \<Rightarrow> KindOf err = KindMalformed \<or> KindOf err = KindInvalid \<and> FieldsOf err \<noteq> [])"
proof (rule conjI)
  obtain a s' where run: "CreateAlertRule e env (CreateRule q fails refuse) r s = (a, s')" by fastforce
  show "case CreateAlertRule e env (CreateRule q fails refuse) r s of (a, s') \<Rightarrow>
     (case rpBody a of
        Inl _ \<Rightarrow> sData s' = sData s
      | Inr out \<Rightarrow> (\<exists>body rule. ReadAll (MaxBytesReader maxRuleBytes (irBody r)) = Inr body
          \<and> decodeAlertRule env body = Inr (new_alert_rule.truncate rule)
          \<and> Can e (irCaller r) AlertRules Create (ruTenantID rule)
          \<and> ruTenantID rule \<in> set (adTenants (sData s))
          \<and> dbRules (sData s') = dbRules (sData s) @ [rule] \<and> out = toAlertRule rule \<and> rpStatus a = 201))"
    unfolding run prod.case using run
    by (auto simp: CreateAlertRule_def Let_def result_simps failRead_view dest!: CreateRule_inserts split: option.splits sum.splits prod.splits if_splits)
qed (rule decodeAlertRule_usable)

end
