(* ===== verification/Config.thy ===== *)
theory Config
  imports Go_Number Go_Time Errors
begin

text \<open>
  \<open>internal/platform/config/config.go\<close>: a configuration is a struct whose tagged fields are
  read from the environment. What reflection tells of a field is a \<open>field\<close> here: whether it
  is exported, its tags, and its type, of which \<open>TText\<close> are the types that implement
  \<open>encoding.TextUnmarshaler\<close>; the one the program uses is \<open>slog.Level\<close>, written out below.
\<close>

subsection \<open>The Go library\<close>

definition ParseBool :: "bytes \<Rightarrow> bool option" where
  "ParseBool s =
     (if s \<in> {''1'', ''t'', ''T'', ''TRUE'', ''true'', ''True''} then Some True
      else if s \<in> {''0'', ''f'', ''F'', ''FALSE'', ''false'', ''False''} then Some False
      else None)"

text \<open>\<open>strconv.ParseInt(s, 10, bits)\<close>.\<close>

definition ParseInt_bits :: "nat \<Rightarrow> bytes \<Rightarrow> int option" where
  "ParseInt_bits bits s =
     (case atoi s of
        None \<Rightarrow> None
      | Some n \<Rightarrow> if - (2 ^ (bits - 1)) \<le> n \<and> n < 2 ^ (bits - 1) then Some n else None)"

text \<open>
  \<open>strconv.ParseFloat\<close> for both widths, with the infinities and NaN that \<open>Go_Number\<close> leaves
  out; a number too large for its width is an error. Negative zero is zero here.
\<close>

datatype go_float = Finite rat | Infinite bool | NaN

definition float32 :: "rat \<Rightarrow> rat" where
  "float32 q =
     (let u = (if pow2 (- 126) \<le> \<bar>q\<bar> then pow2 (expo \<bar>q\<bar> - 23) else pow2 (- 149));
          m = of_int (round_even (\<bar>q\<bar> / u)) * u in
      if q < 0 then - m else m)"

definition ParseFloat_bits :: "nat \<Rightarrow> bytes \<Rightarrow> go_float option" where
  "ParseFloat_bits bits s =
     (let word = map ascii_lower_byte (unsigned s) in
      if word = ''inf'' \<or> word = ''infinity'' then Some (Infinite (has_prefix s ''-''))
      else if map ascii_lower_byte s = ''nan'' then Some NaN
      else (case literal_value s of
          None \<Rightarrow> None
        | Some q \<Rightarrow>
            (let f = (if bits = 32 then float32 q else float64 q) in
             if pow2 (if bits = 32 then 128 else 1024) \<le> \<bar>f\<bar> then None else Some (Finite f))))"

text \<open>
  \<open>time.ParseDuration\<close>. A duration is a sign and then numbers with a unit each; the numbers
  are added as \<open>uint64\<close>, whose sum may wrap. The part after the point is scaled in floating
  point.
\<close>

definition two63 :: int where "two63 = 9223372036854775808"

definition unit_of :: "bytes \<Rightarrow> int option" where
  "unit_of u =
     (if u = ''ns'' then Some 1
      else if u = ''us'' \<or> u = [CHR 0xC2, CHR 0xB5, CHR ''s''] \<or> u = [CHR 0xCE, CHR 0xBC, CHR ''s''] then Some 1000
      else if u = ''ms'' then Some 1000000
      else if u = ''s'' then Some second
      else if u = ''m'' then Some minute
      else if u = ''h'' then Some hour
      else None)"

fun leadingInt :: "int \<Rightarrow> bytes \<Rightarrow> (int \<times> bytes) option" where
  "leadingInt x [] = Some (x, [])"
| "leadingInt x (c # cs) =
     (if \<not> ascii_digit c then Some (x, c # cs)
      else if two63 div 10 < x then None
      else if two63 < x * 10 + digit_value c then None
      else leadingInt (x * 10 + digit_value c) cs)"

fun leadingFraction :: "int \<Rightarrow> int \<Rightarrow> bool \<Rightarrow> bytes \<Rightarrow> int \<times> int \<times> bytes" where
  "leadingFraction x scale over [] = (x, scale, [])"
| "leadingFraction x scale over (c # cs) =
     (if \<not> ascii_digit c then (x, scale, c # cs)
      else if over \<or> (two63 - 1) div 10 < x \<or> two63 < x * 10 + digit_value c
      then leadingFraction x scale True cs
      else leadingFraction (x * 10 + digit_value c) (scale * 10) False cs)"

text \<open>One number with its unit: its value and the rest.\<close>

definition duration_part :: "bytes \<Rightarrow> (int \<times> bytes) option" where
  "duration_part s =
     (if s = [] \<or> \<not> (hd s = CHR ''.'' \<or> ascii_digit (hd s)) then None
      else
        (case leadingInt 0 s of
           None \<Rightarrow> None
         | Some (v, s1) \<Rightarrow>
             (let pre = length s1 < length s;
                  (f, scale, s2) = (if has_prefix s1 ''.'' then leadingFraction 0 1 False (tl s1) else (0, 1, s1));
                  post = has_prefix s1 ''.'' \<and> length s2 < length (tl s1);
                  u = takeWhile (\<lambda>c. \<not> (c = CHR ''.'' \<or> ascii_digit c)) s2;
                  s3 = drop (length u) s2 in
              if \<not> pre \<and> \<not> post \<or> u = [] then None
              else
                (case unit_of u of
                   None \<Rightarrow> None
                 | Some unit \<Rightarrow>
                     if two63 div unit < v then None
                     else
                       (let v1 = v * unit;
                            v2 = (if 0 < f
                                  then v1 + \<lfloor>fl (fl (of_int f) * fl (of_int unit / of_int scale))\<rfloor> else v1) in
                        if two63 < v2 then None else Some (v2, s3))))))"

lemma takeWhile_not_Nil: "takeWhile P xs \<noteq> [] \<Longrightarrow> length (drop (length (takeWhile P xs)) xs) < length xs"
  by (cases xs) auto

lemma leadingInt_length: "leadingInt x s = Some (v, r) \<Longrightarrow> length r \<le> length s"
  by (induction x s rule: leadingInt.induct) (auto split: if_splits)

lemma leadingFraction_length: "leadingFraction x k over s = (f, k', r) \<Longrightarrow> length r \<le> length s"
  by (induction x k over s rule: leadingFraction.induct) (auto split: if_splits)

lemma duration_part_length:
  assumes "duration_part s = Some (v, r)"
  shows "length r < length s"
proof -
  from assms obtain v0 s1 f scale s2 where s1: "leadingInt 0 s = Some (v0, s1)"
    and s2: "(f, scale, s2) = (if has_prefix s1 ''.'' then leadingFraction 0 1 False (tl s1) else (0, 1, s1))"
    and u: "takeWhile (\<lambda>c. \<not> (c = CHR ''.'' \<or> ascii_digit c)) s2 \<noteq> []"
    and r: "r = drop (length (takeWhile (\<lambda>c. \<not> (c = CHR ''.'' \<or> ascii_digit c)) s2)) s2"
    unfolding duration_part_def Let_def
    by (auto split: if_splits option.splits prod.splits)
  have "length s2 \<le> length s1"
    using s2 leadingFraction_length [of 0 1 False "tl s1" f scale s2] by (auto split: if_splits)
  with takeWhile_not_Nil [OF u] leadingInt_length [OF s1] show ?thesis
    unfolding r by linarith
qed

function duration_parts :: "int \<Rightarrow> bytes \<Rightarrow> int option" where
  "duration_parts d s =
     (if s = [] then Some d
      else
        (case duration_part s of
           None \<Rightarrow> None
         | Some (v, r) \<Rightarrow>
             (let d1 = (d + v) mod 18446744073709551616 in
              if two63 < d1 then None else duration_parts d1 r)))"
  by pat_completeness auto
termination by (relation "measure (length \<circ> snd)") (auto dest: duration_part_length)

declare duration_parts.simps [simp del]

definition ParseDuration :: "bytes \<Rightarrow> duration option" where
  "ParseDuration s =
     (let neg = has_prefix s ''-''; r = unsigned s in
      if r = ''0'' then Some 0
      else if r = [] then None
      else (case duration_parts 0 r of
          None \<Rightarrow> None
        | Some d \<Rightarrow> if neg then Some (- d) else if two63 - 1 < d then None else Some d))"

text \<open>
  \<open>slog.Level\<close>: a name in any case, and an offset. \<open>uu\<close> is the table of \<open>unicode.ToUpper\<close>
  for code points from 128 on, and \<open>quote\<close> is \<open>%q\<close>. The sum may wrap.
\<close>

definition ascii_upper_byte :: "char \<Rightarrow> char" where
  "ascii_upper_byte c = (if CHR ''a'' \<le> c \<and> c \<le> CHR ''z'' then char_of (byte c - 32) else c)"

definition upper_rune :: "(int \<Rightarrow> int) \<Rightarrow> bytes \<times> bool \<Rightarrow> bytes" where
  "upper_rune uu r =
     (if \<not> snd r then rune_error
      else if length (fst r) = 1 then map ascii_upper_byte (fst r)
      else encode_rune (uu (rune_value (fst r))))"

definition to_upper :: "(int \<Rightarrow> int) \<Rightarrow> bytes \<Rightarrow> bytes" where
  "to_upper uu s =
     (if is_ascii s then map ascii_upper_byte s else concat (map (upper_rune uu) (runes s)))"

definition level_named :: "bytes \<Rightarrow> int option" where
  "level_named s =
     (if s = ''DEBUG'' then Some (- 4) else if s = ''INFO'' then Some 0
      else if s = ''WARN'' then Some 4 else if s = ''ERROR'' then Some 8 else None)"

definition wrap64 :: "int \<Rightarrow> int" where
  "wrap64 n = (n + two63) mod (2 * two63) - two63"

definition level_UnmarshalText :: "(int \<Rightarrow> int) \<Rightarrow> (bytes \<Rightarrow> bytes) \<Rightarrow> bytes \<Rightarrow> bytes + int" where
  "level_UnmarshalText uu quote s =
     (let named = takeWhile (\<lambda>c. c \<notin> {CHR ''+'', CHR ''-''}) s; offset = drop (length named) s;
          bad = (\<lambda>err. ''slog: level string '' @ quote s @ '': '' @ err) in
      case (if offset = [] then Inr 0
            else case atoi offset of
                None \<Rightarrow> Inl (''strconv.Atoi: parsing '' @ quote offset @ '': invalid syntax'')
              | Some n \<Rightarrow> if - two63 \<le> n \<and> n < two63 then Inr n
                          else Inl (''strconv.Atoi: parsing '' @ quote offset @ '': value out of range'')) of
        Inl err \<Rightarrow> Inl (bad err)
      | Inr n \<Rightarrow> (case level_named (to_upper uu named) of
            None \<Rightarrow> Inl (bad ''unknown name'')
          | Some l \<Rightarrow> Inr (wrap64 (l + n))))"

subsection \<open>Structs and their values\<close>

datatype ftype =
    TString
  | TBool
  | TInt nat
  | TDuration
  | TFloat nat
  | TStrings
  | TSlice bytes
  | TText bytes
  | TStruct bytes "field list"
  | TOther bytes
and field = Field (fdExported: bool) (fdEnv: "bytes option") (fdDefault: "bytes option") (fdRequired: bytes) (fdType: ftype)

text \<open>A value; \<open>VOther\<close> is the zero value of a type no configuration can be read into.\<close>

datatype cvalue =
    VString bytes | VBool bool | VInt int | VFloat go_float | VStrings "bytes list"
  | VStruct "cvalue list" | VOther

fun zero_value :: "ftype \<Rightarrow> cvalue" and zero_field :: "field \<Rightarrow> cvalue" where
  "zero_value TString = VString []"
| "zero_value TBool = VBool False"
| "zero_value (TInt bits) = VInt 0"
| "zero_value TDuration = VInt 0"
| "zero_value (TFloat bits) = VFloat (Finite 0)"
| "zero_value TStrings = VStrings []"
| "zero_value (TSlice e) = VOther"
| "zero_value (TText n) = VInt 0"
| "zero_value (TStruct n fs) = VStruct (map zero_field fs)"
| "zero_value (TOther n) = VOther"
| "zero_field (Field ex env def req t) = zero_value t"

subsection \<open>Reading the environment\<close>

type_synonym lookup = "bytes \<Rightarrow> bytes option"

text \<open>
  \<open>set\<close>, with what \<open>UnmarshalText\<close> of a named type makes of a text.
\<close>

definition expected :: "bytes \<Rightarrow> ('a \<Rightarrow> cvalue) \<Rightarrow> 'a option \<Rightarrow> bytes + cvalue" where
  "expected what wrap r = (case r of None \<Rightarrow> Inl (''expected '' @ what) | Some x \<Rightarrow> Inr (wrap x))"

fun config_set :: "(bytes \<Rightarrow> bytes \<Rightarrow> bytes + int) \<Rightarrow> ftype \<Rightarrow> bytes \<Rightarrow> bytes + cvalue" where
  "config_set unmarshal (TText n) raw = map_sum (\<lambda>e. e) VInt (unmarshal n raw)"
| "config_set unmarshal TString raw = Inr (VString raw)"
| "config_set unmarshal TBool raw = expected ''a boolean'' VBool (ParseBool raw)"
| "config_set unmarshal TDuration raw = expected ''a duration such as 20s or 1m30s'' VInt (ParseDuration raw)"
| "config_set unmarshal (TInt bits) raw = expected ''an integer'' VInt (ParseInt_bits bits raw)"
| "config_set unmarshal (TFloat bits) raw = expected ''a number'' VFloat (ParseFloat_bits bits raw)"
| "config_set unmarshal TStrings raw =
     Inr (VStrings (filter (\<lambda>p. p \<noteq> []) (map trim_space (split_byte (CHR '','') raw))))"
| "config_set unmarshal (TSlice e) raw = Inl (''unsupported slice element type '' @ e)"
| "config_set unmarshal (TStruct n fs) raw = Inl (''unsupported config type '' @ n)"
| "config_set unmarshal (TOther n) raw = Inl (''unsupported config type '' @ n)"

text \<open>The text a tagged field is set from, if any.\<close>

definition raw_text :: "lookup \<Rightarrow> bytes \<Rightarrow> bytes option \<Rightarrow> bytes option" where
  "raw_text lookup name def =
     (case lookup name of
        None \<Rightarrow> def
      | Some raw \<Rightarrow> if raw = [] then def else Some raw)"

fun bind_fields :: "(bytes \<Rightarrow> bytes \<Rightarrow> bytes + int) \<Rightarrow> lookup \<Rightarrow> field list \<Rightarrow> bytes list \<Rightarrow> cvalue list \<times> bytes list"
and bind_field :: "(bytes \<Rightarrow> bytes \<Rightarrow> bytes + int) \<Rightarrow> lookup \<Rightarrow> field \<Rightarrow> bytes list \<Rightarrow> cvalue \<times> bytes list"
and bind_untagged :: "(bytes \<Rightarrow> bytes \<Rightarrow> bytes + int) \<Rightarrow> lookup \<Rightarrow> ftype \<Rightarrow> bytes list \<Rightarrow> cvalue \<times> bytes list"
where
  "bind_fields unmarshal lookup [] problems = ([], problems)"
| "bind_fields unmarshal lookup (f # fs) problems =
     (case bind_field unmarshal lookup f problems of
        (v, problems) \<Rightarrow>
     (case bind_fields unmarshal lookup fs problems of
        (vs, problems) \<Rightarrow> (v # vs, problems)))"
| "bind_field unmarshal lookup (Field exported env def req t) problems =
     (if \<not> exported then (zero_value t, problems)
      else
        (case env of
           None \<Rightarrow> bind_untagged unmarshal lookup t problems
         | Some name \<Rightarrow>
             (case raw_text lookup name def of
                None \<Rightarrow>
                  (zero_value t, if req = ''true'' then problems @ [name @ '' is required but not set''] else problems)
              | Some raw \<Rightarrow>
                  (case config_set unmarshal t raw of
                     Inl err \<Rightarrow> (zero_value t, problems @ [name @ '': '' @ err])
                   | Inr v \<Rightarrow> (v, problems)))))"
| "bind_untagged unmarshal lookup (TStruct n fs) problems =
     (case bind_fields unmarshal lookup fs problems of (vs, problems) \<Rightarrow> (VStruct vs, problems))"
| "bind_untagged unmarshal lookup t problems = (zero_value t, problems)"

text \<open>\<open>LoadFrom\<close>; \<open>listed\<close> is the text of a list of strings in the log.\<close>

definition config_error :: "(bytes list \<Rightarrow> bytes) \<Rightarrow> bytes list \<Rightarrow> go_error" where
  "config_error listed problems =
     Wrapping (With (Internal ''configuration is invalid'') [LogString ''problems'', LogOther (listed problems)])
       (Foreign (''config: '' @ join_bytes ''; '' problems) [])"

definition LoadFrom ::
  "(bytes list \<Rightarrow> bytes) \<Rightarrow> (bytes \<Rightarrow> bytes \<Rightarrow> bytes + int) \<Rightarrow> (ftype \<Rightarrow> bytes) \<Rightarrow> ftype \<Rightarrow> lookup \<Rightarrow> go_error + cvalue" where
  "LoadFrom listed unmarshal type_name t lookup =
     (case t of
        TStruct n fs \<Rightarrow>
          (case bind_fields unmarshal lookup fs [] of
             (vs, problems) \<Rightarrow>
               if problems \<noteq> [] then Inl (config_error listed problems) else Inr (VStruct vs))
      | _ \<Rightarrow> Inl (Foreign (''config: '' @ type_name t @ '' is not a struct'') []))"

subsection \<open>What loading is meant to do\<close>

text \<open>
  The settings of a struct: the tagged fields that are exported, its own and those of the
  exported untagged structs in it, in the order they are declared. Each is looked at alone.
\<close>

record setting =
  stName :: bytes
  stDefault :: "bytes option"
  stRequired :: bool
  stType :: ftype

fun settings :: "field list \<Rightarrow> setting list" and settings_of :: "field \<Rightarrow> setting list"
  and settings_in :: "ftype \<Rightarrow> setting list" where
  "settings [] = []"
| "settings (f # fs) = settings_of f @ settings fs"
| "settings_of (Field exported env def req t) =
     (if \<not> exported then []
      else case env of
          Some name \<Rightarrow> [\<lparr>stName = name, stDefault = def, stRequired = (req = ''true''), stType = t\<rparr>]
        | None \<Rightarrow> settings_in t)"
| "settings_in (TStruct n fs) = settings fs"
| "settings_in t = []"

text \<open>Its value, \<open>None\<close> where it is left unset, or what is wrong with it: its text is that of its
  variable, or its default where the variable is unset or empty.\<close>

definition setting_result ::
  "(bytes \<Rightarrow> bytes \<Rightarrow> bytes + int) \<Rightarrow> lookup \<Rightarrow> setting \<Rightarrow> bytes + cvalue option" where
  "setting_result unmarshal lookup st =
     (case if lookup (stName st) = None \<or> lookup (stName st) = Some [] then stDefault st
           else lookup (stName st) of
        None \<Rightarrow> if stRequired st then Inl '' is required but not set'' else Inr None
      | Some raw \<Rightarrow> map_sum (\<lambda>err. '': '' @ err) Some (config_set unmarshal (stType st) raw))"

definition problems_of :: "(bytes \<Rightarrow> bytes \<Rightarrow> bytes + int) \<Rightarrow> lookup \<Rightarrow> setting list \<Rightarrow> bytes list" where
  "problems_of unmarshal lookup sts =
     concat (map (\<lambda>st. case setting_result unmarshal lookup st of
                         Inl err \<Rightarrow> [stName st @ err] | Inr _ \<Rightarrow> []) sts)"

definition setting_cvalue :: "(bytes \<Rightarrow> bytes \<Rightarrow> bytes + int) \<Rightarrow> lookup \<Rightarrow> setting \<Rightarrow> cvalue" where
  "setting_cvalue unmarshal lookup st =
     (case setting_result unmarshal lookup st of Inr (Some v) \<Rightarrow> v | _ \<Rightarrow> zero_value (stType st))"

text \<open>The values of a struct's settings, in that order.\<close>

fun loaded :: "field list \<Rightarrow> cvalue list \<Rightarrow> cvalue list" and loaded_of :: "field \<Rightarrow> cvalue \<Rightarrow> cvalue list"
  and loaded_in :: "ftype \<Rightarrow> cvalue \<Rightarrow> cvalue list" where
  "loaded (f # fs) (v # vs) = loaded_of f v @ loaded fs vs"
| "loaded _ _ = []"
| "loaded_of (Field exported env def req t) v =
     (if \<not> exported then [] else case env of Some name \<Rightarrow> [v] | None \<Rightarrow> loaded_in t v)"
| "loaded_in (TStruct n fs) (VStruct vs) = loaded fs vs"
| "loaded_in _ _ = []"

lemma problems_of_append [simp]:
  "problems_of unmarshal lookup (as @ bs) = problems_of unmarshal lookup as @ problems_of unmarshal lookup bs"
  by (simp add: problems_of_def)

lemma problems_of_Nil [simp]: "problems_of unmarshal lookup [] = []"
  by (simp add: problems_of_def)

lemma setting_result_eq:
  "setting_result unmarshal lookup st =
     (case raw_text lookup (stName st) (stDefault st) of
        None \<Rightarrow> if stRequired st then Inl '' is required but not set'' else Inr None
      | Some raw \<Rightarrow> map_sum (\<lambda>err. '': '' @ err) Some (config_set unmarshal (stType st) raw))"
  by (cases "lookup (stName st)") (simp_all add: setting_result_def raw_text_def)

lemma bind_settings:
  "bind_fields unmarshal lookup fs ps = (vs, ps') \<Longrightarrow>
     ps' = ps @ problems_of unmarshal lookup (settings fs)
     \<and> loaded fs vs = map (setting_cvalue unmarshal lookup) (settings fs)"
  "bind_field unmarshal lookup f ps = (v, ps') \<Longrightarrow>
     ps' = ps @ problems_of unmarshal lookup (settings_of f)
     \<and> loaded_of f v = map (setting_cvalue unmarshal lookup) (settings_of f)"
  "bind_untagged unmarshal lookup t ps = (v, ps') \<Longrightarrow>
     ps' = ps @ problems_of unmarshal lookup (settings_in t)
     \<and> loaded_in t v = map (setting_cvalue unmarshal lookup) (settings_in t)"
proof (induction unmarshal lookup fs ps and unmarshal lookup f ps and unmarshal lookup t ps
    arbitrary: vs ps' and v ps' and v ps' rule: bind_fields_bind_field_bind_untagged.induct)
  case (3 unmarshal lookup exported env def req t problems)
  then show ?case
    by (auto simp: problems_of_def setting_cvalue_def setting_result_eq
        split: if_splits option.splits sum.splits)
qed (auto split: prod.splits)

text \<open>
  C27. A configuration loads exactly when nothing is wrong with any of its settings. Then every
  setting has the value of its variable, or of its default where the variable is unset or
  empty, or stays as it was; otherwise the error names every setting something is wrong with,
  once each and in the order they are declared, whatever is wrong with the others.
\<close>

theorem LoadFrom_settings:
  "case LoadFrom listed unmarshal type_name (TStruct n fs) lookup of
     Inl err \<Rightarrow> problems_of unmarshal lookup (settings fs) \<noteq> []
       \<and> err = config_error listed (problems_of unmarshal lookup (settings fs))
   | Inr v \<Rightarrow> problems_of unmarshal lookup (settings fs) = []
       \<and> (\<exists>vs. v = VStruct vs \<and> loaded fs vs = map (setting_cvalue unmarshal lookup) (settings fs))"
proof (cases "bind_fields unmarshal lookup fs []")
  case (Pair vs ps)
  with bind_settings(1) [OF Pair] show ?thesis by (simp add: LoadFrom_def)
qed

end
