(* ===== verification/Accounts.thy ===== *)
theory Accounts
  imports Store Auth Go_Log
begin

text \<open>
  The tenants and the users, and how the demonstration ones come into being:
  \<open>internal/store/seed.go\<close>, the statements of \<open>internal/store/gen/accounts.sql.go\<close> that its
  repositories send, with what they do to the two tables, and the constraints the tables
  have in \<open>migrations/0001_init.sql\<close>.

  \<open>lw\<close> is the \<open>lower\<close> of Postgres, \<open>refuse\<close> what Postgres makes of parameters it cannot
  store at all (texts that are not UTF-8, or contain NUL), \<open>collate\<close> the sort key of a text
  in the database's collation, and \<open>seBcrypt env n\<close> the bcrypt library with the salt it would
  draw after the n-th interaction with the database.
\<close>

subsection \<open>The tables\<close>

record new_tenant =
  ntID :: bytes
  ntName :: bytes

record new_user =
  nuEmail :: bytes
  nuPasswordHash :: bytes
  nuRole :: bytes
  nuTenantID :: "bytes option"

record stored_user = user +
  user_Email :: bytes

record accounts_db =
  acTenants :: "new_tenant list"
  acUsers :: "stored_user list"
  acNextUser :: int

definition tenant_ids :: "accounts_db \<Rightarrow> bytes list" where
  "tenant_ids db = map ntID (acTenants db)"

definition emails :: "accounts_db \<Rightarrow> bytes list" where
  "emails db = map user_Email (acUsers db)"

text \<open>
  \<open>INSERT ... ON CONFLICT DO NOTHING\<close>: the columns' checks come first, then the unique index,
  and the foreign key once the row is in. A user that conflicts uses up a number of the
  sequence.
\<close>

definition insert_tenant ::
  "(bytes list \<Rightarrow> go_error option) \<Rightarrow> new_tenant \<Rightarrow> accounts_db \<Rightarrow> go_error + unit \<times> accounts_db" where
  "insert_tenant refuse p db =
     (case refuse [ntID p, ntName p] of
        Some e \<Rightarrow> Inl e
      | None \<Rightarrow>
          if \<not> ValidTenantID (ntID p) then Inl (PgError ''23514'' ''new row violates check constraint'')
          else if ntID p \<in> set (tenant_ids db) then Inr ((), db)
          else Inr ((), db\<lparr>acTenants := acTenants db @ [p]\<rparr>))"

definition user_check :: "(bytes \<Rightarrow> bytes) \<Rightarrow> bytes \<Rightarrow> bytes \<Rightarrow> bytes option \<Rightarrow> bool" where
  "user_check lw email role tenant \<longleftrightarrow>
     email = lw email \<and> role \<in> {''admin'', ''viewer''} \<and> (role = ''admin'') = (tenant = None)"

definition insert_user ::
  "(bytes \<Rightarrow> bytes) \<Rightarrow> (bytes list \<Rightarrow> go_error option) \<Rightarrow> new_user \<Rightarrow> accounts_db \<Rightarrow> go_error + int \<times> accounts_db" where
  "insert_user lw refuse p db =
     (case refuse ([nuEmail p, nuPasswordHash p, nuRole p] @ (case nuTenantID p of Some t \<Rightarrow> [t] | None \<Rightarrow> [])) of
        Some e \<Rightarrow> Inl e
      | None \<Rightarrow>
          (let u = \<lparr>user_ID = acNextUser db, user_PasswordHash = nuPasswordHash p, user_Role = nuRole p,
                    user_TenantID = nuTenantID p, user_Email = lw (nuEmail p)\<rparr>;
               db' = db\<lparr>acNextUser := acNextUser db + 1\<rparr> in
           if \<not> user_check lw (user_Email u) (nuRole p) (nuTenantID p)
           then Inl (PgError ''23514'' ''new row violates check constraint'')
           else if user_Email u \<in> set (emails db) then Inr (0, db')
           else if (case nuTenantID p of Some t \<Rightarrow> t \<notin> set (tenant_ids db) | None \<Rightarrow> False)
           then Inl (PgError ''23503'' ''insert violates foreign key constraint'')
           else Inr (1, db'\<lparr>acUsers := acUsers db @ [u]\<rparr>)))"

definition InsertTenantIfMissing ::
  "failures \<Rightarrow> (bytes list \<Rightarrow> go_error option) \<Rightarrow> new_tenant \<Rightarrow> (accounts_db, 'm, unit) db_op_in" where
  "InsertTenantIfMissing fails refuse p = statement fails (\<lambda>s. insert_tenant refuse p (sData s))"

definition InsertUserIfMissing ::
  "failures \<Rightarrow> (bytes \<Rightarrow> bytes) \<Rightarrow> (bytes list \<Rightarrow> go_error option) \<Rightarrow> new_user \<Rightarrow> (accounts_db, 'm, int) db_op_in" where
  "InsertUserIfMissing fails lw refuse p = statement fails (\<lambda>s. insert_user lw refuse p (sData s))"

text \<open>The user whose email is the one given, in lower case.\<close>

definition user_row :: "stored_user \<Rightarrow> user" where
  "user_row u = \<lparr>user_ID = user_ID u, user_PasswordHash = user_PasswordHash u, user_Role = user_Role u,
     user_TenantID = user_TenantID u\<rparr>"

definition GetUserByEmail :: "(bytes \<Rightarrow> bytes) \<Rightarrow> accounts_db \<Rightarrow> bytes \<Rightarrow> user option" where
  "GetUserByEmail lw db email = map_option user_row (find (\<lambda>u. user_Email u = lw email) (acUsers db))"

text \<open>
  The queries over \<open>tenants\<close>: every id or row, or only one, in the order of the ids, and
  which of some ids exist.
\<close>

definition ListTenantIDs :: "(bytes \<Rightarrow> 'k :: linorder) \<Rightarrow> accounts_db \<Rightarrow> bytes list" where
  "ListTenantIDs collate db = sort_key collate (tenant_ids db)"

definition q_ListTenants :: "(bytes \<Rightarrow> 'k :: linorder) \<Rightarrow> bytes option \<Rightarrow> accounts_db \<Rightarrow> new_tenant list" where
  "q_ListTenants collate only db =
     sort_key (collate \<circ> ntID) (filter (\<lambda>t. case only of None \<Rightarrow> True | Some i \<Rightarrow> ntID t = i) (acTenants db))"

definition FilterTenantIDs :: "bytes list \<Rightarrow> accounts_db \<Rightarrow> bytes list" where
  "FilterTenantIDs ids db = filter (\<lambda>i. i \<in> set ids) (tenant_ids db)"

subsection \<open>Creating what is missing\<close>

definition tenant_CreateIfMissing ::
  "failures \<Rightarrow> (bytes list \<Rightarrow> go_error option) \<Rightarrow> new_tenant \<Rightarrow> (accounts_db, 'm, unit) db_op_in" where
  "tenant_CreateIfMissing fails refuse p = InsertTenantIfMissing fails refuse p"

definition user_CreateIfMissing ::
  "failures \<Rightarrow> (bytes \<Rightarrow> bytes) \<Rightarrow> (bytes list \<Rightarrow> go_error option) \<Rightarrow> new_user \<Rightarrow> (accounts_db, 'm, bool) db_op_in" where
  "user_CreateIfMissing fails lw refuse p =
     db_bind (InsertUserIfMissing fails lw refuse p) (\<lambda>rows s. (Inr (0 < rows), s))"

record 'd logged = "'d session" +
  sLog :: "log_entry list"

definition log_info :: "bytes \<Rightarrow> attr list \<Rightarrow> 'd logged \<Rightarrow> 'd logged" where
  "log_info message attrs s =
     s\<lparr>sLog := sLog s @ [\<lparr>lgLevel = LevelInfo, lgMessage = message, lgAttrs = attrs\<rparr>]\<rparr>"

record seed_env =
  seFails :: failures
  seLower :: "bytes \<Rightarrow> bytes"
  seRefuse :: "bytes list \<Rightarrow> go_error option"
  seBcrypt :: "nat \<Rightarrow> bcrypt_lib"
  seUnicode :: "int \<Rightarrow> int"

type_synonym 'a seed_op = "accounts_db logged \<Rightarrow> (go_error + 'a) \<times> accounts_db logged"

definition seedUser :: "seed_env \<Rightarrow> bytes \<Rightarrow> bytes \<Rightarrow> bytes \<Rightarrow> bytes option \<Rightarrow> unit seed_op" where
  "seedUser env email password role tenantID s =
     (let email = to_lower (seUnicode env) email in
      case HashPassword (seBcrypt env (sStep s)) password of
        Inl err \<Rightarrow> (Inl (Internalf err (''cannot hash '' @ role @ '' password'')), s)
      | Inr hash \<Rightarrow>
     (case user_CreateIfMissing (seFails env) (seLower env) (seRefuse env)
             \<lparr>nuEmail = email, nuPasswordHash = hash, nuRole = role, nuTenantID = tenantID\<rparr> s of
        (Inl err, s1) \<Rightarrow> (Inl (Internalf err (''cannot seed '' @ role @ '' user'')), s1)
      | (Inr created, s1) \<Rightarrow>
          (Inr (),
           log_info (if created then ''created user'' else ''user already exists; left unchanged'')
             [text_attr ''email'' email, text_attr ''role'' role] s1)))"

definition demoTenants :: "new_tenant list" where
  "demoTenants =
     [\<lparr>ntID = ''demoA'', ntName = ''Demo A''\<rparr>,
      \<lparr>ntID = ''demoB'', ntName = ''Demo B''\<rparr>,
      \<lparr>ntID = ''demoC'', ntName = ''Demo C''\<rparr>]"

record seed_params =
  AdminEmail :: bytes
  AdminPassword :: bytes
  ViewerPassword :: bytes

definition viewer_email :: "(int \<Rightarrow> int) \<Rightarrow> new_tenant \<Rightarrow> bytes" where
  "viewer_email ul t = ''viewer@'' @ to_lower ul (ntID t) @ ''.local''"

fun seed_tenants :: "seed_env \<Rightarrow> seed_params \<Rightarrow> new_tenant list \<Rightarrow> unit seed_op" where
  "seed_tenants env p [] s = (Inr (), s)"
| "seed_tenants env p (t # ts) s =
     db_bind (map_error (\<lambda>err. Internalf err (''cannot seed tenant '' @ ntID t))
                (tenant_CreateIfMissing (seFails env) (seRefuse env) t))
       (\<lambda>_. db_bind
          (seedUser env (viewer_email (seUnicode env) t) (ViewerPassword p) ''viewer'' (Some (ntID t)))
          (\<lambda>_. seed_tenants env p ts)) s"

definition Seed :: "seed_env \<Rightarrow> seed_params \<Rightarrow> unit seed_op" where
  "Seed env p =
     InTx (seFails env)
       (db_bind (seed_tenants env p demoTenants)
          (\<lambda>_. seedUser env (AdminEmail p) (AdminPassword p) ''admin'' None))"

subsection \<open>What each step does\<close>

lemma insert_tenant_Inr:
  assumes "insert_tenant refuse p db = Inr (x, db')"
  shows "acUsers db' = acUsers db"
    and "acTenants db' = acTenants db @ filter (\<lambda>t. ntID t \<notin> set (tenant_ids db)) [p]"
    and "acNextUser db' = acNextUser db"
    and "ValidTenantID (ntID p)"
  using assms by (auto simp: insert_tenant_def split: option.splits if_splits)

text \<open>The row of a new user.\<close>

definition new_row :: "(bytes \<Rightarrow> bytes) \<Rightarrow> accounts_db \<Rightarrow> new_user \<Rightarrow> stored_user" where
  "new_row lw db p =
     \<lparr>user_ID = acNextUser db, user_PasswordHash = nuPasswordHash p, user_Role = nuRole p,
      user_TenantID = nuTenantID p, user_Email = lw (nuEmail p)\<rparr>"

lemma insert_user_Inr:
  assumes "insert_user lw refuse p db = Inr (n, db')"
  shows "acTenants db' = acTenants db" and "acNextUser db' = acNextUser db + 1"
    and "n = (if lw (nuEmail p) \<in> set (emails db) then 0 else 1)"
    and "acUsers db' = acUsers db @ (if lw (nuEmail p) \<in> set (emails db) then [] else [new_row lw db p])"
    and "user_check lw (lw (nuEmail p)) (nuRole p) (nuTenantID p)"
    and "lw (nuEmail p) \<notin> set (emails db) \<Longrightarrow> nuTenantID p = Some t \<Longrightarrow> t \<in> set (tenant_ids db)"
  using assms by (auto simp: insert_user_def new_row_def Let_def split: option.splits if_splits)

text \<open>
  The tables stay well-formed: the ids of tenants and the emails and ids of users are
  distinct, and what the constraints say holds of each row.
\<close>

definition user_ok :: "(bytes \<Rightarrow> bytes) \<Rightarrow> bytes list \<Rightarrow> int \<Rightarrow> stored_user \<Rightarrow> bool" where
  "user_ok lw ids n u \<longleftrightarrow>
     1 \<le> user_ID u \<and> user_ID u < n
     \<and> user_check lw (user_Email u) (user_Role u) (user_TenantID u)
     \<and> set_option (user_TenantID u) \<subseteq> set ids"

definition accounts_wf :: "(bytes \<Rightarrow> bytes) \<Rightarrow> accounts_db \<Rightarrow> bool" where
  "accounts_wf lw db \<longleftrightarrow>
     distinct (tenant_ids db) \<and> list_all ValidTenantID (tenant_ids db)
     \<and> distinct (emails db) \<and> distinct (map user_ID (acUsers db))
     \<and> 1 \<le> acNextUser db
     \<and> list_all (user_ok lw (tenant_ids db) (acNextUser db)) (acUsers db)"

lemma insert_tenant_wf:
  assumes "accounts_wf lw db" and "insert_tenant refuse p db = Inr (x, db')"
  shows "accounts_wf lw db'"
  using assms(1) insert_tenant_Inr [OF assms(2)]
  by (auto simp: accounts_wf_def user_ok_def tenant_ids_def emails_def list_all_iff)

lemma insert_user_wf:
  assumes wf: "accounts_wf lw db" and ins: "insert_user lw refuse p db = Inr (n, db')"
  shows "accounts_wf lw db'"
proof -
  note ins' = insert_user_Inr [OF ins]
  have ids: "tenant_ids db' = tenant_ids db" using ins'(1) by (simp add: tenant_ids_def)
  have old: "list_all (user_ok lw (tenant_ids db) (acNextUser db')) (acUsers db)"
    using wf by (auto simp: accounts_wf_def user_ok_def ins'(2) elim!: list.pred_mono_strong)
  show ?thesis
  proof (cases "lw (nuEmail p) \<in> set (emails db)")
    case True
    then have "acUsers db' = acUsers db" using ins'(4) by simp
    with wf old show ?thesis by (simp add: accounts_wf_def ids emails_def ins'(2))
  next
    case False
    then have users: "acUsers db' = acUsers db @ [new_row lw db p]" using ins'(4) by simp
    have "acNextUser db \<notin> user_ID ` set (acUsers db)"
      using wf by (fastforce simp: accounts_wf_def user_ok_def list_all_iff)
    moreover have "set_option (nuTenantID p) \<subseteq> set (tenant_ids db)"
      using ins'(6) [OF False] by auto
    ultimately show ?thesis
      using False wf old ins'(5)
      by (simp add: accounts_wf_def ids emails_def users ins'(2)) (simp add: new_row_def user_ok_def)
  qed
qed

lemma statement_insert_tenant:
  assumes "InsertTenantIfMissing fails refuse p s = (Inr x, s')"
  obtains db' where "insert_tenant refuse p (sData s) = Inr (x, db')"
    and "s' = s\<lparr>sStep := sStep s + 1, sData := db'\<rparr>"
  using assms statement_Inr by (fastforce simp: InsertTenantIfMissing_def)

lemma statement_insert_user:
  assumes "InsertUserIfMissing fails lw refuse p s = (Inr x, s')"
  obtains db' where "insert_user lw refuse p (sData s) = Inr (x, db')"
    and "s' = s\<lparr>sStep := sStep s + 1, sData := db'\<rparr>"
  using assms statement_Inr by (fastforce simp: InsertUserIfMissing_def)

subsection \<open>What a seed is meant to do\<close>

text \<open>
  The accounts a seed asks for, in its order, and the ones of them nobody has yet when the
  emails in use are \<open>used\<close>.
\<close>

record account =
  wnEmail :: bytes
  wnPassword :: bytes
  wnRole :: bytes
  wnTenant :: "bytes option"

definition viewer_account :: "seed_env \<Rightarrow> seed_params \<Rightarrow> new_tenant \<Rightarrow> account" where
  "viewer_account env p t =
     \<lparr>wnEmail = viewer_email (seUnicode env) t, wnPassword = ViewerPassword p, wnRole = ''viewer'',
      wnTenant = Some (ntID t)\<rparr>"

definition admin_account :: "seed_params \<Rightarrow> account" where
  "admin_account p =
     \<lparr>wnEmail = AdminEmail p, wnPassword = AdminPassword p, wnRole = ''admin'', wnTenant = None\<rparr>"

definition seed_accounts :: "seed_env \<Rightarrow> seed_params \<Rightarrow> account list" where
  "seed_accounts env p = map (viewer_account env p) demoTenants @ [admin_account p]"

definition account_email :: "seed_env \<Rightarrow> account \<Rightarrow> bytes" where
  "account_email env a = seLower env (to_lower (seUnicode env) (wnEmail a))"

fun missing :: "seed_env \<Rightarrow> bytes set \<Rightarrow> account list \<Rightarrow> account list" where
  "missing env used [] = []"
| "missing env used (a # as) =
     (if account_email env a \<in> used then [] else [a]) @ missing env (insert (account_email env a) used) as"

definition account_line :: "seed_env \<Rightarrow> bool \<Rightarrow> account \<Rightarrow> log_entry" where
  "account_line env created a =
     \<lparr>lgLevel = LevelInfo,
      lgMessage = (if created then ''created user'' else ''user already exists; left unchanged''),
      lgAttrs = [text_attr ''email'' (to_lower (seUnicode env) (wnEmail a)), text_attr ''role'' (wnRole a)]\<rparr>"

fun account_lines :: "seed_env \<Rightarrow> bytes set \<Rightarrow> account list \<Rightarrow> log_entry list" where
  "account_lines env used [] = []"
| "account_lines env used (a # as) =
     account_line env (account_email env a \<notin> used) a # account_lines env (insert (account_email env a) used) as"

text \<open>A row made for an account: its role and tenant, and a hash of its password.\<close>

definition made_for :: "seed_env \<Rightarrow> account \<Rightarrow> stored_user \<Rightarrow> bool" where
  "made_for env a u \<longleftrightarrow>
     user_Email u = account_email env a \<and> user_Role u = wnRole a \<and> user_TenantID u = wnTenant a
     \<and> (\<exists>n. HashPassword (seBcrypt env n) (wnPassword a) = Inr (user_PasswordHash u))"

definition seeds :: "seed_env \<Rightarrow> new_tenant list \<Rightarrow> account list \<Rightarrow> accounts_db logged \<Rightarrow> accounts_db logged \<Rightarrow> bool" where
  "seeds env ts as s s' \<longleftrightarrow>
     acTenants (sData s') = acTenants (sData s) @ filter (\<lambda>t. ntID t \<notin> set (tenant_ids (sData s))) ts
     \<and> (\<exists>us. acUsers (sData s') = acUsers (sData s) @ us
          \<and> list_all2 (made_for env) (missing env (set (emails (sData s))) as) us)
     \<and> sLog s' = sLog s @ account_lines env (set (emails (sData s))) as
     \<and> (accounts_wf (seLower env) (sData s) \<longrightarrow> accounts_wf (seLower env) (sData s'))"

lemma missing_append:
  "missing env used (as @ bs) = missing env used as @ missing env (used \<union> account_email env ` set as) bs"
  by (induction as arbitrary: used) auto

lemma account_lines_append:
  "account_lines env used (as @ bs) =
     account_lines env used as @ account_lines env (used \<union> account_email env ` set as) bs"
  by (induction as arbitrary: used) auto

lemma missing_emails:
  "used \<union> account_email env ` set (missing env used as) = used \<union> account_email env ` set as"
proof (induction as arbitrary: used)
  case (Cons a as)
  have "used \<union> account_email env ` set (missing env used (a # as))
      = insert (account_email env a) used \<union> account_email env ` set (missing env (insert (account_email env a) used) as)"
    by (auto simp: insert_absorb)
  also have "\<dots> = used \<union> account_email env ` set (a # as)" unfolding Cons.IH by simp
  finally show ?case .
qed simp

lemma missing_none: "account_email env ` set as \<subseteq> used \<Longrightarrow> missing env used as = []"
  by (induction as arbitrary: used) (auto simp: insert_absorb)

lemma made_for_emails:
  "list_all2 (made_for env) as us \<Longrightarrow> user_Email ` set us = account_email env ` set as"
  by (induction rule: list_all2_induct) (auto simp: made_for_def)

lemma seeds_emails:
  assumes "seeds env ts as s s'"
  shows "set (emails (sData s')) = set (emails (sData s)) \<union> account_email env ` set as"
proof -
  from assms obtain us where "acUsers (sData s') = acUsers (sData s) @ us"
    and "list_all2 (made_for env) (missing env (set (emails (sData s))) as) us"
    by (auto simp: seeds_def)
  then have "set (emails (sData s')) = set (emails (sData s)) \<union> account_email env ` set (missing env (set (emails (sData s))) as)"
    by (simp add: emails_def image_Un made_for_emails)
  then show ?thesis unfolding missing_emails .
qed

lemma seeds_tenants:
  "seeds env ts as s s' \<Longrightarrow> set (tenant_ids (sData s')) = set (tenant_ids (sData s)) \<union> ntID ` set ts"
  by (auto simp: seeds_def tenant_ids_def)

lemma seeds_refl: "seeds env [] [] s s"
  by (simp add: seeds_def)

lemma seeds_trans:
  assumes "seeds env ts as s s1" and "seeds env us bs s1 s2" and "ntID ` set ts \<inter> ntID ` set us = {}"
  shows "seeds env (ts @ us) (as @ bs) s s2"
proof -
  have "filter (\<lambda>t. ntID t \<notin> set (tenant_ids (sData s1))) us = filter (\<lambda>t. ntID t \<notin> set (tenant_ids (sData s))) us"
    using assms(3) seeds_tenants [OF assms(1)] by (intro filter_cong refl) auto
  then show ?thesis
    using assms(1,2) seeds_emails [OF assms(1)]
    by (auto simp: seeds_def missing_append account_lines_append intro: list_all2_appendI)
qed

lemma tenant_CreateIfMissing_seeds:
  assumes "tenant_CreateIfMissing fails refuse t s = (Inr x, s')"
  shows "seeds env [t] [] s s'"
  using assms insert_tenant_wf insert_tenant_Inr
  by (fastforce simp: tenant_CreateIfMissing_def seeds_def elim!: statement_insert_tenant)

lemma seedUser_seeds:
  assumes "seedUser env email password role tenant s = (Inr x, s')"
  shows "seeds env [] [\<lparr>wnEmail = email, wnPassword = password, wnRole = role, wnTenant = tenant\<rparr>] s s'"
proof -
  let ?p = "\<lambda>hash. \<lparr>nuEmail = to_lower (seUnicode env) email, nuPasswordHash = hash, nuRole = role, nuTenantID = tenant\<rparr>"
  from assms obtain hash n db' where hash: "HashPassword (seBcrypt env (sStep s)) password = Inr hash"
    and ins: "insert_user (seLower env) (seRefuse env) (?p hash) (sData s) = Inr (n, db')"
    and s': "s' = log_info (if 0 < n then ''created user'' else ''user already exists; left unchanged'')
             [text_attr ''email'' (to_lower (seUnicode env) email), text_attr ''role'' role] (s\<lparr>sStep := sStep s + 1, sData := db'\<rparr>)"
    by (auto simp: seedUser_def user_CreateIfMissing_def Let_def db_bind_Inr
        split: sum.splits prod.splits elim!: statement_insert_user)
  show ?thesis
    using hash insert_user_Inr(1,3,4) [OF ins] insert_user_wf [OF _ ins]
    by (auto simp: seeds_def s' log_info_def made_for_def account_email_def account_line_def new_row_def)
qed

lemma seed_tenants_seeds:
  assumes "seed_tenants env p ts s = (Inr x, s')" and "distinct (map ntID ts)"
  shows "seeds env ts (map (viewer_account env p) ts) s s'"
  using assms
proof (induction ts arbitrary: s)
  case Nil
  then show ?case by (simp add: seeds_refl)
next
  case (Cons t ts)
  from Cons.prems(1) obtain x1 s1 x2 s2 where "tenant_CreateIfMissing (seFails env) (seRefuse env) t s = (Inr x1, s1)"
    and "seedUser env (viewer_email (seUnicode env) t) (ViewerPassword p) ''viewer'' (Some (ntID t)) s1 = (Inr x2, s2)"
    and rest: "seed_tenants env p ts s2 = (Inr x, s')"
    by (auto simp: db_bind_Inr)
  then have "seeds env [t] [] s s1" "seeds env [] [viewer_account env p t] s1 s2"
    by (auto simp: viewer_account_def intro: tenant_CreateIfMissing_seeds seedUser_seeds)
  then have "seeds env ([t] @ []) ([] @ [viewer_account env p t]) s s2" by (rule seeds_trans) simp
  moreover have "seeds env ts (map (viewer_account env p) ts) s2 s'"
    using Cons.IH [OF rest] Cons.prems(2) by simp
  ultimately have "seeds env (([t] @ []) @ ts) (([] @ [viewer_account env p t]) @ map (viewer_account env p) ts) s s'"
    by (rule seeds_trans) (use Cons.prems(2) in auto)
  then show ?case by simp
qed

lemma InTx_Inr_log:
  assumes "InTx fails fn s0 = (Inr x, s')"
  obtains s2 where "fn (s0\<lparr>sStep := sStep s0 + 1, sDepth := sDepth s0 + 1\<rparr>) = (Inr x, s2)"
    and "sData s' = sData s2" and "sLog s' = sLog s2"
  using assms
  by (auto simp: InTx_def interact_def commit_def split: prod.splits sum.splits option.splits)

lemma Seed_Inl: "Seed env p s = (Inl e, s') \<Longrightarrow> sData s' = sData s"
  unfolding Seed_def by (drule InTx_Inl_data) simp

lemma Seed_Inr:
  assumes "Seed env p s = (Inr x, s')"
  shows "seeds env demoTenants (seed_accounts env p) s s'"
proof -
  from assms obtain s1 s2 x1 s0
    where s0: "s0 = s\<lparr>sStep := sStep s + 1, sDepth := sDepth s + 1\<rparr>"
      and ts: "seed_tenants env p demoTenants s0 = (Inr x1, s1)"
      and admin: "seedUser env (AdminEmail p) (AdminPassword p) ''admin'' None s1 = (Inr x, s2)"
      and s': "sData s' = sData s2" "sLog s' = sLog s2"
    by (auto simp: Seed_def db_bind_Inr elim!: InTx_Inr_log)
  have "seeds env demoTenants (map (viewer_account env p) demoTenants) s0 s1"
    using ts by (rule seed_tenants_seeds) (simp add: demoTenants_def)
  moreover have "seeds env [] [admin_account p] s1 s2"
    unfolding admin_account_def using admin by (rule seedUser_seeds)
  ultimately have "seeds env (demoTenants @ []) (seed_accounts env p) s0 s2"
    unfolding seed_accounts_def by (rule seeds_trans) simp
  then show ?thesis by (simp add: seeds_def s0 s')
qed

text \<open>
  C20. A seed is all or nothing, and only adds: when it fails the tables are as they were; when
  it succeeds every tenant and user there was is still there, unchanged, followed by the
  demonstration tenants that were missing and one user for each account whose email nobody
  had, in the order asked for, with the account's role and tenant and a hash of its own
  password; the log has a line for each account that says which was the case. The constraints
  of the tables hold afterwards.
\<close>

theorem Seed_creates:
  assumes "accounts_wf (seLower env) (sData s)"
  shows "case Seed env p s of
      (Inl err, s') \<Rightarrow> sData s' = sData s
    | (Inr _, s') \<Rightarrow>
        acTenants (sData s') = acTenants (sData s) @ filter (\<lambda>t. ntID t \<notin> set (tenant_ids (sData s))) demoTenants
        \<and> (\<exists>us. acUsers (sData s') = acUsers (sData s) @ us
             \<and> list_all2 (made_for env) (missing env (set (emails (sData s))) (seed_accounts env p)) us)
        \<and> sLog s' = sLog s @ account_lines env (set (emails (sData s))) (seed_accounts env p)
        \<and> accounts_wf (seLower env) (sData s')"
proof (cases "Seed env p s")
  case (Pair r s')
  then show ?thesis
    using assms Seed_Inr [of env p s _ s'] Seed_Inl [of env p s _ s']
    by (cases r) (auto simp: seeds_def)
qed

text \<open>
  Seeding again changes nothing: after a seed that succeeded, a run with the same
  administrator's email, whatever its passwords, salts and failures, leaves every tenant and
  user as it is, the passwords that were changed in between included.
\<close>

theorem Seed_rerun:
  "case Seed env p s of
     (Inl _, _) \<Rightarrow> True
   | (Inr _, s') \<Rightarrow>
       (case Seed (env\<lparr>seFails := fails, seRefuse := refuse, seBcrypt := bc\<rparr>)
               (p\<lparr>AdminPassword := a, ViewerPassword := v\<rparr>)
               (s'\<lparr>sData := (sData s')\<lparr>acUsers := map (\<lambda>u. u\<lparr>user_PasswordHash := changed u\<rparr>) (acUsers (sData s'))\<rparr>\<rparr>) of
          (_, s'') \<Rightarrow> acTenants (sData s'') = acTenants (sData s')
            \<and> acUsers (sData s'') = map (\<lambda>u. u\<lparr>user_PasswordHash := changed u\<rparr>) (acUsers (sData s')))"
proof -
  define env' where "env' = env\<lparr>seFails := fails, seRefuse := refuse, seBcrypt := bc\<rparr>"
  define p' where "p' = p\<lparr>AdminPassword := a, ViewerPassword := v\<rparr>"
  have same: "account_email env' ` set (seed_accounts env' p') = account_email env ` set (seed_accounts env p)"
    by (simp add: env'_def p'_def seed_accounts_def admin_account_def viewer_account_def account_email_def
        demoTenants_def)
  have "acTenants (sData s'') = acTenants (sData s1) \<and> acUsers (sData s'') = acUsers (sData s1)"
    if first: "Seed env p s = (Inr x, s')"
      and s1: "tenant_ids (sData s1) = tenant_ids (sData s')" "emails (sData s1) = emails (sData s')"
      and again: "Seed env' p' s1 = (r, s'')" for x s' s1 r s''
  proof (cases r)
    case (Inl e)
    with again Seed_Inl [of env' p' s1 e s''] show ?thesis by simp
  next
    case (Inr y)
    from seeds_emails [OF Seed_Inr [OF first]] seeds_tenants [OF Seed_Inr [OF first]]
    have "account_email env' ` set (seed_accounts env' p') \<subseteq> set (emails (sData s1))"
      and "ntID ` set demoTenants \<subseteq> set (tenant_ids (sData s1))"
      by (auto simp: same s1)
    moreover have "seeds env' demoTenants (seed_accounts env' p') s1 s''"
      using Seed_Inr again by (simp add: Inr)
    ultimately show ?thesis
      by (auto simp: seeds_def missing_none filter_empty_conv)
  qed
  note again = this
  show ?thesis
  proof (cases "Seed env p s")
    case (Pair r s')
    define s1 where "s1 = s'\<lparr>sData := (sData s')\<lparr>acUsers := map (\<lambda>u. u\<lparr>user_PasswordHash := changed u\<rparr>) (acUsers (sData s'))\<rparr>\<rparr>"
    have kept: "tenant_ids (sData s1) = tenant_ids (sData s')" "emails (sData s1) = emails (sData s')"
      and s1: "acTenants (sData s1) = acTenants (sData s')"
        "acUsers (sData s1) = map (\<lambda>u. u\<lparr>user_PasswordHash := changed u\<rparr>) (acUsers (sData s'))"
      by (simp_all add: s1_def tenant_ids_def emails_def)
    obtain r2 s'' where second: "Seed env' p' s1 = (r2, s'')" by fastforce
    show ?thesis
      unfolding Pair s1_def [symmetric] env'_def [symmetric] p'_def [symmetric] second prod.case
      using again [OF _ kept second] Pair by (simp add: s1 split: sum.split)
  qed
qed

text \<open>A server that never fails, a bcrypt that marks what it hashed with its salt, and no rows.\<close>

definition sample_seed :: seed_env where
  "sample_seed =
     \<lparr>seFails = (\<lambda>_. None), seLower = map ascii_lower_byte, seRefuse = (\<lambda>_. None),
      seBcrypt = (\<lambda>n. \<lparr>bcGenerate = (\<lambda>pw. Some (FormatInt (int n) @ ''$'' @ pw)),
                        bcCompare = (\<lambda>h pw. has_suffix h (''$'' @ pw))\<rparr>),
      seUnicode = (\<lambda>r. r)\<rparr>"

definition seed_sample_params :: seed_params where
  "seed_sample_params = \<lparr>AdminEmail = ''Admin@loghub.local'', AdminPassword = ''root'', ViewerPassword = ''view''\<rparr>"

definition sample_empty :: "accounts_db logged" where
  "sample_empty = \<lparr>sData = \<lparr>acTenants = [], acUsers = [], acNextUser = 1\<rparr>, sScope = NoScope, sBase = NoScope, sDepth = 0, sStep = 0,
     sLog = []\<rparr>"

lemma sample_empty_wf: "accounts_wf lw (sData sample_empty)"
  by (simp add: accounts_wf_def sample_empty_def tenant_ids_def emails_def)

theorem Seed_creates_witness:
  "case Seed sample_seed seed_sample_params sample_empty of
     (Inl _, _) \<Rightarrow> False
   | (Inr _, s') \<Rightarrow>
       tenant_ids (sData s') = [''demoA'', ''demoB'', ''demoC'']
       \<and> emails (sData s') = [''viewer@demoa.local'', ''viewer@demob.local'', ''viewer@democ.local'', ''admin@loghub.local'']
       \<and> map user_PasswordHash (acUsers (sData s')) = [''2$view'', ''4$view'', ''6$view'', ''7$root'']
       \<and> accounts_wf (seLower sample_seed) (sData s')"
proof -
  have run: "case Seed sample_seed seed_sample_params sample_empty of
     (Inl _, _) \<Rightarrow> False
   | (Inr _, s') \<Rightarrow>
       tenant_ids (sData s') = [''demoA'', ''demoB'', ''demoC'']
       \<and> emails (sData s') = [''viewer@demoa.local'', ''viewer@demob.local'', ''viewer@democ.local'', ''admin@loghub.local'']
       \<and> map user_PasswordHash (acUsers (sData s')) = [''2$view'', ''4$view'', ''6$view'', ''7$root'']"
    by code_simp
  with Seed_creates [OF sample_empty_wf, of sample_seed seed_sample_params] show ?thesis
    by (auto split: prod.splits sum.splits)
qed

end
