(* ===== verification/Seed_Facts.thy ===== *)
theory Seed_Facts
  imports Accounts Api_Login
begin

text \<open>
  From a seed to a caller: the users that a seed made can sign in with the passwords it was
  given, and the tokens they get are theirs. What is relied on of bcrypt is that a hash it
  made, whatever the salt, matches the password it was made from and is not empty.
\<close>

definition bcrypt_ok :: "(nat \<Rightarrow> bcrypt_lib) \<Rightarrow> bcrypt_lib \<Rightarrow> bool" where
  "bcrypt_ok bc lib \<longleftrightarrow>
     (\<forall>n password h. bcGenerate (bc n) password = Some h \<longrightarrow> h \<noteq> [] \<and> bcCompare lib h password)"

text \<open>The sign-in over the tables.\<close>

definition login_over :: "accounts_db \<Rightarrow> (bytes \<Rightarrow> bytes) \<Rightarrow> bcrypt_lib \<Rightarrow> (caller \<Rightarrow> go_error + bytes \<times> gotime)
    \<Rightarrow> 'l login_env \<Rightarrow> 'l login_env" where
  "login_over db lw lib issue signin =
     signin\<lparr>lnFind := FindByEmail (\<lambda>email. Inr (GetUserByEmail lw db email)), lnBcrypt := lib, lnIssue := issue\<rparr>"

lemma find_distinct: "distinct (map f xs) \<Longrightarrow> x \<in> set xs \<Longrightarrow> find (\<lambda>y. f y = f x) xs = Some x"
  by (induction xs) (auto simp: image_iff)

lemma HashPassword_Check:
  assumes "bcrypt_ok bc lib" and "HashPassword (bc n) password = Inr h"
  shows "CheckPassword lib h password"
  using assms
  by (auto simp: HashPassword_def CheckPassword_def bcrypt_ok_def Let_def split: if_splits option.splits)

lemma list_all2_member: "list_all2 P xs ys \<Longrightarrow> x \<in> set xs \<Longrightarrow> \<exists>y \<in> set ys. P x y"
  by (induction rule: list_all2_induct) auto

lemma seeded_row:
  assumes "accounts_wf (seLower env) (sData s)" and "Seed env p s = (Inr x, s')"
    and "a \<in> set (missing env (set (emails (sData s))) (seed_accounts env p))"
    and "seLower env email = account_email env a"
  obtains u where "u \<in> set (acUsers (sData s'))" and "made_for env a u"
    and "GetUserByEmail (seLower env) (sData s') email = Some (user_row u)"
    and "accounts_wf (seLower env) (sData s')"
proof -
  note seeded = Seed_Inr [OF assms(2)]
  from seeded assms(1) have wf: "accounts_wf (seLower env) (sData s')" by (simp add: seeds_def)
  from seeded obtain us where us: "acUsers (sData s') = acUsers (sData s) @ us"
    and made: "list_all2 (made_for env) (missing env (set (emails (sData s))) (seed_accounts env p)) us"
    by (auto simp: seeds_def)
  from made assms(3) obtain u where u: "u \<in> set us" "made_for env a u"
    by (auto dest: list_all2_member)
  have "find (\<lambda>v. user_Email v = user_Email u) (acUsers (sData s')) = Some u"
    by (rule find_distinct) (use wf u us in \<open>simp_all add: accounts_wf_def emails_def\<close>)
  then have "GetUserByEmail (seLower env) (sData s') email = Some (user_row u)"
    using u(2) assms(4) by (simp add: GetUserByEmail_def made_for_def)
  with u us wf show thesis by (auto intro: that)
qed

text \<open>What the tables let in is what \<open>checkUser\<close> lets through.\<close>

lemma row_signed_in:
  assumes "user_ok lw ids n u" and "list_all ValidTenantID ids" and "UserRole (user_Role u) = Some role"
  shows "signed_in \<lparr>Role = role, Tenant = deref (user_TenantID u), UserID = user_ID u\<rparr>"
    and "role_String role = user_Role u"
  using assms
  by (auto simp: user_ok_def user_check_def signed_in_def UserRole_def role_String_def enum_name_def role_defs
      ValidTenantID_def list_all_iff deref_def split: if_splits option.splits)

lemma row_role:
  "user_ok lw ids n u \<Longrightarrow> UserRole (user_Role u) = Some Admin \<or> UserRole (user_Role u) = Some Viewer"
  by (auto simp: user_ok_def user_check_def UserRole_def role_defs)

lemma tenant_byte_ascii: "tenant_byte c \<Longrightarrow> byte c < 128"
  by (auto simp: tenant_byte_def ascii_digit_def char_le_byte byte_def)

lemma ValidTenantID_utf8: "ValidTenantID t \<Longrightarrow> utf8_valid t"
proof -
  have "list_all tenant_byte t \<Longrightarrow> utf8_valid t"
    by (induction t) (simp_all add: utf8_valid_ascii tenant_byte_ascii)
  then show "ValidTenantID t \<Longrightarrow> utf8_valid t" by (simp add: ValidTenantID_def list_all_iff)
qed

text \<open>
  C12. Who was seeded can sign in: with the email in any case and the password the seed was
  given for it, the sign-in answers with a session for the account's role and tenant, and its
  token is accepted, until it expires, as a caller with that role and tenant; short of a
  failure of the signing library, which is the only other outcome.
\<close>

theorem seeded_users_sign_in:
  assumes "bcrypt_ok (seBcrypt env) lib" and "tokens_lib_ok tlib"
    and "accounts_wf (seLower env) (sData s)" and "Seed env p s = (Inr x, s')"
    and "acNextUser (sData s') < 2 ^ 63"
    and "a \<in> set (missing env (set (emails (sData s))) (seed_accounts env p))"
    and "seLower env email = account_email env a" and "clock \<le> now"
  shows "case rpBody (fst (check_login
        (login_over (sData s') (seLower env) lib (Issue quo tlib secret clock) signin) ri client email (wnPassword a) m)) of
      Inr session \<Rightarrow> ssRole session = wnRole a \<and> ssTenant session = wnTenant a
        \<and> (if now < ssExpiresAt session
           then \<exists>c. Parse quo tlib secret now (ssToken session) = Inr c
             \<and> role_String (Role c) = wnRole a \<and> Tenant c = deref (wnTenant a)
           else True)
    | Inl _ \<Rightarrow> \<exists>cl err. lbSign tlib secret cl = Inl err"
proof -
  obtain u where u: "u \<in> set (acUsers (sData s'))" "made_for env a u"
    and find: "GetUserByEmail (seLower env) (sData s') email = Some (user_row u)"
    and wf: "accounts_wf (seLower env) (sData s')"
    using assms(3,4,6,7) by (rule seeded_row)
  have row: "user_ok (seLower env) (tenant_ids (sData s')) (acNextUser (sData s')) u"
    and ids: "list_all ValidTenantID (tenant_ids (sData s'))"
    using wf u(1) by (auto simp: accounts_wf_def list_all_iff)
  obtain role where role: "UserRole (user_Role u) = Some role" using row_role [OF row] by auto
  define c where "c = \<lparr>Role = role, Tenant = deref (user_TenantID u), UserID = user_ID u\<rparr>"
  have c: "signed_in c" "role_String role = user_Role u"
    unfolding c_def using row_signed_in [OF row ids role] by simp_all
  have check: "CheckPassword lib (user_PasswordHash u) (wnPassword a)"
    using u(2) HashPassword_Check [OF assms(1)] by (auto simp: made_for_def)
  have "utf8_valid (Tenant c)" "UserID c < 2 ^ 63"
    using row ids assms(5) by (auto simp: c_def user_ok_def list_all_iff deref_def ValidTenantID_utf8 split: option.splits)
  then have parse: "if now < expires then Parse quo tlib secret now token = Inr c else True"
    if "Issue quo tlib secret clock c = Inr (token, expires)" for token expires
    using Issue_Parse_accepts [OF assms(2) that _ _ assms(8)] by simp
  show ?thesis
  proof (cases "Issue quo tlib secret clock c")
    case (Inl err)
    then have "\<exists>cl e. lbSign tlib secret cl = Inl e"
      using c(1) by (auto simp: Issue_def checkUser_None [THEN iffD2] Let_def split: sum.splits)
    with Inl find check role show ?thesis
      by (simp add: check_login_def login_user_def login_over_def FindByEmail_def user_row_def result_simps c_def)
  next
    case (Inr te)
    then obtain token expires where te: "Issue quo tlib secret clock c = Inr (token, expires)" by (cases te) auto
    with parse [OF te] find check role c u(2) show ?thesis
      by (simp add: check_login_def login_user_def login_over_def FindByEmail_def user_row_def result_simps c_def
          made_for_def)
  qed
qed

text \<open>A library that signs for one user only, and a sign-in with nothing else in it.\<close>

definition paper_lib :: tokens_lib where
  "paper_lib = \<lparr>
     lbSign = (\<lambda>secret c. if clRole c = ''admin'' \<and> clTenant c = [] \<and> clSubject c = ''4'' \<and> clIssuedAt c = 0
         \<and> clExpiresAt c = TokenTTL then Inr ''t'' else Inl (Foreign ''cannot sign'' [])),
     lbVerify = (\<lambda>secret now token. if token = ''t'' \<and> 0 \<le> now \<and> now < TokenTTL
         then Inr \<lparr>clRole = ''admin'', clTenant = [], clSubject = ''4'', clIssuedAt = 0, clExpiresAt = TokenTTL\<rparr>
         else Inl (Foreign ''cannot verify'' []))\<rparr>"

definition sample_signin :: "unit login_env" where
  "sample_signin = \<lparr>lnEnforcer = program_enforcer, lnLower = (\<lambda>r. r), lnJsonErr = (\<lambda>_. Foreign [] []),
     lnAllow = (\<lambda>_ l. (undefined, l)), lnFind = (\<lambda>_. Inl (Foreign [] [])), lnBcrypt = seBcrypt sample_seed 0,
     lnIssue = (\<lambda>_. Inl (Foreign [] []))\<rparr>"

lemma sample_bcrypt: "bcrypt_ok (seBcrypt sample_seed) (seBcrypt sample_seed 0)"
  by (auto simp: bcrypt_ok_def sample_seed_def has_suffix_def has_prefix_def)

definition sample_session :: "session_body answer" where
  "sample_session =
     fst (check_login
       (login_over (sData (snd (Seed sample_seed seed_sample_params sample_empty))) (seLower sample_seed) (seBcrypt sample_seed 0)
          (Issue (\<lambda>s. s) paper_lib [] 0) sample_signin)
       \<lparr>riID = [], riPath = [], riGone = False\<rparr> None ''ADMIN@loghub.local'' ''root'' api_newMetrics)"

theorem seeded_users_sign_in_witness:
  "case rpBody sample_session of
     Inr session \<Rightarrow> ssRole session = ''admin'' \<and> ssTenant session = None \<and> ssToken session = ''t''
       \<and> (\<exists>c. Parse (\<lambda>s. s) paper_lib [] hour ''t'' = Inr c \<and> role_String (Role c) = ''admin'' \<and> Tenant c = [])
   | Inl _ \<Rightarrow> False"
proof -
  obtain x s' where run: "Seed sample_seed seed_sample_params sample_empty = (Inr x, s')"
    and n: "acNextUser (sData s') = 5"
  proof -
    have "case Seed sample_seed seed_sample_params sample_empty of (Inr x, s') \<Rightarrow> acNextUser (sData s') = 5 | _ \<Rightarrow> False"
      by code_simp
    then show thesis by (auto split: prod.splits sum.splits intro: that)
  qed
  have lib: "tokens_lib_ok paper_lib"
    by (auto simp: tokens_lib_ok_def paper_lib_def split: if_splits)
  have a: "admin_account seed_sample_params \<in> set (missing sample_seed (set (emails (sData sample_empty))) (seed_accounts sample_seed seed_sample_params))"
    and email: "seLower sample_seed ''ADMIN@loghub.local'' = account_email sample_seed (admin_account seed_sample_params)"
    by code_simp+
  have pw: "wnPassword (admin_account seed_sample_params) = ''root''" "wnRole (admin_account seed_sample_params) = ''admin''"
    "wnTenant (admin_account seed_sample_params) = None"
    by (simp_all add: admin_account_def seed_sample_params_def)
  have ok: "case rpBody sample_session of Inr session \<Rightarrow> hour < ssExpiresAt session \<and> ssToken session = ''t'' | Inl _ \<Rightarrow> False"
    by code_simp
  have "acNextUser (sData s') < 2 ^ 63" "(0::int) \<le> hour" by (simp_all add: n duration_defs)
  note facts = seeded_users_sign_in [OF sample_bcrypt lib sample_empty_wf run this(1) a email this(2),
      where quo = "\<lambda>s. s" and secret = "[]" and signin = sample_signin and client = None and m = api_newMetrics
        and ri = "\<lparr>riID = [], riPath = [], riGone = False\<rparr>"]
  have "sample_session = fst (check_login
       (login_over (sData s') (seLower sample_seed) (seBcrypt sample_seed 0) (Issue (\<lambda>s. s) paper_lib [] 0) sample_signin)
       \<lparr>riID = [], riPath = [], riGone = False\<rparr> None ''ADMIN@loghub.local'' ''root'' api_newMetrics)"
    by (simp add: sample_session_def run)
  with facts ok show ?thesis
    by (auto simp: pw deref_def split: sum.splits)
qed

end
