(* ===== verification/Api_Server.thy ===== *)
theory Api_Server
  imports Api_Rules Auth
begin

text \<open>
  \<open>internal/api/server.go\<close>: the parts of a server, and what it does with a request - its
  credential, its route, its parameters, its handler, and the wrapper around all of them.
\<close>

subsection \<open>The server\<close>

text \<open>
  \<open>New\<close>: it fails if the policies do not hold together; without a limiter for sign-ins, it makes
  one. The problems are the error's.
\<close>

definition api_New :: "limiter option \<Rightarrow> (problem list + enforcer \<times> limiter) outcome" where
  "api_New signIns =
     (case New policies of
        Inl problems \<Rightarrow> Ret (Inl problems)
      | Inr e \<Rightarrow>
          (case signIns of
             Some l \<Rightarrow> Ret (Inr (e, l))
           | None \<Rightarrow> outcome_bind (limiter_New ''sign-in'' signInsPerMinute) (\<lambda>l. Ret (Inr (e, l)))))"

definition readyCheckTimeout :: duration where "readyCheckTimeout = 2 * second"

text \<open>\<open>ready\<close> is the error of the check, which ends after \<open>readyCheckTimeout\<close>.\<close>

definition GetHealth :: "enforcer \<Rightarrow> (duration \<Rightarrow> go_error option) \<Rightarrow> request_info \<Rightarrow> caller \<Rightarrow> bytes answer" where
  "GetHealth e ready ri c =
     (case Authorize e c Health Read [] of
        Some err \<Rightarrow> fail_answer ri err
      | None \<Rightarrow>
     (case ready readyCheckTimeout of
        Some err \<Rightarrow> fail_answer ri err
      | None \<Rightarrow> ok_answer 200 ''ok''))"

text \<open>The document the generated code was built from, or the error of reading it.\<close>

definition serve_spec :: "go_error + bytes \<Rightarrow> request_info \<Rightarrow> bytes answer" where
  "serve_spec spec ri =
     (case spec of
        Inl err \<Rightarrow> fail_answer ri (Internalf err ''cannot load embedded spec'')
      | Inr doc \<Rightarrow> ok_answer 200 doc)"

definition serve_docs :: "bytes \<Rightarrow> bytes answer" where
  "serve_docs page =
     \<lparr>rpStatus = 200, rpHeaders = [(''Content-Type'', ''text/html; charset=utf-8'')], rpBody = Inr page, rpLog = []\<rparr>"

subsection \<open>From a request to its handler\<close>

datatype api_body =
    StatusBody bytes | DocBody bytes | TenantsBody "(bytes \<times> bytes) list" | IngestBody ingest_result
  | PageBody event_page | TopBody top_value_list | TimelineBody timeline | RulesBody "api_alert_rule list"
  | RuleBody api_alert_rule | AlertsBody "api_alert list" | SessionBody session_body

text \<open>
  A server with its repositories: \<open>'e\<close> is the world of the events, \<open>'a\<close> the one of rules and
  alerts, \<open>'l\<close> the limiter's. \<open>svcIngest\<close>, \<open>svcLogin\<close> and \<open>svcRules\<close> are what those handlers use,
  all with the one enforcer of \<open>svcServer\<close>.
\<close>

record ('e, 'a, 'l, 'q) parts =
  svcServer :: server
  svcBinding :: "'q binding_lib"
  svcReady :: "duration \<Rightarrow> go_error option"
  svcEvents :: events_reader
  svcTenants :: "bytes \<Rightarrow> go_error + (bytes \<times> bytes) list"
  svcIngest :: "'e ingest_env"
  svcLogin :: "'l login_env"
  svcRules :: rule_env
  svcListRules :: "scope \<Rightarrow> bytes \<Rightarrow> 'a \<Rightarrow> (go_error + alert_rule list) \<times> 'a"
  svcListAlerts :: "scope \<Rightarrow> bytes \<Rightarrow> int \<Rightarrow> 'a \<Rightarrow> (go_error + alert list) \<times> 'a"
  svcCreateRule :: "scope \<Rightarrow> new_alert_rule \<Rightarrow> 'a \<Rightarrow> (go_error + alert_rule) \<times> 'a"
  svcSpec :: "go_error + bytes"
  svcDocs :: bytes

record ('e, 'a, 'l) world =
  woEvents :: 'e
  woAlerts :: 'a
  woLimiter :: 'l
  woMetrics :: metrics

record 'q api_request = login_call +
  aqMethod :: bytes
  aqQuery :: 'q
  aqAuthorization :: "bytes list"

definition as_body :: "('b \<Rightarrow> api_body) \<Rightarrow> 'b answer \<Rightarrow> api_body answer" where
  "as_body f a = map_body (map_sum (\<lambda>e. e) f) a"

text \<open>A handler with its parameters, or the answer to one that cannot be bound.\<close>

definition with_params ::
  "request_info \<Rightarrow> param_error + 'p \<Rightarrow> ('p \<Rightarrow> api_body answer \<times> 'w) \<Rightarrow> 'w \<Rightarrow> api_body answer \<times> 'w" where
  "with_params ri bound handler w =
     (case bound of Inl err \<Rightarrow> (paramError ri err, w) | Inr p \<Rightarrow> handler p)"

definition ingested ::
  "('e, 'a, 'l) world \<Rightarrow> (ingest_result answer \<times> metrics \<times> 'e) outcome \<Rightarrow> (api_body answer \<times> ('e, 'a, 'l) world) outcome" where
  "ingested w run =
     outcome_bind run (\<lambda>(a, m, ev). Ret (as_body IngestBody a, w\<lparr>woEvents := ev, woMetrics := m\<rparr>))"

definition alerts_step :: "('b \<Rightarrow> api_body) \<Rightarrow> ('e, 'a, 'l) world \<Rightarrow> 'b answer \<times> 'a \<Rightarrow> api_body answer \<times> ('e, 'a, 'l) world" where
  "alerts_step f w res = (as_body f (fst res), w\<lparr>woAlerts := snd res\<rparr>)"

definition serve ::
  "('e, 'a, 'l, 'q) parts \<Rightarrow> endpoint \<Rightarrow> 'q api_request \<Rightarrow> ('e, 'a, 'l) world
   \<Rightarrow> (api_body answer \<times> ('e, 'a, 'l) world) outcome" where
  "serve p ep r w =
     (let srv = svcServer p; e = srvAuthz srv; b = svcBinding p; q = aqQuery r;
          ri = irInfo r; c = irCaller r; ir = ingest_request.truncate r;
          ingest = (svcIngest p)\<lparr>ieEnforcer := e\<rparr> in
      case ep of
        AtHealth \<Rightarrow> Ret (as_body StatusBody (GetHealth e (svcReady p) ri c), w)
      | AtLogin \<Rightarrow>
          (case Login ((svcLogin p)\<lparr>lnEnforcer := e\<rparr>) (login_call.truncate r) (woMetrics w) (woLimiter w) of
             (a, m, l) \<Rightarrow> Ret (as_body SessionBody a, w\<lparr>woMetrics := m, woLimiter := l\<rparr>))
      | AtTenants \<Rightarrow> Ret (as_body TenantsBody (ListTenants srv (svcTenants p) ri c), w)
      | AtIngestEvent \<Rightarrow> ingested w (IngestEvent ingest ir (woMetrics w) (woEvents w))
      | AtIngestBatch \<Rightarrow> ingested w (IngestBatch ingest ir (woMetrics w) (woEvents w))
      | AtIngestFile \<Rightarrow>
          (case bind_IngestFile b q of
             Inl err \<Rightarrow> Ret (paramError ri err, w)
           | Inr (tenant, source) \<Rightarrow> ingested w (IngestFile ingest ir tenant source (woMetrics w) (woEvents w)))
      | AtSearch \<Rightarrow> Ret (with_params ri (bind_SearchEvents b q)
          (\<lambda>ps. (as_body PageBody (SearchEvents srv (svcEvents p) ri c ps), w)) w)
      | AtTop \<Rightarrow> Ret (with_params ri (bind_TopValues b q)
          (\<lambda>ps. (as_body TopBody (TopValues srv (svcEvents p) ri c ps), w)) w)
      | AtTimeline \<Rightarrow> Ret (with_params ri (bind_Timeline b q)
          (\<lambda>ps. (as_body TimelineBody (api_Timeline srv (svcEvents p) ri c ps), w)) w)
      | AtListRules \<Rightarrow> Ret (with_params ri (bind_ListAlertRules b q)
          (\<lambda>asked. alerts_step RulesBody w (api_ListAlertRules srv (svcListRules p) ri c asked (woAlerts w))) w)
      | AtCreateRule \<Rightarrow> Ret (alerts_step RuleBody w
          (CreateAlertRule e (svcRules p) (svcCreateRule p) ir (woAlerts w)))
      | AtAlerts \<Rightarrow> Ret (with_params ri (bind_ListAlerts b q)
          (\<lambda>ps. alerts_step AlertsBody w (api_ListAlerts srv (svcListAlerts p) ri c ps (woAlerts w))) w)
      | AtOpenAPI \<Rightarrow> Ret (as_body DocBody (serve_spec (svcSpec p) ri), w)
      | AtDocs \<Rightarrow> Ret (as_body DocBody (serve_docs (svcDocs p)), w))"

subsection \<open>The whole of a request\<close>

text \<open>The mux's own answers, which are text.\<close>

definition mux_answer :: "int \<Rightarrow> api_body answer" where
  "mux_answer status =
     \<lparr>rpStatus = status, rpHeaders = [(''Content-Type'', ''text/plain; charset=utf-8'')],
      rpBody = Inr (StatusBody ((if status = 404 then ''404 page not found'' else ''Method Not Allowed'') @ [LF])), rpLog = []\<rparr>"

definition pattern_of :: "bytes \<Rightarrow> bytes \<Rightarrow> bytes" where
  "pattern_of verb path =
     (case find (\<lambda>(v, p, e). p = path \<and> (v = verb \<or> v = ''GET'' \<and> verb = ''HEAD'')) (routes @ own_routes) of
        Some (v, p, e) \<Rightarrow> v @ '' '' @ p
      | None \<Rightarrow> [])"

text \<open>\<open>authenticate\<close> and the mux: \<open>auth\<close> is \<open>Authenticate\<close> of \<open>Auth\<close>.\<close>

definition route_request ::
  "('e, 'a, 'l, 'q) parts \<Rightarrow> (bytes list \<Rightarrow> go_error + caller) \<Rightarrow> 'q api_request \<Rightarrow> ('e, 'a, 'l) world
   \<Rightarrow> (api_body answer \<times> ('e, 'a, 'l) world) outcome" where
  "route_request p auth r w =
     Middleware aqAuthorization auth (\<lambda>r err. Ret (fail_answer (irInfo r) err, w))
       (\<lambda>r c. case endpoint_of (aqMethod r) (riPath (irInfo r)) of
          Inl status \<Rightarrow> Ret (mux_answer status, w)
        | Inr ep \<Rightarrow> serve p ep (r\<lparr>irCaller := c\<rparr>) w) r"

text \<open>
  \<open>Handler\<close>: the wrapper around it all. \<open>enc\<close> encodes a body, \<open>trace\<close> is the text and the stack
  of a panic, and \<open>took\<close> how long the request took.
\<close>

definition answer_writes :: "(error_response + api_body \<Rightarrow> bytes) \<Rightarrow> api_body answer \<Rightarrow> resp_write list" where
  "answer_writes enc a = [WriteHeader (rpStatus a), Write (enc (rpBody a))]"

definition request_caller :: "(bytes list \<Rightarrow> go_error + caller) \<Rightarrow> bytes list \<Rightarrow> caller" where
  "request_caller auth vals = (case auth vals of Inl _ \<Rightarrow> anonymous_caller | Inr c \<Rightarrow> c)"

definition Handler ::
  "('e, 'a, 'l, 'q) parts \<Rightarrow> (bytes list \<Rightarrow> go_error + caller) \<Rightarrow> (error_response + api_body \<Rightarrow> bytes)
   \<Rightarrow> (duration \<Rightarrow> bytes) \<Rightarrow> bytes \<times> bytes \<Rightarrow> duration \<Rightarrow> 'q api_request \<Rightarrow> ('e, 'a, 'l) world
   \<Rightarrow> (resp_write list \<times> log_entry list \<times> ('e, 'a, 'l) world) outcome" where
  "Handler p auth enc milliseconds trace took r w =
     (let ri = irInfo r;
          finish = (\<lambda>writes end_of lines w'.
            outcome_bind (observe (\<lambda>e. enc (Inl e)) milliseconds (pattern_of (aqMethod r) (riPath ri)) (riID ri)
                \<lparr>rqMethod = aqMethod r, rqPath = riPath ri\<rparr> (request_caller auth (aqAuthorization r)) took
                (woMetrics w') writes end_of)
              (\<lambda>ob. Ret (srWrites (obRecorder ob), lines @ obLog ob, w'\<lparr>woMetrics := obMetrics ob\<rparr>))) in
      case route_request p auth r w of
        Panic \<Rightarrow> finish [] (Panics (fst trace) (snd trace)) [] w
      | Ret (a, w') \<Rightarrow> finish (answer_writes enc a) Returns (rpLog a) w')"

end
