(* ===== verification/Program.thy ===== *)
theory Program
  imports Config Seed_Facts Api_Server Jobs
begin

text \<open>
  The commands of \<open>cmd/loghub\<close> (\<open>main.go\<close>, \<open>migrate.go\<close>, \<open>seed.go\<close>, \<open>healthcheck.go\<close>, and what of
  \<open>serve.go\<close> comes before and after serving), and the operations of \<open>internal/platform/pg\<close>
  that only they call. Opening a pool or a connection and running the migrations are calls of
  packages outside the repository: what they answer is an argument. The roles of the
  database are the data of a session.
\<close>

subsection \<open>Pools\<close>

record pg_config =
  pgURL :: bytes
  pgMaxConns :: int
  pgMinConns :: int
  pgMaxConnLifetime :: duration
  pgMaxConnIdleTime :: duration
  pgConnectTimeout :: duration

record pool_config =
  pcMaxConns :: int
  pcMinConns :: int
  pcMaxConnLifetime :: duration
  pcMaxConnIdleTime :: duration
  pcConnectTimeout :: duration

definition unreachable_database :: "go_error \<Rightarrow> go_error" where
  "unreachable_database err =
     Wrapping (Unavailable ''database_unavailable'' ''cannot reach the database'') err"

definition override :: "int \<Rightarrow> int \<Rightarrow> int" where
  "override configured parsed = (if 0 < configured then configured else parsed)"

text \<open>
  \<open>parse\<close> and \<open>open_pool\<close> are pgxpool's; a pool that cannot be reached is closed again.
\<close>

record 'p pgx_lib =
  pxParse :: "bytes \<Rightarrow> go_error + pool_config"
  pxOpen :: "pool_config \<Rightarrow> go_error + 'p"
  pxPing :: "'p \<Rightarrow> go_error option"

definition Check :: "'p pgx_lib \<Rightarrow> 'p \<Rightarrow> go_error option" where
  "Check px pool = map_option unreachable_database (pxPing px pool)"

definition NewPool :: "'p pgx_lib \<Rightarrow> pg_config \<Rightarrow> go_error + 'p" where
  "NewPool px cfg =
     (case pxParse px (pgURL cfg) of
        Inl err \<Rightarrow> Inl (Wrapping (Internal ''database URL is not parseable'') err)
      | Inr pc \<Rightarrow>
     (case pxOpen px
          \<lparr>pcMaxConns = override (pgMaxConns cfg) (pcMaxConns pc),
           pcMinConns = override (pgMinConns cfg) (pcMinConns pc),
           pcMaxConnLifetime = override (pgMaxConnLifetime cfg) (pcMaxConnLifetime pc),
           pcMaxConnIdleTime = override (pgMaxConnIdleTime cfg) (pcMaxConnIdleTime pc),
           pcConnectTimeout = override (pgConnectTimeout cfg) (pcConnectTimeout pc)\<rparr> of
        Inl err \<Rightarrow> Inl (Wrapping (Internal ''cannot create database pool'') err)
      | Inr pool \<Rightarrow>
     (case pxPing px pool of
        Some err \<Rightarrow> Inl (unreachable_database err)
      | None \<Rightarrow> Inr pool)))"

definition pool_for :: "bytes \<Rightarrow> pg_config" where
  "pool_for url = \<lparr>pgURL = url, pgMaxConns = 0, pgMinConns = 0, pgMaxConnLifetime = 0, pgMaxConnIdleTime = 0,
     pgConnectTimeout = 0\<rparr>"

text \<open>
  \<open>PoolCollector\<close>: what it tells Prometheus of a pool (\<open>metrics.go\<close>), read when it is asked. A
  description is a name and a help text; \<open>DescAcquired\<close> and so on are the collector's fields.
\<close>

record pool_stat =
  psAcquiredConns :: int
  psIdleConns :: int
  psTotalConns :: int
  psMaxConns :: int
  psAcquireCount :: int
  psEmptyAcquireCount :: int
  psAcquireDuration :: duration
  psCanceledAcquireCount :: int

type_synonym desc = "bytes \<times> bytes"

definition pool_desc :: "bytes \<Rightarrow> bytes \<Rightarrow> desc" where
  "pool_desc name help = (''loghub_db_pool_'' @ name, help)"

definition DescAcquired :: desc where
  "DescAcquired = pool_desc ''acquired_connections'' ''Database connections in use.''"
definition DescIdle :: desc where
  "DescIdle = pool_desc ''idle_connections'' ''Database connections open and waiting to be used.''"
definition DescTotal :: desc where
  "DescTotal = pool_desc ''total_connections'' ''Database connections open or being opened.''"
definition DescMax :: desc where
  "DescMax = pool_desc ''max_connections'' ''The most database connections the pool will open.''"
definition DescAcquires :: desc where
  "DescAcquires = pool_desc ''acquires_total'' ''Connections taken from the pool.''"
definition DescEmptyAcquires :: desc where
  "DescEmptyAcquires = pool_desc ''empty_acquires_total''
     ''Connections taken from the pool that had to wait for one, because none was idle.''"
definition DescAcquireSeconds :: desc where
  "DescAcquireSeconds = pool_desc ''acquire_seconds_total'' ''Time spent taking connections from the pool, waits included.''"
definition DescCancelled :: desc where
  "DescCancelled = pool_desc ''canceled_acquires_total''
     ''Waits for a connection that were given up, usually by a request that ended first.''"

definition pool_Describe :: "desc list" where
  "pool_Describe = [DescAcquired, DescIdle, DescTotal, DescMax, DescAcquires, DescEmptyAcquires,
     DescAcquireSeconds, DescCancelled]"

datatype metric = Gauge desc rat | CounterMetric desc rat

text \<open>\<open>Duration.Seconds\<close>: the whole seconds and the rest, each as a float.\<close>

definition duration_seconds :: "duration \<Rightarrow> rat" where
  "duration_seconds d =
     (let secs = (if d < 0 then - (- d div second) else d div second); rest = d - secs * second in
      fl (fl (of_int secs) + fl (fl (of_int rest) / 1000000000)))"

definition pool_Collect :: "pool_stat \<Rightarrow> metric list" where
  "pool_Collect s =
     [Gauge DescAcquired (fl (of_int (psAcquiredConns s))),
      Gauge DescIdle (fl (of_int (psIdleConns s))),
      Gauge DescTotal (fl (of_int (psTotalConns s))),
      Gauge DescMax (fl (of_int (psMaxConns s))),
      CounterMetric DescAcquires (fl (of_int (psAcquireCount s))),
      CounterMetric DescEmptyAcquires (fl (of_int (psEmptyAcquireCount s))),
      CounterMetric DescAcquireSeconds (duration_seconds (psAcquireDuration s)),
      CounterMetric DescCancelled (fl (of_int (psCanceledAcquireCount s)))]"

subsection \<open>Roles and migrations\<close>

text \<open>A role: whether it may log in, and its password.\<close>

type_synonym roles = "bytes \<rightharpoonup> bool \<times> bytes option"

text \<open>The statement, which the server quotes itself, and what it does.\<close>

datatype role_statement = AlterRole bytes bytes | CreateRole bytes bytes

definition build_statement :: "bytes \<Rightarrow> bytes \<Rightarrow> roles \<Rightarrow> role_statement" where
  "build_statement role password rs =
     (if rs role \<noteq> None then AlterRole role password else CreateRole role password)"

fun exec_role :: "role_statement \<Rightarrow> roles \<Rightarrow> go_error + unit \<times> roles" where
  "exec_role (AlterRole role password) rs =
     (if rs role = None then Inl (PgError ''42704'' ''role does not exist'')
      else Inr ((), rs(role \<mapsto> (True, Some password))))"
| "exec_role (CreateRole role password) rs =
     (if rs role \<noteq> None then Inl (PgError ''42710'' ''role already exists'')
      else Inr ((), rs(role \<mapsto> (True, Some password))))"

definition role_error :: "bytes \<Rightarrow> bytes \<Rightarrow> go_error \<Rightarrow> go_error" where
  "role_error message role err = Wrapping (With (Internal message) [LogString ''role'', LogString role]) err"

definition EnsureLoginRole :: "(bytes \<Rightarrow> failures) \<Rightarrow> bytes \<Rightarrow> bytes \<Rightarrow> bytes \<Rightarrow> (roles, unit) db_op" where
  "EnsureLoginRole fails url role password s =
     (case interact (fails url) s of
        (Some err, s1) \<Rightarrow> (Inl (unreachable_database err), s1)
      | (None, s1) \<Rightarrow>
          db_bind
            (map_error (role_error ''cannot build role statement'' role)
              (statement (fails url) (\<lambda>s. Inr (build_statement role password (sData s), sData s))))
            (\<lambda>stmt. map_error (role_error ''cannot create or update database role'' role)
              (statement (fails url) (\<lambda>s. exec_role stmt (sData s)))) s1)"

text \<open>
  \<open>goose\<close>: the errors of opening the database and of setting the dialect, and the run of the
  migrations.
\<close>

record 'd goose =
  gsOpen :: "bytes \<Rightarrow> go_error option"
  gsDialect :: "go_error option"
  gsUp :: "bytes \<Rightarrow> 'd session \<Rightarrow> go_error option \<times> 'd session"
  gsStatus :: "bytes \<Rightarrow> 'd session \<Rightarrow> go_error option \<times> 'd session"

definition prepare_goose :: "'d goose \<Rightarrow> bytes \<Rightarrow> go_error option" where
  "prepare_goose g url =
     (case gsOpen g url of
        Some err \<Rightarrow> Some (Wrapping (Internal ''cannot open database for migration'') err)
      | None \<Rightarrow> map_option (\<lambda>err. Wrapping (Internal ''cannot set goose dialect'') err) (gsDialect g))"

definition Migrate :: "'d goose \<Rightarrow> bytes \<Rightarrow> 'd session \<Rightarrow> go_error option \<times> 'd session" where
  "Migrate g url s =
     (case prepare_goose g url of
        Some err \<Rightarrow> (Some err, s)
      | None \<Rightarrow>
     (case gsUp g url s of
        (err, s1) \<Rightarrow> (map_option (\<lambda>e. Wrapping (Internal ''migration failed'') e) err, s1)))"

definition MigrationStatus :: "'d goose \<Rightarrow> bytes \<Rightarrow> 'd session \<Rightarrow> go_error option \<times> 'd session" where
  "MigrationStatus g url s =
     (case prepare_goose g url of Some err \<Rightarrow> (Some err, s) | None \<Rightarrow> gsStatus g url s)"

subsection \<open>Configurations\<close>

record config_lib =
  clListed :: "bytes list \<Rightarrow> bytes"
  clUpper :: "int \<Rightarrow> int"
  clQuote :: "bytes \<Rightarrow> bytes"
  clTypeName :: "ftype \<Rightarrow> bytes"

text \<open>\<open>slog.Level\<close> is the one type of the configurations that reads itself.\<close>

definition Load :: "config_lib \<Rightarrow> ftype \<Rightarrow> lookup \<Rightarrow> go_error + cvalue" where
  "Load cl t lookup =
     LoadFrom (clListed cl) (\<lambda>_. level_UnmarshalText (clUpper cl) (clQuote cl)) (clTypeName cl) t lookup"

definition required :: "bytes \<Rightarrow> field" where
  "required name = Field True (Some name) None ''true'' TString"

definition optional :: "bytes \<Rightarrow> bytes \<Rightarrow> field" where
  "optional name def = Field True (Some name) (Some def) [] TString"

definition log_level_field :: field where
  "log_level_field = Field True (Some ''LOG_LEVEL'') (Some ''info'') [] (TText ''slog.Level'')"

definition healthCheckConfig :: ftype where
  "healthCheckConfig = TStruct ''main.healthCheckConfig'' [optional ''LISTEN_ADDR'' '':8080'']"

definition migrateConfig :: ftype where
  "migrateConfig = TStruct ''main.migrateConfig'' [required ''MIGRATE_DATABASE_URL'', required ''APP_DB_PASSWORD'']"

definition seedConfig :: ftype where
  "seedConfig = TStruct ''main.seedConfig''
     [log_level_field, required ''MIGRATE_DATABASE_URL'', optional ''ADMIN_EMAIL'' ''admin@loghub.local'',
      required ''ADMIN_PASSWORD'', required ''VIEWER_PASSWORD'']"

definition serveConfig :: ftype where
  "serveConfig = TStruct ''main.serveConfig''
     [log_level_field, optional ''LISTEN_ADDR'' '':8080'', required ''DATABASE_URL'', required ''AUTH_SECRET'',
      required ''INGEST_TOKEN'', optional ''METRICS_ADDR'' '':9090'']"

subsection \<open>Commands\<close>

definition appRole :: bytes where "appRole = ''loghub_app''"

text \<open>
  \<open>migrate\<close>: the role first, then the migrations, which grant its privileges. The last branch
  is no value of the struct.
\<close>

definition migrate ::
  "config_lib \<Rightarrow> roles goose \<Rightarrow> (bytes \<Rightarrow> failures) \<Rightarrow> lookup \<Rightarrow> roles session \<Rightarrow> go_error option \<times> roles session" where
  "migrate cl g fails lookup s =
     (case Load cl migrateConfig lookup of
        Inl err \<Rightarrow> (Some err, s)
      | Inr (VStruct [VString url, VString password]) \<Rightarrow>
          (case EnsureLoginRole fails url appRole password s of
             (Inl err, s1) \<Rightarrow> (Some err, s1)
           | (Inr _, s1) \<Rightarrow> Migrate g url s1)
      | _ \<Rightarrow> (None, s))"

text \<open>A logger writes the lines that are at its level or above (\<open>internal/platform/log\<close>).\<close>

fun level_number :: "log_level \<Rightarrow> int" where
  "level_number LevelDebug = - 4"
| "level_number LevelInfo = 0"
| "level_number LevelWarn = 4"
| "level_number LevelError = 8"

definition log_New :: "int \<Rightarrow> log_entry list \<Rightarrow> log_entry list" where
  "log_New level lines = filter (\<lambda>l. level \<le> level_number (lgLevel l)) lines"

text \<open>\<open>seed\<close>; \<open>env pool\<close> is the database behind a pool.\<close>

definition seed ::
  "config_lib \<Rightarrow> 'p pgx_lib \<Rightarrow> ('p \<Rightarrow> seed_env) \<Rightarrow> lookup \<Rightarrow> accounts_db logged \<Rightarrow> go_error option \<times> accounts_db logged" where
  "seed cl px env lookup s =
     (case Load cl seedConfig lookup of
        Inl err \<Rightarrow> (Some err, s)
      | Inr (VStruct [VInt level, VString url, VString email, VString admin, VString viewer]) \<Rightarrow>
          (case NewPool px (pool_for url) of
             Inl err \<Rightarrow> (Some err, s)
           | Inr pool \<Rightarrow>
               (case Seed (env pool)
                    \<lparr>AdminEmail = email, AdminPassword = admin, ViewerPassword = viewer\<rparr> (s\<lparr>sLog := []\<rparr>) of
                  (r, s1) \<Rightarrow>
                    ((case r of Inl err \<Rightarrow> Some err | Inr _ \<Rightarrow> None),
                     s1\<lparr>sLog := sLog s @ log_New level (sLog s1)\<rparr>)))
      | _ \<Rightarrow> (None, s))"

text \<open>\<open>net.SplitHostPort\<close>: the host and the port, or \<open>None\<close> for an error.\<close>

definition port_after :: "bytes \<Rightarrow> bytes \<Rightarrow> bytes \<Rightarrow> bytes \<Rightarrow> (bytes \<times> bytes) option" where
  "port_after host port opens closes =
     (if CHR ''['' \<in> set opens \<or> CHR '']'' \<in> set closes then None else Some (host, port))"

definition SplitHostPort :: "bytes \<Rightarrow> (bytes \<times> bytes) option" where
  "SplitHostPort s =
     (if CHR '':'' \<notin> set s then None
      else
        (let port = rev (takeWhile (\<lambda>c. c \<noteq> CHR '':'') (rev s));
             i = length s - length port - 1 in
         if hd s = CHR ''['' then
           (case index_byte s (CHR '']'') of
              None \<Rightarrow> None
            | Some e \<Rightarrow>
                if e + 1 \<noteq> i then None
                else port_after (take (e - 1) (drop 1 s)) port (drop 1 s) (drop (e + 1) s))
         else if CHR '':'' \<in> set (take i s) then None
         else port_after (take i s) port s s))"

text \<open>
  \<open>healthCheck\<close>: what \<open>SplitHostPort\<close> says is not looked at, so an address it refuses has no
  port. \<open>get\<close> is the request, within the time given, and its status.
\<close>

definition healthCheck ::
  "config_lib \<Rightarrow> (bytes \<Rightarrow> go_error option) \<Rightarrow> (duration \<Rightarrow> bytes \<Rightarrow> go_error + int \<times> bytes) \<Rightarrow> lookup \<Rightarrow> go_error option" where
  "healthCheck cl request get lookup =
     (case Load cl healthCheckConfig lookup of
        Inl err \<Rightarrow> Some err
      | Inr (VStruct [VString addr]) \<Rightarrow>
          (let port = (case SplitHostPort addr of Some (_, p) \<Rightarrow> p | None \<Rightarrow> []);
               url = ''http://127.0.0.1:'' @ port @ ''/api/healthz'' in
           case request url of
             Some err \<Rightarrow> Some err
           | None \<Rightarrow>
          (case get (3 * second) url of
             Inl err \<Rightarrow> Some err
           | Inr (status, text) \<Rightarrow>
               if status \<noteq> 200 then Some (Foreign (''healthz returned '' @ text) []) else None))
      | _ \<Rightarrow> None)"

text \<open>The dispatcher: one argument, one command. \<open>'w\<close> is what the commands act on.\<close>

record 'w commands =
  cmServe :: "'w \<Rightarrow> go_error option \<times> 'w"
  cmMigrate :: "'w \<Rightarrow> go_error option \<times> 'w"
  cmSeed :: "'w \<Rightarrow> go_error option \<times> 'w"
  cmHealth :: "'w \<Rightarrow> go_error option \<times> 'w"
  cmPrintln :: "bytes \<Rightarrow> 'w \<Rightarrow> 'w"

definition usage :: bytes where
  "usage = ''usage: loghub serve | migrate | seed | healthcheck | help''"

definition run :: "'w commands \<Rightarrow> bytes list \<Rightarrow> 'w \<Rightarrow> go_error option \<times> 'w" where
  "run cm args w =
     (if length args \<noteq> 1 then (Some (Foreign usage []), w)
      else
        (let cmd = hd args in
         if cmd = ''serve'' then cmServe cm w
         else if cmd = ''migrate'' then cmMigrate cm w
         else if cmd = ''seed'' then cmSeed cm w
         else if cmd = ''healthcheck'' then cmHealth cm w
         else if cmd = ''help'' then (None, cmPrintln cm usage w)
         else (Some (Foreign (''unknown command: '' @ cmd) []), w)))"

text \<open>\<open>main\<close>: the exit status and what goes to standard error.\<close>

definition main_exit :: "go_error option \<Rightarrow> int \<times> bytes" where
  "main_exit r = (case r of None \<Rightarrow> (0, []) | Some err \<Rightarrow> (1, ''loghub: '' @ error_text err @ [LF]))"

subsection \<open>Serving\<close>

text \<open>
  What \<open>serve\<close> puts together before it listens, in its order: each part is made only when the
  ones before it were. \<open>show_problems\<close> is the text of what is wrong with a set of policies.
\<close>

record 'p program =
  pgmLevel :: int
  pgmAuthenticator :: authenticator
  pgmPool :: 'p
  pgmJobs :: "(bytes \<times> duration) list"
  pgmEnforcer :: enforcer
  pgmLimiter :: limiter
  pgmAddr :: bytes
  pgmMetricsAddr :: bytes

definition wrapped :: "bytes \<Rightarrow> go_error \<Rightarrow> go_error" where
  "wrapped prefix err = Foreign (prefix @ '': '' @ error_text err) [err]"

definition program_jobs :: "(bytes \<times> duration) list" where
  "program_jobs = [(''maintain_partitions'', hour), (''evaluate_alerts'', Interval)]"

definition serve_start ::
  "config_lib \<Rightarrow> (bytes \<Rightarrow> bytes) \<Rightarrow> 'p pgx_lib \<Rightarrow> (problem list \<Rightarrow> bytes) \<Rightarrow> lookup \<Rightarrow> (go_error + 'p program) outcome" where
  "serve_start cl sha256 px show_problems lookup =
     (case Load cl serveConfig lookup of
        Inl err \<Rightarrow> Ret (Inl err)
      | Inr (VStruct [VInt level, VString addr, VString url, VString secret, VString ingest, VString metrics]) \<Rightarrow>
          (case NewTokens secret of
             Inl err \<Rightarrow> Ret (Inl (wrapped ''AUTH_SECRET'' err))
           | Inr tokens \<Rightarrow>
          (case NewAuthenticator sha256 tokens ingest of
             Inl err \<Rightarrow> Ret (Inl (wrapped ''INGEST_TOKEN'' err))
           | Inr authenticator \<Rightarrow>
          (case NewPool px (pool_for url) of
             Inl err \<Rightarrow> Ret (Inl err)
           | Inr pool \<Rightarrow>
               outcome_bind (api_New None)
                 (\<lambda>made. case made of
                      Inl problems \<Rightarrow> Ret (Inl (Foreign (''api policies: '' @ show_problems problems) []))
                    | Inr (e, l) \<Rightarrow>
                        Ret (Inr \<lparr>pgmLevel = level, pgmAuthenticator = authenticator, pgmPool = pool,
                          pgmJobs = program_jobs, pgmEnforcer = e, pgmLimiter = l, pgmAddr = addr,
                          pgmMetricsAddr = metrics\<rparr>)))))
      | _ \<Rightarrow> Panic)"

text \<open>
  The end of it: one of the two listeners returns, or a signal comes. A listener that was
  closed on purpose has not failed.
\<close>

definition ErrServerClosed :: go_error where
  "ErrServerClosed = Foreign ''http: Server closed'' []"

definition listener_result :: "bytes \<Rightarrow> go_error option \<Rightarrow> go_error option" where
  "listener_result name err =
     (case err of
        None \<Rightarrow> None
      | Some e \<Rightarrow> if e = ErrServerClosed then None else Some (wrapped (name @ '' server'') e))"

datatype serve_event = Listener bytes "go_error option" | Signal
datatype serve_action = CloseMetrics | ShutdownAPI duration | CloseAPI

definition serve_end :: "(duration \<Rightarrow> go_error option) \<Rightarrow> serve_event \<Rightarrow> serve_action list \<times> go_error option" where
  "serve_end shutdown ev =
     (case ev of
        Listener name err \<Rightarrow> ([], listener_result name err)
      | Signal \<Rightarrow>
          (case shutdown (10 * second) of
             None \<Rightarrow> ([CloseMetrics, ShutdownAPI (10 * second)], None)
           | Some err \<Rightarrow> ([CloseMetrics, ShutdownAPI (10 * second), CloseAPI], Some err)))"

end
