(* ===== verification/Server_Facts.thy ===== *)
theory Server_Facts
  imports Api_Server
begin

text \<open>
  The endpoints together: what a caller can change through any of them, and what an anonymous
  one can reach.
\<close>

definition program :: "('e, 'a, 'l, 'q) parts \<Rightarrow> ('e, 'a, 'l, 'q) parts" where
  "program p = p\<lparr>svcServer := (svcServer p)\<lparr>srvAuthz := program_enforcer\<rparr>\<rparr>"

definition public :: "endpoint set" where
  "public = {AtHealth, AtLogin, AtOpenAPI, AtDocs}"

lemma program_create:
  "tenants_Empty (Scopes program_enforcer c Authz.Events Create) \<longleftrightarrow> Role c \<noteq> Admin \<and> Role c \<noteq> Collector"
  "tenants_Empty (Scopes program_enforcer c AlertRules Create) \<longleftrightarrow> Role c \<noteq> Admin"
  unfolding enf.empty_iff policies_Can by (auto simp: resource_defs action_defs)

lemma anonymous_Scopes:
  assumes "Role c = Anonymous" and "r \<noteq> Health" and "r \<noteq> Sessions"
  shows "tenants_Empty (Scopes program_enforcer c r a)"
  unfolding enf.empty_iff policies_Can using assms by (auto simp: role_defs)

text \<open>The ingest endpoints write only for an admin or the collector.\<close>

lemma ingest_denied:
  assumes "tenants_Empty (Scopes (ieEnforcer env) (irCaller r) Authz.Events Create)"
  shows "IngestEvent env r m w = Ret (fail_answer (irInfo r) (Deny (irCaller r)), m, w)"
    "IngestBatch env r m w = Ret (fail_answer (irInfo r) (Deny (irCaller r)), m, w)"
    "IngestFile env r t s m w = Ret (fail_answer (irInfo r) (Deny (irCaller r)), m, w)"
  using assms by (simp_all add: IngestEvent_def IngestBatch_def IngestFile_def startBatch_def)

lemma create_denied:
  "tenants_Empty (Scopes e (irCaller r) AlertRules Create) \<Longrightarrow>
   CreateAlertRule e env create r w = (fail_answer (irInfo r) (Deny (irCaller r)), w)"
  by (simp add: CreateAlertRule_def)

lemma truncate_view [simp]:
  "irCaller (ingest_request.truncate r) = irCaller r" "irInfo (ingest_request.truncate r) = irInfo r"
  "irCaller (login_call.truncate r) = irCaller r" "irInfo (login_call.truncate r) = irInfo r"
  by (simp_all add: ingest_request.defs login_call.defs)

lemma program_view [simp]: "srvAuthz (svcServer (program p)) = program_enforcer"
  by (simp add: program_def)

lemma enforcer_update [simp]: "ieEnforcer (env\<lparr>ieEnforcer := e\<rparr>) = e" "lnEnforcer (env'\<lparr>lnEnforcer := e\<rparr>) = e"
  by simp_all

subsection \<open>What each endpoint changes\<close>

lemma serve_reads:
  "ep \<in> {AtHealth, AtTenants, AtSearch, AtTop, AtTimeline, AtOpenAPI, AtDocs} \<Longrightarrow> \<exists>a. serve p ep r w = Ret (a, w)"
  by (auto simp: serve_def Let_def with_params_def split: sum.split)

lemma serve_login: "\<exists>a m l. serve p AtLogin r w = Ret (a, w\<lparr>woMetrics := m, woLimiter := l\<rparr>)"
  by (simp add: serve_def Let_def split: prod.split) blast

lemma serve_ingest:
  assumes "ep \<in> {AtIngestEvent, AtIngestBatch, AtIngestFile}"
  shows "(\<exists>a. serve p ep r w = Ret (a, w)) \<or> (\<exists>run. serve p ep r w = ingested w run)"
  using assms by (auto simp: serve_def Let_def split: sum.split prod.split)

lemma ingested_world:
  assumes "ingested w run = Ret (a, w')"
  shows "\<exists>m ev. w' = w\<lparr>woEvents := ev, woMetrics := m\<rparr>"
  using assms by (cases run) (auto simp: ingested_def)

text \<open>A caller that may create no events is refused before anything else, its parameters apart.\<close>

lemma serve_ingest_denied:
  assumes "ep \<in> {AtIngestEvent, AtIngestBatch, AtIngestFile}"
    and "tenants_Empty (Scopes (srvAuthz (svcServer p)) (irCaller r) Authz.Events Create)"
  shows "serve p ep r w = Ret (as_body IngestBody (fail_answer (irInfo r) (Deny (irCaller r))), w)
    \<or> (\<exists>err. serve p ep r w = Ret (paramError (irInfo r) err, w))"
  using assms by (auto simp: serve_def Let_def ingest_denied ingested_def split: sum.split prod.split)

lemma serve_rules:
  "ep \<in> {AtListRules, AtCreateRule, AtAlerts} \<Longrightarrow>
   \<exists>a w'. serve p ep r w = Ret (a, w') \<and> woEvents w' = woEvents w \<and> woLimiter w' = woLimiter w"
  by (auto simp: serve_def Let_def with_params_def alerts_step_def split: sum.split)

lemma serve_create_denied:
  assumes "tenants_Empty (Scopes (srvAuthz (svcServer p)) (irCaller r) AlertRules Create)"
  shows "serve p AtCreateRule r w = Ret (as_body RuleBody (fail_answer (irInfo r) (Deny (irCaller r))), w)"
  using assms by (simp add: serve_def Let_def create_denied alerts_step_def)

subsection \<open>Anonymous requests\<close>

lemma anonymous_denied: "Role c = Anonymous \<Longrightarrow> rpStatus (fail_answer ri (Deny c)) = 401"
  by (simp add: Deny_def Authenticated_def Unauthenticated_def result_simps)

lemma as_body_status [simp]: "rpStatus (as_body f a) = rpStatus a"
  by (simp add: as_body_def map_body_def)

lemma paramError_status: "rpStatus (paramError ri err) = 400"
  by (simp add: paramError_def api_invalidParam_def Malformed_def result_simps)

text \<open>Each handler that is not public denies an anonymous caller first, its parameters apart.\<close>

lemma reads_anonymous:
  assumes "Role c = Anonymous" and "srvAuthz srv = program_enforcer"
  shows "SearchEvents srv events ri c sp = fail_answer ri (Deny c)"
    "TopValues srv events ri c tp = fail_answer ri (Deny c)"
    "api_Timeline srv events ri c lp = fail_answer ri (Deny c)"
    "ListTenants srv lt ri c = fail_answer ri (Deny c)"
    "api_ListAlertRules srv lr ri c asked x = (fail_answer ri (Deny c), x)"
    "api_ListAlerts srv la ri c ap x = (fail_answer ri (Deny c), x)"
  using assms(2) anonymous_Scopes [OF assms(1)]
  by (simp_all add: SearchEvents_def TopValues_def api_Timeline_def ListTenants_def api_ListAlertRules_def
      api_ListAlerts_def eventFilter_def listTenant_def Let_def resource_defs)

lemma serve_anonymous:
  assumes "Role (irCaller r) = Anonymous" and "ep \<notin> public"
  shows "\<exists>a. serve (program p) ep r w = Ret (a, w) \<and> (rpStatus a = 400 \<or> rpStatus a = 401)"
proof -
  note denied = anonymous_denied [OF assms(1)]
  have empty: "tenants_Empty (Scopes program_enforcer (irCaller r) Authz.Events Create)"
    "tenants_Empty (Scopes program_enforcer (irCaller r) AlertRules Create)"
    using assms(1) by (simp_all add: anonymous_Scopes resource_defs)
  consider "ep \<in> {AtIngestEvent, AtIngestBatch, AtIngestFile}" | "ep = AtCreateRule"
    | "ep \<in> {AtTenants, AtSearch, AtTop, AtTimeline}" | "ep \<in> {AtListRules, AtAlerts}"
    using assms(2) by (cases ep) (auto simp: public_def)
  then show ?thesis
  proof cases
    case 1
    with serve_ingest_denied [of ep "program p" r w] empty show ?thesis
      by (auto simp: denied paramError_status)
  next
    case 2
    with serve_create_denied [of "program p" r w] empty show ?thesis by (simp add: denied)
  next
    case 3
    then show ?thesis using assms(1)
      by (auto simp: denied serve_def Let_def with_params_def reads_anonymous paramError_status split: sum.split)
  next
    case 4
    then show ?thesis using assms(1)
      by (auto simp: denied serve_def Let_def with_params_def alerts_step_def reads_anonymous paramError_status split: sum.split)
  qed
qed

text \<open>
  C7. What a request can change, whichever endpoint it is for: events are written only by the
  ingest endpoints, for an admin or the collector; rules only by their own endpoints, and
  created only for an admin; the limiter only by signing in. And an anonymous request changes
  nothing at all, and is answered with 401, or with 400 for a parameter it got wrong, unless
  it asks for the health, the documentation or a session.
\<close>

theorem serve_permits:
  "case serve (program p) ep r w of
     Panic \<Rightarrow> ep \<in> {AtIngestEvent, AtIngestBatch, AtIngestFile}
   | Ret (a, w') \<Rightarrow>
       (woEvents w' = woEvents w
          \<or> ep \<in> {AtIngestEvent, AtIngestBatch, AtIngestFile} \<and> Role (irCaller r) \<in> {Admin, Collector})
       \<and> (woAlerts w' = woAlerts w \<or> ep \<in> {AtListRules, AtAlerts} \<or> ep = AtCreateRule \<and> Role (irCaller r) = Admin)
       \<and> (woLimiter w' = woLimiter w \<or> ep = AtLogin)
       \<and> (if Role (irCaller r) = Anonymous \<and> ep \<notin> public then w' = w \<and> rpStatus a \<in> {400, 401} else True)"
proof -
  have anonymous: "\<exists>a. serve (program p) ep r w = Ret (a, w) \<and> rpStatus a \<in> {400, 401}"
    if "Role (irCaller r) = Anonymous" "ep \<notin> public"
    using serve_anonymous [OF that] by simp
  consider "ep \<in> {AtHealth, AtTenants, AtSearch, AtTop, AtTimeline, AtOpenAPI, AtDocs}" | "ep = AtLogin"
    | "ep \<in> {AtIngestEvent, AtIngestBatch, AtIngestFile}" | "ep \<in> {AtListRules, AtCreateRule, AtAlerts}"
    by (cases ep) auto
  then show ?thesis
  proof cases
    case 1
    from serve_reads [OF 1, of "program p" r w] anonymous show ?thesis by auto
  next
    case 2
    with serve_login [of "program p" r w] show ?thesis by (auto simp: public_def)
  next
    case 3
    show ?thesis
    proof (cases "Role (irCaller r) = Admin \<or> Role (irCaller r) = Collector")
      case True
      with 3 serve_ingest [OF 3, of "program p" r w] show ?thesis
        by (auto dest!: ingested_world simp: role_defs split: outcome.split)
    next
      case False
      with serve_ingest_denied [OF 3, of "program p" r w] program_create have "\<exists>a. serve (program p) ep r w = Ret (a, w)" by auto
      with anonymous show ?thesis by auto
    qed
  next
    case 4
    show ?thesis
    proof (cases "ep = AtCreateRule \<and> Role (irCaller r) \<noteq> Admin")
      case True
      with serve_create_denied [of "program p" r w] program_create anonymous show ?thesis by auto
    next
      case False
      with 4 serve_rules [OF 4, of "program p" r w] anonymous show ?thesis by (auto simp: role_defs)
    qed
  qed
qed

end
