(* ===== verification/Program_Facts.thy ===== *)
theory Program_Facts
  imports Program Server_Facts
begin

text \<open>
  What the commands need of their environment, and what they do before anything else: the
  settings of each configuration, the role before the migrations, and the conditions under
  which \<open>serve\<close> starts.
\<close>

text \<open>A variable that is unset counts as empty.\<close>

definition env_text :: "lookup \<Rightarrow> bytes \<Rightarrow> bytes" where
  "env_text lookup name = (case lookup name of Some raw \<Rightarrow> raw | None \<Rightarrow> [])"

definition env_or :: "lookup \<Rightarrow> bytes \<Rightarrow> bytes \<Rightarrow> bytes" where
  "env_or lookup name def = (if env_text lookup name = [] then def else env_text lookup name)"

definition unset :: "lookup \<Rightarrow> bytes \<Rightarrow> bytes list" where
  "unset lookup name = (if env_text lookup name = [] then [name @ '' is required but not set''] else [])"

definition level_of :: "config_lib \<Rightarrow> lookup \<Rightarrow> bytes + int" where
  "level_of cl lookup = level_UnmarshalText (clUpper cl) (clQuote cl) (env_or lookup ''LOG_LEVEL'' ''info'')"

definition level_problem :: "config_lib \<Rightarrow> lookup \<Rightarrow> bytes list" where
  "level_problem cl lookup = (case level_of cl lookup of Inl err \<Rightarrow> [''LOG_LEVEL: '' @ err] | Inr _ \<Rightarrow> [])"

definition level_value :: "config_lib \<Rightarrow> lookup \<Rightarrow> int" where
  "level_value cl lookup = (case level_of cl lookup of Inl _ \<Rightarrow> 0 | Inr l \<Rightarrow> l)"

lemma bind_required:
  "bind_field unmarshal lookup (required name) ps = (VString (env_text lookup name), ps @ unset lookup name)"
  by (simp add: required_def raw_text_def env_text_def unset_def split: option.splits)

lemma bind_optional:
  "bind_field unmarshal lookup (optional name def) ps = (VString (env_or lookup name def), ps)"
  by (simp add: optional_def raw_text_def env_text_def env_or_def split: option.splits)

lemma bind_level:
  "bind_field (\<lambda>_. level_UnmarshalText (clUpper cl) (clQuote cl)) lookup log_level_field ps
     = (VInt (level_value cl lookup), ps @ level_problem cl lookup)"
  by (auto simp: log_level_field_def raw_text_def env_text_def env_or_def level_of_def level_problem_def
      level_value_def split: option.splits sum.splits)

lemmas bind_program = bind_required bind_optional bind_level

definition config_verdict :: "config_lib \<Rightarrow> bytes list \<Rightarrow> cvalue list \<Rightarrow> go_error + cvalue" where
  "config_verdict cl problems vs =
     (if problems = [] then Inr (VStruct vs) else Inl (config_error (clListed cl) problems))"

lemma Load_migrate:
  "Load cl migrateConfig lookup =
     config_verdict cl (unset lookup ''MIGRATE_DATABASE_URL'' @ unset lookup ''APP_DB_PASSWORD'')
       [VString (env_text lookup ''MIGRATE_DATABASE_URL''), VString (env_text lookup ''APP_DB_PASSWORD'')]"
  by (simp add: Load_def LoadFrom_def migrateConfig_def bind_program config_verdict_def)

lemma Load_serve:
  "Load cl serveConfig lookup =
     config_verdict cl
       (level_problem cl lookup @ unset lookup ''DATABASE_URL'' @ unset lookup ''AUTH_SECRET'' @ unset lookup ''INGEST_TOKEN'')
       [VInt (level_value cl lookup), VString (env_or lookup ''LISTEN_ADDR'' '':8080''),
        VString (env_text lookup ''DATABASE_URL''), VString (env_text lookup ''AUTH_SECRET''),
        VString (env_text lookup ''INGEST_TOKEN''), VString (env_or lookup ''METRICS_ADDR'' '':9090'')]"
  by (simp add: Load_def LoadFrom_def serveConfig_def bind_program config_verdict_def)

lemma Load_seed:
  "Load cl seedConfig lookup =
     config_verdict cl
       (level_problem cl lookup @ unset lookup ''MIGRATE_DATABASE_URL'' @ unset lookup ''ADMIN_PASSWORD''
          @ unset lookup ''VIEWER_PASSWORD'')
       [VInt (level_value cl lookup), VString (env_text lookup ''MIGRATE_DATABASE_URL''),
        VString (env_or lookup ''ADMIN_EMAIL'' ''admin@loghub.local''),
        VString (env_text lookup ''ADMIN_PASSWORD''), VString (env_text lookup ''VIEWER_PASSWORD'')]"
  by (simp add: Load_def LoadFrom_def seedConfig_def bind_program config_verdict_def)

lemma unset_Nil: "unset lookup name = [] \<longleftrightarrow> env_text lookup name \<noteq> []"
  by (simp add: unset_def)

lemma level_problem_Nil: "level_problem cl lookup = [] \<longleftrightarrow> (\<exists>l. level_of cl lookup = Inr l)"
  by (auto simp: level_problem_def split: sum.splits)

subsection \<open>Migrations\<close>

lemma EnsureLoginRole_result:
  "EnsureLoginRole fails url role password s = (r, s') \<Longrightarrow>
     (case r of Inl err \<Rightarrow> sData s' = sData s
      | Inr _ \<Rightarrow> sData s' = (sData s)(role \<mapsto> (True, Some password)))"
  by (auto simp: EnsureLoginRole_def interact_def statement_def db_bind_def map_error_def build_statement_def
      split: option.splits sum.splits prod.splits if_splits)

text \<open>
  C24. \<open>migrate\<close> does nothing unless both of its settings are there; then the role the backend
  connects as can log in with the password configured, whether it existed or not, and no other
  role has changed, before any migration runs; when that fails no role has changed at all and
  no migration runs.
\<close>

theorem migrate_prepares:
  "case migrate cl g fails lookup s of (err, s') \<Rightarrow>
     (let url = env_text lookup ''MIGRATE_DATABASE_URL''; password = env_text lookup ''APP_DB_PASSWORD'' in
      if url = [] \<or> password = [] then err \<noteq> None \<and> s' = s
      else
        (case EnsureLoginRole fails url ''loghub_app'' password s of
           (Inl e, s1) \<Rightarrow> sData s1 = sData s \<and> err = Some e \<and> s' = s1
         | (Inr _, s1) \<Rightarrow> sData s1 = (sData s)(''loghub_app'' \<mapsto> (True, Some password))
             \<and> (err, s') = Migrate g url s1))"
proof (cases "env_text lookup ''MIGRATE_DATABASE_URL'' = [] \<or> env_text lookup ''APP_DB_PASSWORD'' = []")
  case True
  then show ?thesis
    by (auto simp: migrate_def Load_migrate config_verdict_def unset_def)
next
  case False
  obtain r s1 where role: "EnsureLoginRole fails (env_text lookup ''MIGRATE_DATABASE_URL'') ''loghub_app''
      (env_text lookup ''APP_DB_PASSWORD'') s = (r, s1)" by fastforce
  with EnsureLoginRole_result [OF role] False show ?thesis
    by (cases r) (auto simp: migrate_def Load_migrate config_verdict_def unset_Nil appRole_def)
qed

subsection \<open>Serving\<close>

lemma api_New_None: "\<exists>l. api_New None = Ret (Inr (program_enforcer, l))"
  by (auto simp: api_New_def New_program limiter_New_def signInsPerMinute_def)

text \<open>The environment with every byte of the two secrets replaced.\<close>

definition masked :: "lookup \<Rightarrow> lookup" where
  "masked lookup name =
     (if name \<in> {''AUTH_SECRET'', ''INGEST_TOKEN''} then map_option (map (\<lambda>_. CHR ''x'')) (lookup name)
      else lookup name)"

lemma masked_text:
  "env_text (masked lookup) name =
     (if name \<in> {''AUTH_SECRET'', ''INGEST_TOKEN''} then map (\<lambda>_. CHR ''x'') (env_text lookup name)
      else env_text lookup name)"
  by (auto simp: masked_def env_text_def split: option.splits)

lemma masked_or: "name \<notin> {''AUTH_SECRET'', ''INGEST_TOKEN''} \<Longrightarrow> env_or (masked lookup) name def = env_or lookup name def"
  by (simp add: env_or_def masked_text)

lemma masked_unset: "unset (masked lookup) name = unset lookup name"
  by (simp add: unset_def masked_text)

lemma masked_level:
  "level_problem cl (masked lookup) = level_problem cl lookup" "level_value cl (masked lookup) = level_value cl lookup"
  by (simp_all add: level_problem_def level_value_def level_of_def masked_or)

lemma NewTokens_masked:
  "NewTokens (map (\<lambda>_. CHR ''x'') s) = map_sum (\<lambda>e. e) (map (\<lambda>_. CHR ''x'')) (NewTokens s)"
  by (simp add: NewTokens_def)

text \<open>
  C19. \<open>serve\<close> starts only with a token secret and an ingest key of at least 32 bytes, of which
  it keeps the secret and the digest of the key, with a database that answered, and with the
  program's permissions. When it does not start, the error says nothing of the two secrets
  but their lengths: it is the error any others of the same lengths would have given.
\<close>

theorem serve_start_verdict:
  "case serve_start cl sha256 px show_problems lookup of
     Panic \<Rightarrow> False
   | Ret (Inl err) \<Rightarrow> serve_start cl sha256 px show_problems (masked lookup) = Ret (Inl err)
   | Ret (Inr p) \<Rightarrow>
       32 \<le> length (env_text lookup ''AUTH_SECRET'') \<and> 32 \<le> length (env_text lookup ''INGEST_TOKEN'')
       \<and> pgmAuthenticator p = \<lparr>auSecret = env_text lookup ''AUTH_SECRET'', auIngestKey = sha256 (env_text lookup ''INGEST_TOKEN'')\<rparr>
       \<and> NewPool px (pool_for (env_text lookup ''DATABASE_URL'')) = Inr (pgmPool p)
       \<and> pxPing px (pgmPool p) = None
       \<and> pgmEnforcer p = program_enforcer"
proof -
  obtain l where new: "api_New None = Ret (Inr (program_enforcer, l))" using api_New_None by blast
  have ping: "pxPing px pool = None" if "NewPool px cfg = Inr pool" for cfg pool
    using that by (auto simp: NewPool_def split: sum.splits option.splits)
  show ?thesis
    unfolding serve_start_def Load_serve masked_unset masked_level
    by (auto simp: config_verdict_def masked_text masked_or new NewTokens_def NewAuthenticator_def MinSecretBytes_def
        ping split: sum.splits)
qed

subsection \<open>What the commands say\<close>

text \<open>Every metric a pool reports is one it announced, under a name of its own.\<close>

fun metric_desc :: "metric \<Rightarrow> desc" where
  "metric_desc (Gauge d v) = d"
| "metric_desc (CounterMetric d v) = d"

lemma pool_Collect_described: "map metric_desc (pool_Collect s) = pool_Describe"
  by (simp add: pool_Collect_def pool_Describe_def)

lemma pool_Describe_distinct: "distinct (map fst pool_Describe)"
  by code_simp

text \<open>
  A text that is no level stands in the problem of the setting, quoted, although \<open>bind\<close> means
  never to repeat what a variable holds.
\<close>

lemma level_problem_echoes:
  "level_UnmarshalText uu quote s = Inl err \<Longrightarrow>
     \<exists>why. err = ''slog: level string '' @ quote s @ '': '' @ why"
  by (auto simp: level_UnmarshalText_def Let_def split: if_splits sum.splits option.splits)

text \<open>
  The health check of an address without a port asks port 80 of the machine instead of saying
  that the address is wrong.
\<close>

lemma healthCheck_without_port:
  "healthCheck cl (\<lambda>_. None) (\<lambda>_ url. if url = ''http://127.0.0.1:/api/healthz'' then Inr (200, ''200 OK'') else Inl (Foreign [] []))
     (\<lambda>name. if name = ''LISTEN_ADDR'' then Some ''localhost'' else None) = None"
  by (simp add: healthCheck_def Load_def LoadFrom_def healthCheckConfig_def bind_optional env_or_def env_text_def
      SplitHostPort_def)

text \<open>A command line names exactly one command, or nothing is done.\<close>

lemma run_rejects:
  "length args \<noteq> 1 \<or> hd args \<notin> {''serve'', ''migrate'', ''seed'', ''healthcheck'', ''help''} \<Longrightarrow>
     snd (run cm args w) = w \<and> fst (main_exit (fst (run cm args w))) = 1"
  by (auto simp: run_def main_exit_def Let_def)

text \<open>
  \<open>seed\<close> as a whole: with its settings complete and a database that answers, it is the seed of
  that database with those settings.
\<close>

lemma seed_runs:
  assumes "level_of cl lookup = Inr level"
    and "env_text lookup ''MIGRATE_DATABASE_URL'' \<noteq> []" "env_text lookup ''ADMIN_PASSWORD'' \<noteq> []"
    and "env_text lookup ''VIEWER_PASSWORD'' \<noteq> []"
    and "NewPool px (pool_for (env_text lookup ''MIGRATE_DATABASE_URL'')) = Inr pool"
    and "Seed (env pool) \<lparr>AdminEmail = env_or lookup ''ADMIN_EMAIL'' ''admin@loghub.local'',
        AdminPassword = env_text lookup ''ADMIN_PASSWORD'', ViewerPassword = env_text lookup ''VIEWER_PASSWORD''\<rparr>
        (s\<lparr>sLog := []\<rparr>) = (r, s1)"
  shows "seed cl px env lookup s =
    ((case r of Inl err \<Rightarrow> Some err | Inr _ \<Rightarrow> None), s1\<lparr>sLog := sLog s @ log_New level (sLog s1)\<rparr>)"
  using assms
  by (simp add: seed_def Load_seed config_verdict_def unset_Nil level_problem_def level_value_def)

end
