(* ===== verification/Isolation.thy ===== *)
theory Isolation
  imports Server_Facts Read_Facts Counts Accounts
begin

text \<open>
  The program over its tables, and the isolation of tenants across it: for a caller who is no
  admin, the answer of every reading endpoint is a function of the caller's own tenant's rows.
  The SQL engine is any function of a statement and of the rows that row-level security shows,
  and so may aggregate, order and limit them as it likes.
\<close>

subsection \<open>The program over its tables\<close>

record tables =
  tbEvents :: "stored_event list"
  tbAccounts :: accounts_db

record engine =
  enSearch :: "stored_event list \<Rightarrow> bytes \<times> arg list \<Rightarrow> go_error + stored_event list"
  enTop :: "stored_event list \<Rightarrow> bytes \<times> arg list \<Rightarrow> go_error + (bytes \<times> int) list"
  enTimeline :: "stored_event list \<Rightarrow> bytes \<times> arg list \<Rightarrow> go_error + bucket list"
  enCollate :: "bytes \<Rightarrow> int list"

text \<open>The rows a scope sees (the policy of the table \<open>events\<close>).\<close>

definition seen :: "scope \<Rightarrow> stored_event list \<Rightarrow> stored_event list" where
  "seen sc rows = filter (\<lambda>r. visible sc (rTenant r)) rows"

record cursor_lib =
  cuDigest :: "hash_key \<Rightarrow> bytes"
  cuDecode :: "bytes \<Rightarrow> cursor option"
  cuEncode :: "cursor \<Rightarrow> bytes option"
  cuLocal :: "gotime \<Rightarrow> int"

definition reader_over :: "engine \<Rightarrow> cursor_lib \<Rightarrow> (int \<Rightarrow> int) \<Rightarrow> gotime \<Rightarrow> stored_event list \<Rightarrow> events_reader" where
  "reader_over en cu ul now rows =
     \<lparr>erSearch = (\<lambda>sc p. EventRepo_Search ul (cuDigest cu) (cuDecode cu) (cuEncode cu) (cuLocal cu)
        (\<lambda>sc st. enSearch en (seen sc rows) st) sc p now),
      erTop = (\<lambda>sc p. Top ul (cuLocal cu) (\<lambda>sc st. enTop en (seen sc rows) st) sc p now),
      erTimeline = (\<lambda>sc p. Timeline ul (cuLocal cu) (\<lambda>sc st. enTimeline en (seen sc rows) st) sc p now)\<rparr>"

definition tenant_rows :: "engine \<Rightarrow> accounts_db \<Rightarrow> bytes option \<Rightarrow> go_error + (bytes \<times> bytes) list" where
  "tenant_rows en db only = Inr (map (\<lambda>t. (ntID t, ntName t)) (q_ListTenants (enCollate en) only db))"

definition program_over ::
  "engine \<Rightarrow> cursor_lib \<Rightarrow> failures \<Rightarrow> gotime \<Rightarrow> tables \<Rightarrow> ('e, alerts_db session, 'l, 'q) parts
   \<Rightarrow> ('e, alerts_db session, 'l, 'q) parts" where
  "program_over en cu fails now tb p =
     p\<lparr>svcServer := (svcServer p)\<lparr>srvAuthz := program_enforcer\<rparr>,
       svcEvents := reader_over en cu (srvLower (svcServer p)) now (tbEvents tb),
       svcTenants := tenants_List (tenant_rows en (tbAccounts tb)),
       svcListRules := ListRules fails,
       svcListAlerts := Alerts.ListAlerts fails\<rparr>"

subsection \<open>What a tenant's rows are\<close>

definition same_tables :: "bytes \<Rightarrow> tables \<Rightarrow> tables \<Rightarrow> bool" where
  "same_tables t tb tb' \<longleftrightarrow>
     filter (\<lambda>r. rTenant r = t) (tbEvents tb) = filter (\<lambda>r. rTenant r = t) (tbEvents tb')
     \<and> filter (\<lambda>x. ntID x = t) (acTenants (tbAccounts tb)) = filter (\<lambda>x. ntID x = t) (acTenants (tbAccounts tb'))"

definition same_alerts :: "bytes \<Rightarrow> alerts_db \<Rightarrow> alerts_db \<Rightarrow> bool" where
  "same_alerts t db db' \<longleftrightarrow>
     filter (\<lambda>r. ruTenantID r = t) (dbRules db) = filter (\<lambda>r. ruTenantID r = t) (dbRules db')
     \<and> filter (\<lambda>a. alTenantID a = t) (dbAlerts db) = filter (\<lambda>a. alTenantID a = t) (dbAlerts db')"

text \<open>Who is no admin sees the rows of its own tenant.\<close>

lemma visible_own: "Role c \<noteq> Admin \<Longrightarrow> visible (scopeOf c) t \<longleftrightarrow> t = Tenant c"
  by (simp add: visible_def scopeOf_def)

lemma seen_same:
  "Role c \<noteq> Admin \<Longrightarrow> same_tables (Tenant c) tb tb' \<Longrightarrow>
     seen (scopeOf c) (tbEvents tb) = seen (scopeOf c) (tbEvents tb')"
  by (simp add: seen_def visible_own same_tables_def)

lemma filter_both: "filter (\<lambda>x. P x \<and> Q x) xs = filter Q (filter P xs)"
  by (simp add: conj_commute)

lemma rules_same:
  assumes "Role c \<noteq> Admin" and "same_alerts (Tenant c) db db'"
  shows "ListAlertRules (scopeOf c) db = ListAlertRules (scopeOf c) db'"
    and "ListTenantAlertRules t (scopeOf c) db = ListTenantAlertRules t (scopeOf c) db'"
  using assms
  by (simp_all add: ListAlertRules_def ListTenantAlertRules_def visible_own same_alerts_def filter_both del: filter_filter)

lemma alerts_same:
  assumes "Role c \<noteq> Admin" and "same_alerts (Tenant c) db db'"
  shows "q_ListAlerts n (scopeOf c) db = q_ListAlerts n (scopeOf c) db'"
    and "q_ListTenantAlerts t n (scopeOf c) db = q_ListTenantAlerts t n (scopeOf c) db'"
proof -
  have "filter (\<lambda>r. ruID r = alRuleID a \<and> visible (scopeOf c) (ruTenantID r)) (dbRules db)
      = filter (\<lambda>r. ruID r = alRuleID a \<and> visible (scopeOf c) (ruTenantID r)) (dbRules db')" for a :: stored_alert
    using assms(2) unfolding visible_own [OF assms(1)] same_alerts_def
    by (subst (1 2) conj_commute) (simp only: filter_both)
  then have "join_rule (scopeOf c) db = join_rule (scopeOf c) db'"
    by (intro ext) (simp add: join_rule_def)
  then show "q_ListAlerts n (scopeOf c) db = q_ListAlerts n (scopeOf c) db'"
    and "q_ListTenantAlerts t n (scopeOf c) db = q_ListTenantAlerts t n (scopeOf c) db'"
    using assms(2)
    by (simp_all add: q_ListAlerts_def q_ListTenantAlerts_def visible_own [OF assms(1)] same_alerts_def filter_both
        del: filter_filter)
qed

subsection \<open>The reads\<close>

text \<open>A query in a scope answers with what it reads there, or with the failure it meets.\<close>

lemma scoped_read:
  assumes "g sc d = g sc d'"
  shows "fst (InScope fails sc (map_error f (statement fails (\<lambda>s. Inr (g (sScope s) (sData s), sData s)))) (s\<lparr>sData := d\<rparr>))
       = fst (InScope fails sc (map_error f (statement fails (\<lambda>s. Inr (g (sScope s) (sData s), sData s)))) (s\<lparr>sData := d'\<rparr>))"
  using assms
  by (simp add: InScope_def InTx_def db_bind_def setScope_def set_context_def map_error_def
    statement_def interact_def split: option.split)

lemma ListRules_same:
  assumes "Role c \<noteq> Admin" and "same_alerts (Tenant c) db db'"
  shows "fst (ListRules fails (scopeOf c) t (s\<lparr>sData := db\<rparr>)) = fst (ListRules fails (scopeOf c) t (s\<lparr>sData := db'\<rparr>))"
proof (cases "t = []")
  case True
  show ?thesis unfolding ListRules_def if_P [OF True]
    by (rule scoped_read [where g = ListAlertRules]) (rule rules_same(1) [OF assms])
next
  case False
  show ?thesis unfolding ListRules_def if_not_P [OF False]
    by (rule scoped_read [where g = "ListTenantAlertRules t"]) (rule rules_same(2) [OF assms])
qed

lemma ListAlerts_same:
  assumes "Role c \<noteq> Admin" and "same_alerts (Tenant c) db db'"
  shows "fst (Alerts.ListAlerts fails (scopeOf c) t n (s\<lparr>sData := db\<rparr>))
    = fst (Alerts.ListAlerts fails (scopeOf c) t n (s\<lparr>sData := db'\<rparr>))"
proof (cases "t = []")
  case True
  show ?thesis unfolding ListAlerts_def if_P [OF True]
    by (rule scoped_read [where g = "q_ListAlerts n"]) (rule alerts_same(1) [OF assms])
next
  case False
  show ?thesis unfolding ListAlerts_def if_not_P [OF False]
    by (rule scoped_read [where g = "q_ListTenantAlerts t n"]) (rule alerts_same(2) [OF assms])
qed

lemma reader_same:
  assumes "Role c \<noteq> Admin" and "same_tables (Tenant c) tb tb'"
  shows "erSearch (reader_over en cu ul now (tbEvents tb)) (scopeOf c) = erSearch (reader_over en cu ul now (tbEvents tb')) (scopeOf c)"
    and "erTop (reader_over en cu ul now (tbEvents tb)) (scopeOf c) = erTop (reader_over en cu ul now (tbEvents tb')) (scopeOf c)"
    and "erTimeline (reader_over en cu ul now (tbEvents tb)) (scopeOf c) = erTimeline (reader_over en cu ul now (tbEvents tb')) (scopeOf c)"
  unfolding reader_over_def events_reader.select_convs EventRepo_Search_def Top_def Timeline_def seen_same [OF assms]
  by (rule refl)+

text \<open>The tenant a caller who is no admin may read the name of.\<close>

lemma names_same:
  assumes "Role c \<noteq> Admin" and "same_tables (Tenant c) tb tb'"
    and "\<not> tenants_Empty (Scopes program_enforcer c TenantNames Read)"
  shows "tenants_List (tenant_rows en (tbAccounts tb)) (deref (tenants_Only (Scopes program_enforcer c TenantNames Read)))
    = tenants_List (tenant_rows en (tbAccounts tb')) (deref (tenants_Only (Scopes program_enforcer c TenantNames Read)))"
proof -
  have "\<not> allows program_enforcer c TenantNames AnyTenant Read"
    using assms(1) program_admin_reads [of TenantNames c] by simp
  with assms(3) have "tenants_Only (Scopes program_enforcer c TenantNames Read) = Some (Tenant c)" "Tenant c \<noteq> []"
    by (auto simp: Scopes_def tenants_Empty_def tenants_Only_def split: if_splits)
  with assms(2) show ?thesis
    by (simp add: tenants_List_def tenant_rows_def q_ListTenants_def same_tables_def deref_def)
qed

text \<open>The handlers, as functions of what they read.\<close>

lemma list_rules_answer:
  "fst (api_ListAlertRules srv list_rules ri c asked w) =
     (case listTenant (srvQuote srv) (srvAuthz srv) c AlertRules asked of
        Inl err \<Rightarrow> fail_answer ri err
      | Inr tenant \<Rightarrow>
          (case fst (list_rules (scopeOf c) tenant w) of
             Inl err \<Rightarrow> fail_answer ri err
           | Inr rules \<Rightarrow> ok_answer 200 (map (shown_rule (srvAuthz srv) c) rules)))"
  by (auto simp: api_ListAlertRules_def split: sum.splits prod.splits)

lemma list_alerts_answer:
  "fst (api_ListAlerts srv list_alerts ri c p w) =
     (case listTenant (srvQuote srv) (srvAuthz srv) c Authz.Alerts (laTenant p) of
        Inl err \<Rightarrow> fail_answer ri err
      | Inr tenant \<Rightarrow>
          if (case laLimit p of None \<Rightarrow> False | Some n \<Rightarrow> n < 1 \<or> maxAlertPage < n)
          then fail_answer ri (api_invalidParam (''limit must be '' @ paramFormat ''limit''))
          else
            (case fst (list_alerts (scopeOf c) tenant (case laLimit p of None \<Rightarrow> defaultAlertPage | Some n \<Rightarrow> n) w) of
               Inl err \<Rightarrow> fail_answer ri err
             | Inr alerts \<Rightarrow> ok_answer 200 (map Body alerts)))"
  by (auto simp: api_ListAlerts_def split: sum.splits prod.splits)

lemma ListTenants_same:
  assumes "Role c \<noteq> Admin" and "same_tables (Tenant c) tb tb'"
  shows "ListTenants (srv\<lparr>srvAuthz := program_enforcer\<rparr>) (tenants_List (tenant_rows en (tbAccounts tb))) ri c
    = ListTenants (srv\<lparr>srvAuthz := program_enforcer\<rparr>) (tenants_List (tenant_rows en (tbAccounts tb'))) ri c"
proof (cases "tenants_Empty (Scopes program_enforcer c TenantNames Read)")
  case False
  from names_same [OF assms False] False show ?thesis
    by (simp add: ListTenants_def)
qed (simp add: ListTenants_def)

lemma event_answers_same:
  assumes "Role c \<noteq> Admin" and "same_tables (Tenant c) tb tb'"
  shows "SearchEvents srv (reader_over en cu ul now (tbEvents tb)) ri c ps = SearchEvents srv (reader_over en cu ul now (tbEvents tb')) ri c ps"
    and "TopValues srv (reader_over en cu ul now (tbEvents tb)) ri c pt = TopValues srv (reader_over en cu ul now (tbEvents tb')) ri c pt"
    and "api_Timeline srv (reader_over en cu ul now (tbEvents tb)) ri c pl = api_Timeline srv (reader_over en cu ul now (tbEvents tb')) ri c pl"
  unfolding SearchEvents_def TopValues_def api_Timeline_def reader_same [OF assms] by (rule refl)+

lemma list_answers_same:
  assumes "Role c \<noteq> Admin" and "same_alerts (Tenant c) db db'"
  shows "fst (api_ListAlertRules srv (ListRules fails) ri c asked (s\<lparr>sData := db\<rparr>))
      = fst (api_ListAlertRules srv (ListRules fails) ri c asked (s\<lparr>sData := db'\<rparr>))"
    and "fst (api_ListAlerts srv (Alerts.ListAlerts fails) ri c pa (s\<lparr>sData := db\<rparr>))
      = fst (api_ListAlerts srv (Alerts.ListAlerts fails) ri c pa (s\<lparr>sData := db'\<rparr>))"
  unfolding list_rules_answer list_alerts_answer ListRules_same [OF assms] ListAlerts_same [OF assms] by (rule refl)+

lemma program_over_parts:
  "svcServer (program_over en cu fails now tb p) = (svcServer p)\<lparr>srvAuthz := program_enforcer\<rparr>"
  "svcEvents (program_over en cu fails now tb p) = reader_over en cu (srvLower (svcServer p)) now (tbEvents tb)"
  "svcTenants (program_over en cu fails now tb p) = tenants_List (tenant_rows en (tbAccounts tb))"
  "svcListRules (program_over en cu fails now tb p) = ListRules fails"
  "svcListAlerts (program_over en cu fails now tb p) = Alerts.ListAlerts fails"
  "svcBinding (program_over en cu fails now tb p) = svcBinding p"
  "svcReady (program_over en cu fails now tb p) = svcReady p"
  "svcSpec (program_over en cu fails now tb p) = svcSpec p"
  "svcDocs (program_over en cu fails now tb p) = svcDocs p"
  by (simp_all add: program_over_def)

lemma woAlerts_over: "woAlerts (w\<lparr>woAlerts := a\<rparr>) = a"
  by simp

definition reading :: "endpoint set" where
  "reading = {AtHealth, AtTenants, AtSearch, AtTop, AtTimeline, AtListRules, AtAlerts, AtOpenAPI, AtDocs}"

fun answer_of :: "('b \<times> 'w) outcome \<Rightarrow> 'b option" where
  "answer_of Panic = None"
| "answer_of (Ret (a, w)) = Some a"

lemma answer_of_with_params:
  "answer_of (Ret (with_params ri bound handler w)) =
     Some (case bound of Inl err \<Rightarrow> paramError ri err | Inr ps \<Rightarrow> fst (handler ps))"
  by (cases bound; cases "handler (projr bound)") (simp_all add: with_params_def)

text \<open>
  C2. Tenants are isolated across the whole of the reading API: for a caller who is no admin,
  whatever the endpoint, its parameters and the SQL engine, the answer - its status, headers,
  body, cursor, counts and log - does not change when the rows of other tenants do, be it
  their events, their rules, their alerts or their names; it depends on the caller's own
  tenant's rows alone.
\<close>

theorem tenant_isolation:
  assumes "Role (irCaller r) \<noteq> Admin" and "ep \<in> reading"
    and "same_tables (Tenant (irCaller r)) tb tb'" and "same_alerts (Tenant (irCaller r)) db db'"
  shows "answer_of (serve (program_over en cu fails now tb p) ep r (w\<lparr>woAlerts := s\<lparr>sData := db\<rparr>\<rparr>)) =
    answer_of (serve (program_over en cu fails now tb' p) ep r (w\<lparr>woAlerts := s\<lparr>sData := db'\<rparr>\<rparr>))"
proof -
  note same = event_answers_same [OF assms(1,3)] list_answers_same [OF assms(1,4)] ListTenants_same [OF assms(1,3)]
  from assms(2) consider "ep \<in> {AtHealth, AtOpenAPI, AtDocs}" | "ep = AtTenants" | "ep = AtSearch" | "ep = AtTop"
    | "ep = AtTimeline" | "ep = AtListRules" | "ep = AtAlerts"
    by (auto simp: reading_def)
  then show ?thesis
  proof cases
    case 1
    then show ?thesis by (auto simp: serve_def Let_def program_over_parts)
  next
    case 2
    show ?thesis
      unfolding 2 serve_def Let_def endpoint.case program_over_parts same answer_of.simps by (rule refl)
  next
    case 3
    show ?thesis
      unfolding 3 serve_def Let_def endpoint.case answer_of_with_params alerts_step_def fst_conv woAlerts_over
        program_over_parts same by (rule refl)
  next
    case 4
    show ?thesis
      unfolding 4 serve_def Let_def endpoint.case answer_of_with_params alerts_step_def fst_conv woAlerts_over
        program_over_parts same by (rule refl)
  next
    case 5
    show ?thesis
      unfolding 5 serve_def Let_def endpoint.case answer_of_with_params alerts_step_def fst_conv woAlerts_over
        program_over_parts same by (rule refl)
  next
    case 6
    show ?thesis
      unfolding 6 serve_def Let_def endpoint.case answer_of_with_params alerts_step_def fst_conv woAlerts_over
        program_over_parts same by (rule refl)
  next
    case 7
    show ?thesis
      unfolding 7 serve_def Let_def endpoint.case answer_of_with_params alerts_step_def fst_conv woAlerts_over
        program_over_parts same by (rule refl)
  qed
qed

text \<open>A viewer of one tenant, with an event, a rule and a name of another tenant there or not.\<close>

definition viewer_a :: caller where
  "viewer_a = \<lparr>Role = Viewer, Tenant = ''a'', UserID = 1\<rparr>"

definition sample_tables_with :: "stored_event \<Rightarrow> bytes list \<Rightarrow> tables" where
  "sample_tables_with ev ts =
     \<lparr>tbEvents = map (\<lambda>t. ev\<lparr>rTenant := t\<rparr>) ts,
      tbAccounts = \<lparr>acTenants = map (\<lambda>t. \<lparr>ntID = t, ntName = t\<rparr>) ts, acUsers = [], acNextUser = 1\<rparr>\<rparr>"

definition sample_alerts_with :: "alerts_db \<Rightarrow> alert_rule \<Rightarrow> bytes list \<Rightarrow> alerts_db" where
  "sample_alerts_with db rule ts = db\<lparr>dbRules := map (\<lambda>t. rule\<lparr>ruTenantID := t\<rparr>) ts, dbAlerts := []\<rparr>"

theorem tenant_isolation_witness:
  "(\<forall>ev. sample_tables_with ev [''a'', ''b''] \<noteq> sample_tables_with ev [''a''])
   \<and> (\<forall>en cu fails now p r w s ev db rule.
       answer_of (serve (program_over en cu fails now (sample_tables_with ev [''a'', ''b'']) p) AtSearch (r\<lparr>irCaller := viewer_a\<rparr>)
         (w\<lparr>woAlerts := s\<lparr>sData := sample_alerts_with db rule [''b'', ''a'']\<rparr>\<rparr>)) =
       answer_of (serve (program_over en cu fails now (sample_tables_with ev [''a'']) p) AtSearch (r\<lparr>irCaller := viewer_a\<rparr>)
         (w\<lparr>woAlerts := s\<lparr>sData := sample_alerts_with db rule [''a'']\<rparr>\<rparr>)))"
  by (intro conjI allI tenant_isolation) (simp_all add: viewer_a_def role_defs reading_def same_tables_def same_alerts_def sample_tables_with_def sample_alerts_with_def)

end
