(* ===== verification/Event_Batch.thy ===== *)
theory Event_Batch
  imports Events
begin

text \<open>
  \<open>internal/store/gen/batch.go\<close>: the statements of a batch are queued, sent together, and their
  results read one after the other. \<open>pgx.BatchResults\<close> is a reader: once a statement failed, the
  transaction is aborted, and every further result only says so. The lemmas show that reading a
  batch this way is the insertion \<open>execBatch\<close> of \<open>Events\<close>.
\<close>

subsection \<open>The parameters of a statement\<close>

datatype sql_param =
    PTime gotime | PText "bytes option" | PInt "int option" | PAddr "addr option"
  | PJson bytes | PTexts "bytes list"

definition insert_columns :: "bytes list" where
  "insert_columns =
     [''ts'', ''tenant_id'', ''source'', ''vendor'', ''product'', ''event_type'', ''event_subtype'', ''severity'',
      ''action'', ''src_ip'', ''src_port'', ''dst_ip'', ''dst_port'', ''protocol'', ''user_name'', ''host'',
      ''process'', ''url'', ''http_method'', ''status_code'', ''rule_name'', ''rule_id'',
      ''cloud_account_id'', ''cloud_region'', ''cloud_service'', ''raw'', ''tags'']"

definition insert_vals :: "new_event \<Rightarrow> sql_param list" where
  "insert_vals a =
     [PTime (evTs a), PText (Some (evTenantID a)), PText (Some (evSource a)), PText (evVendor a),
      PText (evProduct a), PText (evEventType a), PText (evEventSubtype a), PInt (evSeverity a),
      PText (evAction a), PAddr (evSrcIP a), PInt (evSrcPort a), PAddr (evDstIP a), PInt (evDstPort a),
      PText (evProtocol a), PText (evUserName a), PText (evHost a), PText (evProcess a), PText (evURL a),
      PText (evHTTPMethod a), PInt (evStatusCode a), PText (evRuleName a), PText (evRuleID a),
      PText (evCloudAccountID a), PText (evCloudRegion a), PText (evCloudService a), PJson (evRaw a),
      PTexts (evTags a)]"

lemma insert_vals_columns: "length (insert_vals a) = length insert_columns" "distinct insert_columns"
  by (simp add: insert_vals_def insert_columns_def) code_simp

text \<open>Nothing of an event is lost on the way to its row.\<close>

lemma insert_vals_inj: "insert_vals a = insert_vals b \<Longrightarrow> a = b"
  by (simp add: insert_vals_def new_event.equality)

subsection \<open>Reading the results\<close>

record batch_results =
  brStatements :: "new_event list"
  brAborted :: bool
  brTotal :: nat
  brClosed :: bool

definition ErrBatchAlreadyClosed :: go_error where
  "ErrBatchAlreadyClosed = Foreign ''batch already closed'' []"

definition in_failed_transaction :: go_error where
  "in_failed_transaction = PgError ''25P02'' ''current transaction is aborted''"

definition InsertEvents :: "new_event list \<Rightarrow> batch_results" where
  "InsertEvents arg = \<lparr>brStatements = arg, brAborted = False, brTotal = length arg, brClosed = False\<rparr>"

definition Close :: "batch_results \<Rightarrow> batch_results" where
  "Close b = b\<lparr>brClosed := True\<rparr>"

text \<open>The next result: \<open>br.Exec()\<close>.\<close>

definition next_result ::
  "failures \<Rightarrow> (new_event \<Rightarrow> bytes option) \<Rightarrow> batch_results \<Rightarrow> events_db session
   \<Rightarrow> go_error option \<times> batch_results \<times> events_db session" where
  "next_result fails refuse b s =
     (case brStatements b of
        [] \<Rightarrow> (Some (Foreign ''no result'' []), b, s)
      | e # es \<Rightarrow>
          if brAborted b then (Some in_failed_transaction, b\<lparr>brStatements := es\<rparr>, s)
          else
            (case insert_row fails refuse e s of
               (Inl err, s1) \<Rightarrow> (Some err, b\<lparr>brStatements := es, brAborted := True\<rparr>, s1)
             | (Inr _, s1) \<Rightarrow> (None, b\<lparr>brStatements := es\<rparr>, s1)))"

text \<open>
  \<open>Exec(f)\<close> from the result \<open>t\<close> on, with \<open>n\<close> results to go: \<open>f\<close> is called with each, here on a
  state \<open>'x\<close> of its own.
\<close>

fun batch_Exec ::
  "failures \<Rightarrow> (new_event \<Rightarrow> bytes option) \<Rightarrow> (nat \<Rightarrow> go_error option \<Rightarrow> 'x \<Rightarrow> 'x) \<Rightarrow> nat \<Rightarrow> nat \<Rightarrow> batch_results
   \<Rightarrow> 'x \<Rightarrow> events_db session \<Rightarrow> 'x \<times> events_db session" where
  "batch_Exec fails refuse f t 0 b x s = (x, s)"
| "batch_Exec fails refuse f t (Suc n) b x s =
     (if brClosed b then batch_Exec fails refuse f (t + 1) n b (f t (Some ErrBatchAlreadyClosed) x) s
      else
        (case next_result fails refuse b s of
           (err, b1, s1) \<Rightarrow> batch_Exec fails refuse f (t + 1) n b1 (f t err x) s1))"

text \<open>\<open>execBatch\<close> of \<open>internal/store/events.go\<close>: the callback keeps the first error.\<close>

definition first_error :: "nat \<Rightarrow> go_error option \<Rightarrow> go_error option \<Rightarrow> go_error option" where
  "first_error _ err first = (if first = None \<and> err \<noteq> None then err else first)"

definition execBatch_over ::
  "failures \<Rightarrow> (new_event \<Rightarrow> bytes option) \<Rightarrow> new_event list \<Rightarrow> (events_db, unit) db_op" where
  "execBatch_over fails refuse params s =
     (let b = InsertEvents params in
      case batch_Exec fails refuse first_error 0 (brTotal b) b None s of
        (first, s1) \<Rightarrow>
          (case first of
             Some err \<Rightarrow> (Inl (Wrap err ''cannot insert events''), s1)
           | None \<Rightarrow> (Inr (), s1)))"

subsection \<open>A batch is the insertion of its rows\<close>

lemma first_error_simps [simp]:
  "first_error t err (Some e) = Some e" "first_error t (Some e) None = Some e" "first_error t None None = None"
  by (simp_all add: first_error_def)

lemma batch_Exec_aborted:
  "brAborted b \<Longrightarrow> \<not> brClosed b \<Longrightarrow> n = length (brStatements b) \<Longrightarrow>
     batch_Exec fails refuse first_error t n b (Some err) s = (Some err, s)"
proof (induction n arbitrary: t b)
  case (Suc n)
  then obtain e es where es: "brStatements b = e # es" "length es = n" by (cases "brStatements b") auto
  with Suc.prems Suc.IH [of "b\<lparr>brStatements := es\<rparr>" "t + 1"] show ?case
    by (simp add: next_result_def)
qed simp

lemma batch_Exec_rows:
  "\<not> brAborted b \<Longrightarrow> \<not> brClosed b \<Longrightarrow>
     batch_Exec fails refuse first_error t (length (brStatements b)) b None s =
       (case exec_rows fails refuse (brStatements b) s of
          (Inl err, s1) \<Rightarrow> (Some err, s1)
        | (Inr _, s1) \<Rightarrow> (None, s1))"
proof (induction "brStatements b" arbitrary: t b s)
  case (Cons e es)
  from Cons.hyps(2) [symmetric] show ?case
    using Cons.hyps(1) [of "b\<lparr>brStatements := es\<rparr>"] Cons.prems
    by (auto simp: next_result_def batch_Exec_aborted split: prod.splits sum.splits)
qed simp

text \<open>
  The insertion of a batch, as it is sent and its results are read, is the insertion of its
  rows one after the other until the first that fails: the same error, classified the same way,
  and the same session afterwards; the results after a failure change neither.
\<close>

theorem execBatch_rows: "execBatch_over fails refuse params s = execBatch fails refuse params s"
  using batch_Exec_rows [of "InsertEvents params" fails refuse 0 s]
  by (auto simp: execBatch_over_def execBatch_def InsertEvents_def split: prod.splits sum.splits)

end
