(* ===== verification/Retry_Facts.thy ===== *)
theory Retry_Facts
  imports Limiter Api_Login
begin

text \<open>
  How long a refused client is told to wait. \<open>Allow\<close> computes the wait in floating point from the
  part of a token that is missing, and drops what is less than a nanosecond; \<open>wholeSeconds\<close> rounds
  it up to seconds for the header.
\<close>

subsection \<open>How much rounding loses\<close>

definition ulp :: rat where "ulp = 1 / 9007199254740992"

lemma round_even_near: "y - 1 / 2 \<le> of_int (round_even y)"
  by (simp add: round_even_def Let_def) linarith

lemma fl_lower:
  assumes "0 \<le> x"
  shows "x - x * ulp \<le> fl x"
proof (cases "x = 0")
  case False
  with assms have x: "0 < x" by simp
  define u where "u = pow2 (expo x - 52)"
  have u: "0 < u" by (simp add: u_def)
  have "(x / u - 1 / 2) * u \<le> of_int (round_even (x / u)) * u"
    using round_even_near [of "x / u"] u by (intro mult_right_mono) simp_all
  then have "x - u / 2 \<le> fl x"
    using u x by (simp add: fl_def fl_pos_def Let_def u_def [symmetric] left_diff_distrib)
  moreover have "u / 2 \<le> x * ulp"
  proof -
    have "u = pow2 (expo x) / pow2 52" by (simp add: u_def pow2_div)
    moreover have "pow2 (expo x) \<le> x" using expo_bounds [OF x] by simp
    ultimately show ?thesis by (simp add: ulp_def pow2_def divide_right_mono)
  qed
  ultimately show ?thesis by simp
qed (simp add: fl_def)

lemma fl_upper:
  assumes "0 \<le> x"
  shows "fl x \<le> x + x * ulp"
proof (cases "x = 0")
  case False
  with assms have x: "0 < x" by simp
  define u where "u = pow2 (expo x - 52)"
  have u: "0 < u" by (simp add: u_def)
  have near: "of_int (round_even y) \<le> y + 1 / 2" for y
    by (simp add: round_even_def Let_def) linarith
  have "of_int (round_even (x / u)) * u \<le> (x / u + 1 / 2) * u"
    using near [of "x / u"] u by (intro mult_right_mono) simp_all
  then have "fl x \<le> x + u / 2"
    using u x by (simp add: fl_def fl_pos_def Let_def u_def [symmetric] distrib_right)
  moreover have "u / 2 \<le> x * ulp"
  proof -
    have "u = pow2 (expo x) / pow2 52" by (simp add: u_def pow2_div)
    moreover have "pow2 (expo x) \<le> x" using expo_bounds [OF x] by simp
    ultimately show ?thesis by (simp add: ulp_def pow2_def divide_right_mono)
  qed
  ultimately show ?thesis by simp
qed (simp add: fl_def)

lemma round_even_eval:
  assumes "of_int m - 1 / 2 < y" and "y < of_int m + 1 / 2"
  shows "round_even y = m"
proof (cases "\<lfloor>y\<rfloor> = m")
  case True
  moreover have "y - of_int m < 1 / 2" using assms(2) by linarith
  ultimately show ?thesis by (simp add: round_even_def)
next
  case False
  then have f: "\<lfloor>y\<rfloor> = m - 1" using assms by linarith
  have "1 / 2 < y - of_int (m - 1)" "\<not> y - of_int (m - 1) < 1 / 2" using assms(1) by simp_all
  then show ?thesis unfolding round_even_def f Let_def by (simp del: of_int_diff)
qed

text \<open>The float nearest to a number, from its exponent and its mantissa.\<close>

lemma fl_eval:
  assumes "pow2 (e + 52) \<le> x" and "x < pow2 (e + 53)"
    and "of_int m - 1 / 2 < x / pow2 e" and "x / pow2 e < of_int m + 1 / 2"
  shows "fl x = of_int m * pow2 e"
proof -
  have x: "0 < x" using assms(1) pow2_pos [of "e + 52"] by linarith
  have "expo x = e + 52" using expo_unique [of x "e + 52"] assms(1,2) x by (simp add: add.commute)
  moreover have "round_even (x / pow2 e) = m" using assms(3,4) by (rule round_even_eval)
  ultimately show ?thesis using x by (simp add: fl_def fl_pos_def Let_def)
qed

lemma fl_neg: "fl (- x) = - fl x"
  by (simp add: fl_def)

lemma fl_near: "x - \<bar>x\<bar> * ulp \<le> fl x"
  using fl_lower [of x] fl_upper [of "- x"] by (cases "0 \<le> x") (simp_all add: fl_neg)

lemma fl_near_le:
  assumes "y \<le> x" and "\<bar>y\<bar> \<le> k"
  shows "y - k * ulp \<le> fl x"
proof -
  have "\<bar>y\<bar> * ulp \<le> k * ulp" using assms(2) by (intro mult_right_mono) (simp_all add: ulp_def)
  with fl_near [of y] fl_mono [OF assms(1)] show ?thesis by linarith
qed

subsection \<open>Seconds\<close>

text \<open>Up to a day, rounding up to seconds is never short of the duration.\<close>

lemma wholeSeconds_covers:
  assumes "0 \<le> d" and "d \<le> 86400000000000"
  shows "d \<le> wholeSeconds d * second"
proof -
  define s where "s = d div second"
  define r where "r = d mod second"
  have d: "d = s * second + r" "0 \<le> r" "r < 1000000000" "0 \<le> s" "s \<le> 86400"
    using assms zdiv_mono1 [of d 86400000000000 1000000000]
    by (simp_all add: s_def r_def second_def pos_imp_zdiv_nonneg_iff)
  have sd: "d sdiv second = s"
    using assms(1) by (cases "d = 0") (simp_all add: s_def signed_divide_int_def second_def)
  have float: "seconds_float d = fl (of_int s + fl (of_int r / 1000000000))"
  proof -
    have "d - s * second = r" using d(1) by simp
    moreover have "fl (of_int s) = of_int s" "fl (of_int r) = of_int r"
      using fl_int [of s] fl_int [of r] d by simp_all
    ultimately show ?thesis unfolding seconds_float_def sd by simp
  qed
  show ?thesis
  proof (cases "r = 0")
    case True
    have "fl (of_int s) = of_int s" "fl 0 = 0" using fl_int [of s] fl_int [of 0] d by simp_all
    with True have "seconds_float d = of_int s" unfolding float by simp
    with True d(1) show ?thesis by (simp add: wholeSeconds_def)
  next
    case False
    with d have "1 / 1000000000 \<le> (of_int r :: rat) / 1000000000" by (simp add: divide_right_mono)
    then have "of_int 1 * pow2 (- 30) \<le> (of_int r :: rat) / 1000000000"
      by (rule order_trans [rotated]) (simp add: pow2_def)
    from fl_mono [OF this] have "of_int 1 * pow2 (- 30) \<le> fl (of_int r / 1000000000)"
      using fl_exact [of 1 "- 30"] by simp
    then have "of_int (s * 2 ^ 30 + 1) * pow2 (- 30) \<le> of_int s + fl (of_int r / 1000000000)"
      by (simp add: pow2_def field_simps)
    moreover have "fl (of_int (s * 2 ^ 30 + 1) * pow2 (- 30)) = of_int (s * 2 ^ 30 + 1) * pow2 (- 30)"
      using d by (intro fl_exact) simp
    ultimately have "of_int (s * 2 ^ 30 + 1) * pow2 (- 30) \<le> seconds_float d"
      using fl_mono unfolding float by metis
    moreover have "of_int s < of_int (s * 2 ^ 30 + 1) * pow2 (- 30)"
      by (simp add: pow2_def field_simps)
    ultimately have "of_int s < seconds_float d" by linarith
    then have "s < wholeSeconds d" by (simp add: wholeSeconds_def less_ceiling_iff)
    then have "(s + 1) * second \<le> wholeSeconds d * second"
      by (intro mult_right_mono) (simp_all add: second_def)
    with d show ?thesis by (simp add: distrib_right second_def)
  qed
qed

subsection \<open>The wait a refused client is told\<close>

text \<open>
  The chain of roundings from the time \<open>w\<close> until there is a whole token: it never loses a
  nanosecond.
\<close>

lemma retry_after_lower:
  assumes rate: "rate_ok n" and w: "1 \<le> w" "w \<le> take_interval n"
    and D: "D = (n - 1) * take_interval n + w"
  shows "w \<le> float_duration (- tokens_left n D (take_interval n)) (fl (of_int n)) + 1"
proof -
  define I where "I = take_interval n"
  define N :: rat where "N = of_int n"
  define M :: rat where "M = 60000000000"
  define x :: rat where "x = of_int w / of_int I"
  note I = take_interval_bounds [OF rate, folded I_def]
  have n: "1 \<le> n" "n \<le> 100000" using rate by (simp_all add: rate_ok_def)
  have N: "1 \<le> N" "N \<le> 100000" using n by (simp_all add: N_def)
  have x: "0 \<le> x" "x \<le> 1" using w I by (simp_all add: x_def I_def divide_le_eq)
  have fls: "fl (of_int I) = of_int I" "fl (of_int n) = N" "fl (of_int minute) = M"
    using I n fl_int [of 60000000000] by (simp_all add: fl_int N_def M_def duration_defs)
  have Dn: "D \<le> n * I" "0 \<le> D" using D w I n by (simp_all add: I_def left_diff_distrib)
  then have flD: "fl (of_int D) = of_int D" using I by (intro fl_int) simp
  have DI: "of_int D / of_int I = N - 1 + x"
    using D I by (simp add: N_def x_def I_def add_divide_distrib)
  define q where "q = fl (of_int D / of_int I)"
  define s where "s = fl (N - q)"
  define t where "t = fl (s - 1)"
  define a where "a = fl (- t / N)"
  define b where "b = fl (a * M)"
  have t: "tokens_left n D I = t"
    by (simp add: tokens_left_def fls flD t_def s_def q_def)
  have Nu: "0 \<le> N * ulp" "(N + 5) * ulp \<le> 1" using N by (simp_all add: ulp_def)
  have u: "0 \<le> ulp" by (simp add: ulp_def)
  have "N - 1 + x \<le> of_int D / of_int I" "\<bar>N - 1 + x\<bar> \<le> N" using DI N x by simp_all
  then have "fl (N - 1 + x) \<le> q" by (simp add: q_def fl_mono)
  moreover have "N - 1 + x - N * ulp \<le> fl (N - 1 + x)" by (rule fl_near_le) (use N x in simp_all)
  ultimately have "N - 1 + x - N * ulp \<le> q" by simp
  then have "x - 1 - N * ulp \<le> q - N" by simp
  then have "x - 1 - N * ulp - 2 * ulp \<le> fl (q - N)"
    by (rule fl_near_le) (use N x Nu(1) Nu(2) [unfolded distrib_right] u in \<open>unfold abs_le_iff distrib_right, linarith\<close>)
  then have "x - (N + 2) * ulp \<le> 1 - s" using fl_neg [of "N - q"] by (simp add: s_def distrib_right)
  then have "x - (N + 2) * ulp - 1 * ulp \<le> fl (1 - s)"
    by (rule fl_near_le) (use N x Nu(1) Nu(2) [unfolded distrib_right] u in \<open>unfold abs_le_iff distrib_right, linarith\<close>)
  then have "x - (N + 3) * ulp \<le> - t" using fl_neg [of "s - 1"] by (simp add: t_def distrib_right)
  then have "(x - (N + 3) * ulp) / N \<le> - t / N" by (rule divide_right_mono) (use N in simp)
  then have "(x - (N + 3) * ulp) / N - 1 / N * ulp \<le> a"
    unfolding a_def
  proof (rule fl_near_le)
    have "\<bar>x - (N + 3) * ulp\<bar> \<le> 1" using x Nu(1) Nu(2) [unfolded distrib_right] u
      unfolding abs_le_iff distrib_right by linarith
    then show "\<bar>(x - (N + 3) * ulp) / N\<bar> \<le> 1 / N" using N by (simp add: divide_right_mono)
  qed
  moreover have "(x - (N + 3) * ulp) / N - 1 / N * ulp = (x - (N + 4) * ulp) / N"
    by (simp add: diff_divide_distrib add_divide_distrib distrib_right)
  ultimately have "(x - (N + 4) * ulp) / N \<le> a" by simp
  then have "(x - (N + 4) * ulp) / N * M \<le> a * M"
    by (rule mult_right_mono) (simp add: M_def)
  then have "(x - (N + 4) * ulp) / N * M - M / N * ulp \<le> b"
    unfolding b_def
  proof (rule fl_near_le)
    have "\<bar>x - (N + 4) * ulp\<bar> \<le> 1" using x Nu(1) Nu(2) [unfolded distrib_right] u
      unfolding abs_le_iff distrib_right by linarith
    then have "\<bar>x - (N + 4) * ulp\<bar> / N * M \<le> 1 / N * M"
      using N by (intro mult_right_mono divide_right_mono) (simp_all add: M_def)
    moreover have "\<bar>N\<bar> = N" "\<bar>M\<bar> = M" using N by (simp_all add: M_def)
    ultimately show "\<bar>(x - (N + 4) * ulp) / N * M\<bar> \<le> M / N"
      unfolding abs_mult abs_divide by simp
  qed
  moreover have "(x - (N + 4) * ulp) / N * M - M / N * ulp = x * M / N - (N + 5) * ulp * M / N"
    by (simp add: diff_divide_distrib add_divide_distrib distrib_right left_diff_distrib)
  ultimately have b: "x * M / N - (N + 5) * ulp * M / N \<le> b" by simp
  have "of_int w \<le> x * M / N"
  proof -
    have "(of_int (n * I) :: rat) \<le> of_int 60000000000" using I(3) unfolding of_int_le_iff .
    then have "N * of_int I \<le> M" unfolding of_int_mult by (simp add: N_def M_def)
    then have "of_int w * (N * of_int I) \<le> of_int w * M" using w by (intro mult_left_mono) simp_all
    then show ?thesis using N I by (simp add: x_def field_simps)
  qed
  moreover have "(N + 5) * ulp * M / N \<le> 1 / 2"
  proof -
    have "(N + 5) / N \<le> 6" using N by (simp add: divide_le_eq)
    then have "(N + 5) / N * (ulp * M) \<le> 6 * (ulp * M)" by (rule mult_right_mono) (simp add: ulp_def M_def)
    also have "\<dots> \<le> 1 / 2" by (simp add: ulp_def M_def)
    finally show ?thesis by (simp add: mult.assoc)
  qed
  ultimately have "of_int w - 1 / 2 \<le> b" using b by linarith
  then have "w - 1 \<le> \<lfloor>b\<rfloor>" and "0 \<le> b" using w(1) by (simp_all add: le_floor_iff)
  moreover have "float_duration (- t) (fl (of_int n)) = trunc b"
    by (simp add: float_duration_def fls a_def b_def)
  ultimately show ?thesis
    using t by (simp add: trunc_def I_def)
qed

text \<open>And it is never more than a minute.\<close>

lemma trunc_le: "x \<le> of_int k \<Longrightarrow> trunc x \<le> k"
  unfolding trunc_def by (auto simp del: floor_minus) linarith+

lemma retry_after_upper:
  assumes rate: "rate_ok n" and D: "0 \<le> D" "D \<le> n * take_interval n"
  shows "float_duration (- tokens_left n D (take_interval n)) (fl (of_int n)) \<le> minute"
proof -
  define N :: rat where "N = of_int n"
  define I where "I = take_interval n"
  note I = take_interval_bounds [OF rate, folded I_def]
  have n: "1 \<le> n" "n \<le> 100000" using rate by (simp_all add: rate_ok_def)
  have N: "1 \<le> N" using n by (simp add: N_def)
  have fls: "fl (of_int I) = of_int I" "fl (of_int n) = N" "fl (of_int D) = of_int D"
    "fl (of_int minute) = of_int minute"
    using I n D fl_int [of 60000000000] by (simp_all add: fl_int N_def I_def duration_defs)
  have small: "fl 1 = 1" "fl 0 = 0" using fl_int [of 1] fl_int [of 0] by simp_all
  define q where "q = fl (of_int D / of_int I)"
  have "of_int D \<le> N * of_int I" using D by (simp add: N_def I_def flip: of_int_mult)
  then have "of_int D / of_int I \<le> N" using I by (simp add: divide_le_eq)
  from fl_mono [OF this] have "q \<le> N" using fls(2) n fl_int [of n] by (simp add: q_def N_def)
  then have "fl 0 \<le> fl (N - q)" by (intro fl_mono) simp
  then have "fl (- 1) \<le> fl (fl (N - q) - 1)" using small by (intro fl_mono) simp
  then have "- tokens_left n D I \<le> 1"
    using fl_neg [of 1] small by (simp add: tokens_left_def fls q_def)
  then have "- tokens_left n D I \<le> 1 * N" using N by linarith
  then have "- tokens_left n D I / N \<le> 1" using N by (subst divide_le_eq) simp
  from fl_mono [OF this] have "fl (- tokens_left n D I / N) \<le> 1" using small by simp
  then have "fl (- tokens_left n D I / N) * of_int minute \<le> 1 * of_int minute"
    by (rule mult_right_mono) (simp add: duration_defs)
  then have "fl (- tokens_left n D I / N) * of_int minute \<le> of_int minute" by simp
  from fl_mono [OF this] have "fl (fl (- tokens_left n D I / N) * of_int minute) \<le> of_int minute"
    using fls(4) by simp
  then show ?thesis
    unfolding float_duration_def fls by (intro trunc_le) (simp_all add: I_def)
qed

text \<open>So the time a refused client is told is the time until it has a token, or a nanosecond less.\<close>

lemma told_wait:
  assumes ok: "memory_ok l m now" and told: "Memory_Allow l m now key = (d, m')"
    and no: "\<not> dAllowed d"
  shows "until_full l m now key - (lPerMinute l - 1) * limiter_gap l
      \<le> wholeSeconds (dRetryAfter d) * second + 1"
proof -
  define n where "n = lPerMinute l"
  define u where "u = until_full l m now key"
  have n: "rate_ok n" "lBurst l = n" "limiter_gap l = take_interval n"
    using ok by (auto simp: memory_ok_def limiter_New_def n_def limiter_gap_def split: if_splits)
      (metis limiter.select_convs(2) limiter.select_convs(3))
  have u: "0 \<le> u" "u \<le> n * take_interval n"
    using until_full_bounds [OF ok, of key] by (simp_all add: u_def n_def limiter_gap_def)
  define r where "r = tokens_left n u (take_interval n)"
  have d: "d = Allow l (Some r)"
    using told Take_eq [OF ok, of key] by (simp add: Memory_Allow_def Let_def r_def u_def n_def limiter_gap_def)
  then have r: "r < 0" using no by (auto simp: Allow_def Let_def split: if_splits)
  then have wait: "dRetryAfter d = float_duration (- r) (fl (of_int n))"
    by (simp add: d Allow_def Let_def n_def)
  have "\<not> u \<le> (n - 1) * take_interval n"
    using r tokens_left_decides [OF n(1) u(1)] by (simp add: r_def)
  define w where "w = u - (n - 1) * take_interval n"
  have w: "1 \<le> w" "w \<le> take_interval n" "u = (n - 1) * take_interval n + w"
    using \<open>\<not> u \<le> _\<close> u(2) by (simp_all add: w_def left_diff_distrib)
  have "w - 1 \<le> dRetryAfter d" using retry_after_lower [OF n(1) w] by (simp add: wait r_def)
  moreover have "dRetryAfter d \<le> minute" using retry_after_upper [OF n(1) u] by (simp add: wait r_def)
  ultimately have "dRetryAfter d \<le> wholeSeconds (dRetryAfter d) * second"
    using w(1) by (intro wholeSeconds_covers) (simp_all add: duration_defs)
  with \<open>w - 1 \<le> dRetryAfter d\<close> show ?thesis by (simp add: w_def u_def n_def n(3) [unfolded n_def])
qed

lemma granted_others: "key \<notin> snd ` set ats \<Longrightarrow> granted key a b (attempts f m ats) = 0"
  by (induction f m ats rule: attempts.induct) (auto split: prod.splits)

text \<open>
  C25. A client that waits longer than it was told, be it by a nanosecond, is let in: whatever an
  address has done before, when it is refused and tries again after the seconds of
  \<open>Retry-After\<close> have gone by, it is allowed, and no one else's attempts in between can change
  that. What \<open>Allow\<close> loses in its four floating-point operations is never more than that
  nanosecond.
\<close>

theorem retry_after_suffices:
  assumes "limiter_New name n = Ret l" and "n \<le> 100000"
    and "sorted (zero_time # map fst (earlier @ (now, key) # others))" and "key \<notin> snd ` set others"
    and "\<And>x. x \<in> set others \<Longrightarrow> fst x \<le> t"
    and "Memory_Allow l (left_after (attempt l) zero_memory earlier) now key = (d, m)" and "\<not> dAllowed d"
    and "now + wholeSeconds (dRetryAfter d) * second < t"
  shows "fst (attempt l (left_after (attempt l) m others) t key)"
proof -
  note zero = memory_ok_zero [OF assms(1,2)]
  define m0 where "m0 = left_after (attempt l) zero_memory earlier"
  have times: "sorted (zero_time # map fst earlier)" "\<And>x. x \<in> set earlier \<Longrightarrow> fst x \<le> now"
    "sorted (now # map fst others)" "zero_time \<le> now"
    using assms(3) by (auto simp: sorted_append)
  have ok0: "memory_ok l m0 now"
    using memory_bucket.level_from [of l zero_memory zero_time now earlier key] zero times
    by (simp add: m0_def)
  have told: "Memory_Allow l m0 now key = (d, m)" using assms(6) by (simp add: m0_def)
  then have step: "attempt l m0 now key = (False, m)" using assms(7) by (simp add: attempt_def)
  define u where "u = until_full l m0 now key"
  have same: "until_full l m now key = u"
    using attempt_level [OF ok0, of key key] by (simp add: step u_def)
  have ok: "memory_ok l m now" using memory_bucket.keeps [OF ok0, of key] by (simp add: step)
  have wait: "u - (lPerMinute l - 1) * limiter_gap l \<le> wholeSeconds (dRetryAfter d) * second + 1"
    using told_wait [OF ok0 told assms(7)] by (simp add: u_def)
  have refused: "\<not> u \<le> (lPerMinute l - 1) * limiter_gap l"
    using memory_bucket.decides [OF ok0, of key] zero by (simp add: step u_def)
  then have "now \<le> t" using wait assms(8) by linarith
  from memory_bucket.level_from [OF ok this times(3) assms(5), of key]
  have "memory_ok l (left_after (attempt l) m others) t"
    and "until_full l (left_after (attempt l) m others) t key \<le> max 0 (u - (t - now))"
    by (simp_all add: granted_others [OF assms(4)] same)
  moreover have "max 0 (u - (t - now)) \<le> (lPerMinute l - 1) * limiter_gap l"
    using wait assms(1,8) zero by (auto simp: limiter_New_def split: if_splits)
  ultimately show ?thesis using memory_bucket.decides zero by fastforce
qed

text \<open>Ten attempts at once, with ten a minute, and the next one nearly five seconds later.\<close>

lemma burst_taken:
  assumes "memory_ok l m t" and "until_full l m t key = j * limiter_gap l" and "j + int k \<le> lPerMinute l"
  shows "memory_ok l (left_after (attempt l) m (replicate k (t, key))) t
    \<and> until_full l (left_after (attempt l) m (replicate k (t, key))) t key = (j + int k) * limiter_gap l"
  using assms
proof (induction k arbitrary: m j)
  case (Suc k)
  have gap: "0 < limiter_gap l"
    using Suc.prems(1) take_interval_bounds(1) [of "lPerMinute l"] by (simp add: memory_ok_def limiter_gap_def)
  have "j * limiter_gap l \<le> (lPerMinute l - 1) * limiter_gap l"
    using Suc.prems(3) gap by (intro mult_right_mono) simp_all
  then have "fst (attempt l m t key)" using Suc.prems(2) by (simp add: attempt_eq [OF Suc.prems(1)])
  then have "until_full l (snd (attempt l m t key)) t key = (j + 1) * limiter_gap l"
    using attempt_level [OF Suc.prems(1), of key key] Suc.prems(2) by (simp add: distrib_right)
  from Suc.IH [OF memory_bucket.keeps [OF Suc.prems(1)] this] Suc.prems(3) show ?case
    by (simp add: add.assoc)
qed simp

definition ten_a_minute :: limiter where
  "ten_a_minute = \<lparr>lName = ''s'', lPerMinute = 10, lBurst = 10\<rparr>"

definition after_ten :: memory where
  "after_ten = left_after (attempt ten_a_minute) zero_memory (replicate 10 (0, ''a''))"

lemma ten_a_minute_New: "limiter_New ''s'' 10 = Ret ten_a_minute"
  by (simp add: limiter_New_def ten_a_minute_def)

lemma ten_gap: "limiter_gap ten_a_minute = 6000000000" "lPerMinute ten_a_minute = 10"
  by (simp_all add: limiter_gap_def ten_a_minute_def take_interval_def duration_defs)

lemma after_ten_level:
  assumes "0 \<le> now"
  shows "memory_ok ten_a_minute after_ten now
    \<and> until_full ten_a_minute after_ten now ''a'' = max 0 (60000000000 - now)"
proof -
  have "memory_ok ten_a_minute zero_memory 0"
    using memory_ok_zero [OF ten_a_minute_New]
    by (auto intro: memory_bucket.later simp: zero_time_def duration_defs)
  moreover have "until_full ten_a_minute zero_memory 0 ''a'' = 0 * limiter_gap ten_a_minute"
    by (simp add: until_full_def full_time_def zero_memory_def zero_time_def duration_defs)
  ultimately have "memory_ok ten_a_minute after_ten 0
      \<and> until_full ten_a_minute after_ten 0 ''a'' = (0 + int 10) * limiter_gap ten_a_minute"
    unfolding after_ten_def by (rule burst_taken) (simp add: ten_gap)
  then show ?thesis
    using memory_bucket.later [of ten_a_minute after_ten 0 now]
      memory_bucket.drains [of ten_a_minute after_ten 0 now "''a''"] assms by (simp add: ten_gap)
qed

lemma tokens_left_ten: "tokens_left 10 55000000001 6000000000 = - 6004799509165440 * pow2 (- 55)"
proof -
  have "fl (55000000001 / 6000000000) = of_int 5160374573122518 * pow2 (- 49)"
    by (rule fl_eval) (simp_all add: pow2_def)
  moreover have "fl 55000000001 = 55000000001" "fl 6000000000 = 6000000000" "fl 10 = 10"
    using fl_int [of 55000000001] fl_int [of 6000000000] fl_int [of 10] by simp_all
  moreover have "fl (10 - of_int 5160374573122518 * pow2 (- 49)) = of_int 7505999377449632 * pow2 (- 53)"
    by (rule fl_eval) (simp_all add: pow2_def)
  moreover have "fl (1 - of_int 7505999377449632 * pow2 (- 53)) = of_int 6004799509165440 * pow2 (- 55)"
    by (rule fl_eval) (simp_all add: pow2_def)
  ultimately show ?thesis
    using fl_neg [of "1 - of_int 7505999377449632 * pow2 (- 53)"] by (simp add: tokens_left_def)
qed

lemma wait_ten: "float_duration (6004799509165440 * pow2 (- 55)) (fl (of_int 10)) = 1000000000"
proof -
  have a: "fl (6004799509165440 * pow2 (- 55) / 10) = of_int 4803839607332352 * pow2 (- 58)"
    by (rule fl_eval) (simp_all add: pow2_def)
  have b: "fl (of_int 4803839607332352 * pow2 (- 58) * 60000000000) = of_int 8388608008388579 * pow2 (- 23)"
    by (rule fl_eval) (simp_all add: pow2_def)
  have "fl (of_int 10) = 10" "fl (of_int minute) = 60000000000"
    using fl_int [of 10] fl_int [of 60000000000] by (simp_all add: duration_defs)
  then show ?thesis
    unfolding float_duration_def by (simp only: a b) (simp add: trunc_def pow2_def floor_eq_iff)
qed

lemma told_one_second:
  "\<exists>d m. Memory_Allow ten_a_minute after_ten 4999999999 ''a'' = (d, m) \<and> \<not> dAllowed d
     \<and> wholeSeconds (dRetryAfter d) = 1 \<and> memory_ok ten_a_minute m 4999999999
     \<and> until_full ten_a_minute m 4999999999 ''a'' = 55000000001"
proof -
  have ok: "memory_ok ten_a_minute after_ten 4999999999"
    and u: "until_full ten_a_minute after_ten 4999999999 ''a'' = 55000000001"
    using after_ten_level [of 4999999999] by simp_all
  obtain d m where told: "Memory_Allow ten_a_minute after_ten 4999999999 ''a'' = (d, m)" by fastforce
  have r: "tokens_left 10 55000000001 6000000000 < 0" by (simp add: tokens_left_ten pow2_def)
  have d: "d = Allow ten_a_minute (Some (tokens_left 10 55000000001 6000000000))"
    using told Take_eq [OF ok, of "''a''"] by (simp add: Memory_Allow_def Let_def u ten_gap)
  then have no: "\<not> dAllowed d" using r by (simp add: Allow_def Let_def)
  have "dRetryAfter d = 1000000000"
    using r wait_ten by (simp add: d Allow_def Let_def ten_gap tokens_left_ten)
  then have "wholeSeconds (dRetryAfter d) = 1"
    using fl_int [of 1] fl_int [of 0]
    by (simp add: wholeSeconds_def seconds_float_def second_def signed_divide_int_def)
  moreover have "attempt ten_a_minute after_ten 4999999999 ''a'' = (False, m)"
    using told no by (simp add: attempt_def)
  then have "memory_ok ten_a_minute m 4999999999"
    and "until_full ten_a_minute m 4999999999 ''a'' = 55000000001"
    using memory_bucket.keeps [OF ok, of "''a''"] attempt_level [OF ok, of "''a''" "''a''"] by (simp_all add: u)
  ultimately show ?thesis using told no by blast
qed

theorem retry_after_suffices_witness:
  "\<exists>d m. Memory_Allow ten_a_minute after_ten 4999999999 ''a'' = (d, m) \<and> wholeSeconds (dRetryAfter d) = 1
     \<and> fst (attempt ten_a_minute (left_after (attempt ten_a_minute) m [(5000000000, ''b'')]) 6000000000 ''a'')"
proof -
  from told_one_second obtain d m where dm:
    "Memory_Allow ten_a_minute after_ten 4999999999 ''a'' = (d, m)" "\<not> dAllowed d"
    "wholeSeconds (dRetryAfter d) = 1" by blast
  have "fst (attempt ten_a_minute (left_after (attempt ten_a_minute) m [(5000000000, ''b'')]) 6000000000 ''a'')"
    by (rule retry_after_suffices [OF ten_a_minute_New _ _ _ _ dm(1) [unfolded after_ten_def] dm(2)])
      (simp_all add: dm(3) zero_time_def duration_defs sorted_append)
  with dm show ?thesis by blast
qed

text \<open>
  But not every client that waits exactly as long as it was told is let in, which is what
  the rounding of \<open>wholeSeconds\<close> is there for: with ten attempts a minute, an address that made
  ten at once and is refused a nanosecond before five seconds have gone by is told to try again
  in one second; it does, to the nanosecond, and is refused.
\<close>

theorem retry_after_early:
  "\<exists>l d m. limiter_New ''s'' 10 = Ret l
     \<and> Memory_Allow l (left_after (attempt l) zero_memory (replicate 10 (0, ''a''))) 4999999999 ''a'' = (d, m)
     \<and> \<not> dAllowed d \<and> wholeSeconds (dRetryAfter d) = 1
     \<and> \<not> fst (attempt l m (4999999999 + wholeSeconds (dRetryAfter d) * second) ''a'')"
proof -
  from told_one_second obtain d m where dm:
    "Memory_Allow ten_a_minute after_ten 4999999999 ''a'' = (d, m)" "\<not> dAllowed d"
    "wholeSeconds (dRetryAfter d) = 1" "memory_ok ten_a_minute m 4999999999"
    "until_full ten_a_minute m 4999999999 ''a'' = 55000000001" by blast
  have "memory_ok ten_a_minute m 5999999999" by (rule memory_bucket.later [OF dm(4)]) simp
  moreover have "until_full ten_a_minute m 5999999999 ''a'' = 54000000001"
    using memory_bucket.drains [OF dm(4), of 5999999999 "''a''"] dm(5) by simp
  ultimately have "\<not> fst (attempt ten_a_minute m 5999999999 ''a'')"
    by (simp add: attempt_eq ten_gap)
  then have "\<not> fst (attempt ten_a_minute m (4999999999 + wholeSeconds (dRetryAfter d) * second) ''a'')"
    by (simp add: dm(3) second_def)
  then show ?thesis using ten_a_minute_New dm(1,2,3) unfolding after_ten_def by blast
qed

end
