(* ===== verification/Job_Loops.thy ===== *)
theory Job_Loops
  imports Jobs
begin

text \<open>
  \<open>jobs.Start\<close> and the function it returns: one goroutine for each job, next to the one that
  called \<open>Start\<close>. A step of the relation is one step of one of them, or of the world around:
  time goes by, and the context is done when a signal says so. What a run does and how long it
  takes is left open; its end and what \<open>runOnce\<close> then records are one step. A panic of
  \<open>time.NewTicker\<close> is outside \<open>runOnce\<close> and ends the process.
\<close>

subsection \<open>The goroutines\<close>

text \<open>
  Where a loop is: before \<open>NewTicker\<close>, before a run, in one that began at a time, in the
  \<open>select\<close>, or returned.
\<close>

datatype loop_state = Spawned | Begin ticker | Running ticker gotime | Selecting ticker | LoopEnded

text \<open>And the caller: in \<open>Start\<close>, on its own, in the function \<open>Start\<close> returned, and past it.\<close>

datatype caller_state = Starting | Started | Stopping | Stopped | Crashed

text \<open>
  The context of the jobs is done once the context given to \<open>Start\<close> is (\<open>jpSignal\<close>) or \<open>cancel\<close> has
  been called (\<open>jpCancelled\<close>). \<open>jpTrace\<close> only records what happened: a run of the job of that
  number began, or ended.
\<close>

datatype run_event = RunBegan nat gotime | RunEnded nat gotime bool run_result

record job_pool =
  jpNow :: gotime
  jpSignal :: bool
  jpCancelled :: bool
  jpCaller :: caller_state
  jpLoops :: "loop_state list"
  jpMetrics :: job_metrics
  jpLog :: "log_entry list"
  jpTrace :: "run_event list"

definition jpDone :: "job_pool \<Rightarrow> bool" where
  "jpDone s \<longleftrightarrow> jpSignal s \<or> jpCancelled s"

declare jpDone_def [simp]

type_synonym jobs = "(bytes \<times> duration) list"

definition Start :: "jobs \<Rightarrow> gotime \<Rightarrow> bool \<Rightarrow> job_pool" where
  "Start jobs now stopping =
     \<lparr>jpNow = now, jpSignal = stopping, jpCancelled = False, jpCaller = Starting, jpLoops = [],
      jpMetrics = jobs_newMetrics (map fst jobs), jpLog = [], jpTrace = []\<rparr>"

definition set_loop :: "nat \<Rightarrow> loop_state \<Rightarrow> job_pool \<Rightarrow> job_pool" where
  "set_loop i l s = s\<lparr>jpLoops := (jpLoops s)[i := l]\<rparr>"

definition in_loop :: "job_pool \<Rightarrow> nat \<Rightarrow> loop_state \<Rightarrow> bool" where
  "in_loop s i l \<longleftrightarrow> i < length (jpLoops s) \<and> jpLoops s ! i = l"

text \<open>The run of job \<open>i\<close> that began at \<open>start\<close> returns or panics.\<close>

definition end_run :: "(duration \<Rightarrow> bytes) \<Rightarrow> jobs \<Rightarrow> nat \<Rightarrow> gotime \<Rightarrow> run_result \<Rightarrow> job_pool \<Rightarrow> job_pool" where
  "end_run ms jobs i start r s =
     (case run_done ms (fst (jobs ! i)) start (jpNow s) (jpDone s) r (jpMetrics s, jpLog s) of
        (m, es) \<Rightarrow> s\<lparr>jpMetrics := m, jpLog := es,
                     jpTrace := jpTrace s @ [RunEnded i (jpNow s) (jpDone s) r]\<rparr>)"

inductive pool_step :: "(duration \<Rightarrow> bytes) \<Rightarrow> jobs \<Rightarrow> job_pool \<Rightarrow> job_pool \<Rightarrow> bool" for ms jobs where
  spawn: "jpCaller s = Starting \<Longrightarrow> length (jpLoops s) < length jobs \<Longrightarrow>
    pool_step ms jobs s (s\<lparr>jpLoops := jpLoops s @ [Spawned]\<rparr>)"
| started: "jpCaller s = Starting \<Longrightarrow> length (jpLoops s) = length jobs \<Longrightarrow>
    pool_step ms jobs s (s\<lparr>jpCaller := Started\<rparr>)"
| stop: "jpCaller s = Started \<Longrightarrow> pool_step ms jobs s (s\<lparr>jpCaller := Stopping, jpCancelled := True\<rparr>)"
| stopped: "jpCaller s = Stopping \<Longrightarrow> set (jpLoops s) \<subseteq> {LoopEnded} \<Longrightarrow>
    pool_step ms jobs s (s\<lparr>jpCaller := Stopped\<rparr>)"
| signal: "pool_step ms jobs s (s\<lparr>jpSignal := True\<rparr>)"
| pass: "0 \<le> d \<Longrightarrow> pool_step ms jobs s (s\<lparr>jpNow := jpNow s + d\<rparr>)"
| ticker: "in_loop s i Spawned \<Longrightarrow> 0 < snd (jobs ! i) \<Longrightarrow>
    pool_step ms jobs s
      (set_loop i (Begin \<lparr>tkNext = jpNow s + snd (jobs ! i), tkWaiting = False\<rparr>) s)"
| no_ticker: "in_loop s i Spawned \<Longrightarrow> snd (jobs ! i) \<le> 0 \<Longrightarrow>
    pool_step ms jobs s (s\<lparr>jpCaller := Crashed, jpLoops := map (\<lambda>_. LoopEnded) (jpLoops s)\<rparr>)"
| run: "in_loop s i (Begin tk) \<Longrightarrow>
    pool_step ms jobs s
      ((set_loop i (Running tk (jpNow s)) s)\<lparr>jpTrace := jpTrace s @ [RunBegan i (jpNow s)]\<rparr>)"
| done_run: "in_loop s i (Running tk start) \<Longrightarrow>
    pool_step ms jobs s (set_loop i (Selecting tk) (end_run ms jobs i start r s))"
| tick: "in_loop s i (Selecting tk) \<Longrightarrow> tk' = ticker_at (snd (jobs ! i)) (jpNow s) tk \<Longrightarrow> tkWaiting tk' \<Longrightarrow>
    pool_step ms jobs s (set_loop i (Begin (tk'\<lparr>tkWaiting := False\<rparr>)) s)"
| leave: "in_loop s i (Selecting tk) \<Longrightarrow> jpDone s \<Longrightarrow> pool_step ms jobs s (set_loop i LoopEnded s)"

abbreviation pool_steps :: "(duration \<Rightarrow> bytes) \<Rightarrow> jobs \<Rightarrow> job_pool \<Rightarrow> job_pool \<Rightarrow> bool" where
  "pool_steps ms jobs \<equiv> (pool_step ms jobs)\<^sup>*\<^sup>*"

text \<open>What can come of a call of \<open>Start\<close>.\<close>

definition pool_reach :: "(duration \<Rightarrow> bytes) \<Rightarrow> jobs \<Rightarrow> gotime \<Rightarrow> job_pool \<Rightarrow> bool" where
  "pool_reach ms jobs t s \<longleftrightarrow> (\<exists>stopping. pool_steps ms jobs (Start jobs t stopping) s)"

lemma pool_reach_step: "pool_reach ms jobs t s \<Longrightarrow> pool_step ms jobs s s' \<Longrightarrow> pool_reach ms jobs t s'"
  unfolding pool_reach_def by (meson rtranclp.rtrancl_into_rtrancl)

lemma pool_reach_steps: "pool_reach ms jobs t s \<Longrightarrow> pool_steps ms jobs s s' \<Longrightarrow> pool_reach ms jobs t s'"
  unfolding pool_reach_def by (meson rtranclp_trans)

lemma pool_invariant [consumes 1, case_names start step]:
  assumes "pool_reach ms jobs t s" and "\<And>stopping. P (Start jobs t stopping)"
    and "\<And>s s'. pool_reach ms jobs t s \<Longrightarrow> P s \<Longrightarrow> pool_step ms jobs s s' \<Longrightarrow> P s'"
  shows "P s"
proof -
  from assms(1) obtain stopping where "pool_steps ms jobs (Start jobs t stopping) s"
    by (auto simp: pool_reach_def)
  then have "pool_reach ms jobs t s \<and> P s"
  proof (induction rule: rtranclp_induct)
    case base
    show ?case using assms(2) by (auto simp: pool_reach_def)
  next
    case (step s s')
    then show ?case using assms(3) pool_reach_step by blast
  qed
  then show ?thesis ..
qed

lemma pool_len: "pool_reach ms jobs t s \<Longrightarrow> length (jpLoops s) \<le> length jobs"
proof (induction rule: pool_invariant)
  case (step s s')
  from step.hyps(2) show ?case
    by cases (use step.IH in \<open>auto simp: set_loop_def end_run_def split: prod.splits\<close>)
qed (simp add: Start_def)

subsection \<open>The history of a job\<close>

text \<open>
  Whether job \<open>i\<close> is in a run after what happened, given whether it was before; \<open>None\<close> if a run
  began in another or ended without one.
\<close>

fun running :: "nat \<Rightarrow> bool \<Rightarrow> run_event list \<Rightarrow> bool option" where
  "running i b [] = Some b"
| "running i b (RunBegan j t # tr) =
     (if j \<noteq> i then running i b tr else if b then None else running i True tr)"
| "running i b (RunEnded j t stopping r # tr) =
     (if j \<noteq> i then running i b tr else if b then running i False tr else None)"

fun begun :: "nat \<Rightarrow> run_event list \<Rightarrow> nat" where
  "begun i [] = 0"
| "begun i (RunBegan j t # tr) = (if j = i then 1 else 0) + begun i tr"
| "begun i (RunEnded j t stopping r # tr) = begun i tr"

fun counts :: "jobs \<Rightarrow> bytes \<Rightarrow> bytes \<Rightarrow> run_event list \<Rightarrow> nat" where
  "counts jobs name outcome [] = 0"
| "counts jobs name outcome (RunBegan j t # tr) = counts jobs name outcome tr"
| "counts jobs name outcome (RunEnded j t stopping r # tr) =
     (if fst (jobs ! j) = name \<and> outcome_of stopping r = Some outcome then 1 else 0)
       + counts jobs name outcome tr"

lemma running_append:
  "running i b (xs @ ys) = (case running i b xs of None \<Rightarrow> None | Some b \<Rightarrow> running i b ys)"
  by (induction i b xs rule: running.induct) auto

lemma begun_append [simp]: "begun i (xs @ ys) = begun i xs + begun i ys"
  by (induction i xs rule: begun.induct) auto

lemma counts_append [simp]:
  "counts jobs name outcome (xs @ ys) = counts jobs name outcome xs + counts jobs name outcome ys"
  by (induction jobs name outcome xs rule: counts.induct) auto

subsection \<open>Invariants\<close>

text \<open>\<open>t\<close> is when \<open>Start\<close> was called. Each run after the first has taken a tick of the ticker.\<close>

definition paced :: "duration \<Rightarrow> gotime \<Rightarrow> gotime \<Rightarrow> nat \<Rightarrow> ticker \<Rightarrow> bool" where
  "paced every t now n tk \<longleftrightarrow>
     int n * every \<le> tkNext tk - t \<and> tkNext tk \<le> now + every \<and> \<not> tkWaiting tk"

definition loop_ok :: "duration \<Rightarrow> gotime \<Rightarrow> gotime \<Rightarrow> run_event list \<Rightarrow> nat \<Rightarrow> loop_state \<Rightarrow> bool" where
  "loop_ok every t now tr i l \<longleftrightarrow>
     (case l of
        Spawned \<Rightarrow> running i False tr = Some False \<and> begun i tr = 0
      | Begin tk \<Rightarrow> running i False tr = Some False \<and> paced every t now (begun i tr + 1) tk
      | Running tk start \<Rightarrow> running i False tr = Some True \<and> paced every t now (begun i tr) tk
      | Selecting tk \<Rightarrow> running i False tr = Some False \<and> paced every t now (begun i tr) tk
      | LoopEnded \<Rightarrow> running i False tr = Some False \<and> int (begun i tr) * every \<le> now + every - t)"

definition pool_ok :: "jobs \<Rightarrow> gotime \<Rightarrow> job_pool \<Rightarrow> bool" where
  "pool_ok jobs t s \<longleftrightarrow>
     t \<le> jpNow s \<and> length (jpLoops s) \<le> length jobs \<and> jpCaller s \<noteq> Crashed
     \<and> (jpCaller s \<noteq> Starting \<longrightarrow> length (jpLoops s) = length jobs)
     \<and> (jpCaller s \<in> {Stopping, Stopped} \<longrightarrow> jpCancelled s)
     \<and> (jpCaller s = Stopped \<longrightarrow> set (jpLoops s) \<subseteq> {LoopEnded})
     \<and> (\<forall>i < length (jpLoops s). loop_ok (snd (jobs ! i)) t (jpNow s) (jpTrace s) i (jpLoops s ! i))
     \<and> (\<forall>i \<ge> length (jpLoops s). running i False (jpTrace s) = Some False \<and> begun i (jpTrace s) = 0)"

lemma loop_ok_later: "loop_ok every t now tr i l \<Longrightarrow> 0 \<le> d \<Longrightarrow> loop_ok every t (now + d) tr i l"
  by (auto simp: loop_ok_def paced_def split: loop_state.splits)

text \<open>A loop that has not returned takes a step, and the others do not see it.\<close>

lemma pool_ok_move:
  assumes ok: "pool_ok jobs t s" and i: "in_loop s i l" "l \<noteq> LoopEnded"
    and new: "loop_ok (snd (jobs ! i)) t (jpNow s) (jpTrace s') i l'"
    and others: "\<And>j. j \<noteq> i \<Longrightarrow> running j False (jpTrace s') = running j False (jpTrace s)
      \<and> begun j (jpTrace s') = begun j (jpTrace s)"
    and same: "jpNow s' = jpNow s" "jpCancelled s' = jpCancelled s" "jpCaller s' = jpCaller s"
      "jpLoops s' = (jpLoops s)[i := l']"
  shows "pool_ok jobs t s'"
proof -
  have "\<not> set (jpLoops s) \<subseteq> {LoopEnded}" using i nth_mem by (fastforce simp: in_loop_def)
  moreover have "loop_ok (snd (jobs ! j)) t (jpNow s) (jpTrace s') j ((jpLoops s)[i := l'] ! j)"
    if "j < length (jpLoops s)" for j
  proof (cases "j = i")
    case True
    with new that show ?thesis by simp
  next
    case False
    have "loop_ok (snd (jobs ! j)) t (jpNow s) (jpTrace s) j (jpLoops s ! j)"
      using ok that by (simp add: pool_ok_def)
    with others [OF False] False show ?thesis
      by (cases "jpLoops s ! j") (simp_all add: loop_ok_def)
  qed
  moreover have "running j False (jpTrace s') = Some False \<and> begun j (jpTrace s') = 0"
    if "length (jpLoops s) \<le> j" for j
  proof -
    have "j \<noteq> i" using i that by (auto simp: in_loop_def)
    with ok that others show ?thesis by (simp add: pool_ok_def)
  qed
  ultimately show ?thesis using ok by (auto simp: pool_ok_def same)
qed

lemma pool_ok_loop:
  "pool_ok jobs t s \<Longrightarrow> in_loop s i l \<Longrightarrow> loop_ok (snd (jobs ! i)) t (jpNow s) (jpTrace s) i l"
  by (auto simp: pool_ok_def in_loop_def)

lemma ticker_at_paced:
  assumes "0 < every" and "paced every t now n tk" and "tkWaiting (ticker_at every now tk)"
  shows "paced every t now (n + 1) ((ticker_at every now tk)\<lparr>tkWaiting := False\<rparr>)"
proof -
  have now: "tkNext tk \<le> now" and n: "int n * every \<le> tkNext tk - t"
    using assms(2,3) by (auto simp: paced_def ticker_at_def split: if_splits)
  define k where "k = (now - tkNext tk) div every"
  have "0 \<le> k" using now assms(1) by (simp add: k_def pos_imp_zdiv_nonneg_iff)
  then have "0 \<le> k * every" using assms(1) by simp
  moreover have "k * every \<le> now - tkNext tk"
    using minus_mod_eq_div_mult [of "now - tkNext tk" every] pos_mod_sign [OF assms(1), of "now - tkNext tk"]
    by (simp add: k_def)
  ultimately show ?thesis
    using now n by (simp add: paced_def ticker_at_def k_def [symmetric] distrib_right)
qed

lemma pool_ok_step:
  assumes jobs: "\<forall>j \<in> set jobs. 0 < snd j" and ok: "pool_ok jobs t s" and step: "pool_step ms jobs s s'"
  shows "pool_ok jobs t s'"
proof -
  have pos: "0 < snd (jobs ! i)" if "in_loop s i l" for i l
    using that ok jobs by (auto simp: in_loop_def pool_ok_def)
  show ?thesis
    using step
  proof cases
    case (no_ticker i)
    with pos show ?thesis by fastforce
  next
    case spawn
    then show ?thesis using ok by (auto simp: pool_ok_def nth_append less_Suc_eq loop_ok_def)
  next
    case (pass d)
    then show ?thesis using ok loop_ok_later by (auto simp: pool_ok_def)
  next
    case (ticker i)
    have "t \<le> jpNow s" using ok by (simp add: pool_ok_def)
    with pos [OF ticker(2)] pool_ok_loop [OF ok ticker(2)] show ?thesis
      unfolding ticker(1)
      by (intro pool_ok_move [OF ok ticker(2), where l' = "Begin _"])
        (simp_all add: set_loop_def loop_ok_def paced_def)
  next
    case (run i tk)
    with pool_ok_loop [OF ok run(2)] show ?thesis
      unfolding run(1)
      by (intro pool_ok_move [OF ok run(2), where l' = "Running tk (jpNow s)"])
        (simp_all add: set_loop_def loop_ok_def running_append split: option.splits)
  next
    case (done_run i tk start r)
    with pool_ok_loop [OF ok done_run(2)] show ?thesis
      unfolding done_run(1)
      by (intro pool_ok_move [OF ok done_run(2), where l' = "Selecting tk"])
        (simp_all add: set_loop_def end_run_def loop_ok_def running_append split: option.splits prod.splits)
  next
    case (tick i tk tk')
    with pool_ok_loop [OF ok tick(2)] ticker_at_paced [OF pos [OF tick(2)]] show ?thesis
      unfolding tick(1)
      by (intro pool_ok_move [OF ok tick(2), where l' = "Begin (tk'\<lparr>tkWaiting := False\<rparr>)"])
        (simp_all add: set_loop_def loop_ok_def)
  next
    case (leave i tk)
    with pool_ok_loop [OF ok leave(2)] show ?thesis
      unfolding leave(1)
      by (intro pool_ok_move [OF ok leave(2), where l' = LoopEnded]) (simp_all add: set_loop_def loop_ok_def paced_def)
  qed (use ok in \<open>auto simp: pool_ok_def\<close>)
qed

lemma pool_reach_ok:
  assumes "pool_reach ms jobs t s" and "\<forall>j \<in> set jobs. 0 < snd j"
  shows "pool_ok jobs t s"
  using assms(1)
proof (rule pool_invariant)
  show "pool_ok jobs t (Start jobs t stopping)" for stopping
    by (simp add: pool_ok_def Start_def)
qed (rule pool_ok_step [OF assms(2)])

subsection \<open>What it guarantees\<close>

text \<open>Once the function has returned, nothing of the jobs goes on.\<close>

lemma stopped_stays:
  assumes "pool_steps ms jobs s s'" and "jpCaller s = Stopped" and "set (jpLoops s) \<subseteq> {LoopEnded}"
  shows "jpCaller s' = Stopped \<and> set (jpLoops s') \<subseteq> {LoopEnded} \<and> jpTrace s' = jpTrace s"
  using assms(1)
proof (induction rule: rtranclp_induct)
  case base
  show ?case using assms by simp
next
  case (step u v)
  have ended: "in_loop u i l \<Longrightarrow> l = LoopEnded" for i l
    using step.IH nth_mem by (fastforce simp: in_loop_def)
  from step.hyps(2) show ?case
    by cases (use step.IH ended in \<open>auto\<close>)
qed

text \<open>
  Steps that the caller of \<open>Start\<close> has no part in once \<open>Start\<close> has returned, and that no signal
  from outside is.
\<close>

abbreviation pool_goes :: "(duration \<Rightarrow> bytes) \<Rightarrow> jobs \<Rightarrow> job_pool \<Rightarrow> job_pool \<Rightarrow> bool" where
  "pool_goes ms jobs \<equiv>
     (\<lambda>a b. pool_step ms jobs a b \<and> (jpCaller b = jpCaller a \<or> jpCaller a = Starting)
        \<and> jpSignal b = jpSignal a)\<^sup>*\<^sup>*"

lemma pool_goes_steps:
  "pool_goes ms jobs s s' \<Longrightarrow> pool_steps ms jobs s s' \<and> jpSignal s' = jpSignal s"
  by (induction rule: rtranclp_induct) (auto intro: rtranclp.rtrancl_into_rtrancl)

text \<open>From a state whose context is done, the loops can return, whatever they are in.\<close>

fun steps_left :: "loop_state \<Rightarrow> nat" where
  "steps_left Spawned = 4"
| "steps_left (Begin tk) = 3"
| "steps_left (Running tk start) = 2"
| "steps_left (Selecting tk) = 1"
| "steps_left LoopEnded = 0"

lemma sum_list_update_less:
  "i < length xs \<Longrightarrow> f y < f (xs ! i) \<Longrightarrow> sum_list (map f (xs[i := y])) < (sum_list (map f xs) :: nat)"
  by (induction xs arbitrary: i) (auto split: nat.splits)

lemma drain_step:
  assumes jobs: "\<forall>j \<in> set jobs. 0 < snd j" and len: "length (jpLoops s) \<le> length jobs"
    and i: "in_loop s i l" "l \<noteq> LoopEnded" and stopping: "jpDone s"
  shows "\<exists>s' l'. pool_step ms jobs s s' \<and> steps_left l' < steps_left l \<and> jpLoops s' = (jpLoops s)[i := l']
    \<and> jpCaller s' = jpCaller s \<and> jpDone s' \<and> jpSignal s' = jpSignal s"
proof (cases l)
  case Spawned
  have "0 < snd (jobs ! i)" using i len jobs by (auto simp: in_loop_def)
  with pool_step.ticker [of s i jobs ms] i Spawned stopping show ?thesis
    by (intro exI [of _ "set_loop i _ s"] exI [of _ "Begin _"]) (auto simp: set_loop_def)
next
  case (Begin tk)
  with pool_step.run [of s i tk ms jobs] i stopping show ?thesis
    by (intro exI [of _ "(set_loop i _ s)\<lparr>jpTrace := _\<rparr>"] exI [of _ "Running _ _"]) (auto simp: set_loop_def)
next
  case (Running tk start)
  with pool_step.done_run [of s i tk start ms jobs "Returned None"] i stopping show ?thesis
    by (intro exI [of _ "set_loop i _ (end_run ms jobs i start (Returned None) s)"] exI [of _ "Selecting _"])
      (auto simp: set_loop_def end_run_def split: prod.splits)
next
  case (Selecting tk)
  with pool_step.leave [of s i tk ms jobs] i stopping show ?thesis
    by (intro exI [of _ "set_loop i _ s"] exI [of _ LoopEnded]) (auto simp: set_loop_def)
qed (use i in simp)

lemma drain:
  assumes jobs: "\<forall>j \<in> set jobs. 0 < snd j" and "length (jpLoops s) \<le> length jobs" and "jpDone s"
  shows "\<exists>s'. pool_goes ms jobs s s' \<and> set (jpLoops s') \<subseteq> {LoopEnded} \<and> jpCaller s' = jpCaller s"
  using assms(2,3)
proof (induction "sum_list (map steps_left (jpLoops s))" arbitrary: s rule: less_induct)
  case less
  show ?case
  proof (cases "set (jpLoops s) \<subseteq> {LoopEnded}")
    case True
    then show ?thesis by blast
  next
    case False
    then obtain l where "l \<in> set (jpLoops s)" and l: "l \<noteq> LoopEnded" by blast
    then obtain i where i: "in_loop s i l" by (auto simp: in_loop_def in_set_conv_nth)
    from drain_step [OF jobs less.prems(1) i l less.prems(2)] obtain s' l' where step:
      "pool_step ms jobs s s'" "steps_left l' < steps_left l" "jpLoops s' = (jpLoops s)[i := l']"
      "jpCaller s' = jpCaller s" "jpDone s'" "jpSignal s' = jpSignal s" by blast
    have "sum_list (map steps_left (jpLoops s')) < sum_list (map steps_left (jpLoops s))"
      using i step(2,3) by (auto simp: in_loop_def intro: sum_list_update_less)
    from less.hyps [OF this] less.prems(1) step(3,5) obtain s'' where
      "pool_goes ms jobs s' s''" "set (jpLoops s'') \<subseteq> {LoopEnded}" "jpCaller s'' = jpCaller s'"
      by auto
    with step(1,4,6) show ?thesis
      by (intro exI [of _ s'']) (auto intro: converse_rtranclp_into_rtranclp)
  qed
qed

lemma can_start:
  "jpCaller s = Starting \<Longrightarrow> length (jpLoops s) \<le> length jobs \<Longrightarrow>
     \<exists>s'. pool_goes ms jobs s s' \<and> jpCaller s' = Started"
proof (induction "length jobs - length (jpLoops s)" arbitrary: s)
  case 0
  with pool_step.started [of s jobs ms] show ?case
    by (intro exI [of _ "s\<lparr>jpCaller := Started\<rparr>"]) (auto intro: r_into_rtranclp)
next
  case (Suc k)
  let ?s = "s\<lparr>jpLoops := jpLoops s @ [Spawned]\<rparr>"
  have step: "pool_step ms jobs s ?s \<and> (jpCaller ?s = jpCaller s \<or> jpCaller s = Starting) \<and> jpSignal ?s = jpSignal s"
    using Suc.prems Suc.hyps(2) by (auto intro: pool_step.spawn)
  have "\<exists>s'. pool_goes ms jobs ?s s' \<and> jpCaller s' = Started"
    using Suc.hyps(2) Suc.prems by (intro Suc.hyps(1)) simp_all
  then obtain s' where s': "pool_goes ms jobs ?s s'" "jpCaller s' = Started" by blast
  from converse_rtranclp_into_rtranclp [OF step s'(1)] s'(2) show ?case by blast
qed

lemma can_stop:
  assumes jobs: "\<forall>j \<in> set jobs. 0 < snd j" and ok: "pool_ok jobs t s"
  shows "\<exists>s'. pool_steps ms jobs s s' \<and> jpCaller s' = Stopped \<and> jpSignal s' = jpSignal s"
proof -
  have stopping: "\<exists>s'. pool_steps ms jobs s s' \<and> jpCaller s' = Stopped \<and> jpSignal s' = jpSignal s"
    if "pool_ok jobs t s" "jpCaller s = Stopping" for s
  proof -
    from that obtain s' where "pool_goes ms jobs s s'" "set (jpLoops s') \<subseteq> {LoopEnded}" "jpCaller s' = Stopping"
      using drain [OF jobs, of s ms] by (auto simp: pool_ok_def)
    then have "pool_steps ms jobs s s'" "set (jpLoops s') \<subseteq> {LoopEnded}" "jpCaller s' = Stopping" "jpSignal s' = jpSignal s"
      using pool_goes_steps by blast+
    with pool_step.stopped [of s' ms jobs] show ?thesis
      by (intro exI [of _ "s'\<lparr>jpCaller := Stopped\<rparr>"]) (simp add: rtranclp.rtrancl_into_rtrancl)
  qed
  have started: "\<exists>s'. pool_steps ms jobs s s' \<and> jpCaller s' = Stopped \<and> jpSignal s' = jpSignal s"
    if "pool_ok jobs t s" "jpCaller s = Started" for s
  proof -
    let ?s = "s\<lparr>jpCaller := Stopping, jpCancelled := True\<rparr>"
    have step: "pool_step ms jobs s ?s" using that(2) by (rule pool_step.stop)
    from stopping [OF pool_ok_step [OF jobs that(1) step]] obtain s'
      where "pool_steps ms jobs ?s s'" "jpCaller s' = Stopped" "jpSignal s' = jpSignal s" by auto
    with converse_rtranclp_into_rtranclp [of "pool_step ms jobs", OF step] show ?thesis by blast
  qed
  show ?thesis
  proof (cases "jpCaller s")
    case Starting
    with ok can_start [of s jobs ms] obtain u where "pool_goes ms jobs s u" and u2: "jpCaller u = Started"
      by (auto simp: pool_ok_def)
    then have u: "pool_steps ms jobs s u" "jpSignal u = jpSignal s" using pool_goes_steps by blast+
    have "pool_ok jobs t u"
      using u(1) ok by (induction rule: rtranclp_induct) (auto intro: pool_ok_step [OF jobs])
    from started [OF this u2] obtain s' where "pool_steps ms jobs u s'" "jpCaller s' = Stopped" "jpSignal s' = jpSignal u"
      by blast
    with rtranclp_trans [OF u(1)] u(2) show ?thesis by blast
  next
    case Started
    with started [OF ok] show ?thesis .
  next
    case Stopping
    with stopping [OF ok] show ?thesis .
  qed (use ok in \<open>auto simp: pool_ok_def\<close>)
qed

lemma loop_ok_running:
  "loop_ok every t now tr i l \<Longrightarrow>
     running i False tr = Some (case l of Running _ _ \<Rightarrow> True | _ \<Rightarrow> False)"
  by (cases l) (simp_all add: loop_ok_def)

lemma pool_ok_running:
  assumes "pool_ok jobs t s"
  shows "running i False (jpTrace s) =
    Some (i < length (jpLoops s) \<and> (case jpLoops s ! i of Running _ _ \<Rightarrow> True | _ \<Rightarrow> False))"
proof (cases "i < length (jpLoops s)")
  case True
  then have "loop_ok (snd (jobs ! i)) t (jpNow s) (jpTrace s) i (jpLoops s ! i)"
    using assms by (simp add: pool_ok_def)
  from loop_ok_running [OF this] True show ?thesis by simp
qed (use assms in \<open>simp add: pool_ok_def\<close>)

text \<open>Once it has come back, no run is in progress.\<close>

lemma jobs_stopped:
  assumes "pool_reach ms jobs t s" and "\<forall>j \<in> set jobs. 0 < snd j" and "jpCaller s = Stopped"
  shows "running i False (jpTrace s) = Some False"
proof -
  have ok: "pool_ok jobs t s" by (rule pool_reach_ok [OF assms(1,2)])
  show ?thesis
  proof (cases "i < length (jpLoops s)")
    case True
    moreover have "set (jpLoops s) \<subseteq> {LoopEnded}" using ok assms(3) by (simp add: pool_ok_def)
    ultimately have "jpLoops s ! i = LoopEnded" using nth_mem by blast
    with pool_ok_running [OF ok, of i] show ?thesis by simp
  qed (use pool_ok_running [OF ok, of i] in simp)
qed

text \<open>
  C23. Whatever the goroutines of \<open>jobs.Start\<close> do, in whatever order: no job ever begins a run while
  it is in another; once the function \<open>Start\<close> returned has come back no run of any job is in
  progress, and none begins after that; and it can come back from wherever the loops are, with no
  signal from outside: each of them has a way to its end when its run ends, because the function
  itself cancels their context.
\<close>

theorem jobs_stop:
  assumes "pool_reach ms jobs t s" and "\<forall>j \<in> set jobs. 0 < snd j"
  shows "running i False (jpTrace s) \<noteq> None
    \<and> (\<exists>s'. pool_steps ms jobs s s' \<and> jpCaller s' = Stopped \<and> jpSignal s' = jpSignal s)
    \<and> (jpCaller s = Stopped \<longrightarrow> running i False (jpTrace s) = Some False
         \<and> (\<forall>s'. pool_steps ms jobs s s' \<longrightarrow> jpTrace s' = jpTrace s))"
proof -
  have ok: "pool_ok jobs t s" by (rule pool_reach_ok [OF assms])
  have "jpCaller s = Stopped \<longrightarrow> set (jpLoops s) \<subseteq> {LoopEnded}" using ok by (simp add: pool_ok_def)
  moreover have "running i False (jpTrace s) \<noteq> None" using pool_ok_running [OF ok, of i] by simp
  ultimately show ?thesis using can_stop [OF assms(2) ok] jobs_stopped [OF assms] stopped_stays by blast
qed

text \<open>One job, and its first run.\<close>

definition one_job :: jobs where "one_job = [(''j'', 60)]"

definition first_run :: job_pool where
  "first_run = \<lparr>jpNow = 5, jpSignal = False, jpCancelled = False, jpCaller = Started,
     jpLoops = [Running \<lparr>tkNext = 65, tkWaiting = False\<rparr> 5], jpMetrics = jobs_newMetrics [''j''], jpLog = [],
     jpTrace = [RunBegan 0 5]\<rparr>"

lemma first_run_reached: "pool_reach ms one_job 0 first_run"
proof -
  let ?start = "Start one_job 0 False"
  have "pool_reach ms one_job 0 ?start" by (auto simp: pool_reach_def)
  from pool_reach_step [OF this pool_step.spawn]
  have "pool_reach ms one_job 0 (?start\<lparr>jpLoops := [Spawned]\<rparr>)" by (simp add: Start_def one_job_def)
  from pool_reach_step [OF this pool_step.started]
  have "pool_reach ms one_job 0 (?start\<lparr>jpLoops := [Spawned], jpCaller := Started\<rparr>)"
    by (simp add: Start_def one_job_def)
  from pool_reach_step [OF this pool_step.pass [of 5]]
  have "pool_reach ms one_job 0 (?start\<lparr>jpLoops := [Spawned], jpCaller := Started, jpNow := 5\<rparr>)"
    by (simp add: Start_def)
  from pool_reach_step [OF this pool_step.ticker [of _ 0]]
  have "pool_reach ms one_job 0 (?start\<lparr>jpLoops := [Begin \<lparr>tkNext = 65, tkWaiting = False\<rparr>],
      jpCaller := Started, jpNow := 5\<rparr>)"
    by (simp add: Start_def in_loop_def set_loop_def one_job_def)
  from pool_reach_step [OF this pool_step.run [of _ 0 "\<lparr>tkNext = 65, tkWaiting = False\<rparr>"]] show ?thesis
    by (simp add: Start_def in_loop_def set_loop_def one_job_def first_run_def)
qed

theorem jobs_stop_witness:
  "\<exists>s. pool_steps (\<lambda>_. []) one_job first_run s \<and> jpCaller s = Stopped \<and> \<not> jpSignal s
     \<and> running 0 False (jpTrace s) = Some False
     \<and> (\<forall>s'. pool_steps (\<lambda>_. []) one_job s s' \<longrightarrow> jpTrace s' = jpTrace s)"
proof -
  have pos: "\<forall>j \<in> set one_job. 0 < snd j" by (simp add: one_job_def)
  from jobs_stop [OF first_run_reached pos] obtain s where
    s: "pool_steps (\<lambda>_. []) one_job first_run s" "jpCaller s = Stopped" "\<not> jpSignal s"
    by (auto simp: first_run_def)
  from jobs_stop [OF pool_reach_steps [OF first_run_reached s(1)] pos, of 0] s show ?thesis by blast
qed

text \<open>
  C33. A job never runs more often than its interval allows: however long its runs take, by any
  time it has begun one run, and no more than one for each interval that has gone by since
  \<open>Start\<close>.
\<close>

theorem runs_paced:
  assumes "pool_reach ms jobs t s" and "\<forall>j \<in> set jobs. 0 < snd j" and "i < length jobs"
  shows "int (begun i (jpTrace s)) \<le> (jpNow s - t) div snd (jobs ! i) + 1"
proof -
  define every where "every = snd (jobs ! i)"
  have every: "0 < every" using assms(2,3) by (simp add: every_def)
  have ok: "pool_ok jobs t s" by (rule pool_reach_ok [OF assms(1,2)])
  have "int (begun i (jpTrace s)) * every \<le> (jpNow s - t) + every"
  proof (cases "i < length (jpLoops s)")
    case True
    then have "loop_ok every t (jpNow s) (jpTrace s) i (jpLoops s ! i)"
      using ok by (simp add: pool_ok_def every_def)
    then show ?thesis using ok every
      by (cases "jpLoops s ! i") (auto simp: loop_ok_def paced_def pool_ok_def distrib_right)
  next
    case False
    then show ?thesis using ok every by (simp add: pool_ok_def)
  qed
  from zdiv_mono1 [OF this every] every
  have "int (begun i (jpTrace s)) \<le> ((jpNow s - t) + every) div every" by simp
  also have "\<dots> = (jpNow s - t) div every + 1" using every by (intro div_add_self2) simp
  finally show ?thesis by (simp add: every_def)
qed

theorem runs_paced_witness: "begun 0 (jpTrace first_run) = 1 \<and> int (begun 0 (jpTrace first_run)) \<le> 5 div 60 + 1"
  using runs_paced [OF first_run_reached, of 0]
  by (simp add: one_job_def first_run_def)

text \<open>
  Every outcome of every job has a series from the start, and the series counts the runs of the
  job with that outcome. A run that fails because it is being stopped has none.
\<close>

theorem runs_counted:
  assumes "pool_reach ms jobs t s"
  shows "jmRuns (jpMetrics s) (name, outcome) =
     (if name \<in> set (map fst jobs) \<and> outcome \<in> {''ok'', ''failed'', ''panicked''}
      then Some (counts jobs name outcome (jpTrace s)) else None)"
  using assms
proof (induction rule: pool_invariant)
  case (start stopping)
  show ?case by (auto simp: Start_def jobs_newMetrics_def outcome_defs)
next
  case (step s s')
  from step.hyps(2) show ?case
  proof cases
    case (done_run i tk start r)
    obtain m es where m: "run_done ms (fst (jobs ! i)) start (jpNow s) (jpDone s) r
        (jpMetrics s, jpLog s) = (m, es)" by fastforce
    have "fst (jobs ! i) \<in> set (map fst jobs)"
      using done_run(2) pool_len [OF step.hyps(1)] by (auto simp: in_loop_def)
    moreover have "outcome_of (jpDone s) r \<in> {None, Some ''ok'', Some ''failed'', Some ''panicked''}"
      by (simp add: outcome_of_def split: run_result.splits option.splits)
    ultimately show ?thesis
      using step.IH conjunct1 [OF run_done_counts [OF m]]
      by (auto simp: done_run(1) set_loop_def end_run_def m incremented_def simp del: jpDone_def split: option.splits)
  qed (use step.IH in \<open>simp_all add: set_loop_def\<close>)
qed

end
