(* ===== verification/Serve_Run.thy ===== *)
theory Serve_Run
  imports Job_Loops Program
begin

text \<open>
  \<open>serve\<close> (\<open>cmd/loghub/serve.go\<close>) from the pool on: the jobs are started, the API is made, two
  goroutines listen, and \<open>serve\<close> waits for one of them or for a signal, shuts down, and runs what it
  deferred: the jobs are stopped, then the pool is closed. A step is one of \<open>serve\<close>, of a listener or
  of the goroutines of the jobs (\<open>Job_Loops\<close>). When and how a listener returns, and what
  \<open>Shutdown\<close> returns, is left open; \<open>made\<close> is the error of \<open>api.New\<close>. \<open>svHanded\<close> and \<open>svAnswer\<close> only
  record what happened: what the listeners handed over, in that order, and what \<open>Shutdown\<close> returned.
\<close>

subsection \<open>The steps\<close>

text \<open>
  Where \<open>serve\<close> is: in \<open>jobs.Start\<close>, in \<open>api.New\<close>, in the \<open>select\<close>, in \<open>Shutdown\<close>, in the deferred
  \<open>stopJobs\<close>, in the deferred \<open>pool.Close\<close>, and back in \<open>main\<close>.
\<close>

datatype serve_pc =
    AtStart | AtNew | AtSelect | AtShutdown
  | AtStopJobs "go_error option" | AtClose "go_error option" | Returned_serve "go_error option"

record serve_state =
  svPC :: serve_pc
  svJobs :: job_pool
  svPoolOpen :: bool
  svListening :: "bytes list"
  svSending :: "(bytes \<times> go_error option) list"
  svErrc :: "go_error option list"
  svActions :: "serve_action list"
  svHanded :: "(bytes \<times> go_error option) list"
  svAnswer :: "go_error option option"

text \<open>
  \<open>svListening\<close> are the servers in \<open>ListenAndServe\<close>, \<open>svSending\<close> those that have come back, with what
  it returned, and are about to send to the channel \<open>errc\<close>.
\<close>

definition errc_capacity :: nat where "errc_capacity = 2"

definition serve_init :: "gotime \<Rightarrow> bool \<Rightarrow> serve_state" where
  "serve_init now stopping =
     \<lparr>svPC = AtStart, svJobs = Start program_jobs now stopping, svPoolOpen = True, svListening = [],
      svSending = [], svErrc = [], svActions = [], svHanded = [], svAnswer = None\<rparr>"

definition returned_serve :: "serve_state \<Rightarrow> bool" where
  "returned_serve s \<longleftrightarrow> (case svPC s of Returned_serve err \<Rightarrow> True | _ \<Rightarrow> False)"

inductive serve_step :: "(duration \<Rightarrow> bytes) \<Rightarrow> go_error option \<Rightarrow> serve_state \<Rightarrow> serve_state \<Rightarrow> bool" for ms made where
  jobs: "pool_step ms program_jobs (svJobs s) j \<Longrightarrow> \<not> returned_serve s \<Longrightarrow>
    jpCaller j = jpCaller (svJobs s) \<or> svPC s = AtStart \<and> jpCaller (svJobs s) = Starting \<Longrightarrow>
    serve_step ms made s (s\<lparr>svJobs := j\<rparr>)"
| started: "svPC s = AtStart \<Longrightarrow> jpCaller (svJobs s) = Started \<Longrightarrow> serve_step ms made s (s\<lparr>svPC := AtNew\<rparr>)"
| not_made: "svPC s = AtNew \<Longrightarrow> made = Some err \<Longrightarrow> serve_step ms made s (s\<lparr>svPC := AtStopJobs (Some err)\<rparr>)"
| listen: "svPC s = AtNew \<Longrightarrow> made = None \<Longrightarrow>
    serve_step ms made s (s\<lparr>svPC := AtSelect, svListening := [''api'', ''metrics'']\<rparr>)"
| listened: "name \<in> set (svListening s) \<Longrightarrow> \<not> returned_serve s \<Longrightarrow>
    serve_step ms made s (s\<lparr>svListening := remove1 name (svListening s),
      svSending := svSending s @ [(name, err)]\<rparr>)"
| send: "(name, err) \<in> set (svSending s) \<Longrightarrow> length (svErrc s) < errc_capacity \<Longrightarrow> \<not> returned_serve s \<Longrightarrow>
    serve_step ms made s (s\<lparr>svSending := remove1 (name, err) (svSending s),
      svErrc := svErrc s @ [listener_result name err], svHanded := svHanded s @ [(name, err)]\<rparr>)"
| failed: "svPC s = AtSelect \<Longrightarrow> svErrc s = err # rest \<Longrightarrow>
    serve_step ms made s (s\<lparr>svPC := AtStopJobs err, svErrc := rest\<rparr>)"
| stopped: "svPC s = AtSelect \<Longrightarrow> jpSignal (svJobs s) \<Longrightarrow> serve_step ms made s (s\<lparr>svPC := AtShutdown\<rparr>)"
| shutdown: "svPC s = AtShutdown \<Longrightarrow> serve_end (\<lambda>_. answer) Signal = (actions, err) \<Longrightarrow>
    serve_step ms made s (s\<lparr>svPC := AtStopJobs err, svActions := svActions s @ actions, svAnswer := Some answer\<rparr>)"
| stop: "svPC s = AtStopJobs err \<Longrightarrow> pool_step ms program_jobs (svJobs s) j \<Longrightarrow>
    jpCaller (svJobs s) = Started \<Longrightarrow> jpCaller j = Stopping \<Longrightarrow> serve_step ms made s (s\<lparr>svJobs := j\<rparr>)"
| all_stopped: "svPC s = AtStopJobs err \<Longrightarrow> pool_step ms program_jobs (svJobs s) j \<Longrightarrow>
    jpCaller (svJobs s) = Stopping \<Longrightarrow> jpCaller j = Stopped \<Longrightarrow>
    serve_step ms made s (s\<lparr>svPC := AtClose err, svJobs := j\<rparr>)"
| close: "svPC s = AtClose err \<Longrightarrow>
    serve_step ms made s (s\<lparr>svPC := Returned_serve err, svPoolOpen := False\<rparr>)"

abbreviation serve_steps :: "(duration \<Rightarrow> bytes) \<Rightarrow> go_error option \<Rightarrow> serve_state \<Rightarrow> serve_state \<Rightarrow> bool" where
  "serve_steps ms made \<equiv> (serve_step ms made)\<^sup>*\<^sup>*"

definition serve_reach :: "(duration \<Rightarrow> bytes) \<Rightarrow> go_error option \<Rightarrow> gotime \<Rightarrow> serve_state \<Rightarrow> bool" where
  "serve_reach ms made t s \<longleftrightarrow> (\<exists>stopping. serve_steps ms made (serve_init t stopping) s)"

subsection \<open>Invariants\<close>

lemma program_jobs_positive: "\<forall>j \<in> set program_jobs. 0 < snd j"
  by (simp add: program_jobs_def Interval_def duration_defs)

text \<open>
  Why \<open>serve\<close> returns \<open>err\<close>: \<open>api.New\<close> failed with it; or its context was done, and it is what
  \<open>Shutdown\<close> returned; or it is what the first listener to hand over had to report.
\<close>

definition ended_by :: "go_error option \<Rightarrow> serve_state \<Rightarrow> go_error option \<Rightarrow> bool" where
  "ended_by made s err \<longleftrightarrow>
     (case made of
        Some e \<Rightarrow> err = Some e
      | None \<Rightarrow>
          (case svAnswer s of
             Some answer \<Rightarrow> err = answer \<and> jpSignal (svJobs s)
           | None \<Rightarrow> \<exists>name e rest. svHanded s = (name, e) # rest \<and> name \<in> {''api'', ''metrics''}
               \<and> err = listener_result name e))"

text \<open>What was handed over is what was received and, after it, what the channel holds.\<close>

definition handed :: "go_error option list \<Rightarrow> serve_state \<Rightarrow> bool" where
  "handed received s \<longleftrightarrow> map (\<lambda>(name, e). listener_result name e) (svHanded s) = received @ svErrc s"

definition ending :: "go_error option \<Rightarrow> serve_state \<Rightarrow> go_error option \<Rightarrow> bool" where
  "ending made s err \<longleftrightarrow>
     (case made of
        Some e \<Rightarrow> err = Some e
      | None \<Rightarrow>
          (case svAnswer s of
             Some answer \<Rightarrow> err = answer \<and> jpSignal (svJobs s)
           | None \<Rightarrow> handed [err] s))"

definition listeners_ok :: "serve_state \<Rightarrow> bool" where
  "listeners_ok s \<longleftrightarrow>
     set (svListening s) \<union> fst ` set (svSending s) \<union> fst ` set (svHanded s) \<subseteq> {''api'', ''metrics''}
     \<and> length (svListening s) + length (svSending s) + length (svErrc s) \<le> 2
     \<and> (svPC s \<in> {AtStart, AtNew} \<longrightarrow> svListening s = [] \<and> svSending s = [] \<and> svErrc s = [] \<and> svHanded s = []
         \<and> svAnswer s = None)"

definition serve_ok :: "(duration \<Rightarrow> bytes) \<Rightarrow> go_error option \<Rightarrow> gotime \<Rightarrow> serve_state \<Rightarrow> bool" where
  "serve_ok ms made t s \<longleftrightarrow>
     pool_reach ms program_jobs t (svJobs s)
     \<and> (case svPC s of
          AtStart \<Rightarrow> jpCaller (svJobs s) \<in> {Starting, Started}
        | AtNew \<Rightarrow> jpCaller (svJobs s) = Started
        | AtSelect \<Rightarrow> jpCaller (svJobs s) = Started \<and> made = None \<and> svAnswer s = None \<and> handed [] s
        | AtShutdown \<Rightarrow> jpCaller (svJobs s) = Started \<and> made = None \<and> jpSignal (svJobs s)
        | AtStopJobs err \<Rightarrow> jpCaller (svJobs s) \<in> {Started, Stopping} \<and> ending made s err
        | AtClose err \<Rightarrow> jpCaller (svJobs s) = Stopped \<and> ending made s err
        | Returned_serve err \<Rightarrow> jpCaller (svJobs s) = Stopped \<and> ending made s err)
     \<and> svPoolOpen s = (\<not> returned_serve s)
     \<and> listeners_ok s"

lemma ending_ended_by: "ending made s err \<Longrightarrow> listeners_ok s \<Longrightarrow> ended_by made s err"
  by (auto simp: ending_def ended_by_def handed_def listeners_ok_def split: option.splits)

lemma pool_step_signal: "pool_step ms jobs s s' \<Longrightarrow> jpSignal s \<Longrightarrow> jpSignal s'"
  by (induction rule: pool_step.induct) (auto simp: set_loop_def end_run_def split: prod.splits)

lemma ending_jobs:
  "ending made s err \<Longrightarrow> (jpSignal (svJobs s) \<longrightarrow> jpSignal j) \<Longrightarrow> ending made (s\<lparr>svJobs := j\<rparr>) err"
  by (auto simp: ending_def handed_def split: option.splits)

text \<open>A step of a listener, wherever \<open>serve\<close> is.\<close>

lemma serve_ok_listener:
  assumes ok: "serve_ok ms made t s" and "\<not> returned_serve s" and "svPC s \<notin> {AtStart, AtNew}"
    and same: "svPC s' = svPC s" "svJobs s' = svJobs s" "svPoolOpen s' = svPoolOpen s" "svAnswer s' = svAnswer s"
    and new: "\<And>received. handed received s \<Longrightarrow> handed received s'" "listeners_ok s'"
  shows "serve_ok ms made t s'"
proof -
  have "ending made s err \<Longrightarrow> ending made s' err" for err
    using new(1) by (auto simp: ending_def same split: option.splits)
  then show ?thesis
    using ok new same assms(2,3)
    by (cases "svPC s") (auto simp: serve_ok_def returned_serve_def)
qed

lemma serve_ok_step:
  assumes ok: "serve_ok ms made t s" and step: "serve_step ms made s s'"
  shows "serve_ok ms made t s'"
  using step
proof cases
  case (jobs j)
  from ok pool_reach_step [OF _ jobs(2)] have reach: "pool_reach ms program_jobs t j"
    by (simp add: serve_ok_def)
  have "jpCaller j \<in> {Starting, Started}" if "jpCaller (svJobs s) = Starting"
    using jobs(2) that pool_reach_ok [OF reach program_jobs_positive]
    by cases (auto simp: pool_ok_def set_loop_def end_run_def split: prod.splits)
  moreover have "ending made s err \<Longrightarrow> ending made (s\<lparr>svJobs := j\<rparr>) err" for err
    using pool_step_signal [OF jobs(2)] ending_jobs by blast
  ultimately show ?thesis
    using ok jobs(3,4) reach pool_step_signal [OF jobs(2)]
    by (cases "svPC s") (auto simp: jobs(1) serve_ok_def returned_serve_def listeners_ok_def handed_def)
next
  case (listened name err)
  have "length (remove1 name (svListening s)) + 1 = length (svListening s)"
    using listened(2) by (simp add: length_remove1) (metis Suc_pred length_pos_if_in_set)
  then have "listeners_ok s'"
    using ok listened(2) set_remove1_subset [of name "svListening s"]
    by (auto simp: listened(1) serve_ok_def listeners_ok_def)
  moreover have "svPC s \<notin> {AtStart, AtNew}"
    using ok listened(2) by (auto simp: serve_ok_def listeners_ok_def)
  ultimately show ?thesis
    using listened(3) by (intro serve_ok_listener [OF ok]) (simp_all add: listened(1) handed_def)
next
  case (send name err)
  have "length (remove1 (name, err) (svSending s)) + 1 = length (svSending s)"
    using send(2) by (simp add: length_remove1) (metis Suc_pred length_pos_if_in_set)
  moreover have names: "fst ` set (svSending s) \<subseteq> {''api'', ''metrics''}"
    using ok by (simp add: serve_ok_def listeners_ok_def)
  then have "fst ` set (remove1 (name, err) (svSending s)) \<subseteq> {''api'', ''metrics''}"
    by (meson image_mono order_trans set_remove1_subset)
  moreover have "name \<in> {''api'', ''metrics''}"
    using subsetD [OF names, of name] image_eqI [of name fst, OF _ send(2)] by simp
  moreover have pc: "svPC s \<notin> {AtStart, AtNew}"
    using ok send(2) by (auto simp: serve_ok_def listeners_ok_def)
  ultimately have "listeners_ok s'"
    using ok by (auto simp: send(1) serve_ok_def listeners_ok_def)
  with pc show ?thesis
    using send(4) by (intro serve_ok_listener [OF ok]) (simp_all add: send(1) handed_def)
next
  case (failed err rest)
  then show ?thesis
    using ok by (auto simp: serve_ok_def returned_serve_def listeners_ok_def ending_def handed_def)
next
  case (shutdown answer actions err)
  have "err = answer" using shutdown(3) by (simp add: serve_end_def split: option.splits)
  then show ?thesis
    using ok shutdown(1,2) by (auto simp: serve_ok_def returned_serve_def listeners_ok_def ending_def)
next
  case (stop err j)
  have "ending made s err \<Longrightarrow> ending made (s\<lparr>svJobs := j\<rparr>) err"
    using pool_step_signal [OF stop(3)] ending_jobs by blast
  with ok pool_reach_step [OF _ stop(3)] stop show ?thesis
    by (auto simp: serve_ok_def returned_serve_def listeners_ok_def)
next
  case (all_stopped err j)
  have "ending made s err \<Longrightarrow> ending made (s\<lparr>svJobs := j\<rparr>) err"
    using pool_step_signal [OF all_stopped(3)] ending_jobs by blast
  then have "ending made s err \<Longrightarrow> ending made (s\<lparr>svPC := AtClose err, svJobs := j\<rparr>) err"
    by (simp add: ending_def handed_def split: option.splits)
  with ok pool_reach_step [OF _ all_stopped(3)] all_stopped show ?thesis
    by (auto simp: serve_ok_def returned_serve_def listeners_ok_def)
qed (use ok in \<open>auto simp: serve_ok_def returned_serve_def listeners_ok_def handed_def ending_def split: option.splits\<close>)

lemma serve_reach_ok:
  assumes "serve_reach ms made t s"
  shows "serve_ok ms made t s"
proof -
  from assms obtain stopping where "serve_steps ms made (serve_init t stopping) s"
    by (auto simp: serve_reach_def)
  then show ?thesis
  proof (induction rule: rtranclp_induct)
    case base
    show ?case by (auto simp: serve_ok_def serve_init_def pool_reach_def returned_serve_def listeners_ok_def Start_def)
  qed (rule serve_ok_step)
qed

subsection \<open>The way out\<close>

definition can_return :: "(duration \<Rightarrow> bytes) \<Rightarrow> go_error option \<Rightarrow> serve_state \<Rightarrow> bool" where
  "can_return ms made s \<longleftrightarrow> (\<exists>s'. serve_steps ms made s s' \<and> returned_serve s')"

lemma can_return_step: "serve_step ms made s s' \<Longrightarrow> can_return ms made s' \<Longrightarrow> can_return ms made s"
  unfolding can_return_def by (meson converse_rtranclp_into_rtranclp)

text \<open>The goroutines of the jobs go on wherever \<open>serve\<close> is.\<close>

lemma jobs_go:
  assumes "pool_goes ms program_jobs (svJobs s) j" and pc: "\<not> returned_serve s"
    and phase: "svPC s = AtStart \<or> jpCaller (svJobs s) \<noteq> Starting"
  shows "serve_steps ms made s (s\<lparr>svJobs := j\<rparr>) \<and> (svPC s = AtStart \<or> jpCaller j \<noteq> Starting)"
  using assms(1)
proof (induction rule: rtranclp_induct)
  case base
  show ?case using phase by simp
next
  case (step a b)
  have "serve_step ms made (s\<lparr>svJobs := a\<rparr>) ((s\<lparr>svJobs := a\<rparr>)\<lparr>svJobs := b\<rparr>)"
    using step pc by (intro serve_step.jobs) (auto simp: returned_serve_def)
  then have "serve_step ms made (s\<lparr>svJobs := a\<rparr>) (s\<lparr>svJobs := b\<rparr>)" by simp
  with step show ?case by (auto intro: rtranclp.rtrancl_into_rtrancl)
qed

lemma can_return_jobs:
  assumes "pool_goes ms program_jobs (svJobs s) j" and "\<not> returned_serve s"
    and "svPC s = AtStart \<or> jpCaller (svJobs s) \<noteq> Starting"
    and "can_return ms made (s\<lparr>svJobs := j\<rparr>)"
  shows "can_return ms made s"
  using jobs_go [OF assms(1-3), of made] assms(4) unfolding can_return_def by (meson rtranclp_trans)

lemma return_close: "svPC s = AtClose err \<Longrightarrow> can_return ms made s"
  by (rule can_return_step [OF serve_step.close]) (auto simp: can_return_def returned_serve_def)

lemma serve_ok_pool: "serve_ok ms made t s \<Longrightarrow> pool_ok program_jobs t (svJobs s)"
  unfolding serve_ok_def by (blast intro: pool_reach_ok [OF _ program_jobs_positive])

lemma return_stopping:
  assumes ok: "serve_ok ms made t s" and pc: "svPC s = AtStopJobs err" "jpCaller (svJobs s) = Stopping"
  shows "can_return ms made s"
proof -
  have "pool_ok program_jobs t (svJobs s)"
    using ok by (rule serve_ok_pool)
  then obtain j where j: "pool_goes ms program_jobs (svJobs s) j" "set (jpLoops j) \<subseteq> {LoopEnded}" "jpCaller j = Stopping"
    using drain [OF program_jobs_positive, of "svJobs s" ms] pc(2) by (auto simp: pool_ok_def)
  have "can_return ms made (s\<lparr>svJobs := j\<rparr>)"
  proof (rule can_return_step [OF serve_step.all_stopped])
    show "pool_step ms program_jobs (svJobs (s\<lparr>svJobs := j\<rparr>)) (j\<lparr>jpCaller := Stopped\<rparr>)"
      using j by (simp add: pool_step.stopped)
  qed (use pc j in \<open>auto intro: return_close\<close>)
  then show ?thesis using j pc by (intro can_return_jobs [OF j(1)]) (simp_all add: returned_serve_def)
qed

lemma return_started:
  assumes ok: "serve_ok ms made t s" and pc: "svPC s = AtStopJobs err" "jpCaller (svJobs s) = Started"
  shows "can_return ms made s"
proof -
  let ?j = "(svJobs s)\<lparr>jpCaller := Stopping, jpCancelled := True\<rparr>"
  have step: "serve_step ms made s (s\<lparr>svJobs := ?j\<rparr>)"
    using pc by (intro serve_step.stop) (auto intro: pool_step.stop)
  show ?thesis
    by (rule can_return_step [OF step], rule return_stopping [OF serve_ok_step [OF ok step]]) (simp_all add: pc)
qed

lemma return_shutdown:
  assumes ok: "serve_ok ms made t s" and pc: "svPC s = AtShutdown"
  shows "can_return ms made s"
proof -
  obtain actions err where answer: "serve_end (\<lambda>_. None) Signal = (actions, err)" by fastforce
  note step = serve_step.shutdown [OF pc answer, of ms made]
  have "jpCaller (svJobs s) = Started" using ok pc by (simp add: serve_ok_def)
  then show ?thesis
    by (intro can_return_step [OF step] return_started [OF serve_ok_step [OF ok step]]) simp_all
qed

lemma return_select:
  assumes ok: "serve_ok ms made t s" and pc: "svPC s = AtSelect"
  shows "can_return ms made s"
proof -
  let ?s = "s\<lparr>svJobs := (svJobs s)\<lparr>jpSignal := True\<rparr>\<rparr>"
  have step: "serve_step ms made s ?s"
    using pc by (intro serve_step.jobs) (auto intro: pool_step.signal simp: returned_serve_def)
  have step': "serve_step ms made ?s (?s\<lparr>svPC := AtShutdown\<rparr>)"
    using pc by (intro serve_step.stopped) simp_all
  show ?thesis
    by (intro can_return_step [OF step] can_return_step [OF step']
        return_shutdown [OF serve_ok_step [OF serve_ok_step [OF ok step] step']]) simp
qed

lemma return_new:
  assumes ok: "serve_ok ms made t s" and pc: "svPC s = AtNew"
  shows "can_return ms made s"
proof (cases made)
  case None
  note step = serve_step.listen [OF pc None, of ms]
  show ?thesis
    by (intro can_return_step [OF step] return_select [OF serve_ok_step [OF ok step]]) simp
next
  case (Some err)
  note step = serve_step.not_made [OF pc Some, of ms]
  have "jpCaller (svJobs s) = Started" using ok pc by (simp add: serve_ok_def)
  then show ?thesis
    by (intro can_return_step [OF step] return_started [OF serve_ok_step [OF ok step]]) simp_all
qed

lemma serve_ok_steps: "serve_steps ms made s s' \<Longrightarrow> serve_ok ms made t s \<Longrightarrow> serve_ok ms made t s'"
  by (induction rule: rtranclp_induct) (auto intro: serve_ok_step)

lemma return_start:
  assumes ok: "serve_ok ms made t s" and pc: "svPC s = AtStart"
  shows "can_return ms made s"
proof -
  have started: "can_return ms made u" if "serve_ok ms made t u" "svPC u = AtStart" "jpCaller (svJobs u) = Started" for u
  proof -
    note step = serve_step.started [OF that(2,3), of ms made]
    show ?thesis
      by (intro can_return_step [OF step] return_new [OF serve_ok_step [OF that(1) step]]) simp
  qed
  have pool: "pool_ok program_jobs t (svJobs s)"
    using ok by (rule serve_ok_pool)
  show ?thesis
  proof (cases "jpCaller (svJobs s) = Starting")
    case True
    with can_start [OF True, of program_jobs ms] pool obtain j
      where j: "pool_goes ms program_jobs (svJobs s) j" "jpCaller j = Started"
      by (auto simp: pool_ok_def)
    have "serve_steps ms made s (s\<lparr>svJobs := j\<rparr>)"
      using jobs_go [OF j(1), of made] pc by (simp add: returned_serve_def)
    from serve_ok_steps [OF this ok] started [of "s\<lparr>svJobs := j\<rparr>"] j pc show ?thesis
      by (intro can_return_jobs [OF j(1)]) (simp_all add: returned_serve_def)
  next
    case False
    with ok pc started show ?thesis by (auto simp: serve_ok_def)
  qed
qed

lemma serve_can_return:
  assumes ok: "serve_ok ms made t s"
  shows "can_return ms made s"
proof (cases "svPC s")
  case (AtStopJobs err)
  with ok return_started [OF ok] return_stopping [OF ok] show ?thesis by (auto simp: serve_ok_def)
next
  case (Returned_serve err)
  then show ?thesis by (auto simp: can_return_def returned_serve_def)
qed (use return_start return_new return_select return_shutdown return_close ok in blast)+

text \<open>
  C14. How \<open>serve\<close> ends, however its goroutines interleave: from wherever it is it can return, as
  every one of them has a way to its end; when it closes the pool the jobs have been stopped, so
  that no run is in progress on it and none begins; it returns with the pool closed; and what it
  returns is the error of \<open>api.New\<close> if that failed, what \<open>Shutdown\<close> returned if it shut down, which
  it does only once its context is done, and otherwise the error of the listener that was the
  first to hand one over, with the server's name, or none if that server was closed. A listener
  never waits to hand over its error, as the channel has room for both.
\<close>

theorem serve_ends:
  assumes "serve_reach ms made t s"
  shows "(\<exists>s'. serve_steps ms made s s' \<and> returned_serve s')
    \<and> (if svPoolOpen s then \<not> returned_serve s
       else jpCaller (svJobs s) = Stopped \<and> (\<forall>i. running i False (jpTrace (svJobs s)) = Some False))
    \<and> (case svPC s of Returned_serve err \<Rightarrow> \<not> svPoolOpen s \<and> ended_by made s err | _ \<Rightarrow> True)
    \<and> (svSending s \<noteq> [] \<longrightarrow> length (svErrc s) < errc_capacity)"
proof -
  have ok: "serve_ok ms made t s" by (rule serve_reach_ok [OF assms])
  then have reach: "pool_reach ms program_jobs t (svJobs s)" and listeners: "listeners_ok s"
    by (simp_all add: serve_ok_def)
  note stopped = jobs_stopped [OF reach program_jobs_positive]
  have "svSending s \<noteq> [] \<longrightarrow> length (svErrc s) < errc_capacity"
    using listeners by (cases "svSending s") (auto simp: listeners_ok_def errc_capacity_def)
  then show ?thesis
    using serve_can_return [OF ok] ok stopped ending_ended_by [OF _ listeners]
    by (cases "svPC s") (simp_all add: can_return_def serve_ok_def returned_serve_def)
qed

theorem serve_ends_witness:
  "\<exists>s err. serve_steps (\<lambda>_. []) None (serve_init 0 False) s \<and> svPC s = Returned_serve err
     \<and> \<not> svPoolOpen s \<and> jpCaller (svJobs s) = Stopped"
proof -
  have "serve_reach (\<lambda>_. []) None 0 (serve_init 0 False)" by (auto simp: serve_reach_def)
  from serve_ends [OF this] obtain s where
    s: "serve_steps (\<lambda>_. []) None (serve_init 0 False) s" "returned_serve s" by blast
  then have "serve_reach (\<lambda>_. []) None 0 s" by (auto simp: serve_reach_def)
  from serve_ends [OF this] s show ?thesis by (auto simp: returned_serve_def split: serve_pc.splits if_splits)
qed

end
