(* ===== verification/Partitions.thy ===== *)
theory Partitions
  imports Events "HOL-Library.Multiset" "HOL-Library.Signed_Division"
begin

text \<open>
  The partitions of the events' table (\<open>MaintainPartitions\<close> of \<open>internal/store/events.go\<close>, and the
  function \<open>loghub_maintain_partitions\<close> of \<open>internal/store/migrations/0001_init.sql\<close> that it calls).
  A partition holds the rows of one day in UTC; days are numbered from 1970, and the number stands
  for the \<open>YYYYMMDD\<close> in the partition's name. \<open>Events\<close> has the table as the list of its rows; here it
  is what those rows are kept in, and \<open>table_rows\<close> takes one to the other.
\<close>

subsection \<open>The table\<close>

record partition =
  ptDay :: int
  ptRows :: "new_event list"

record event_table =
  tbParts :: "partition list"
  tbDefault :: "new_event list"

definition date_of :: "gotime \<Rightarrow> int" where
  "date_of t = t div day"

definition empty_table :: event_table where
  "empty_table = \<lparr>tbParts = [], tbDefault = []\<rparr>"

text \<open>An INSERT: the row goes to the partition of its day, or to the default one.\<close>

fun add_row :: "new_event \<Rightarrow> partition list \<Rightarrow> partition list option" where
  "add_row e [] = None"
| "add_row e (p # ps) =
     (if ptDay p * day \<le> evTs e \<and> evTs e < (ptDay p + 1) * day
      then Some (p\<lparr>ptRows := ptRows p @ [e]\<rparr> # ps)
      else map_option ((#) p) (add_row e ps))"

definition put_row :: "new_event \<Rightarrow> event_table \<Rightarrow> event_table" where
  "put_row e tb =
     (case add_row e (tbParts tb) of
        Some ps \<Rightarrow> tb\<lparr>tbParts := ps\<rparr>
      | None \<Rightarrow> tb\<lparr>tbDefault := tbDefault tb @ [e]\<rparr>)"

subsection \<open>Maintenance\<close>

text \<open>One day of the first loop: the rows of the day move out of the default partition and back in.\<close>

definition create_day :: "int \<Rightarrow> event_table \<Rightarrow> event_table" where
  "create_day d tb =
     (if d \<in> set (map ptDay (tbParts tb)) then tb
      else
        (let in_day = (\<lambda>e. d * day \<le> evTs e \<and> evTs e < (d + 1) * day);
             moving = filter in_day (tbDefault tb);
             tb1 = tb\<lparr>tbDefault := filter (\<lambda>e. \<not> in_day e) (tbDefault tb),
                      tbParts := tbParts tb @ [\<lparr>ptDay = d, ptRows = []\<rparr>]\<rparr> in
         foldl (\<lambda>tb e. put_row e tb) tb1 moving))"

text \<open>The days \<open>to_char\<close> gives eight digits: those of the years 1 to 9999.\<close>

definition eight_digits :: "int \<Rightarrow> bool" where
  "eight_digits d \<longleftrightarrow> - 719162 \<le> d \<and> d \<le> 2932896"

text \<open>The function of the migration; \<open>now\<close> is when its transaction began.\<close>

definition loghub_maintain_partitions :: "int \<Rightarrow> gotime \<Rightarrow> event_table \<Rightarrow> go_error + event_table" where
  "loghub_maintain_partitions days now tb =
     (if days < 1 then Inl (PgError ''P0001'' [])
      else
        (let cutoff = date_of now - days;
             tb1 = foldl (\<lambda>tb d. create_day d tb) tb [cutoff..date_of now + 2];
             tb2 = tb1\<lparr>tbParts := filter (\<lambda>p. \<not> (eight_digits (ptDay p) \<and> ptDay p < cutoff)) (tbParts tb1)\<rparr> in
         Inr (tb2\<lparr>tbDefault := filter (\<lambda>e. \<not> evTs e < cutoff * day) (tbDefault tb2)\<rparr>)))"

text \<open>The statement that calls it (\<open>gen/tenancy.sql.go\<close>), a transaction of its own.\<close>

definition q_MaintainPartitions :: "failures \<Rightarrow> gotime \<Rightarrow> int \<Rightarrow> (event_table, unit) db_op" where
  "q_MaintainPartitions fails now days =
     statement fails
       (\<lambda>s. case loghub_maintain_partitions days now (sData s) of
          Inl err \<Rightarrow> Inl err | Inr tb \<Rightarrow> Inr ((), tb))"

text \<open>
  \<open>MaintainPartitions\<close>: the retention in whole days, rounded up, at the widths of the source;
  \<open>shown\<close> is \<open>%v\<close> of a duration.
\<close>

definition MaintainPartitions ::
  "(duration \<Rightarrow> bytes) \<Rightarrow> failures \<Rightarrow> gotime \<Rightarrow> duration \<Rightarrow> (event_table, unit) db_op" where
  "MaintainPartitions shown fails now retention s =
     (let days = signed_take_bit 63 (signed_take_bit 63 (retention + day) - 1) sdiv day in
      if days < 1 then (Inl (Internal (''retention must be positive, got '' @ shown retention)), s)
      else
        map_error (\<lambda>err. Wrap err ''cannot maintain partitions'')
          (q_MaintainPartitions fails now (signed_take_bit 31 days)) s)"

subsection \<open>Invariant\<close>

definition table_rows :: "event_table \<Rightarrow> new_event multiset" where
  "table_rows tb = mset (tbDefault tb) + (\<Sum>p \<leftarrow> tbParts tb. mset (ptRows p))"

definition table_days :: "event_table \<Rightarrow> int set" where
  "table_days tb = ptDay ` set (tbParts tb)"

text \<open>
  Each partition holds rows of its day only, no two are for one day, and the default partition
  holds no row of a day that has one.
\<close>

definition table_ok :: "event_table \<Rightarrow> bool" where
  "table_ok tb \<longleftrightarrow>
     distinct (map ptDay (tbParts tb))
     \<and> (\<forall>p \<in> set (tbParts tb). eight_digits (ptDay p) \<and> (\<forall>e \<in> set (ptRows p). date_of (evTs e) = ptDay p))
     \<and> (\<forall>e \<in> set (tbDefault tb). date_of (evTs e) \<notin> table_days tb)"

lemma day_pos: "0 < day"
  by (simp add: duration_defs)

lemma date_of_iff: "d * day \<le> t \<and> t < (d + 1) * day \<longleftrightarrow> date_of t = d"
proof
  assume "d * day \<le> t \<and> t < (d + 1) * day"
  then have "0 \<le> t - d * day" "t - d * day < day" by (simp_all add: distrib_right)
  then have "(t - d * day) div day = 0" by (rule div_pos_pos_trivial)
  moreover have "t div day = d + (t - d * day) div day"
    using div_mult_self1 [of day "t - d * day" d] day_pos by simp
  ultimately show "date_of t = d" by (simp add: date_of_def)
next
  assume "date_of t = d"
  then have "t = d * day + t mod day" using div_mult_mod_eq [of t day] by (simp add: date_of_def)
  with pos_mod_bound [OF day_pos, of t] pos_mod_sign [OF day_pos, of t]
  show "d * day \<le> t \<and> t < (d + 1) * day" by (simp add: distrib_right)
qed

lemma date_of_le_iff: "d * day \<le> t \<longleftrightarrow> d \<le> date_of t"
proof
  assume "d * day \<le> t"
  then have "d * day div day \<le> t div day" using day_pos by (rule zdiv_mono1)
  then show "d \<le> date_of t" using day_pos by (simp add: date_of_def)
next
  assume "d \<le> date_of t"
  then have "d * day \<le> date_of t * day" using day_pos by simp
  with date_of_iff [of "date_of t" t] show "d * day \<le> t" by linarith
qed

subsection \<open>Rows and days\<close>

lemma add_row_None: "add_row e ps = None \<longleftrightarrow> date_of (evTs e) \<notin> ptDay ` set ps"
  by (induction ps) (auto simp: date_of_iff)

lemma add_row_Some:
  "add_row e ps = Some ps' \<Longrightarrow>
     map ptDay ps' = map ptDay ps
     \<and> (\<Sum>p \<leftarrow> ps'. mset (ptRows p)) = add_mset e (\<Sum>p \<leftarrow> ps. mset (ptRows p))
     \<and> (\<forall>p' \<in> set ps'. \<exists>p \<in> set ps. ptDay p' = ptDay p \<and>
          set (ptRows p') \<subseteq> set (ptRows p) \<union> {e. date_of (evTs e) = ptDay p})"
proof (induction ps arbitrary: ps')
  case (Cons p ps)
  show ?case
  proof (cases "date_of (evTs e) = ptDay p")
    case True
    with Cons.prems have "ps' = p\<lparr>ptRows := ptRows p @ [e]\<rparr> # ps" by (simp add: date_of_iff)
    with True show ?thesis by auto
  next
    case False
    with Cons.prems obtain qs where qs: "add_row e ps = Some qs" "ps' = p # qs"
      by (auto simp: date_of_iff split: if_splits)
    from Cons.IH [OF qs(1)] qs(2) show ?thesis by auto
  qed
qed simp

lemma put_row_facts:
  "table_rows (put_row e tb) = add_mset e (table_rows tb)"
  "table_days (put_row e tb) = table_days tb"
  "table_ok tb \<Longrightarrow> table_ok (put_row e tb)"
proof -
  show "table_rows (put_row e tb) = add_mset e (table_rows tb)"
    using add_row_Some [of e "tbParts tb"]
    by (cases "add_row e (tbParts tb)") (auto simp: put_row_def table_rows_def)
  show days: "table_days (put_row e tb) = table_days tb"
    using add_row_Some [of e "tbParts tb"]
    by (cases "add_row e (tbParts tb)") (auto simp: put_row_def table_days_def simp flip: set_map)
  assume ok: "table_ok tb"
  show "table_ok (put_row e tb)"
  proof (cases "add_row e (tbParts tb)")
    case None
    with ok add_row_None [of e "tbParts tb"] show ?thesis
      by (simp add: put_row_def table_ok_def table_days_def)
  next
    case (Some ps)
    from add_row_Some [OF Some] ok days show ?thesis
      by (fastforce simp: put_row_def table_ok_def table_days_def Some)
  qed
qed

lemma put_rows_facts:
  "table_rows (foldl (\<lambda>tb e. put_row e tb) tb es) = mset es + table_rows tb"
  "table_days (foldl (\<lambda>tb e. put_row e tb) tb es) = table_days tb"
  "table_ok tb \<Longrightarrow> table_ok (foldl (\<lambda>tb e. put_row e tb) tb es)"
  by (induction es arbitrary: tb) (simp_all add: put_row_facts)

lemma mset_filter_both: "mset (filter P xs) + mset (filter (\<lambda>x. \<not> P x) xs) = mset xs"
  by (induction xs) auto

lemma create_day_facts:
  "table_rows (create_day d tb) = table_rows tb"
  "table_days (create_day d tb) = insert d (table_days tb)"
  "table_ok tb \<Longrightarrow> eight_digits d \<Longrightarrow> table_ok (create_day d tb)"
proof -
  define tb1 where "tb1 = tb\<lparr>tbDefault := filter (\<lambda>e. date_of (evTs e) \<noteq> d) (tbDefault tb),
      tbParts := tbParts tb @ [\<lparr>ptDay = d, ptRows = []\<rparr>]\<rparr>"
  have create: "create_day d tb = (if d \<in> table_days tb then tb
      else foldl (\<lambda>tb e. put_row e tb) tb1 (filter (\<lambda>e. date_of (evTs e) = d) (tbDefault tb)))"
    by (simp add: create_day_def Let_def date_of_iff table_days_def tb1_def)
  have "mset (filter (\<lambda>e. date_of (evTs e) = d) (tbDefault tb)) + table_rows tb1 = table_rows tb"
    using mset_filter_both [of "\<lambda>e. date_of (evTs e) = d" "tbDefault tb"]
    by (simp only: table_rows_def tb1_def) (simp add: add.assoc [symmetric])
  then show "table_rows (create_day d tb) = table_rows tb"
    by (simp only: create put_rows_facts simp_thms split: if_split)
  show "table_days (create_day d tb) = insert d (table_days tb)"
    by (auto simp: create put_rows_facts) (auto simp: table_days_def tb1_def)
  assume "table_ok tb" "eight_digits d"
  then have "d \<notin> table_days tb \<Longrightarrow> table_ok tb1"
    by (auto simp: table_ok_def table_days_def tb1_def)
  with \<open>table_ok tb\<close> show "table_ok (create_day d tb)" by (simp add: create put_rows_facts)
qed

lemma create_days_facts:
  "table_rows (foldl (\<lambda>tb d. create_day d tb) tb ds) = table_rows tb"
  "table_days (foldl (\<lambda>tb d. create_day d tb) tb ds) = set ds \<union> table_days tb"
  "table_ok tb \<Longrightarrow> list_all eight_digits ds \<Longrightarrow> table_ok (foldl (\<lambda>tb d. create_day d tb) tb ds)"
  by (induction ds arbitrary: tb) (auto simp: create_day_facts)

lemma loghub_maintain_partitions_facts:
  assumes m: "loghub_maintain_partitions n now tb = Inr tb'" and ok: "table_ok tb"
    and dates: "eight_digits (date_of now - n)" "eight_digits (date_of now + 2)"
  shows "table_ok tb'"
    and "table_rows tb' = filter_mset (\<lambda>e. date_of now - n \<le> date_of (evTs e)) (table_rows tb)"
    and "table_days tb' = {date_of now - n..date_of now + 2} \<union> {d \<in> table_days tb. date_of now - n \<le> d}"
proof -
  define cutoff where "cutoff = date_of now - n"
  define tb1 where "tb1 = foldl (\<lambda>tb d. create_day d tb) tb [cutoff..date_of now + 2]"
  have n: "1 \<le> n" using m by (simp add: loghub_maintain_partitions_def split: if_splits)
  have "list_all eight_digits [cutoff..date_of now + 2]"
    using dates by (auto simp: list_all_iff eight_digits_def cutoff_def)
  with ok have ok1: "table_ok tb1" by (simp add: tb1_def create_days_facts)
  then have digits: "p \<in> set (tbParts tb1) \<Longrightarrow> eight_digits (ptDay p)" for p by (simp add: table_ok_def)
  have rows1: "table_rows tb1 = table_rows tb"
    and days1: "table_days tb1 = {cutoff..date_of now + 2} \<union> table_days tb"
    by (simp_all add: tb1_def create_days_facts)
  have parts: "filter (\<lambda>p. \<not> (eight_digits (ptDay p) \<and> ptDay p < cutoff)) (tbParts tb1)
      = filter (\<lambda>p. cutoff \<le> ptDay p) (tbParts tb1)"
    using digits by (auto intro: filter_cong)
  have tb': "tb' = tb1\<lparr>tbParts := filter (\<lambda>p. cutoff \<le> ptDay p) (tbParts tb1),
      tbDefault := filter (\<lambda>e. cutoff \<le> date_of (evTs e)) (tbDefault tb1)\<rparr>"
    using m n parts
    by (auto simp: loghub_maintain_partitions_def Let_def not_less date_of_le_iff cutoff_def [symmetric] tb1_def [symmetric])
  show "table_ok tb'" using ok1 by (auto simp: tb' table_ok_def table_days_def distinct_map_filter)
  have kept: "(\<Sum>p \<leftarrow> filter (\<lambda>p. cutoff \<le> ptDay p) ps. mset (ptRows p))
      = filter_mset (\<lambda>e. cutoff \<le> date_of (evTs e)) (\<Sum>p \<leftarrow> ps. mset (ptRows p))"
    if "\<forall>p \<in> set ps. \<forall>e \<in> set (ptRows p). date_of (evTs e) = ptDay p" for ps
    using that
  proof (induction ps)
    case (Cons p ps)
    have "filter_mset (\<lambda>e. cutoff \<le> date_of (evTs e)) (mset (ptRows p))
        = filter_mset (\<lambda>e. cutoff \<le> ptDay p) (mset (ptRows p))"
      by (intro filter_mset_cong) (use Cons.prems in auto)
    with Cons show ?case by (cases "cutoff \<le> ptDay p") simp_all
  qed simp
  have "\<forall>p \<in> set (tbParts tb1). \<forall>e \<in> set (ptRows p). date_of (evTs e) = ptDay p"
    using ok1 by (simp add: table_ok_def)
  from kept [OF this]
  have "table_rows tb' = filter_mset (\<lambda>e. date_of now - n \<le> date_of (evTs e)) (table_rows tb1)"
    by (simp add: table_rows_def tb' cutoff_def)
  then show "table_rows tb' = filter_mset (\<lambda>e. date_of now - n \<le> date_of (evTs e)) (table_rows tb)"
    unfolding rows1 .
  show "table_days tb' = {date_of now - n..date_of now + 2} \<union> {d \<in> table_days tb. date_of now - n \<le> d}"
  proof -
    have "table_days tb' = {d \<in> table_days tb1. cutoff \<le> d}" by (auto simp: tb' table_days_def)
    then show ?thesis using days1 n by (auto simp: cutoff_def)
  qed
qed

subsection \<open>What maintenance does to the table\<close>

text \<open>The rounding of the retention to days, at the widths of the source.\<close>

definition kept_days :: "duration \<Rightarrow> int" where
  "kept_days retention = (retention + day - 1) div day"

lemma kept_days_covers: "retention \<le> kept_days retention * day"
proof -
  define r where "r = retention + day - 1"
  have "r = kept_days retention * day + r mod day" by (simp add: kept_days_def r_def)
  moreover have "r mod day < day" by (rule pos_mod_bound [OF day_pos])
  ultimately show ?thesis by (simp add: r_def)
qed

lemma kept_days_less:
  assumes "0 < retention"
  shows "kept_days retention * day < retention + day"
proof -
  define r where "r = retention + day - 1"
  have "r = kept_days retention * day + r mod day" by (simp add: kept_days_def r_def)
  moreover have "0 \<le> r mod day" by (rule pos_mod_sign [OF day_pos])
  ultimately show ?thesis by (simp add: r_def)
qed

lemma MaintainPartitions_days:
  assumes "0 < retention" and "retention + day \<le> max_duration"
  shows "signed_take_bit 63 (signed_take_bit 63 (retention + day) - 1) sdiv day = kept_days retention"
    and "signed_take_bit 31 (kept_days retention) = kept_days retention" and "1 \<le> kept_days retention"
proof -
  have r: "0 \<le> retention + day - 1" using assms(1) by (simp add: duration_defs)
  have "signed_take_bit 63 (retention + day) = retention + day"
    "signed_take_bit 63 (retention + day - 1) = retention + day - 1"
    using assms by (simp_all add: signed_take_bit_int_eq_self max_duration_def duration_defs)
  then show "signed_take_bit 63 (signed_take_bit 63 (retention + day) - 1) sdiv day = kept_days retention"
    using r by (cases "retention + day = 1") (simp_all add: kept_days_def signed_divide_int_def day_pos abs_of_pos [OF day_pos])
  show one: "1 \<le> kept_days retention"
    using zdiv_mono1 [of day "retention + day - 1" day] assms(1) day_pos by (simp add: kept_days_def)
  have "kept_days retention \<le> max_duration div day"
    unfolding kept_days_def using assms(2) day_pos by (intro zdiv_mono1) simp_all
  also have "\<dots> < 2 ^ 31" by (simp add: max_duration_def duration_defs)
  finally show "signed_take_bit 31 (kept_days retention) = kept_days retention"
    using one by (simp add: signed_take_bit_int_eq_self)
qed

lemma maintained_session:
  assumes "table_ok (sData s)" and "0 < retention" and "retention + day \<le> max_duration"
    and "eight_digits (date_of now - kept_days retention)" and "eight_digits (date_of now + 2)"
  shows "case MaintainPartitions shown fails now retention s of
     (Inl err, s') \<Rightarrow> sData s' = sData s \<and> fails (sStep s) \<noteq> None
   | (Inr _, s') \<Rightarrow> fails (sStep s) = None \<and> table_ok (sData s')
       \<and> table_rows (sData s') =
           filter_mset (\<lambda>e. date_of now - kept_days retention \<le> date_of (evTs e)) (table_rows (sData s))
       \<and> table_days (sData s') = {date_of now - kept_days retention..date_of now + 2}
           \<union> {d \<in> table_days (sData s). date_of now + 2 < d}
       \<and> (\<forall>e. now - retention \<le> evTs e \<longrightarrow> count (table_rows (sData s')) e = count (table_rows (sData s)) e)
       \<and> (\<forall>e \<in># table_rows (sData s'). now - retention - 2 * day < evTs e)"
proof (cases "fails (sStep s)")
  case (Some err)
  then show ?thesis
    using MaintainPartitions_days [OF assms(2,3)]
    by (simp add: MaintainPartitions_def q_MaintainPartitions_def statement_def map_error_def interact_def)
next
  case None
  define n where "n = kept_days retention"
  note days = MaintainPartitions_days [OF assms(2,3)]
  obtain tb where m: "loghub_maintain_partitions n now (sData s) = Inr tb"
    using days(3) by (cases "loghub_maintain_partitions n now (sData s)")
      (auto simp: loghub_maintain_partitions_def Let_def n_def split: if_splits)
  have run: "MaintainPartitions shown fails now retention s = (Inr (), s\<lparr>sStep := sStep s + 1, sData := tb\<rparr>)"
    using days None m
    by (simp add: MaintainPartitions_def q_MaintainPartitions_def statement_def map_error_def interact_def n_def)
  note facts = loghub_maintain_partitions_facts [OF m assms(1) assms(4,5) [folded n_def]]
  have young: "date_of now - n \<le> date_of (evTs e)" if "now - retention \<le> evTs e" for e
  proof -
    have "date_of now * day \<le> now" using date_of_iff by blast
    with that kept_days_covers [of retention] have "(date_of now - n) * day \<le> evTs e"
      by (simp add: n_def left_diff_distrib)
    then show ?thesis by (simp only: date_of_le_iff)
  qed
  have old: "now - retention - 2 * day < evTs e" if "date_of now - n \<le> date_of (evTs e)" for e
  proof -
    have "now < (date_of now + 1) * day" using date_of_iff by blast
    moreover have "(date_of now - n) * day \<le> evTs e" using that by (simp only: date_of_le_iff)
    ultimately show ?thesis using kept_days_less [OF assms(2)] by (simp add: n_def algebra_simps)
  qed
  show ?thesis using facts young old days(3) None by (auto simp: run n_def [symmetric])
qed

text \<open>
  C11. Maintaining the partitions loses no event that is younger than the retention, and changes
  none: with whatever rows in whatever partitions, those of every day from the cutoff on are
  there afterwards and those of the days before are not; every day from the cutoff to the day
  after tomorrow has a partition of its own, with all of its rows and no other's, moved out of the
  default partition where they were in it; and no partition is left of a day before the cutoff.
  The retention counts in whole days, rounded up. If the database fails, nothing changes.
\<close>

theorem MaintainPartitions_keeps:
  assumes "table_ok (sData s)" and "0 < retention" and "retention + day \<le> max_duration"
    and "eight_digits (date_of now - kept_days retention)" and "eight_digits (date_of now + 2)"
  shows "case MaintainPartitions shown fails now retention s of
     (Inl err, s') \<Rightarrow> sData s' = sData s \<and> fails (sStep s) \<noteq> None
   | (Inr _, s') \<Rightarrow> table_ok (sData s')
       \<and> table_rows (sData s') =
           filter_mset (\<lambda>e. date_of now - kept_days retention \<le> date_of (evTs e)) (table_rows (sData s))
       \<and> table_days (sData s') = {date_of now - kept_days retention..date_of now + 2}
           \<union> {d \<in> table_days (sData s). date_of now + 2 < d}
       \<and> (\<forall>e. now - retention \<le> evTs e \<longrightarrow> count (table_rows (sData s')) e = count (table_rows (sData s)) e)
       \<and> (\<forall>e \<in># table_rows (sData s'). now - retention - 2 * day < evTs e)"
  using maintained_session [OF assms, where shown = shown and fails = fails] by (auto split: prod.splits sum.splits)

definition sample_table :: event_table where
  "sample_table = \<lparr>tbParts = [\<lparr>ptDay = 5, ptRows = [zero_event\<lparr>evTs := 5 * day\<rparr>]\<rparr>],
     tbDefault = [zero_event\<lparr>evTs := 19 * day\<rparr>, zero_event\<lparr>evTs := 1\<rparr>]\<rparr>"

theorem MaintainPartitions_keeps_witness:
  "case MaintainPartitions (\<lambda>_. []) (\<lambda>_. None) (20 * day + hour) (7 * day)
       \<lparr>sData = sample_table, sScope = NoScope, sBase = NoScope, sDepth = 0, sStep = 0\<rparr> of
     (r, s') \<Rightarrow> r = Inr () \<and> table_rows (sData s') = {#zero_event\<lparr>evTs := 19 * day\<rparr>#}
       \<and> table_days (sData s') = {13..22}"
proof -
  define s :: "event_table session" where "s = \<lparr>sData = sample_table, sScope = NoScope, sBase = NoScope, sDepth = 0, sStep = 0\<rparr>"
  have now: "date_of (20 * day + hour) = 20" "date_of (19 * day) = 19" "date_of (5 * day) = 5" "date_of 1 = 0"
    by (simp_all add: date_of_def duration_defs)
  have n: "kept_days (7 * day) = 7" by (simp add: kept_days_def duration_defs)
  have "table_ok (sData s)"
    by (simp add: s_def table_ok_def sample_table_def now eight_digits_def table_days_def)
  moreover have "0 < 7 * day" "7 * day + day \<le> max_duration" by (simp_all add: max_duration_def duration_defs)
  moreover have "eight_digits (date_of (20 * day + hour) - kept_days (7 * day))"
    "eight_digits (date_of (20 * day + hour) + 2)" by (simp_all add: now n eight_digits_def)
  ultimately have all: "case MaintainPartitions (\<lambda>_. []) (\<lambda>_. None) (20 * day + hour) (7 * day) s of
      (Inl err, s') \<Rightarrow> False
    | (Inr _, s') \<Rightarrow> table_rows (sData s') = filter_mset (\<lambda>e. 13 \<le> date_of (evTs e)) (table_rows sample_table)
        \<and> table_days (sData s') = {13..22} \<union> {d \<in> table_days sample_table. 22 < d}"
    using MaintainPartitions_keeps [where s = s and retention = "7 * day" and now = "20 * day + hour"
        and shown = "\<lambda>_. []" and fails = "\<lambda>_. None"]
    by (auto simp: now n s_def split: prod.splits sum.splits)
  have "filter_mset (\<lambda>e. 13 \<le> date_of (evTs e)) (table_rows sample_table) = {#zero_event\<lparr>evTs := 19 * day\<rparr>#}"
    "{d \<in> table_days sample_table. 22 < d} = {}"
    by (auto simp: table_rows_def sample_table_def now table_days_def)
  with all show ?thesis by (auto simp: s_def split: prod.splits sum.splits)
qed

subsection \<open>The life of a row\<close>

text \<open>
  What happens to the table over time: rows are stored, and maintenance runs, at a time and with
  the error of the database if there is one. \<open>rows_kept\<close> is what should be left of the rows that
  were stored: those that no later run had its cutoff after.
\<close>

datatype table_action = RowStored new_event | MaintenanceRun gotime "go_error option"

definition spares :: "(gotime \<Rightarrow> int) \<Rightarrow> table_action list \<Rightarrow> new_event \<Rightarrow> bool" where
  "spares cutoff acts e \<longleftrightarrow> (\<forall>now. MaintenanceRun now None \<in> set acts \<longrightarrow> cutoff now \<le> date_of (evTs e))"

fun rows_kept :: "(gotime \<Rightarrow> int) \<Rightarrow> table_action list \<Rightarrow> new_event list" where
  "rows_kept cutoff [] = []"
| "rows_kept cutoff (RowStored e # acts) = (if spares cutoff acts e then [e] else []) @ rows_kept cutoff acts"
| "rows_kept cutoff (MaintenanceRun now err # acts) = rows_kept cutoff acts"

fun table_life ::
  "(new_event \<Rightarrow> 't \<Rightarrow> 't) \<Rightarrow> (gotime \<Rightarrow> go_error option \<Rightarrow> 't \<Rightarrow> 't) \<Rightarrow> table_action list \<Rightarrow> 't \<Rightarrow> 't" where
  "table_life put maintain [] t = t"
| "table_life put maintain (RowStored e # acts) t = table_life put maintain acts (put e t)"
| "table_life put maintain (MaintenanceRun now err # acts) t = table_life put maintain acts (maintain now err t)"

lemma spares_Cons:
  "spares cutoff (RowStored e' # acts) e = spares cutoff acts e"
  "spares cutoff (MaintenanceRun now err # acts) e \<longleftrightarrow>
     (err = None \<longrightarrow> cutoff now \<le> date_of (evTs e)) \<and> spares cutoff acts e"
  by (auto simp: spares_def)

text \<open>What a table promises whose rows are kept by their day.\<close>

locale pruned_table =
  fixes ok :: "'t \<Rightarrow> bool" and rows :: "'t \<Rightarrow> new_event multiset"
    and put :: "new_event \<Rightarrow> 't \<Rightarrow> 't" and maintain :: "gotime \<Rightarrow> go_error option \<Rightarrow> 't \<Rightarrow> 't"
    and dated :: "gotime \<Rightarrow> bool" and cutoff :: "gotime \<Rightarrow> int"
  assumes put_ok: "ok t \<Longrightarrow> ok (put e t)"
    and put_rows: "ok t \<Longrightarrow> rows (put e t) = add_mset e (rows t)"
    and maintain_ok: "ok t \<Longrightarrow> dated now \<Longrightarrow> ok (maintain now err t)"
    and maintain_rows: "ok t \<Longrightarrow> dated now \<Longrightarrow> rows (maintain now err t) =
      (if err = None then filter_mset (\<lambda>e. cutoff now \<le> date_of (evTs e)) (rows t) else rows t)"
begin

lemma life:
  assumes "ok t" and "\<And>now err. MaintenanceRun now err \<in> set acts \<Longrightarrow> dated now"
  shows "ok (table_life put maintain acts t)
    \<and> rows (table_life put maintain acts t) = filter_mset (spares cutoff acts) (rows t) + mset (rows_kept cutoff acts)"
  using assms
proof (induction acts arbitrary: t)
  case Nil
  then show ?case by (simp add: spares_def)
next
  case (Cons a acts)
  show ?case
  proof (cases a)
    case (RowStored e)
    have "ok (put e t)" using Cons.prems(1) by (rule put_ok)
    moreover have "spares cutoff (RowStored e # acts) = spares cutoff acts"
      by (intro ext) (simp add: spares_Cons)
    ultimately show ?thesis
      using Cons.IH [of "put e t"] Cons.prems RowStored by (simp add: put_rows)
  next
    case (MaintenanceRun now err)
    have dated: "dated now" using Cons.prems(2) [of now err] MaintenanceRun by simp
    have "spares cutoff (a # acts) = (\<lambda>e. spares cutoff acts e \<and> (err = None \<longrightarrow> cutoff now \<le> date_of (evTs e)))"
      by (intro ext) (auto simp: spares_Cons MaintenanceRun)
    then have "filter_mset (spares cutoff (a # acts)) (rows t)
        = filter_mset (spares cutoff acts) (rows (maintain now err t))"
      using maintain_rows [OF Cons.prems(1) dated, of err]
      by (cases err) (simp_all add: filter_filter_mset conj_commute)
    moreover have "MaintenanceRun now' err' \<in> set acts \<Longrightarrow> dated now'" for now' err'
      using Cons.prems(2) [of now' err'] by simp
    ultimately show ?thesis
      using Cons.IH [OF maintain_ok [OF Cons.prems(1) dated, of err]] by (simp add: MaintenanceRun)
  qed
qed

end

definition maintained ::
  "(duration \<Rightarrow> bytes) \<Rightarrow> duration \<Rightarrow> gotime \<Rightarrow> go_error option \<Rightarrow> event_table \<Rightarrow> event_table" where
  "maintained shown retention now err tb =
     sData (snd (MaintainPartitions shown (\<lambda>_. err) now retention
       \<lparr>sData = tb, sScope = NoScope, sBase = NoScope, sDepth = 0, sStep = 0\<rparr>))"

text \<open>Times at which the dates it computes with have four-digit years.\<close>

definition dated_run :: "duration \<Rightarrow> gotime \<Rightarrow> bool" where
  "dated_run retention now \<longleftrightarrow> 0 < retention \<and> retention + day \<le> max_duration
     \<and> eight_digits (date_of now - kept_days retention) \<and> eight_digits (date_of now + 2)"

interpretation partitioned:
  pruned_table table_ok table_rows put_row "maintained shown retention" "dated_run retention"
    "\<lambda>now. date_of now - kept_days retention" for shown retention
proof
  fix tb now err
  assume ok: "table_ok tb" and "dated_run retention now"
  then have "case MaintainPartitions shown (\<lambda>_. err) now retention
        \<lparr>sData = tb, sScope = NoScope, sBase = NoScope, sDepth = 0, sStep = 0\<rparr> of
       (Inl e, s') \<Rightarrow> sData s' = tb \<and> err \<noteq> None
     | (Inr _, s') \<Rightarrow> err = None \<and> table_ok (sData s') \<and> table_rows (sData s') =
         filter_mset (\<lambda>e. date_of now - kept_days retention \<le> date_of (evTs e)) (table_rows tb)"
    using maintained_session [of "\<lparr>sData = tb, sScope = NoScope, sBase = NoScope, sDepth = 0, sStep = 0\<rparr>", where shown = shown
      and fails = "\<lambda>_. err" and retention = retention and now = now]
    by (auto simp: dated_run_def split: prod.splits sum.splits)
  then show "table_ok (maintained shown retention now err tb)"
    and "table_rows (maintained shown retention now err tb) =
      (if err = None then filter_mset (\<lambda>e. date_of now - kept_days retention \<le> date_of (evTs e)) (table_rows tb)
       else table_rows tb)"
    using ok by (auto simp: maintained_def split: prod.splits sum.splits)
qed (simp_all add: put_row_facts)

end
