(* ===== verification/Partition_Facts.thy ===== *)
theory Partition_Facts
  imports Partitions Normalize_Facts
begin

text \<open>
  The normalizer and the partitions together: where the rows of the events it accepts go, and how
  long they stay there.
\<close>

lemma kept_days_default: "kept_days DefaultRetention = 7"
  by (simp add: kept_days_def DefaultRetention_def duration_defs)

lemma date_of_mono: "s \<le> t \<Longrightarrow> date_of s \<le> date_of t"
  unfolding date_of_def by (rule zdiv_mono1 [OF _ day_pos])

lemma date_of_add: "date_of (t + n * day) = date_of t + n"
  using day_pos by (simp add: date_of_def)

lemma maintained_days:
  assumes "table_ok tb" and "dated_run retention now"
  shows "{date_of now - kept_days retention..date_of now + 2} \<subseteq> table_days (maintained shown retention now None tb)"
  using maintained_session [of "\<lparr>sData = tb, sScope = NoScope, sBase = NoScope, sDepth = 0, sStep = 0\<rparr>", where shown = shown
      and fails = "\<lambda>_. None" and retention = retention and now = now] assms
  by (auto simp: dated_run_def maintained_def split: prod.splits sum.splits)

lemma put_row_partition:
  "date_of (evTs e) \<in> table_days tb \<Longrightarrow> tbDefault (put_row e tb) = tbDefault tb"
  using add_row_None [of e "tbParts tb"]
  by (auto simp: put_row_def table_days_def split: option.splits)

text \<open>
  C17. What the normalizer accepts is kept: if the partitions were maintained within the day before
  an event is received, its row goes to the partition of its day and never to the default one; and
  however many rows are stored and however often maintenance runs after that, whether or not the
  database fails it, the row is there until the event is older than the retention.
\<close>

theorem accepted_events_kept:
  assumes "lowers_to_text (nLower n)" and "set (nOrder n cloud_fields) \<subseteq> set cloud_fields"
    and "Normalize n received text d = Ret (Inr ev)" and "nRetention n \<le> 0"
    and "table_ok tb0" and "dated_run DefaultRetention m" and "m \<le> received" and "received < m + day"
    and "tb = foldl (\<lambda>tb e. put_row e tb) (maintained shown DefaultRetention m None tb0) es"
    and "\<And>now err. MaintenanceRun now err \<in> set acts \<Longrightarrow>
      dated_run DefaultRetention now \<and> now \<le> evTs ev + DefaultRetention"
  shows "tbDefault (put_row ev tb) = tbDefault tb
    \<and> ev \<in># table_rows (table_life put_row (maintained shown DefaultRetention) acts (put_row ev tb))"
proof
  have "storable received (effective_retention n) ev" by (rule Normalize_stored [OF assms(1-3)])
  then have ts: "received - 7 * day \<le> evTs ev" "evTs ev \<le> received + hour"
    using assms(4) by (simp_all add: storable_def effective_retention_def DefaultRetention_def futureSkew_def)
  have "m + (- 7) * day \<le> evTs ev" using ts(1) assms(7) by simp
  from date_of_mono [OF this, unfolded date_of_add] have "date_of m - 7 \<le> date_of (evTs ev)" by simp
  moreover have "evTs ev \<le> m + 2 * day" using ts(2) assms(8) by (simp add: duration_defs)
  from date_of_mono [OF this] have "date_of (evTs ev) \<le> date_of m + 2" by (simp only: date_of_add)
  ultimately have "date_of (evTs ev) \<in> table_days tb"
    using maintained_days [OF assms(5,6), of shown] by (auto simp: assms(9) put_rows_facts kept_days_default)
  then show "tbDefault (put_row ev tb) = tbDefault tb" by (rule put_row_partition)
  have ok: "table_ok (put_row ev tb)"
    using partitioned.maintain_ok [OF assms(5,6)] by (simp add: assms(9) put_row_facts put_rows_facts)
  have "spares (\<lambda>now. date_of now - kept_days DefaultRetention) acts ev"
  proof (unfold spares_def, intro allI impI)
    fix now
    assume "MaintenanceRun now None \<in> set acts"
    then have "now \<le> evTs ev + 7 * day" using assms(10) by (simp add: DefaultRetention_def)
    from date_of_mono [OF this] show "date_of now - kept_days DefaultRetention \<le> date_of (evTs ev)"
      by (simp add: date_of_add kept_days_default)
  qed
  then show "ev \<in># table_rows (table_life put_row (maintained shown DefaultRetention) acts (put_row ev tb))"
    using partitioned.life [OF ok, of acts DefaultRetention shown] assms(10) by (simp add: put_row_facts)
qed

text \<open>The sample record of the normalizer, received an hour after maintenance ran on an empty table.\<close>

theorem accepted_events_kept_witness:
  "\<exists>ev. Normalize sample_normalizer (1758153600 * second) sample_record no_defaults = Ret (Inr ev)
     \<and> ev \<in># table_rows (table_life put_row (maintained (\<lambda>_. []) DefaultRetention)
          [RowStored zero_event, MaintenanceRun (1758153600 * second) None]
          (put_row ev (maintained (\<lambda>_. []) DefaultRetention (1758153600 * second - hour) None empty_table)))"
proof -
  from sample_normalizer_run obtain ev
    where ev: "Normalize sample_normalizer (1758153600 * second) sample_record no_defaults = Ret (Inr ev)"
    by (auto split: outcome.splits sum.splits)
  let ?m = "1758153600 * second - hour" and ?acts = "[RowStored zero_event, MaintenanceRun (1758153600 * second) None]"
  have dated: "dated_run DefaultRetention ?m" "dated_run DefaultRetention (1758153600 * second)"
    by (simp_all add: dated_run_def kept_days_default)
      (simp_all add: DefaultRetention_def eight_digits_def date_of_def max_duration_def duration_defs)
  have "storable (1758153600 * second) (effective_retention sample_normalizer) ev"
    by (rule Normalize_stored [OF sample_normalizer_ok ev])
  then have ts: "1758153600 * second \<le> evTs ev + DefaultRetention"
    by (simp add: storable_def effective_retention_def sample_normalizer_def)
  have "ev \<in># table_rows (table_life put_row (maintained (\<lambda>_. []) DefaultRetention) ?acts
      (put_row ev (maintained (\<lambda>_. []) DefaultRetention ?m None empty_table)))"
  proof (rule accepted_events_kept [OF sample_normalizer_ok ev, THEN conjunct2])
    show "table_ok empty_table" by (simp add: table_ok_def empty_table_def)
    show "maintained (\<lambda>_. []) DefaultRetention ?m None empty_table
      = foldl (\<lambda>tb e. put_row e tb) (maintained (\<lambda>_. []) DefaultRetention ?m None empty_table) []" by simp
  qed (use dated ts in \<open>auto simp: sample_normalizer_def duration_defs\<close>)
  with ev show ?thesis by blast
qed

end
