(* ===== verification/Evaluator.thy ===== *)
theory Evaluator
  imports Alerting Jobs
begin

text \<open>
  What \<open>internal/alerting\<close> puts together: \<open>New\<close> and \<open>NewWebhook\<close> with their defaults, the host of a
  webhook for the log, and \<open>Job\<close>, the evaluator as a job of \<open>internal/jobs\<close>.
\<close>

subsection \<open>The webhook\<close>

text \<open>
  A client of the Go library does what its \<open>CheckRedirect\<close> says with an answer that redirects: it
  hands the answer over, or sends the request on. \<open>hcRoundTrip\<close> is one request and its answer.
\<close>

record 'w http_client =
  hcFollows :: bool
  hcRoundTrip :: "bytes \<Rightarrow> api_alert \<Rightarrow> 'w \<Rightarrow> http_answer \<times> 'w"

definition NewWebhook ::
  "(bytes \<Rightarrow> api_alert \<Rightarrow> 'w \<Rightarrow> http_answer \<times> 'w) \<Rightarrow> 'w http_client option \<Rightarrow> 'w http_client" where
  "NewWebhook transport client =
     (case client of None \<Rightarrow> \<lparr>hcFollows = False, hcRoundTrip = transport\<rparr> | Some c \<Rightarrow> c)"

text \<open>\<open>Do\<close> for a client that does not follow redirects; \<open>follow\<close> is what one does that does.\<close>

definition client_Do ::
  "('w http_client \<Rightarrow> bytes \<Rightarrow> api_alert \<Rightarrow> 'w \<Rightarrow> http_answer \<times> 'w) \<Rightarrow> 'w http_client
   \<Rightarrow> bytes \<Rightarrow> api_alert \<Rightarrow> 'w \<Rightarrow> http_answer \<times> 'w" where
  "client_Do follow client target a w =
     (if hcFollows client then follow client target a w else hcRoundTrip client target a w)"

text \<open>\<open>url.Parse\<close> is an argument: the host of the URL, if it is one.\<close>

definition webhookHost :: "(bytes \<Rightarrow> bytes option) \<Rightarrow> bytes \<Rightarrow> bytes" where
  "webhookHost parse target = (case parse target of None \<Rightarrow> [] | Some host \<Rightarrow> host)"

subsection \<open>The evaluator\<close>

record 'w config =
  cfListIDs :: "'w \<Rightarrow> (go_error + bytes list) \<times> 'w"
  cfListRules :: "scope \<Rightarrow> bytes \<Rightarrow> 'w \<Rightarrow> (go_error + alert_rule list) \<times> 'w"
  cfEvaluate :: "alert_rule \<Rightarrow> gotime \<Rightarrow> 'w \<Rightarrow> (go_error + alert list) \<times> 'w"
  cfNotifier :: "(bytes \<Rightarrow> api_alert \<Rightarrow> 'w \<Rightarrow> go_error option \<times> 'w) option"
  cfNow :: "('w \<Rightarrow> gotime) option"

text \<open>What is outside: the context, the clock, and the parts of the HTTP library.\<close>

record 'w surroundings =
  suCtxErr :: "'w \<Rightarrow> go_error option"
  suClock :: "'w \<Rightarrow> gotime"
  suParseURL :: "bytes \<Rightarrow> bytes option"
  suValid :: "bytes \<Rightarrow> bool"
  suTransport :: "bytes \<Rightarrow> api_alert \<Rightarrow> 'w \<Rightarrow> http_answer \<times> 'w"
  suFollow :: "'w http_client \<Rightarrow> bytes \<Rightarrow> api_alert \<Rightarrow> 'w \<Rightarrow> http_answer \<times> 'w"

definition default_Send :: "'w surroundings \<Rightarrow> bytes \<Rightarrow> api_alert \<Rightarrow> 'w \<Rightarrow> go_error option \<times> 'w" where
  "default_Send su =
     Webhook_Send (suValid su) (client_Do (suFollow su) (NewWebhook (suTransport su) None))"

definition Evaluator_New ::
  "'w surroundings \<Rightarrow> 'w config \<Rightarrow> 'w services \<times> ('w \<Rightarrow> gotime) \<times> alert_metrics" where
  "Evaluator_New su cfg =
     (\<lparr>svListIDs = cfListIDs cfg, svListRules = cfListRules cfg, svEvaluate = cfEvaluate cfg,
       svSend = (case cfNotifier cfg of None \<Rightarrow> default_Send su | Some send \<Rightarrow> send),
       svCtxErr = suCtxErr su, svURLHost = webhookHost (suParseURL su)\<rparr>,
      (case cfNow cfg of None \<Rightarrow> suClock su | Some now \<Rightarrow> now),
      Alerting.newMetrics)"

definition Evaluator_Job :: "'w services \<Rightarrow> ('w \<Rightarrow> gotime) \<Rightarrow> 'w evaluator job" where
  "Evaluator_Job sv clock =
     \<lparr>jName = ''evaluate_alerts'', jEvery = Interval,
      jRun = (\<lambda>e. case Run sv (clock (eWorld e)) e of (err, e') \<Rightarrow> (Returned err, e'))\<rparr>"

subsection \<open>What a webhook's URL can show in\<close>

text \<open>
  The log says of a URL, which may hold a secret, only its host: with another URL of the same host
  that the receiver treats alike, a delivery logs the same, counts the same and leaves the same
  behind. An error of the library that names the URL is replaced with its cause.
\<close>

fun same_answer :: "http_answer \<times> 'w \<Rightarrow> http_answer \<times> 'w \<Rightarrow> bool" where
  "same_answer (FailedURL _ err, w) (a, w') \<longleftrightarrow> (\<exists>url. a = FailedURL url err) \<and> w' = w"
| "same_answer (Answered code status, w) (a, w') \<longleftrightarrow> a = Answered code status \<and> w' = w"
| "same_answer (Failed err, w) (a, w') \<longleftrightarrow> a = Failed err \<and> w' = w"

lemma Webhook_Send_same:
  "valid target = valid target' \<Longrightarrow> same_answer (post target a w) (post target' a w) \<Longrightarrow>
     Webhook_Send valid post target a w = Webhook_Send valid post target' a w"
  by (cases "post target a w"; cases "fst (post target a w)"; cases "post target' a w")
    (auto simp: Webhook_Send_def)

lemma webhook_host_only:
  assumes "svSend sv = Webhook_Send valid post" and "svURLHost sv = webhookHost parse"
    and "parse target = parse target'" and "valid target = valid target'"
    and "same_answer (post target (Body a) (eWorld e)) (post target' (Body a) (eWorld e))"
  shows "deliver sv target a e = deliver sv target' a e"
  using Webhook_Send_same [of valid target target' post "Body a" "eWorld e", OF assms(4,5)] by (simp add: deliver_def assms(1-3) webhookHost_def Let_def)

subsection \<open>The evaluator as a job\<close>

text \<open>
  A run of the job leaves the evaluator as \<open>Run\<close> does, and is counted as failed only if the
  tenants could not be listed, or not at all when it was stopped: what fails for a tenant or a rule
  is in the evaluator's own counts.
\<close>

lemma run_rules_error: "run_rules sv stop rules e = (Some err, e') \<Longrightarrow> svCtxErr sv (eWorld e') = Some err"
  by (induction sv stop rules e rule: run_rules.induct) (auto simp: Let_def split: option.splits)

lemma run_tenants_error:
  "run_tenants sv stop tenants e = (Some err, e') \<Longrightarrow> svCtxErr sv (eWorld e') = Some err"
proof (induction sv stop tenants e rule: run_tenants.induct)
  case (2 sv stop tenant tenants e)
  show ?case
  proof (cases "svListRules sv \<lparr>scope_TenantID = tenant, scope_Admin = False\<rparr> tenant (eWorld e)")
    case (Pair r w)
    show ?thesis
    proof (cases r)
      case (Inl e1)
      with Pair 2 show ?thesis by (cases "svCtxErr sv w") (auto simp: Let_def)
    next
      case (Inr rules)
      with Pair 2 show ?thesis
        by (cases "run_rules sv stop rules (e\<lparr>eWorld := w\<rparr>)"; cases "fst (run_rules sv stop rules (e\<lparr>eWorld := w\<rparr>))")
          (auto simp: run_rules_error)
    qed
  qed
qed simp

lemma Evaluator_Job_accounts:
  assumes "Run sv (clock (eWorld (rnWorld s))) (rnWorld s) = (err, e')"
    and "\<And>w. ctxDone w \<longleftrightarrow> svCtxErr sv (eWorld w) \<noteq> None"
  shows "rnWorld (runOnce jclock ctxDone ms (Evaluator_Job sv clock) s) = e'"
    and "jmRuns (rnMetrics (runOnce jclock ctxDone ms (Evaluator_Job sv clock) s)) (''evaluate_alerts'', ''failed'')
      \<noteq> jmRuns (rnMetrics s) (''evaluate_alerts'', ''failed'') \<Longrightarrow>
      \<exists>cause. err = Some (Internalf cause ''cannot list tenants'') \<and> svCtxErr sv (eWorld e') = None"
proof -
  have run: "jRun (Evaluator_Job sv clock) (rnWorld s) = (Returned err, e')"
    using assms(1) by (simp add: Evaluator_Job_def)
  note accounts = runOnce_accounts [where job = "Evaluator_Job sv clock" and s = s and clock = jclock
      and ctxDone = ctxDone and ms = ms, unfolded run prod.case]
  then show "rnWorld (runOnce jclock ctxDone ms (Evaluator_Job sv clock) s) = e'" by simp
  assume changed: "jmRuns (rnMetrics (runOnce jclock ctxDone ms (Evaluator_Job sv clock) s)) (''evaluate_alerts'', ''failed'')
      \<noteq> jmRuns (rnMetrics s) (''evaluate_alerts'', ''failed'')"
  have "outcome_of (ctxDone e') (Returned err) = Some ''failed''"
    using changed accounts by (auto simp: outcome_of_def split: option.splits if_splits)
  then obtain cause0 where err: "err = Some cause0" and live: "svCtxErr sv (eWorld e') = None"
    using assms(2) by (auto simp: outcome_of_def split: option.splits if_splits)
  show "\<exists>cause. err = Some (Internalf cause ''cannot list tenants'') \<and> svCtxErr sv (eWorld e') = None"
    using assms(1) err live
    by (auto simp: Run_def split: prod.splits sum.splits dest: run_tenants_error)
qed

end
