(* ===== verification/Row_Security.thy ===== *)
theory Row_Security
  imports Store
begin

text \<open>
  Row-level security as Postgres does it: the settings that \<open>SetTenantContext\<close>
  (\<open>internal/store/gen/tenancy.sql.go\<close>) makes, and the policy \<open>tenant_isolation\<close> of the tables
  (\<open>internal/store/migrations\<close>) that reads them. The other theories have the settings as a
  \<open>scope\<close> and the policy as \<open>visible\<close>; the lemmas show that the two agree.
\<close>

subsection \<open>Settings\<close>

text \<open>
  The settings of a session: what each is in the session, and what a transaction made it for
  itself. \<open>None\<close> is one that was never made; after a transaction that made it for itself alone
  it is the empty string in the session.
\<close>

record settings =
  stSession :: "bytes \<Rightarrow> bytes option"
  stLocal :: "bytes \<Rightarrow> bytes option"

definition current_setting :: "settings \<Rightarrow> bytes \<Rightarrow> bytes option" where
  "current_setting st name = (case stLocal st name of Some v \<Rightarrow> Some v | None \<Rightarrow> stSession st name)"

definition set_config :: "bytes \<Rightarrow> bytes \<Rightarrow> bool \<Rightarrow> settings \<Rightarrow> settings" where
  "set_config name v is_local st =
     (if is_local then st\<lparr>stLocal := (stLocal st)(name := Some v)\<rparr>
      else st\<lparr>stSession := (stSession st)(name := Some v), stLocal := (stLocal st)(name := None)\<rparr>)"

definition end_transaction :: "settings \<Rightarrow> settings" where
  "end_transaction st =
     \<lparr>stSession = (\<lambda>name. if stSession st name = None \<and> stLocal st name \<noteq> None then Some [] else stSession st name),
      stLocal = (\<lambda>_. None)\<rparr>"

definition SetTenantContext :: "bytes \<Rightarrow> bool \<Rightarrow> settings \<Rightarrow> settings" where
  "SetTenantContext tenant admin st =
     set_config ''app.is_admin'' (if admin then ''on'' else ''off'') True
       (set_config ''app.tenant_id'' tenant True st)"

subsection \<open>The policy\<close>

text \<open>The three-valued logic of SQL: \<open>None\<close> is NULL, and a row is let through if the policy is true.\<close>

fun sql_eq :: "bytes option \<Rightarrow> bytes option \<Rightarrow> bool option" where
  "sql_eq (Some a) (Some b) = Some (a = b)"
| "sql_eq _ _ = None"

fun sql_or :: "bool option \<Rightarrow> bool option \<Rightarrow> bool option" where
  "sql_or (Some True) _ = Some True"
| "sql_or _ (Some True) = Some True"
| "sql_or (Some False) (Some False) = Some False"
| "sql_or _ _ = None"

definition row_policy :: "settings \<Rightarrow> bytes \<Rightarrow> bool" where
  "row_policy st tenant_id \<longleftrightarrow>
     sql_or (sql_eq (Some tenant_id) (current_setting st ''app.tenant_id''))
       (sql_eq (current_setting st ''app.is_admin'') (Some ''on'')) = Some True"

lemma sql_or_True: "sql_or a b = Some True \<longleftrightarrow> a = Some True \<or> b = Some True"
  by (cases "(a, b)" rule: sql_or.cases) auto

lemma sql_eq_True: "sql_eq a b = Some True \<longleftrightarrow> a = b \<and> a \<noteq> None"
  by (cases "(a, b)" rule: sql_eq.cases) auto

text \<open>Inside a transaction that set its context, the policy is what \<open>visible\<close> says of the scope.\<close>

lemma row_policy_visible:
  "row_policy (SetTenantContext (scope_TenantID sc) (scope_Admin sc) st) tenant = visible sc tenant"
  by (auto simp: row_policy_def sql_or_True sql_eq_True SetTenantContext_def set_config_def
      current_setting_def visible_def)

text \<open>
  Outside of one nothing is: neither on a connection that never had a context, nor on one that
  is used again after a transaction, whatever its context was.
\<close>

definition no_context :: "settings \<Rightarrow> bool" where
  "no_context st \<longleftrightarrow> (\<forall>name \<in> {''app.tenant_id'', ''app.is_admin''}. current_setting st name \<in> {None, Some []})"

lemma row_policy_no_context:
  assumes "no_context st" and "ValidTenantID tenant"
  shows "\<not> row_policy st tenant"
proof -
  have "tenant \<noteq> []" using assms(2) by (auto simp: ValidTenantID_def)
  then show ?thesis using assms(1)
    by (auto simp: row_policy_def sql_or_True sql_eq_True no_context_def)
qed

lemma no_context_fresh: "no_context \<lparr>stSession = (\<lambda>_. None), stLocal = (\<lambda>_. None)\<rparr>"
  by (simp add: no_context_def current_setting_def)

lemma no_context_after:
  assumes "no_context st" and "stLocal st = (\<lambda>_. None)"
  shows "no_context (end_transaction (SetTenantContext tenant admin st))"
  using assms by (auto simp: no_context_def current_setting_def SetTenantContext_def set_config_def end_transaction_def)

lemma row_policy_NoScope:
  assumes "ValidTenantID tenant"
  shows "\<not> visible NoScope tenant"
  using assms by (auto simp: visible_def NoScope_def ValidTenantID_def)

end
