(* ===== verification/Spec2Isabelle.thy ===== *)
theory Spec2Isabelle
  imports Kv Syslog Authz Search_Paging Counts Events Limiter Alerting Jobs Respond Normalize_Facts Ingest_Facts Read_Facts Api_Login Rule_Facts Program_Facts Isolation Event_Batch Retry_Facts Serve_Run
    Partition_Facts Evaluator Row_Security
begin

text \<open>
  \<^bold>\<open>loghub, the backend (src/backend, Go).\<close>

  The backend takes in log records over HTTP, normalizes each into an event, stores the events of
  many tenants in one Postgres database, and lets people search and count them, set alert rules on
  them, and read what the rules found. It is one process: an API server, a job that keeps the
  partitions of the events' table, and a job that evaluates the alert rules. The theories translate
  the hand-written code of \<open>internal/\<close> and \<open>cmd/loghub\<close>, and what the handlers use of the generated
  code. Theories are named after the part they model; definitions have the names of the source,
  with a prefix or suffix where HOL has the name already.

  \<^bold>\<open>How the code is represented.\<close> A string or a byte slice is a list of bytes (\<open>bytes\<close>), a pointer
  that is only read an \<open>option\<close>, an error a value of \<open>go_error\<close> (\<open>Errors\<close>), a function that may fail
  a function to a sum, one that may panic a function to \<open>outcome\<close> (\<open>Prelude\<close>). Times and durations are
  integers of nanoseconds, and a time that is printed in the zone it came in a \<open>zoned\<close>, with its
  offset from UTC; \<open>time.Sub\<close> saturates, and the sums that the source computes at a machine
  width have their wrap-around, their saturation or their bounds written out (\<open>Go_Time\<close>, \<open>Limiter\<close>,
  \<open>Config\<close>). An enumeration over \<open>uint8\<close> is an 8-bit word (\<open>Authz\<close>). Floating-point arithmetic is
  on rationals rounded after each operation (\<open>Go_Float\<close>, \<open>Go_Number\<close>). The functions of the Go library
  the source uses are written out: \<open>Go_Strings\<close>, \<open>Go_Utf8\<close>, \<open>Go_Time\<close>, \<open>Go_Net\<close>, \<open>Go_Json\<close>,
  \<open>Go_Number\<close>, \<open>Go_Mime\<close>, \<open>Go_Log\<close>.

  \<^bold>\<open>The database.\<close> An operation on Postgres is a function of a session (\<open>Store\<close>): the data as the
  transaction sees them, the row-level security context with the one the connection has outside
  any transaction, how deep the transactions are nested, and the number of interactions so far.
  Any interaction may fail, as \<open>failures\<close> says by its number. \<open>set_config\<close> has its \<open>is_local\<close>: what a
  transaction sets locally goes with its end, what it sets otherwise stays with the connection once
  the transaction is committed.
  What a statement does to the tables is written out with the repository that sends it, with the
  constraints and the policies of \<open>internal/store/migrations\<close>.

  \<^bold>\<open>The parts.\<close>

  \<^item> \<^bold>\<open>Ingest.\<close> \<open>Kv\<close> (\<open>internal/ingest/kv.go\<close>) and \<open>Syslog\<close> (\<open>syslog.go\<close>) read the two line formats;
    \<open>Normalize\<close> (\<open>normalize.go\<close>, \<open>sources.go\<close>) makes an event of a JSON record or a syslog line;
    \<open>Ndjson\<close> and \<open>Api_Ingest\<close> (\<open>internal/api/ingest.go\<close>) are the reading of lines, the batch and the
    three endpoints. The lemmas show that printing and parsing agree, where \<open>parseSyslog\<close> panics,
    that every event the normalizer returns satisfies the columns it is for (\<open>Normalize_Facts\<close>), and
    that a request's report accounts for each of its records (\<open>Ingest_Facts\<close>).
  \<^item> \<^bold>\<open>Permissions.\<close> \<open>Authz\<close> (\<open>internal/authz/authz.go\<close>, \<open>internal/api/policies.go\<close>) has the enforcer
    and the program's policies, and shows the complete matrix of who may do what, and where.
    \<open>Auth\<close> (\<open>internal/auth\<close>) has tokens, callers and passwords.
  \<^item> \<^bold>\<open>Store.\<close> \<open>Store\<close> (\<open>internal/platform/pg/pg.go\<close>, \<open>internal/store/postgres.go\<close>) has transactions
    and their scope; \<open>Search\<close>, \<open>Sql_Like\<close>, \<open>Search_Query\<close> and \<open>Search_Paging\<close> (\<open>search.go\<close>) the search:
    the statement, what it selects, and its pages, with the one kind of window at which a page
    that has a successor does not tell its cursor; \<open>Counts\<close> (\<open>counts.go\<close>) the top values and the
    timeline; \<open>Event_Data\<close>, \<open>Events\<close> (\<open>events.go\<close>) and \<open>Event_Batch\<close> (\<open>gen/batch.go\<close>) the insertion with
    its savepoints and batches; \<open>Alerts\<close>
    (\<open>alerts.go\<close>, \<open>gen/alerts.sql.go\<close>) rules and firings; \<open>Partitions\<close> (\<open>events.go\<close> and the function of
    \<open>migrations/0001_init.sql\<close>) the partitions of the events' table and what maintaining them keeps, and
    \<open>Partition_Facts\<close> how long an event that was accepted stays; \<open>Row_Security\<close>
    (\<open>gen/tenancy.sql.go\<close>) the settings and the policy behind a scope; \<open>Accounts\<close> (\<open>tenants.go\<close>, \<open>users.go\<close>,
    \<open>seed.go\<close>, \<open>gen/accounts.sql.go\<close>) tenants, users and the seed.
  \<^item> \<^bold>\<open>Background work.\<close> \<open>Alerting\<close> and \<open>Evaluator\<close>
    (\<open>internal/alerting\<close>) are the evaluator and the webhook, \<open>Jobs\<close>
    (\<open>internal/jobs\<close>) a run, its accounting and the loop over its ticker, \<open>Job_Loops\<close> the goroutines of
    all the jobs and the function that stops them, as a relation of their steps; \<open>Limiter\<close> (\<open>internal/limiter\<close>) the
    token buckets, and \<open>Retry_Facts\<close> how long a client that is refused has to wait.
  \<^item> \<^bold>\<open>API.\<close> \<open>Respond\<close> (\<open>internal/api/respond.go\<close>, \<open>metrics.go\<close>) has the envelope of every answer;
    \<open>Api_Params\<close> (\<open>gen/server.gen.go\<close>, \<open>server.go\<close>) the routes and the binding of parameters;
    \<open>Api_Reads\<close> (\<open>search.go\<close>, \<open>counts.go\<close>, \<open>tenants.go\<close>, the lists of \<open>alerts.go\<close>), \<open>Api_Rules\<close>
    (\<open>alerts.go\<close>), \<open>Api_Login\<close> (\<open>auth.go\<close>) the handlers; \<open>Api_Server\<close> (\<open>server.go\<close>) a request from its
    credential to its answer. \<open>Read_Facts\<close>, \<open>Rule_Facts\<close> and \<open>Server_Facts\<close> hold what they guarantee,
    and \<open>Isolation\<close> shows, over the tables of the whole program, that no answer to a read tells a
    tenant anything of another.
  \<^item> \<^bold>\<open>Program.\<close> \<open>Config\<close> (\<open>internal/platform/config/config.go\<close>) reads the environment, \<open>Program\<close>
    (\<open>cmd/loghub\<close>, the rest of \<open>internal/platform/pg\<close>, \<open>internal/platform/log\<close>) has the commands.
    \<open>Serve_Run\<close> is \<open>serve\<close> with its goroutines, the jobs' among them, and the channel its listeners
    send to, from the pool to its return.
    \<open>Seed_Facts\<close> and \<open>Program_Facts\<close> follow a seeded user to a token, and say when the program starts.

  \<^bold>\<open>Interfaces.\<close> A client's lemmas are proved over the laws of what it calls and reach the properties
  through interpretations on the model: \<open>authority\<close> (\<open>Can\<close> and \<open>Scopes\<close> of an enforcer), \<open>keyset\<close>
  (a page of a search after a cursor), \<open>token_bucket\<close> (an attempt against a bucket), \<open>alert_store\<close>
  (what the evaluator asks of the repository), \<open>event_sink\<close> (the insertion a batch ends in),
  \<open>pruned_table\<close> (a table of rows that maintenance prunes) and \<open>readable\<close> (a resource whose reads are narrowed to the caller's tenant).
\<close>

text \<open>
  \<^bold>\<open>Bounds and fuel.\<close> The scanner of JSON takes fuel, two for each byte and two more, and \<open>scan_fuel\<close>
  shows that more changes nothing; the reader of media type parameters takes the length of the text,
  of which each parameter uses a byte at least. The request bodies' limits, the limits of pages, of
  texts and of numbers are those of the source. The limiter's properties hold for rates up to a
  hundred thousand a minute: there its float computations decide as exact ones would, and lose less
  than a nanosecond of a wait. \<open>search_pages\<close> takes the number of pages that a client asks for; a
  search has one page for each \<open>limit\<close> rows that match and at most one more.

  \<^bold>\<open>Arguments.\<close> What is not under src/ is an argument of the definitions that use it: which parameters
  and rows Postgres refuses to store and with which codes, its collation and its \<open>lower\<close>, and when it
  fails; bcrypt, the JWT library, SHA-256 and the encoding of cursors, which may fail; the offset of
  the server's own zone; \<open>url.Parse\<close>; the library that binds one parameter
  of a query; pgx and goose; the case tables of Unicode; the text that \<open>%q\<close> and the JSON library give
  to values and errors; and the order in which Go iterates over a map. A property that relies on how
  one of them behaves states it as a hypothesis and has a witness with a concrete function.

  \<^bold>\<open>Not modelled.\<close>
  \<^item> The HTTP servers of the Go library, and how the requests they answer interleave: \<open>Serve_Run\<close> has
    when a server returns, and \<open>Api_Server\<close> a request on its own.
  \<^item> Contexts, as far as they only carry a deadline or a cancellation to a call that then fails: the
    failure is modelled as one of the call.
  \<^item> A COMMIT that took effect although its answer was lost: a COMMIT that fails is taken to have had
    no effect. Nor are the gaps that a rollback leaves in a sequence.
  \<^item> The moment between reading the clock and taking the mutex in the limiter: attempts are taken in
    the order of the times they read.
  \<^item> The functions sqlc generated (\<open>internal/store/gen\<close>): each sends one statement and scans its rows;
    the statements themselves are modelled with their repositories. The generated types and routes the handlers do not use.
  \<^item> The document of the API and its page, which are constant texts; the text of \<open>Policy.String\<close>.
  \<^item> \<open>storetest\<close> (a helper of the tests), the migrations themselves, the frontend, the samples and the
    deployment.
\<close>

end
